(* ===== verification/Prelude.thy ===== *)
theory Prelude
  imports Main "HOL-Library.Word"
begin

text \<open>
  Shared vocabulary of the development: the machine integer types of the C++ sources, the
  decimal rendering that stream insertion and \<^verbatim>\<open>std::to_string\<close> perform, the
  collections of simplification rules the component theories contribute to, and generic
  facts on words, lists and options.
\<close>

section \<open>Machine integers\<close>

type_synonym u8 = "8 word"
type_synonym u32 = "32 word"
type_synonym u64 = "64 word"
type_synonym u128 = "128 word"

text \<open>A C++ \<^verbatim>\<open>int\<close> is kept at its width; \<^const>\<open>sint\<close> reads its value.\<close>

type_synonym i32 = "32 word"

text \<open>\<^verbatim>\<open>std::numeric_limits<T>::max()\<close> for the unsigned types.\<close>

abbreviation u32_max :: u32 where "u32_max \<equiv> - 1"
abbreviation u64_max :: u64 where "u64_max \<equiv> - 1"

named_theorems cell_defs "definitions of the operations on one metadata cell"
named_theorems sys_simps "what one external call does to the recorded trace"

lemma unat_plus_one [simp]:
  fixes x :: "'a::len word"
  assumes "x \<noteq> - 1"
  shows "unat (x + 1) = Suc (unat x)"
proof -
  have "1 + x \<noteq> 0" using assms by (metis add.commute add_eq_0_iff add.inverse_inverse)
  then show ?thesis by (metis unatSuc add.commute)
qed

lemma sint_nonnegative:
  fixes x :: "'a::len word"
  assumes "unat x < 2 ^ (LENGTH('a) - 1)"
  shows "sint x = int (unat x)"
proof -
  have "uint x = int (unat x)" by simp
  moreover have "int (unat x) < 2 ^ (LENGTH('a) - 1)"
    using of_nat_less_iff [of "unat x" "2 ^ (LENGTH('a) - 1)", where 'a = int] assms by simp
  moreover have "0 \<le> uint x" by simp
  ultimately have "signed_take_bit (LENGTH('a) - 1) (uint x) = uint x"
    by (intro signed_take_bit_int_eq_self) linarith+
  then show ?thesis by (simp only: sint_uint) simp
qed

lemma unat_minus_one_nonzero [simp]:
  fixes x :: "'a::len word"
  shows "x \<noteq> 0 \<Longrightarrow> unat (x - 1) = unat x - 1"
  by (rule unat_minus_one)

lemma u64_max_unat: "unat u64_max = 2 ^ 64 - 1"
  by (simp add: unat_eq_nat_uint uint_word_ariths)

lemma u32_max_unat: "unat u32_max = 2 ^ 32 - 1"
  by (simp add: unat_eq_nat_uint uint_word_ariths)

lemma unat_bound64: "unat (x :: u64) < 2 ^ 64"
  using unsigned_less [of x, where 'a = nat] by simp

lemma unat_bound32: "unat (x :: u32) < 2 ^ 32"
  using unsigned_less [of x, where 'a = nat] by simp

lemma u64_max_iff: "(x :: u64) \<noteq> u64_max \<longleftrightarrow> unat x < 2 ^ 64 - 1"
proof -
  have "x = u64_max \<longleftrightarrow> unat x = 2 ^ 64 - 1"
    using u64_max_unat by (metis word_unat_eq_iff)
  then show ?thesis using unat_bound64 [of x] by linarith
qed

lemma u32_max_iff: "(x :: u32) \<noteq> u32_max \<longleftrightarrow> unat x < 2 ^ 32 - 1"
proof -
  have "x = u32_max \<longleftrightarrow> unat x = 2 ^ 32 - 1"
    using u32_max_unat by (metis word_unat_eq_iff)
  then show ?thesis using unat_bound32 [of x] by linarith
qed

section \<open>Decimal rendering\<close>

definition digit :: "nat \<Rightarrow> char" where
  "digit d = char_of (48 + d)"

definition digit_val :: "char \<Rightarrow> nat" where
  "digit_val c = of_char c - 48"

definition is_digit :: "char \<Rightarrow> bool" where
  "is_digit c \<longleftrightarrow> 48 \<le> (of_char c :: nat) \<and> (of_char c :: nat) \<le> 57"

text \<open>\<^verbatim>\<open>std::to_string\<close> and \<^verbatim>\<open>operator<<\<close> on an unsigned integer.\<close>

fun dec :: "nat \<Rightarrow> string" where
  "dec n = (if n < 10 then [digit n] else dec (n div 10) @ [digit (n mod 10)])"

declare dec.simps [simp del]

definition undec :: "string \<Rightarrow> nat" where
  "undec s = foldl (\<lambda>a c. 10 * a + digit_val c) 0 s"

lemma digit_val_digit [simp]: "d < 10 \<Longrightarrow> digit_val (digit d) = d"
  by (simp add: digit_val_def digit_def)

lemma is_digit_digit [simp]: "d < 10 \<Longrightarrow> is_digit (digit d)"
  by (simp add: is_digit_def digit_def)

lemma undec_snoc [simp]: "undec (s @ [c]) = 10 * undec s + digit_val c"
  by (simp add: undec_def)

lemma undec_dec [simp]: "undec (dec n) = n"
proof (induction n rule: dec.induct)
  case (1 n)
  show ?case
  proof (cases "n < 10")
    case True
    then show ?thesis by (simp add: dec.simps [of n] undec_def)
  next
    case False
    with "1.IH" show ?thesis by (subst dec.simps) simp
  qed
qed

lemma dec_digits: "\<forall>c \<in> set (dec n). is_digit c"
proof (induction n rule: dec.induct)
  case (1 n)
  show ?case
  proof (cases "n < 10")
    case True
    then show ?thesis by (simp add: dec.simps [of n])
  next
    case False
    with "1.IH" show ?thesis by (subst dec.simps) auto
  qed
qed

lemma dec_nonempty [simp]: "dec n \<noteq> []"
  by (subst dec.simps) simp

lemma dec_inject [simp]: "dec m = dec n \<longleftrightarrow> m = n"
  by (metis undec_dec)

lemma underscore_no_digit [simp]: "\<not> is_digit (CHR ''_'')"
  by (simp add: is_digit_def)

lemma span_digits:
  assumes "\<forall>c \<in> set a. is_digit c" and "b = [] \<or> \<not> is_digit (hd b)"
  shows "takeWhile is_digit (a @ b) = a" and "dropWhile is_digit (a @ b) = b"
  using assms by (cases b; simp add: takeWhile_append dropWhile_append3)+

text \<open>Two digit runs separated by a non-digit determine each other.\<close>

lemma digit_runs_inject:
  assumes "\<forall>c \<in> set a. is_digit c" "\<forall>c \<in> set a'. is_digit c" "\<not> is_digit x"
    and "a @ x # b = a' @ x # b'"
  shows "a = a' \<and> b = b'"
proof -
  have "takeWhile is_digit (a @ x # b) = a" "takeWhile is_digit (a' @ x # b') = a'"
    using assms(1-3) by (auto simp: span_digits)
  with assms(4) have "a = a'" by metis
  with assms(4) show ?thesis by simp
qed

section \<open>Errors as values\<close>

text \<open>A computation that may throw: the exception, or its result, which the rest goes on with.\<close>

definition and_then :: "'e + 'a \<Rightarrow> ('a \<Rightarrow> 'e + 'b) \<Rightarrow> 'e + 'b" where
  "and_then m f = (case m of Inl e \<Rightarrow> Inl e | Inr x \<Rightarrow> f x)"

lemma and_then_simps [simp]: "and_then (Inl e) f = Inl e" "and_then (Inr x) f = f x"
  by (simp_all add: and_then_def)

lemma and_then_Inr: "and_then m f = Inr y \<longleftrightarrow> (\<exists>x. m = Inr x \<and> f x = Inr y)"
  by (cases m) simp_all

lemma and_then_cong [fundef_cong]: "m = m' \<Longrightarrow> (\<And>x. m' = Inr x \<Longrightarrow> f x = g x) \<Longrightarrow> and_then m f = and_then m' g"
  by (cases m') simp_all

section \<open>Lists and options\<close>

lemma filter_update_length:
  assumes "i < length xs"
  shows "length (filter P (xs[i := y])) + (if P (xs ! i) then 1 else 0)
       = length (filter P xs) + (if P y then 1 else 0)"
  using assms
proof (induction xs arbitrary: i)
  case Nil
  then show ?case by simp
next
  case (Cons x xs)
  then show ?case by (cases i) auto
qed

lemma filter_length_pos: "i < length xs \<Longrightarrow> P (xs ! i) \<Longrightarrow> 0 < length (filter P xs)"
  by (auto simp: filter_empty_conv)

section \<open>Sums in 128 bits\<close>

text \<open>
  The layout checks widen 32 and 64 bit values to \<^verbatim>\<open>unsigned __int128\<close>; products of a 32 bit
  and a 64 bit value, and sums of a few of them, are then exact.
\<close>

lemma unat_ucast128_32 [simp]: "unat (ucast (a :: u32) :: u128) = unat a"
  using unat_bound32 [of a] by (simp add: unsigned_ucast_eq take_bit_nat_eq_self)

lemma unat_ucast128_64 [simp]: "unat (ucast (a :: u64) :: u128) = unat a"
  using unat_bound64 [of a] by (simp add: unsigned_ucast_eq take_bit_nat_eq_self)

lemma unat_ucast64_32 [simp]: "unat (ucast (a :: u32) :: u64) = unat a"
  using unat_bound32 [of a] by (simp add: unsigned_ucast_eq take_bit_nat_eq_self)

lemma wide_prod_bound: "unat (a :: u32) * unat (b :: u64) < 2 ^ 96"
proof -
  have "unat a * unat b \<le> (2 ^ 32 - 1) * (2 ^ 64 - 1)"
    using unat_bound32 [of a] unat_bound64 [of b] by (intro mult_le_mono) simp_all
  then show ?thesis by simp
qed

lemma wide_mult [simp]: "unat (ucast (a :: u32) * ucast (b :: u64) :: u128) = unat a * unat b"
proof -
  have "unat a * unat b < 2 ^ 128" using wide_prod_bound [of a b] by simp
  then show ?thesis by (simp add: unat_word_ariths)
qed

lemma wide_add:
  fixes x y :: u128
  assumes "unat x < m" "unat y < n" "m + n \<le> 2 ^ 128"
  shows "unat (x + y) = unat x + unat y" "unat (x + y) < m + n"
proof -
  have "unat x + unat y < 2 ^ 128" using assms by linarith
  then show "unat (x + y) = unat x + unat y" by (simp add: unat_word_ariths)
  with assms show "unat (x + y) < m + n" by linarith
qed

lemma wide_sum4:
  fixes x y z e :: u128
  assumes "unat x < 2 ^ 96" "unat y < 2 ^ 96" "unat z < 2 ^ 96" "unat e < 2 ^ 96"
  shows "unat (x + y + z + e) = unat x + unat y + unat z + unat e"
proof -
  note a = wide_add [OF assms(1,2)]
  note b = wide_add [OF a(2) assms(3)]
  note c = wide_add [OF b(2) assms(4)]
  show ?thesis using a(1) b(1) c(1) by simp
qed

end
