(* ===== verification/System.thy ===== *)
theory System
  imports Prelude
begin

text \<open>
  The environment of one process. Every call the sources make into the CUDA driver, the
  POSIX layer, the clock and libuuid is a \<^theory_text>\<open>syscall\<close>; what it answers is a
  \<^theory_text>\<open>reply\<close>. None of that code is under src/, so the environment is a parameter: a
  function from the history of calls to the next reply, which covers every behaviour,
  failures and changing answers included. The history itself is the part of the state the
  resource theorems read: the process's external actions in order, newest first.
\<close>

datatype (plugins only: code) syscall =
    CuInit
  | CuDeviceGetCount
  | CuDeviceGet i32
  | CuDevicePrimaryCtxRetain u64
  | CuDevicePrimaryCtxRelease u64
  | CuCtxPushCurrent u64
  | CuCtxPopCurrent
  | CuCtxGetDevice
  | CuStreamGetCtx u64
  | CuStreamWaitEvent u64 u64
  | CuEventCreate bool
  | CuEventDestroy u64
  | CuEventRecord u64 u64
  | CuEventSynchronize u64
  | CuIpcGetEventHandle u64
  | CuIpcOpenEventHandle "u8 list"
  | CuMemGetAllocationGranularity i32
  | CuMemAddressReserve u64
  | CuMemAddressFree u64 u64
  | CuMemCreate u64 i32
  | CuMemRelease u64
  | CuMemMap u64 u64 u64
  | CuMemUnmap u64 u64
  | CuMemSetAccess u64 u64 i32
  | CuMemExportToShareableHandle u64
  | CuMemImportFromShareableHandle i32
  | UuidGenerate
  | MutexLock
  | UuidUnparseLower "u8 list"
  | UuidParseRange string
  | SteadyClockNow
  | ShmOpenCreate string
  | ShmOpen string
  | ShmUnlink string
  | Ftruncate i32 nat
  | Fstat i32
  | Mmap i32 nat
  | Close i32
  | ReadDirShm
  | Kill i32
  | Socket bool
  | Fcntl i32
  | Unlink string
  | Bind i32 string
  | Listen i32
  | Connect i32 string
  | RecvMsg i32
  | SendMsg i32 i32
  | Accept i32
  | Shutdown i32

text \<open>
  \<open>rc\<close> is the \<^verbatim>\<open>CUresult\<close> of a driver call or the \<^verbatim>\<open>errno\<close> of a POSIX call, 0 on
  success; \<open>out\<close> the value written through an out parameter or returned (handle,
  address, descriptor, count); \<open>raw\<close> bytes returned; \<open>entries\<close> the names a directory
  listing returns.
\<close>

record reply =
  rc :: int
  out :: u64
  raw :: "u8 list"
  entries :: "string list"

type_synonym trace = "(syscall \<times> reply) list"
type_synonym env = "trace \<Rightarrow> syscall \<Rightarrow> reply"

definition CUDA_SUCCESS :: int where "CUDA_SUCCESS = 0"
definition CUDA_ERROR_INVALID_DEVICE :: int where "CUDA_ERROR_INVALID_DEVICE = 101"
definition CUDA_ERROR_INVALID_CONTEXT :: int where "CUDA_ERROR_INVALID_CONTEXT = 201"
definition CUDA_ERROR_INVALID_HANDLE :: int where "CUDA_ERROR_INVALID_HANDLE = 400"

definition ENOENT :: int where "ENOENT = 2"
definition ESRCH :: int where "ESRCH = 3"
definition EEXIST :: int where "EEXIST = 17"
definition EINVAL :: int where "EINVAL = 22"
definition EPROTOTYPE :: int where "EPROTOTYPE = 91"

lemmas errno_defs = ENOENT_def ESRCH_def EEXIST_def EINVAL_def EPROTOTYPE_def

lemma errno_nonzero [simp]: "ENOENT \<noteq> 0" "ESRCH \<noteq> 0" "EEXIST \<noteq> 0" "EEXIST \<noteq> ENOENT"
  by (simp_all add: errno_defs)

lemmas cuda_code_defs = CUDA_SUCCESS_def CUDA_ERROR_INVALID_DEVICE_def
  CUDA_ERROR_INVALID_CONTEXT_def CUDA_ERROR_INVALID_HANDLE_def

text \<open>
  \<open>tr\<close> is the history; \<open>driver_once\<close> and \<open>backend_once\<close> the two
  \<^verbatim>\<open>std::call_once\<close> statuses the process keeps; \<open>heap_next\<close> the next address the
  allocator hands out, which is what pointer identity compares;
  \<open>next_process_block_id\<close> the process-wide counter of \<^verbatim>\<open>gpu_buffer_pool.cpp\<close>.
\<close>

record sys =
  tr :: trace
  driver_once :: "int option"
  backend_once :: "int option"
  heap_next :: nat
  next_process_block_id :: u32

definition initial_sys :: sys where
  "initial_sys = \<lparr>tr = [], driver_once = None, backend_once = None, heap_next = 1,
     next_process_block_id = 0\<rparr>"

definition log_call :: "syscall \<Rightarrow> reply \<Rightarrow> sys \<Rightarrow> sys" where
  "log_call c r s = s\<lparr>tr := (c, r) # tr s\<rparr>"

definition call :: "env \<Rightarrow> syscall \<Rightarrow> sys \<Rightarrow> reply \<times> sys" where
  "call E c s = (let r = E (tr s) c in (r, log_call c r s))"

text \<open>A call whose reply the caller ignores.\<close>

definition exec :: "env \<Rightarrow> syscall \<Rightarrow> sys \<Rightarrow> sys" where
  "exec E c s = snd (call E c s)"

definition alloc_ptr :: "sys \<Rightarrow> nat \<times> sys" where
  "alloc_ptr s = (heap_next s, s\<lparr>heap_next := Suc (heap_next s)\<rparr>)"

lemma log_call_simps [simp]:
  "tr (log_call c r s) = (c, r) # tr s"
  "driver_once (log_call c r s) = driver_once s"
  "backend_once (log_call c r s) = backend_once s"
  "heap_next (log_call c r s) = heap_next s"
  "next_process_block_id (log_call c r s) = next_process_block_id s"
  by (simp_all add: log_call_def)

lemma callD:
  "call E c s = (r, s') \<Longrightarrow> r = E (tr s) c \<and> tr s' = (c, r) # tr s
     \<and> driver_once s' = driver_once s \<and> backend_once s' = backend_once s \<and> heap_next s' = heap_next s
     \<and> next_process_block_id s' = next_process_block_id s"
  by (auto simp: call_def Let_def)

text \<open>The same without the reply's value: what the history and the counters become.\<close>

lemma callT:
  "call E c s = (r, s') \<Longrightarrow> tr s' = (c, r) # tr s
     \<and> driver_once s' = driver_once s \<and> backend_once s' = backend_once s \<and> heap_next s' = heap_next s
     \<and> next_process_block_id s' = next_process_block_id s"
  by (auto simp: call_def Let_def)

lemma exec_simps [simp]:
  "tr (exec E c s) = (c, E (tr s) c) # tr s"
  "driver_once (exec E c s) = driver_once s"
  "backend_once (exec E c s) = backend_once s"
  "heap_next (exec E c s) = heap_next s"
  "next_process_block_id (exec E c s) = next_process_block_id s"
  by (simp_all add: exec_def call_def Let_def)

section \<open>Ledgers\<close>

text \<open>
  What a history has acquired and not yet given back. \<open>gains\<close> and \<open>losses\<close> say which
  resource a call hands to the process and which it asks to give back; \<open>held k h\<close> is the
  difference over the whole history. A loss counts when the call is made, whatever it
  answers: the code's duty is to make it exactly once.
\<close>

datatype (plugins only: code) resource =
    REvent u64
  | RReservation u64 u64
  | RAllocation u64
  | RMapping u64 u64
  | RPrimaryCtx u64
  | RPushedCtx
  | RFd i32

definition le_int32 :: "u8 list \<Rightarrow> i32" where
  "le_int32 bs = foldr (\<lambda>b acc. ucast b + 256 * acc) (take 4 bs) 0"

text \<open>
  The descriptor a successful POSIX call returns: never negative, so the model reads 31 bits
  of the reply.
\<close>

definition fd_of :: "reply \<Rightarrow> i32" where
  "fd_of r = and (ucast (out r)) 0x7FFFFFFF"

lemma fd_of_nonneg [simp]: "0 \<le> sint (fd_of r)" "\<not> sint (fd_of r) < 0"
proof -
  have "\<not> bit (fd_of r) 31" by (simp add: fd_of_def bit_and_iff)
  then show "0 \<le> sint (fd_of r)" using bit_last_iff [of "fd_of r"] by simp
  then show "\<not> sint (fd_of r) < 0" by simp
qed

definition gains :: "syscall \<Rightarrow> reply \<Rightarrow> resource option" where
  "gains c r =
     (if rc r \<noteq> 0 then None
      else case c of
        CuEventCreate _ \<Rightarrow> Some (REvent (out r))
      | CuIpcOpenEventHandle _ \<Rightarrow> Some (REvent (out r))
      | CuMemAddressReserve n \<Rightarrow> Some (RReservation (out r) n)
      | CuMemCreate _ _ \<Rightarrow> Some (RAllocation (out r))
      | CuMemImportFromShareableHandle _ \<Rightarrow> Some (RAllocation (out r))
      | CuMemMap a n _ \<Rightarrow> Some (RMapping a n)
      | CuDevicePrimaryCtxRetain d \<Rightarrow> Some (RPrimaryCtx d)
      | CuCtxPushCurrent _ \<Rightarrow> Some RPushedCtx
      | CuMemExportToShareableHandle _ \<Rightarrow>
          (if 0 \<le> sint (ucast (out r) :: i32) then Some (RFd (ucast (out r))) else None)
      | Socket _ \<Rightarrow> Some (RFd (fd_of r))
      | Accept _ \<Rightarrow> Some (RFd (fd_of r))
      | ShmOpenCreate _ \<Rightarrow> Some (RFd (fd_of r))
      | ShmOpen _ \<Rightarrow> Some (RFd (fd_of r))
      | RecvMsg _ \<Rightarrow>
          (if out r \<noteq> 0 \<and> 4 \<le> length (raw r) \<and> 0 \<le> sint (le_int32 (raw r))
           then Some (RFd (le_int32 (raw r))) else None)
      | _ \<Rightarrow> None)"

definition losses :: "syscall \<Rightarrow> resource option" where
  "losses c =
     (case c of
        CuEventDestroy e \<Rightarrow> Some (REvent e)
      | CuMemAddressFree a n \<Rightarrow> Some (RReservation a n)
      | CuMemRelease al \<Rightarrow> Some (RAllocation al)
      | CuMemUnmap a n \<Rightarrow> Some (RMapping a n)
      | CuDevicePrimaryCtxRelease d \<Rightarrow> Some (RPrimaryCtx d)
      | CuCtxPopCurrent \<Rightarrow> Some RPushedCtx
      | Close fd \<Rightarrow> Some (RFd fd)
      | _ \<Rightarrow> None)"

text \<open>\<open>one k\<close> is the ledger of exactly one \<open>k\<close>, \<open>effect c r\<close> what one call contributes.\<close>

definition one :: "resource \<Rightarrow> resource \<Rightarrow> int" where
  "one k k' = (if k = k' then 1 else 0)"

definition effect :: "syscall \<Rightarrow> reply \<Rightarrow> resource \<Rightarrow> int" where
  "effect c r k = (case gains c r of None \<Rightarrow> 0 | Some g \<Rightarrow> one g k)
                  - (case losses c of None \<Rightarrow> 0 | Some l \<Rightarrow> one l k)"

fun held :: "resource \<Rightarrow> trace \<Rightarrow> int" where
  "held k [] = 0"
| "held k ((c, r) # h) = held k h + effect c r k"

definition delta :: "sys \<Rightarrow> sys \<Rightarrow> resource \<Rightarrow> int" where
  "delta s s' k = held k (tr s') - held k (tr s)"

lemma delta_refl [simp]: "delta s s = (\<lambda>_. 0)"
  by (simp add: delta_def fun_eq_iff)

lemma delta_trans: "delta s u k = delta s t k + delta t u k"
  by (simp add: delta_def)

lemma delta_call: "call E c s = (r, s') \<Longrightarrow> delta s s' k = effect c r k"
  by (simp add: delta_def call_def Let_def) auto

lemma delta_exec: "delta s (exec E c s) k = effect c (E (tr s) c) k"
  by (simp add: delta_def)

lemma delta_once [simp]:
  "delta s (s'\<lparr>driver_once := x\<rparr>) k = delta s s' k"
  "delta s (s'\<lparr>backend_once := x\<rparr>) k = delta s s' k"
  "delta s (s'\<lparr>heap_next := n\<rparr>) k = delta s s' k"
  "delta s (s'\<lparr>next_process_block_id := i\<rparr>) k = delta s s' k"
  by (simp_all add: delta_def)

lemma effect_gain [simp]:
  "effect (CuEventCreate b) r k = (if rc r = 0 then one (REvent (out r)) k else 0)"
  "effect (CuIpcOpenEventHandle h) r k = (if rc r = 0 then one (REvent (out r)) k else 0)"
  "effect (CuMemAddressReserve n) r k = (if rc r = 0 then one (RReservation (out r) n) k else 0)"
  "effect (CuMemCreate n i) r k = (if rc r = 0 then one (RAllocation (out r)) k else 0)"
  "effect (CuMemImportFromShareableHandle fd) r k = (if rc r = 0 then one (RAllocation (out r)) k else 0)"
  "effect (CuMemMap a n al) r k = (if rc r = 0 then one (RMapping a n) k else 0)"
  "effect (CuDevicePrimaryCtxRetain d) r k = (if rc r = 0 then one (RPrimaryCtx d) k else 0)"
  "effect (CuCtxPushCurrent c) r k = (if rc r = 0 then one RPushedCtx k else 0)"
  "effect (CuMemExportToShareableHandle al) r k =
     (if rc r = 0 \<and> 0 \<le> sint (ucast (out r) :: i32) then one (RFd (ucast (out r))) k else 0)"
  "effect (Socket b) r k = (if rc r = 0 then one (RFd (fd_of r)) k else 0)"
  "effect (Accept fd) r k = (if rc r = 0 then one (RFd (fd_of r)) k else 0)"
  "effect (ShmOpenCreate x) r k = (if rc r = 0 then one (RFd (fd_of r)) k else 0)"
  "effect (ShmOpen x) r k = (if rc r = 0 then one (RFd (fd_of r)) k else 0)"
  "effect (RecvMsg fd) r k =
     (if rc r = 0 \<and> out r \<noteq> 0 \<and> 4 \<le> length (raw r) \<and> 0 \<le> sint (le_int32 (raw r))
      then one (RFd (le_int32 (raw r))) k else 0)"
  by (simp_all add: effect_def gains_def losses_def)

lemma effect_loss [simp]:
  "effect (CuEventDestroy e) r k = - one (REvent e) k"
  "effect (CuMemAddressFree a n) r k = - one (RReservation a n) k"
  "effect (CuMemRelease al) r k = - one (RAllocation al) k"
  "effect (CuMemUnmap a n) r k = - one (RMapping a n) k"
  "effect (CuDevicePrimaryCtxRelease d) r k = - one (RPrimaryCtx d) k"
  "effect CuCtxPopCurrent r k = - one RPushedCtx k"
  "effect (Close fd) r k = - one (RFd fd) k"
  by (simp_all add: effect_def gains_def losses_def)

lemma effect_none [simp]:
  "effect CuInit r k = 0" "effect CuDeviceGetCount r k = 0" "effect (CuDeviceGet i) r k = 0"
  "effect CuCtxGetDevice r k = 0" "effect (CuStreamGetCtx q) r k = 0"
  "effect (CuStreamWaitEvent q e) r k = 0" "effect (CuEventRecord e q) r k = 0"
  "effect (CuEventSynchronize e) r k = 0" "effect (CuIpcGetEventHandle e) r k = 0"
  "effect (CuMemGetAllocationGranularity i) r k = 0" "effect (CuMemSetAccess a n i) r k = 0"
  "effect UuidGenerate r k = 0" "effect MutexLock r k = 0" "effect (UuidUnparseLower bs) r k = 0" "effect (UuidParseRange u) r k = 0"
  "effect SteadyClockNow r k = 0"
  "effect (ShmUnlink x) r k = 0" "effect (Ftruncate fd sz) r k = 0" "effect (Fstat fd) r k = 0"
  "effect (Mmap fd sz) r k = 0" "effect ReadDirShm r k = 0" "effect (Kill i) r k = 0"
  "effect (Fcntl fd) r k = 0" "effect (Unlink x) r k = 0" "effect (Bind fd x) r k = 0"
  "effect (Listen fd) r k = 0" "effect (Connect fd x) r k = 0" "effect (SendMsg fd g) r k = 0"
  "effect (Shutdown fd) r k = 0"
  by (simp_all add: effect_def gains_def losses_def)

end
