(* ===== verification/Machine.thy ===== *)
theory Machine
  imports System
begin

text \<open>
  A concrete environment for the witnesses: a machine with one GPU on which every call
  succeeds, and the same machine with one kind of call failing. Nothing in the model of the
  sources uses it; it shows that the hypotheses on the environment can hold.
\<close>

definition ok_reply :: "u64 \<Rightarrow> reply" where
  "ok_reply n = \<lparr>rc = 0, out = n, raw = [], entries = []\<rparr>"

definition failed_reply :: "int \<Rightarrow> reply" where
  "failed_reply e = \<lparr>rc = e, out = 0, raw = [], entries = []\<rparr>"

text \<open>The text form of a UUID, as the bytes libuuid writes.\<close>

definition sample_uuid :: "u8 list" where
  "sample_uuid = replicate 8 0x61 @ 0x2D # replicate 4 0x61 @ 0x2D # replicate 4 0x61 @ 0x2D #
     replicate 4 0x61 @ 0x2D # replicate 12 0x61 @ [0]"

definition healthy :: env where
  "healthy h c =
     (case c of
        CuDeviceGetCount \<Rightarrow> ok_reply 1
      | CuDevicePrimaryCtxRetain d \<Rightarrow> ok_reply 7
      | CuStreamGetCtx q \<Rightarrow> ok_reply 7
      | CuEventCreate b \<Rightarrow> ok_reply 0xE0
      | CuIpcOpenEventHandle bs \<Rightarrow> ok_reply 0xE1
      | CuIpcGetEventHandle e \<Rightarrow> \<lparr>rc = 0, out = 0, raw = replicate 64 3, entries = []\<rparr>
      | CuMemGetAllocationGranularity d \<Rightarrow> ok_reply 0x200000
      | CuMemAddressReserve n \<Rightarrow> if n = 0 then failed_reply 1 else ok_reply 0x7F0000000000
      | CuMemCreate n d \<Rightarrow> ok_reply 0xA0
      | CuMemImportFromShareableHandle fd \<Rightarrow> ok_reply 0xA1
      | CuMemExportToShareableHandle a \<Rightarrow> ok_reply 9
      | RecvMsg fd \<Rightarrow> \<lparr>rc = 0, out = 1, raw = [9, 0, 0, 0], entries = []\<rparr>
      | UuidUnparseLower bs \<Rightarrow> \<lparr>rc = 0, out = 0, raw = sample_uuid, entries = []\<rparr>
      | Socket b \<Rightarrow> ok_reply 4
      | Accept fd \<Rightarrow> ok_reply 5
      | ShmOpenCreate n \<Rightarrow> ok_reply 6
      | ShmOpen n \<Rightarrow> ok_reply 6
      | UuidGenerate \<Rightarrow> \<lparr>rc = 0, out = 0, raw = replicate 16 1, entries = []\<rparr>
      | _ \<Rightarrow> ok_reply 0)"

definition failing :: "(syscall \<Rightarrow> bool) \<Rightarrow> int \<Rightarrow> env" where
  "failing p e h c = (if p c then failed_reply e else healthy h c)"

lemma reply_simps [simp]:
  "rc (ok_reply n) = 0" "out (ok_reply n) = n" "raw (ok_reply n) = []" "entries (ok_reply n) = []"
  "rc (failed_reply e) = e" "out (failed_reply e) = 0" "raw (failed_reply e) = []"
  by (simp_all add: ok_reply_def failed_reply_def)

lemmas machine_defs = healthy_def failing_def call_def exec_def Let_def log_call_def

end
