(* ===== verification/Buffer_Metadata.thy ===== *)
theory Buffer_Metadata
  imports System Machine
begin

text \<open>
  \<^verbatim>\<open>buffer_metadata.hpp\<close> and \<^verbatim>\<open>buffer_metadata.cpp\<close>: the process-shared metadata cell of
  one GPU block, the POSIX shared-memory namespace the cells live in, and creation and
  attachment of a cell. A mapping keeps its object alive after \<^verbatim>\<open>shm_unlink\<close> removed the
  name, so names map to object numbers and objects are never reused: unlinking a name and
  creating it again gives a different object.
\<close>

section \<open>Data\<close>

text \<open>\<^verbatim>\<open>struct BlockMetadata\<close>: three atomics, zero after value initialisation.\<close>

record block_metadata =
  bm_uid :: u64
  bm_refcount :: u32
  bm_timestamp :: u64

definition BlockMetadata :: block_metadata where
  "BlockMetadata = \<lparr>bm_uid = 0, bm_refcount = 0, bm_timestamp = 0\<rparr>"

definition kMetadataSize :: nat where
  "kMetadataSize = 24"

record shm_object =
  so_size :: nat
  so_meta :: block_metadata

record shm =
  sh_names :: "string \<rightharpoonup> nat"
  sh_objs :: "nat \<Rightarrow> shm_object"
  sh_next :: nat

definition empty_object :: shm_object where
  "empty_object = \<lparr>so_size = 0, so_meta = BlockMetadata\<rparr>"

definition empty_shm :: shm where
  "empty_shm = \<lparr>sh_names = Map.empty, sh_objs = (\<lambda>_. empty_object), sh_next = 0\<rparr>"

text \<open>
  \<^verbatim>\<open>class BufferMetadata\<close>: \<open>mp_this\<close> is the address of the C++ object, which
  \<^verbatim>\<open>GpuBufferPool::owns\<close> compares; \<open>mp_addr\<close> is the object mapped at \<^verbatim>\<open>addr_\<close>. A
  \<^verbatim>\<open>shared_ptr<BufferMetadata>\<close> is a \<open>mapping option\<close>.
\<close>

record mapping =
  mp_this :: nat
  mp_name :: string
  mp_size :: nat
  mp_addr :: nat

definition load_meta :: "shm \<Rightarrow> nat \<Rightarrow> block_metadata" where
  "load_meta sh a = so_meta (sh_objs sh a)"

definition store_meta :: "nat \<Rightarrow> block_metadata \<Rightarrow> shm \<Rightarrow> shm" where
  "store_meta a m sh = sh\<lparr>sh_objs := (sh_objs sh)(a := (sh_objs sh a)\<lparr>so_meta := m\<rparr>)\<rparr>"

lemma load_store_meta [simp]:
  "load_meta (store_meta a m sh) b = (if a = b then m else load_meta sh b)"
  "sh_names (store_meta a m sh) = sh_names sh"
  "sh_next (store_meta a m sh) = sh_next sh"
  "so_size (sh_objs (store_meta a m sh) b) = so_size (sh_objs sh b)"
  by (simp_all add: load_meta_def store_meta_def)

lemma store_load_meta [simp]: "store_meta a (load_meta sh a) sh = sh"
  by (simp add: load_meta_def store_meta_def)

lemma store_store_meta [simp]: "store_meta a m (store_meta a m' sh) = store_meta a m sh"
  by (simp add: store_meta_def)

section \<open>Names\<close>

definition shm_name_for_block :: "u32 \<Rightarrow> u32 \<Rightarrow> string" where
  "shm_name_for_block publisher_pid block_id =
     ''/ros2_cuda_ipc_'' @ dec (unat publisher_pid) @ ''_'' @ dec (unat block_id)"

section \<open>Initial generation\<close>

text \<open>
  \<^verbatim>\<open>memcpy\<close> of the first eight bytes of the UUID into a \<^verbatim>\<open>uint64_t\<close> on a little-endian
  host (the protocol document limits the implementation to x86_64 and aarch64).
\<close>

definition le_bytes :: "u8 list \<Rightarrow> u64" where
  "le_bytes bs = foldr (\<lambda>b acc. ucast b + 256 * acc) (take 8 bs) 0"

definition initial_uid :: "u8 list \<Rightarrow> u64" where
  "initial_uid uuid =
     (let value = le_bytes uuid
      in if value = 0 \<or> value = u64_max then 1 else value)"

section \<open>The shared-memory calls\<close>

text \<open>
  \<^verbatim>\<open>shm_open\<close> with \<^verbatim>\<open>O_CREAT | O_EXCL\<close> makes a new empty object under a free name and
  fails with \<^verbatim>\<open>EEXIST\<close> otherwise; without them it fails with \<^verbatim>\<open>ENOENT\<close> on a free name. The
  environment may make any call fail for another reason. The recorded reply is the one the
  caller sees. The descriptor is the reply's value, the object it refers to the second
  component.
\<close>

definition shm_open_create :: "env \<Rightarrow> string \<Rightarrow> sys \<times> shm \<Rightarrow> (reply \<times> nat) \<times> (sys \<times> shm)" where
  "shm_open_create E name w =
     (let (s, sh) = w; r = E (tr s) (ShmOpenCreate name);
          code = (if rc r \<noteq> 0 then rc r else if sh_names sh name \<noteq> None then EEXIST else 0);
          r' = r\<lparr>rc := code\<rparr>; s' = log_call (ShmOpenCreate name) r' s; obj = sh_next sh
      in if code \<noteq> 0 then ((r', obj), (s', sh))
         else ((r', obj),
               (s', sh\<lparr>sh_names := (sh_names sh)(name \<mapsto> obj),
                      sh_objs := (sh_objs sh)(obj := empty_object), sh_next := Suc obj\<rparr>)))"

definition shm_open :: "env \<Rightarrow> string \<Rightarrow> sys \<times> shm \<Rightarrow> (reply \<times> nat) \<times> (sys \<times> shm)" where
  "shm_open E name w =
     (let (s, sh) = w; r = E (tr s) (ShmOpen name);
          code = (if rc r \<noteq> 0 then rc r else if sh_names sh name = None then ENOENT else 0);
          r' = r\<lparr>rc := code\<rparr>
      in ((r', case sh_names sh name of Some obj \<Rightarrow> obj | None \<Rightarrow> 0),
          (log_call (ShmOpen name) r' s, sh)))"

definition shm_unlink :: "env \<Rightarrow> string \<Rightarrow> sys \<times> shm \<Rightarrow> reply \<times> (sys \<times> shm)" where
  "shm_unlink E name w =
     (let (s, sh) = w; r = E (tr s) (ShmUnlink name);
          code = (if rc r \<noteq> 0 then rc r else if sh_names sh name = None then ENOENT else 0);
          r' = r\<lparr>rc := code\<rparr>; s' = log_call (ShmUnlink name) r' s
      in if code \<noteq> 0 then (r', (s', sh))
         else (r', (s', sh\<lparr>sh_names := (sh_names sh)(name := None)\<rparr>)))"

section \<open>Creating and attaching\<close>

definition make_mapping :: "string \<Rightarrow> nat \<Rightarrow> nat \<Rightarrow> sys \<Rightarrow> mapping \<times> sys" where
  "make_mapping name addr mapped_size s =
     (let (p, s') = alloc_ptr s
      in (\<lparr>mp_this = p, mp_name = name, mp_size = mapped_size, mp_addr = addr\<rparr>, s'))"

text \<open>
  The first component of the result is the \<^verbatim>\<open>shared_ptr\<close>, the second the \<^verbatim>\<open>errno\<close> of the
  call that failed (0 on success), which \<^verbatim>\<open>GpuBufferPool::initialise\<close> reads.
\<close>

definition create :: "env \<Rightarrow> string \<Rightarrow> sys \<times> shm \<Rightarrow> (mapping option \<times> int) \<times> (sys \<times> shm)" where
  "create E name w =
     (let ((r, obj), (s1, sh1)) = shm_open_create E name w
      in if rc r \<noteq> 0 then ((None, rc r), (s1, sh1))
      else let fd = fd_of r; (t, s2) = call E (Ftruncate fd kMetadataSize) s1
      in if rc t \<noteq> 0
         then ((None, rc t), snd (shm_unlink E name (exec E (Close fd) s2, sh1)))
      else let sh2 = sh1\<lparr>sh_objs := (sh_objs sh1)(obj := (sh_objs sh1 obj)\<lparr>so_size := kMetadataSize\<rparr>)\<rparr>;
               (m, s3) = call E (Mmap fd kMetadataSize) s2
      in if rc m \<noteq> 0
         then ((None, rc m), snd (shm_unlink E name (exec E (Close fd) s3, sh2)))
      else let s4 = exec E (Close fd) s3;
               (u, s5) = call E UuidGenerate s4;
               sh3 = store_meta obj (BlockMetadata\<lparr>bm_uid := initial_uid (raw u)\<rparr>) sh2;
               (mp, s6) = make_mapping name obj kMetadataSize s5
      in ((Some mp, 0), (s6, sh3)))"

definition attach :: "env \<Rightarrow> string \<Rightarrow> sys \<times> shm \<Rightarrow> mapping option \<times> (sys \<times> shm)" where
  "attach E name w =
     (let ((r, obj), (s1, sh)) = shm_open E name w
      in if rc r \<noteq> 0 then (None, (s1, sh))
      else let fd = fd_of r; (f, s2) = call E (Fstat fd) s1
      in if rc f \<noteq> 0 \<or> so_size (sh_objs sh obj) \<noteq> kMetadataSize
         then (None, (exec E (Close fd) s2, sh))
      else let (m, s3) = call E (Mmap fd kMetadataSize) s2;
               s4 = exec E (Close fd) s3
      in if rc m \<noteq> 0 then (None, (s4, sh))
      else let (mp, s5) = make_mapping name obj kMetadataSize s4
      in (Some mp, (s5, sh)))"

section \<open>Facts\<close>

subsection \<open>Names and generations\<close>

lemma shm_name_inject [simp]:
  "shm_name_for_block p b = shm_name_for_block p' b' \<longleftrightarrow> p = p' \<and> b = b'"
proof
  assume "shm_name_for_block p b = shm_name_for_block p' b'"
  then have "dec (unat p) @ CHR ''_'' # dec (unat b) = dec (unat p') @ CHR ''_'' # dec (unat b')"
    by (simp add: shm_name_for_block_def)
  then have "dec (unat p) = dec (unat p') \<and> dec (unat b) = dec (unat b')"
    by (intro digit_runs_inject dec_digits) simp_all
  then show "p = p' \<and> b = b'" by (simp add: word_unat_eq_iff)
qed simp

lemma initial_uid_range: "initial_uid bs \<noteq> 0 \<and> initial_uid bs \<noteq> u64_max"
  by (simp add: initial_uid_def Let_def)

subsection \<open>The namespace stays well formed\<close>

text \<open>Every name refers to an object made before, and no two names to the same one.\<close>

definition shm_wf :: "shm \<Rightarrow> bool" where
  "shm_wf sh \<longleftrightarrow> (\<forall>a \<in> ran (sh_names sh). a < sh_next sh) \<and>
     (\<forall>m n a. sh_names sh m = Some a \<longrightarrow> sh_names sh n = Some a \<longrightarrow> m = n)"

lemma shm_wf_empty: "shm_wf empty_shm"
  by (simp add: shm_wf_def empty_shm_def)

lemma shm_wf_store [simp]: "shm_wf (store_meta a m sh) \<longleftrightarrow> shm_wf sh"
  by (simp add: shm_wf_def)

lemma shm_wf_less: "shm_wf sh \<Longrightarrow> sh_names sh n = Some a \<Longrightarrow> a < sh_next sh"
  by (auto simp: shm_wf_def ran_def)

text \<open>\<open>same_cells n sh sh'\<close>: the objects made before number \<open>n\<close> are untouched.\<close>

definition same_cells :: "nat \<Rightarrow> shm \<Rightarrow> shm \<Rightarrow> bool" where
  "same_cells n sh sh' \<longleftrightarrow> (\<forall>a < n. sh_objs sh' a = sh_objs sh a)"

lemma same_cellsD: "same_cells n sh sh' \<Longrightarrow> a < n \<Longrightarrow> load_meta sh' a = load_meta sh a"
  by (simp add: same_cells_def load_meta_def)

subsection \<open>Unlinking\<close>

lemma shm_unlink_cases:
  assumes "shm_unlink E name (s, sh) = (r, (s', sh'))"
  shows "sh_objs sh' = sh_objs sh \<and> sh_next sh' = sh_next sh \<and>
         (if rc r = 0 then sh_names sh' = (sh_names sh)(name := None) \<and> sh_names sh name \<noteq> None
          else sh_names sh' = sh_names sh)"
  using assms by (auto simp: shm_unlink_def Let_def ENOENT_def split: if_splits)

lemma shm_unlink_heap:
  "shm_unlink E name (s, sh) = (r, (s', sh')) \<Longrightarrow>
     heap_next s' = heap_next s \<and> driver_once s' = driver_once s \<and> backend_once s' = backend_once s
     \<and> tr s' = (ShmUnlink name, r) # tr s"
  by (auto simp: shm_unlink_def Let_def split: if_splits)

lemma shm_unlink_wf:
  "shm_wf sh \<Longrightarrow> shm_unlink E name (s, sh) = (r, (s', sh')) \<Longrightarrow> shm_wf sh'"
  by (frule shm_unlink_cases) (auto simp: shm_wf_def ran_def split: if_splits)

subsection \<open>Creating\<close>

text \<open>A name that is in use cannot be created: the existing object and all names stay.\<close>

lemma create_taken:
  assumes "sh_names sh name \<noteq> None"
  shows "\<exists>e s'. create E name (s, sh) = ((None, e), (s', sh)) \<and> e \<noteq> 0
           \<and> (rc (E (tr s) (ShmOpenCreate name)) = 0 \<longrightarrow> e = EEXIST)"
  using assms by (auto simp: create_def shm_open_create_def Let_def EEXIST_def)

text \<open>
  A successful creation made a new object under a name that was free, with reference count
  zero, no timestamp and a generation that is neither 0 nor the maximum.
\<close>

lemma create_success:
  assumes "create E name (s, sh) = ((Some mp, e), (s', sh'))"
  shows "sh_names sh name = None \<and> sh_names sh' = (sh_names sh)(name \<mapsto> sh_next sh)
       \<and> sh_next sh' = Suc (sh_next sh) \<and> mp_addr mp = sh_next sh \<and> mp_name mp = name
       \<and> mp_size mp = kMetadataSize \<and> mp_this mp = heap_next s \<and> heap_next s' = Suc (heap_next s)
       \<and> same_cells (sh_next sh) sh sh'
       \<and> so_size (sh_objs sh' (mp_addr mp)) = kMetadataSize
       \<and> bm_refcount (load_meta sh' (mp_addr mp)) = 0
       \<and> bm_timestamp (load_meta sh' (mp_addr mp)) = 0
       \<and> bm_uid (load_meta sh' (mp_addr mp)) \<noteq> 0
       \<and> bm_uid (load_meta sh' (mp_addr mp)) \<noteq> u64_max \<and> e = 0"
  using assms initial_uid_range
  by (auto simp: create_def shm_open_create_def make_mapping_def alloc_ptr_def call_def Let_def
      BlockMetadata_def load_meta_def store_meta_def same_cells_def
      split: if_splits prod.splits)

lemma create_cells:
  assumes "create E name (s, sh) = (r, (s', sh'))"
  shows "same_cells (sh_next sh) sh sh' \<and> sh_next sh \<le> sh_next sh' \<and> heap_next s \<le> heap_next s'
       \<and> (\<forall>n. n \<noteq> name \<longrightarrow> sh_names sh' n = sh_names sh n)"
  using assms
  by (auto simp: create_def shm_open_create_def shm_unlink_def make_mapping_def alloc_ptr_def
      call_def Let_def store_meta_def same_cells_def split: if_splits prod.splits)

text \<open>
  A failed creation leaves no name behind, unless the clean-up \<^verbatim>\<open>shm_unlink\<close> itself failed.
\<close>

definition unlink_works :: "env \<Rightarrow> bool" where
  "unlink_works E \<longleftrightarrow> (\<forall>h n. rc (E h (ShmUnlink n)) = 0)"

lemma create_failure:
  assumes "unlink_works E" and "create E name (s, sh) = ((None, e), (s', sh'))"
  shows "sh_names sh' = sh_names sh"
  using assms
  by (auto simp: create_def shm_open_create_def shm_unlink_def make_mapping_def alloc_ptr_def
      call_def Let_def unlink_works_def fun_upd_idem split: if_splits prod.splits)

lemma create_wf:
  assumes "shm_wf sh" and "create E name (s, sh) = (r, (s', sh'))"
  shows "shm_wf sh'"
proof -
  have names: "sh_names sh' = sh_names sh \<or> sh_names sh' = (sh_names sh)(name \<mapsto> sh_next sh)
      \<and> sh_next sh < sh_next sh'"
    using assms(2)
    by (auto simp: create_def shm_open_create_def shm_unlink_def make_mapping_def alloc_ptr_def
        call_def Let_def ENOENT_def store_meta_def fun_upd_idem split: if_splits prod.splits)
  have "sh_next sh \<le> sh_next sh'" using create_cells assms(2) by blast
  with names assms(1) show ?thesis
    by (force simp: shm_wf_def ran_def split: if_splits)
qed

subsection \<open>Attaching\<close>

text \<open>Attaching never changes shared memory, and maps the object the name refers to.\<close>

lemma attach_frame:
  "attach E name (s, sh) = (m, (s', sh')) \<Longrightarrow> sh' = sh \<and> heap_next s \<le> heap_next s'"
  by (auto simp: attach_def shm_open_def make_mapping_def alloc_ptr_def call_def Let_def
      split: if_splits prod.splits)

lemma attach_success:
  assumes "attach E name (s, sh) = (Some mp, (s', sh'))"
  shows "sh_names sh name = Some (mp_addr mp) \<and> mp_name mp = name \<and> mp_size mp = kMetadataSize
       \<and> so_size (sh_objs sh (mp_addr mp)) = kMetadataSize \<and> mp_this mp = heap_next s
       \<and> heap_next s' = Suc (heap_next s)"
  using assms
  by (auto simp: attach_def shm_open_def make_mapping_def alloc_ptr_def call_def Let_def ENOENT_def
      split: if_splits prod.splits option.splits)

lemma attach_unlinked: "sh_names sh name = None \<Longrightarrow> fst (attach E name (s, sh)) = None"
  by (auto simp: attach_def shm_open_def Let_def ENOENT_def)

subsection \<open>Descriptors\<close>

lemma create_ledger:
  assumes "create E name (s, sh) = ((m, e), (s', sh'))"
  shows "delta s s' k = 0 \<and> driver_once s' = driver_once s \<and> heap_next s \<le> heap_next s'"
proof -
  obtain r obj s1 sh1 where o: "shm_open_create E name (s, sh) = ((r, obj), (s1, sh1))" by (metis surj_pair)
  have d1: "delta s s1 k = (if rc r = 0 then one (RFd (fd_of r)) k else 0)" "driver_once s1 = driver_once s"
    "heap_next s1 = heap_next s"
    using o by (auto simp: shm_open_create_def Let_def delta_def split: if_splits)
  have "delta s1 s' k = - (if rc r = 0 then one (RFd (fd_of r)) k else 0)
      \<and> driver_once s' = driver_once s1 \<and> heap_next s1 \<le> heap_next s'"
    using assms o
    by (auto simp: create_def shm_unlink_def make_mapping_def alloc_ptr_def Let_def delta_def
        split: prod.splits if_splits dest!: callT)
  with d1 show ?thesis using delta_trans [of s s' k s1] by auto
qed

section \<open>Properties\<close>

text \<open>
  A block's identity fixes its metadata name: two block names are equal only for the same
  publisher process and the same block id, so no publisher can collide with another's block.
\<close>

theorem block_names_are_unique:
  "shm_name_for_block p b = shm_name_for_block p' b' \<longleftrightarrow> p = p' \<and> b = b'"
  by (rule shm_name_inject)

text \<open>
  Creation is exclusive and clean: it succeeds only under a free name and then makes a new
  object with no holder, no timestamp and a usable generation under that name, touching no
  other cell or name; if it fails, at any system call, the names are what they were, as long
  as unlinking works, and it leaks no descriptor either way.
\<close>

theorem create_is_exclusive_and_clean:
  assumes "unlink_works E" "create E name (s, sh) = ((m, e), (s', sh'))"
  shows "(case m of
      None \<Rightarrow> sh_names sh' = sh_names sh
    | Some mp \<Rightarrow> sh_names sh name = None \<and> sh_names sh' = (sh_names sh)(name \<mapsto> mp_addr mp)
        \<and> mp_addr mp = sh_next sh \<and> bm_refcount (load_meta sh' (mp_addr mp)) = 0
        \<and> bm_timestamp (load_meta sh' (mp_addr mp)) = 0
        \<and> bm_uid (load_meta sh' (mp_addr mp)) \<notin> {0, u64_max})
    \<and> same_cells (sh_next sh) sh sh' \<and> held (RFd fd) (tr s') = held (RFd fd) (tr s)"
proof -
  have "held (RFd fd) (tr s') = held (RFd fd) (tr s)"
    using create_ledger [OF assms(2), of "RFd fd"] by (simp add: delta_def)
  moreover have "same_cells (sh_next sh) sh sh'" using create_cells [OF assms(2)] by blast
  moreover have "case m of
      None \<Rightarrow> sh_names sh' = sh_names sh
    | Some mp \<Rightarrow> sh_names sh name = None \<and> sh_names sh' = (sh_names sh)(name \<mapsto> mp_addr mp)
        \<and> mp_addr mp = sh_next sh \<and> bm_refcount (load_meta sh' (mp_addr mp)) = 0
        \<and> bm_timestamp (load_meta sh' (mp_addr mp)) = 0
        \<and> bm_uid (load_meta sh' (mp_addr mp)) \<notin> {0, u64_max}"
  proof (cases m)
    case None
    with create_failure [OF assms(1)] assms(2) show ?thesis by simp
  next
    case (Some mp)
    with assms(2) create_success [of E name s sh mp e s' sh'] show ?thesis by (simp del: One_nat_def) metis
  qed
  ultimately show ?thesis by blast
qed

theorem create_is_exclusive_and_clean_witness:
  "fst (fst (create (failing (\<lambda>c. c = Mmap 6 24) 12) ''/m'' (initial_sys, empty_shm))) = None
   \<and> sh_names (snd (snd (create (failing (\<lambda>c. c = Mmap 6 24) 12) ''/m'' (initial_sys, empty_shm)))) = sh_names empty_shm"
proof -
  let ?E = "failing (\<lambda>c. c = Mmap 6 24) 12"
  have u: "unlink_works ?E" by (simp add: unlink_works_def failing_def healthy_def)
  obtain m e s' sh' where c: "create ?E ''/m'' (initial_sys, empty_shm) = ((m, e), (s', sh'))" by (metis surj_pair)
  moreover have "m = None"
    using c by (auto simp: create_def shm_open_create_def shm_unlink_def empty_shm_def kMetadataSize_def fd_of_def machine_defs)
  ultimately show ?thesis using create_is_exclusive_and_clean [OF u c, of 6] by simp
qed

text \<open>
  Attaching reaches the object the publisher created, as long as the name is still linked
  and the system calls succeed; after the publisher unlinks and recreates the name a new
  attachment reaches the new object and an old mapping keeps its own, unchanged.
\<close>

theorem attach_reaches_created_object:
  assumes "create E name (s, sh) = ((Some mp, e), (s1, sh1))"
    and "attach E' name (s2, sh1) = (Some at, (s3, sh3))"
    and "shm_unlink E name (s4, sh1) = (r, (s5, sh5))" "rc r = 0"
    and "create E name (s5, sh5) = ((Some mp', e'), (s6, sh6))"
    and "attach E' name (s7, sh6) = (Some at', (s8, sh8))"
  shows "mp_addr at = mp_addr mp \<and> sh3 = sh1
    \<and> mp_addr at' = mp_addr mp' \<and> mp_addr mp' \<noteq> mp_addr mp
    \<and> load_meta sh6 (mp_addr mp) = load_meta sh1 (mp_addr mp)"
proof -
  note c1 = create_success [OF assms(1)] and c2 = create_success [OF assms(5)]
  have u: "sh_objs sh5 = sh_objs sh1" "sh_next sh5 = sh_next sh1"
    using shm_unlink_cases [OF assms(3)] by auto
  have "mp_addr mp < sh_next sh5" using c1 u by simp
  moreover have "same_cells (sh_next sh5) sh5 sh6" "mp_addr mp' = sh_next sh5" using c2 by blast+
  ultimately have "load_meta sh6 (mp_addr mp) = load_meta sh1 (mp_addr mp)" "mp_addr mp' \<noteq> mp_addr mp"
    using u by (auto simp: same_cells_def load_meta_def)
  then show ?thesis
    using c1 c2 attach_success [OF assms(2)] attach_success [OF assms(6)] attach_frame [OF assms(2)] by auto
qed

lemmas metadata_eval = create_def shm_open_create_def shm_open_def shm_unlink_def attach_def make_mapping_def
  alloc_ptr_def store_meta_def empty_object_def

theorem attach_reaches_created_object_witness:
  "\<exists>mp w1 at w3 r w5 mp' w6 at' w8 e e'. create healthy ''/m'' (initial_sys, empty_shm) = ((Some mp, e), w1)
     \<and> attach healthy ''/m'' w1 = (Some at, w3) \<and> shm_unlink healthy ''/m'' w1 = (r, w5)
     \<and> create healthy ''/m'' w5 = ((Some mp', e'), w6) \<and> attach healthy ''/m'' w6 = (Some at', w8)
     \<and> mp_addr at = mp_addr mp \<and> mp_addr at' = mp_addr mp' \<and> mp_addr mp' \<noteq> mp_addr mp"
proof -
  have "\<exists>mp e s1 sh1. create healthy ''/m'' (initial_sys, empty_shm) = ((Some mp, e), (s1, sh1))
     \<and> (\<exists>at s3 sh3. attach healthy ''/m'' (s1, sh1) = (Some at, (s3, sh3)))
     \<and> (\<exists>r s5 sh5. shm_unlink healthy ''/m'' (s1, sh1) = (r, (s5, sh5)) \<and> rc r = 0
       \<and> (\<exists>mp' e' s6 sh6. create healthy ''/m'' (s5, sh5) = ((Some mp', e'), (s6, sh6))
         \<and> (\<exists>at' s8 sh8. attach healthy ''/m'' (s6, sh6) = (Some at', (s8, sh8)))))"
    by (simp add: metadata_eval empty_shm_def initial_sys_def machine_defs)
  then obtain mp e s1 sh1 at s3 sh3 r s5 sh5 mp' e' s6 sh6 at' s8 sh8 where
    h: "create healthy ''/m'' (initial_sys, empty_shm) = ((Some mp, e), (s1, sh1))"
    "attach healthy ''/m'' (s1, sh1) = (Some at, (s3, sh3))" "shm_unlink healthy ''/m'' (s1, sh1) = (r, (s5, sh5))"
    "rc r = 0" "create healthy ''/m'' (s5, sh5) = ((Some mp', e'), (s6, sh6))"
    "attach healthy ''/m'' (s6, sh6) = (Some at', (s8, sh8))" by metis
  from attach_reaches_created_object [OF h] h show ?thesis by blast
qed

end
