(* ===== verification/Lease_Spec.thy ===== *)
theory Lease_Spec
  imports Prelude
begin

text \<open>
  The abstract specification of one block's metadata and the interface through which the
  publisher and the subscriber use it. The locale states the contract once, as a refinement
  of the specification; what any well-behaved client may conclude from it is proved inside.
  Theory Buffer_Ref interprets it on the cell operations translated from the sources.
\<close>

section \<open>Abstract specification\<close>

text \<open>
  What one block promises, over unbounded numbers: a generation, how many parties hold it,
  and when its last publication was committed. Reservation is exclusive and starts a new
  generation; a block rests for the grace period after a commit.
\<close>

record lease =
  ls_gen :: nat
  ls_holders :: nat
  ls_published :: "nat option"

definition spec_reserve :: "nat \<Rightarrow> lease \<Rightarrow> nat option \<times> lease" where
  "spec_reserve now l =
     (if ls_holders l = 0 \<and> (case ls_published l of None \<Rightarrow> True | Some t \<Rightarrow> t + 100000 \<le> now)
         \<and> ls_gen l < 2 ^ 64 - 1
      then (Some (Suc (ls_gen l)), \<lparr>ls_gen = Suc (ls_gen l), ls_holders = 1, ls_published = None\<rparr>)
      else (None, l))"

definition spec_commit :: "nat \<Rightarrow> lease \<Rightarrow> lease" where
  "spec_commit now l = l\<lparr>ls_holders := ls_holders l - 1, ls_published := if now = 0 then None else Some now\<rparr>"

definition spec_drop :: "lease \<Rightarrow> lease" where
  "spec_drop l = l\<lparr>ls_holders := ls_holders l - 1\<rparr>"

definition spec_acquire :: "nat \<Rightarrow> lease \<Rightarrow> bool \<times> lease" where
  "spec_acquire g l =
     (if ls_gen l = g \<and> ls_holders l < 2 ^ 32 - 1
      then (True, l\<lparr>ls_holders := Suc (ls_holders l)\<rparr>) else (False, l))"

section \<open>The interface and its clients\<close>

text \<open>
  One client action. A client commits or cancels only the reservation it holds and releases
  only a reference it holds, which is what \<^verbatim>\<open>PublishBlock\<close> and \<^verbatim>\<open>BufferRef\<close> enforce by
  ownership; actions without a holder are skipped.
\<close>

datatype client_op =
  OpReserve u64 | OpCommit u64 | OpCancel | OpAcquire u64 | OpRelease

record 'c clients =
  cl_cell :: 'c
  cl_reservation :: "u64 option"
  cl_readers :: nat

fun client_step ::
    "(u64 \<Rightarrow> 'c \<Rightarrow> u64 option \<times> 'c) \<Rightarrow> (u64 \<Rightarrow> u64 \<Rightarrow> 'c \<Rightarrow> bool \<times> 'c) \<Rightarrow> (u64 \<Rightarrow> 'c \<Rightarrow> bool \<times> 'c)
     \<Rightarrow> (u64 \<Rightarrow> 'c \<Rightarrow> bool \<times> 'c) \<Rightarrow> ('c \<Rightarrow> 'c) \<Rightarrow> client_op \<Rightarrow> 'c clients \<Rightarrow> 'c clients" where
  "client_step rsv cmt cnl acq rel (OpReserve now) k =
     (case rsv now (cl_cell k) of
        (None, c) \<Rightarrow> k\<lparr>cl_cell := c\<rparr>
      | (Some u, c) \<Rightarrow> k\<lparr>cl_cell := c, cl_reservation := Some u\<rparr>)"
| "client_step rsv cmt cnl acq rel (OpCommit now) k =
     (case cl_reservation k of None \<Rightarrow> k
      | Some u \<Rightarrow> k\<lparr>cl_cell := snd (cmt now u (cl_cell k)), cl_reservation := None\<rparr>)"
| "client_step rsv cmt cnl acq rel OpCancel k =
     (case cl_reservation k of None \<Rightarrow> k
      | Some u \<Rightarrow> k\<lparr>cl_cell := snd (cnl u (cl_cell k)), cl_reservation := None\<rparr>)"
| "client_step rsv cmt cnl acq rel (OpAcquire u) k =
     (case acq u (cl_cell k) of
        (False, c) \<Rightarrow> k\<lparr>cl_cell := c\<rparr>
      | (True, c) \<Rightarrow> k\<lparr>cl_cell := c, cl_readers := Suc (cl_readers k)\<rparr>)"
| "client_step rsv cmt cnl acq rel OpRelease k =
     (case cl_readers k of 0 \<Rightarrow> k
      | Suc n \<Rightarrow> k\<lparr>cl_cell := rel (cl_cell k), cl_readers := n\<rparr>)"

text \<open>What the counters of the cell must say about its clients.\<close>

definition accounted :: "('c \<Rightarrow> lease) \<Rightarrow> 'c clients \<Rightarrow> bool" where
  "accounted view k \<longleftrightarrow>
     ls_holders (view (cl_cell k)) = cl_readers k + (if cl_reservation k = None then 0 else 1)
     \<and> (\<forall>u. cl_reservation k = Some u \<longrightarrow> unat u = ls_gen (view (cl_cell k)))"

locale lease_cell =
  fixes rsv :: "u64 \<Rightarrow> 'c \<Rightarrow> u64 option \<times> 'c"
    and cmt :: "u64 \<Rightarrow> u64 \<Rightarrow> 'c \<Rightarrow> bool \<times> 'c"
    and cnl :: "u64 \<Rightarrow> 'c \<Rightarrow> bool \<times> 'c"
    and acq :: "u64 \<Rightarrow> 'c \<Rightarrow> bool \<times> 'c"
    and rel :: "'c \<Rightarrow> 'c"
    and view :: "'c \<Rightarrow> lease"
  assumes reserve_law:
      "(map_option unat (fst (rsv now c)), view (snd (rsv now c))) = spec_reserve (unat now) (view c)"
    and commit_law:
      "ls_gen (view c) = unat u \<Longrightarrow> 0 < ls_holders (view c) \<Longrightarrow>
         fst (cmt now u c) \<and> view (snd (cmt now u c)) = spec_commit (unat now) (view c)"
    and cancel_law:
      "ls_gen (view c) = unat u \<Longrightarrow> 0 < ls_holders (view c) \<Longrightarrow>
         fst (cnl u c) \<and> view (snd (cnl u c)) = spec_drop (view c)"
    and acquire_law:
      "(fst (acq u c), view (snd (acq u c))) = spec_acquire (unat u) (view c)"
    and release_law:
      "0 < ls_holders (view c) \<Longrightarrow> view (rel c) = spec_drop (view c)"
begin

lemma reserve_taken:
  assumes "rsv now c = (Some u, c')"
  shows "ls_holders (view c) = 0 \<and> ls_holders (view c') = 1 \<and> ls_published (view c') = None
       \<and> ls_gen (view c') = unat u \<and> unat u = Suc (ls_gen (view c))
       \<and> (\<forall>t. ls_published (view c) = Some t \<longrightarrow> t + 100000 \<le> unat now)"
  using reserve_law [of now c] assms by (auto simp: spec_reserve_def split: if_splits option.splits)

lemma reserve_refused: "rsv now c = (None, c') \<Longrightarrow> view c' = view c"
  using reserve_law [of now c] by (auto simp: spec_reserve_def split: if_splits option.splits)

lemma reserve_blocked: "0 < ls_holders (view c) \<Longrightarrow> fst (rsv now c) = None"
  using reserve_law [of now c] by (auto simp: spec_reserve_def split: if_splits)

lemma acquire_taken:
  assumes "acq u c = (True, c')"
  shows "ls_gen (view c) = unat u \<and> view c' = (view c)\<lparr>ls_holders := Suc (ls_holders (view c))\<rparr>"
  using acquire_law [of u c] assms by (auto simp: spec_acquire_def split: if_splits)

lemma acquire_refused: "acq u c = (False, c') \<Longrightarrow> view c' = view c"
  using acquire_law [of u c] by (auto simp: spec_acquire_def split: if_splits)

text \<open>The generation a reader acquired cannot be replaced while the reader holds on.\<close>

lemma acquire_pins: "acq u c = (True, c') \<Longrightarrow> fst (rsv now c') = None"
  by (rule reserve_blocked) (simp add: acquire_taken)

lemma commit_then_rest:
  assumes "ls_gen (view c) = unat u" "ls_holders (view c) = 1" "0 < unat t"
    and "ls_gen (view c) < 2 ^ 64 - 1"
  shows "fst (rsv now (snd (cmt t u c))) \<noteq> None \<longleftrightarrow> unat t + 100000 \<le> unat now"
proof -
  have "view (snd (cmt t u c)) = spec_commit (unat t) (view c)"
    using commit_law assms by simp
  then show ?thesis
    using reserve_law [of now "snd (cmt t u c)"] assms
    by (auto simp: spec_reserve_def spec_commit_def split: if_splits option.splits)
qed

lemma cancel_then_free:
  assumes "rsv now c = (Some u, c')" and "ls_gen (view c') < 2 ^ 64 - 1"
  shows "fst (rsv now' (snd (cnl u c'))) \<noteq> None"
proof -
  have "view (snd (cnl u c')) = spec_drop (view c')"
    using cancel_law reserve_taken assms by simp
  then show ?thesis
    using reserve_law [of now' "snd (cnl u c')"] reserve_taken [OF assms(1)] assms(2)
    by (auto simp: spec_reserve_def spec_drop_def split: if_splits option.splits)
qed

lemma step_accounted:
  assumes "accounted view k"
  shows "accounted view (client_step rsv cmt cnl acq rel op k)"
proof (cases op)
  case (OpReserve now)
  show ?thesis
  proof (cases "rsv now (cl_cell k)")
    case (Pair r c)
    with OpReserve assms show ?thesis
      by (cases r) (auto simp: accounted_def dest: reserve_taken reserve_refused split: if_splits)
  qed
next
  case (OpCommit now)
  with assms commit_law show ?thesis
    by (auto simp: accounted_def spec_commit_def split: option.splits)
next
  case OpCancel
  with assms cancel_law show ?thesis
    by (auto simp: accounted_def spec_drop_def split: option.splits)
next
  case (OpAcquire u)
  show ?thesis
  proof (cases "acq u (cl_cell k)")
    case (Pair r c)
    with OpAcquire assms show ?thesis
      by (cases r) (auto simp: accounted_def dest: acquire_taken acquire_refused split: if_splits)
  qed
next
  case OpRelease
  with assms release_law [of "cl_cell k"] show ?thesis
    by (auto simp: accounted_def spec_drop_def split: nat.splits)
qed

lemma run_accounted:
  "accounted view k \<Longrightarrow> accounted view (fold (client_step rsv cmt cnl acq rel) ops k)"
  by (induction ops arbitrary: k) (auto intro: step_accounted)

end

end
