(* ===== verification/Buffer_Ref.thy ===== *)
theory Buffer_Ref
  imports Buffer_Metadata Lease_Spec
begin

text \<open>
  \<^verbatim>\<open>buffer_ref.hpp\<close> and \<^verbatim>\<open>buffer_ref.cpp\<close>: the operations of publisher and subscriber on one
  metadata cell, as whole calls that no other thread interleaves. Each operation is first a
  function on the cell (\<open>_cell\<close>) and then the C++ function, which goes through the mapping
  and may be given a null one. The interleaved behaviour is in theory Lease_Protocol.
\<close>

definition kGracePeriodUs :: u64 where
  "kGracePeriodUs = 100000"

definition block :: "mapping option \<Rightarrow> nat option" where
  "block m = map_option mp_addr m"

section \<open>Reads\<close>

definition current_uid :: "mapping option \<Rightarrow> shm \<Rightarrow> u64 option" where
  "current_uid m sh = (case block m of None \<Rightarrow> None | Some a \<Rightarrow> Some (bm_uid (load_meta sh a)))"

definition current_refcount :: "mapping option \<Rightarrow> shm \<Rightarrow> u32 option" where
  "current_refcount m sh =
     (case block m of None \<Rightarrow> None | Some a \<Rightarrow> Some (bm_refcount (load_meta sh a)))"

definition current_publish_timestamp_us :: "mapping option \<Rightarrow> shm \<Rightarrow> u64 option" where
  "current_publish_timestamp_us m sh =
     (case block m of None \<Rightarrow> None | Some a \<Rightarrow> Some (bm_timestamp (load_meta sh a)))"

section \<open>Publisher side\<close>

text \<open>The grace test of \<^verbatim>\<open>reserve_for_publish\<close>, with its unsigned subtraction.\<close>

definition in_grace :: "u64 \<Rightarrow> u64 \<Rightarrow> bool" where
  "in_grace now published_at \<longleftrightarrow>
     published_at \<noteq> 0 \<and> (now < published_at \<or> now - published_at < kGracePeriodUs)"

definition reserve_cell :: "u64 \<Rightarrow> block_metadata \<Rightarrow> u64 option \<times> block_metadata" where
  "reserve_cell now m =
     (if bm_refcount m \<noteq> 0 then (None, m)
      else if in_grace now (bm_timestamp m) then (None, m)
      else let m1 = m\<lparr>bm_refcount := 1\<rparr>; current = bm_uid m1
      in if current = u64_max then (None, m1\<lparr>bm_refcount := 0\<rparr>)
      else (Some (current + 1), m1\<lparr>bm_uid := current + 1, bm_timestamp := 0\<rparr>))"

definition release_reservation_cell ::
    "u64 \<Rightarrow> u64 \<Rightarrow> bool \<Rightarrow> block_metadata \<Rightarrow> bool \<times> block_metadata" where
  "release_reservation_cell now uid published m =
     (if bm_uid m \<noteq> uid then (False, m)
      else let m1 = (if published then m\<lparr>bm_timestamp := now\<rparr> else m);
               previous = bm_refcount m1;
               m2 = m1\<lparr>bm_refcount := previous - 1\<rparr>
      in if previous = 0 then (False, m2\<lparr>bm_refcount := 0\<rparr>) else (True, m2))"

record publisher_reservation =
  pr_mapping :: "mapping option"
  pr_uid :: u64

definition reserve_for_publish ::
    "u64 \<Rightarrow> mapping option \<Rightarrow> shm \<Rightarrow> publisher_reservation option \<times> shm" where
  "reserve_for_publish now m sh =
     (case block m of
        None \<Rightarrow> (None, sh)
      | Some a \<Rightarrow>
          (case reserve_cell now (load_meta sh a) of
             (None, c) \<Rightarrow> (None, store_meta a c sh)
           | (Some u, c) \<Rightarrow> (Some \<lparr>pr_mapping = m, pr_uid = u\<rparr>, store_meta a c sh)))"

definition release_publisher_reservation ::
    "u64 \<Rightarrow> mapping option \<Rightarrow> u64 \<Rightarrow> bool \<Rightarrow> shm \<Rightarrow> bool \<times> shm" where
  "release_publisher_reservation now m uid published sh =
     (case block m of
        None \<Rightarrow> (False, sh)
      | Some a \<Rightarrow>
          (case release_reservation_cell now uid published (load_meta sh a) of
             (ok, c) \<Rightarrow> (ok, store_meta a c sh)))"

definition commit_publish :: "u64 \<Rightarrow> mapping option \<Rightarrow> u64 \<Rightarrow> shm \<Rightarrow> bool \<times> shm" where
  "commit_publish now m uid sh = release_publisher_reservation now m uid True sh"

definition cancel_publish :: "mapping option \<Rightarrow> u64 \<Rightarrow> shm \<Rightarrow> bool \<times> shm" where
  "cancel_publish m uid sh = release_publisher_reservation 0 m uid False sh"

section \<open>Subscriber side\<close>

text \<open>
  Without interference the compare-exchange loop leaves at its first iteration and the
  second uid check repeats the first one.
\<close>

definition acquire_cell :: "u64 \<Rightarrow> block_metadata \<Rightarrow> bool \<times> block_metadata" where
  "acquire_cell uid m =
     (if bm_uid m \<noteq> uid then (False, m)
      else if bm_refcount m = u32_max then (False, m)
      else let m1 = m\<lparr>bm_refcount := bm_refcount m + 1\<rparr>
      in if bm_uid m1 \<noteq> uid then (False, m1\<lparr>bm_refcount := bm_refcount m1 - 1\<rparr>)
      else (True, m1))"

definition release_cell :: "block_metadata \<Rightarrow> block_metadata" where
  "release_cell m =
     (let previous = bm_refcount m; m1 = m\<lparr>bm_refcount := previous - 1\<rparr>
      in if previous = 0 then m1\<lparr>bm_refcount := 0\<rparr> else m1)"

text \<open>
  A \<^verbatim>\<open>BufferRef\<close>: \<open>br_block\<close> is null exactly when the reference is not valid.
\<close>

record buffer_ref =
  br_mapping :: "mapping option"
  br_block :: "nat option"
  br_uid :: u64

definition BufferRef_null :: buffer_ref where
  "BufferRef_null = \<lparr>br_mapping = None, br_block = None, br_uid = 0\<rparr>"

definition br_valid :: "buffer_ref \<Rightarrow> bool" where
  "br_valid r \<longleftrightarrow> br_block r \<noteq> None"

definition acquire :: "mapping option \<Rightarrow> u64 \<Rightarrow> shm \<Rightarrow> buffer_ref \<times> shm" where
  "acquire m uid sh =
     (case block m of
        None \<Rightarrow> (BufferRef_null, sh)
      | Some a \<Rightarrow>
          (case acquire_cell uid (load_meta sh a) of
             (False, c) \<Rightarrow> (BufferRef_null, store_meta a c sh)
           | (True, c) \<Rightarrow> (\<lparr>br_mapping = m, br_block = Some a, br_uid = uid\<rparr>, store_meta a c sh)))"

definition br_release :: "buffer_ref \<Rightarrow> shm \<Rightarrow> buffer_ref \<times> shm" where
  "br_release r sh =
     (case br_block r of
        None \<Rightarrow> (r, sh)
      | Some a \<Rightarrow> (\<lparr>br_mapping = None, br_block = None, br_uid = 0\<rparr>,
                   store_meta a (release_cell (load_meta sh a)) sh))"

text \<open>
  Move assignment onto a distinct object: the target releases first, the source is left
  without block. Move construction is move assignment onto an empty target.
\<close>

definition br_move_assign :: "buffer_ref \<Rightarrow> buffer_ref \<Rightarrow> shm \<Rightarrow> (buffer_ref \<times> buffer_ref) \<times> shm" where
  "br_move_assign this other sh =
     (let (_, sh') = br_release this sh
      in ((\<lparr>br_mapping = br_mapping other, br_block = br_block other, br_uid = br_uid other\<rparr>,
           other\<lparr>br_mapping := None, br_block := None, br_uid := 0\<rparr>), sh'))"

section \<open>Facts about the cell operations\<close>

lemmas cell_op_defs = reserve_cell_def release_reservation_cell_def acquire_cell_def
  release_cell_def Let_def

lemma reserve_cell_Some_iff:
  "fst (reserve_cell now m) = Some u \<longleftrightarrow>
     bm_refcount m = 0 \<and> \<not> in_grace now (bm_timestamp m) \<and> bm_uid m \<noteq> u64_max \<and> u = bm_uid m + 1"
  by (auto simp: cell_op_defs)

lemma reserve_cell_SomeD:
  "reserve_cell now m = (Some u, m') \<Longrightarrow>
     m' = \<lparr>bm_uid = u, bm_refcount = 1, bm_timestamp = 0\<rparr> \<and> bm_refcount m = 0
     \<and> \<not> in_grace now (bm_timestamp m) \<and> bm_uid m \<noteq> u64_max \<and> u = bm_uid m + 1"
  by (cases m) (auto simp: cell_op_defs split: if_splits)

text \<open>A refused reservation leaves the cell as it was, the exhausted generation included.\<close>

lemma reserve_cell_NoneD: "reserve_cell now m = (None, m') \<Longrightarrow> m' = m"
  by (cases m) (auto simp: cell_op_defs split: if_splits)

lemma release_reservation_cell_ok:
  assumes "bm_uid m = u" and "bm_refcount m \<noteq> 0"
  shows "release_reservation_cell now u pub m =
    (True, m\<lparr>bm_refcount := bm_refcount m - 1, bm_timestamp := if pub then now else bm_timestamp m\<rparr>)"
  using assms by (cases m) (auto simp: cell_op_defs)

lemma release_reservation_cell_stale:
  "bm_uid m \<noteq> u \<Longrightarrow> release_reservation_cell now u pub m = (False, m)"
  by (simp add: cell_op_defs)

lemma release_reservation_cell_True:
  "fst (release_reservation_cell now u pub m) \<longleftrightarrow> bm_uid m = u \<and> bm_refcount m \<noteq> 0"
  by (auto simp: cell_op_defs)

lemma acquire_cell_eq:
  "acquire_cell u m =
     (if bm_uid m = u \<and> bm_refcount m \<noteq> u32_max
      then (True, m\<lparr>bm_refcount := bm_refcount m + 1\<rparr>) else (False, m))"
  by (auto simp: cell_op_defs)

lemma release_cell_held:
  "bm_refcount m \<noteq> 0 \<Longrightarrow> release_cell m = m\<lparr>bm_refcount := bm_refcount m - 1\<rparr>"
  by (simp add: cell_op_defs)

section \<open>Refinement of the abstract lease\<close>

definition lease_of :: "block_metadata \<Rightarrow> lease" where
  "lease_of m = \<lparr>ls_gen = unat (bm_uid m), ls_holders = unat (bm_refcount m),
     ls_published = (if bm_timestamp m = 0 then None else Some (unat (bm_timestamp m)))\<rparr>"

lemma in_grace_unat:
  "in_grace now t \<longleftrightarrow> t \<noteq> 0 \<and> unat now < unat t + 100000"
proof (cases "t \<le> now")
  case True
  then have "unat (now - t) = unat now - unat t" by (rule unat_sub)
  with True show ?thesis
    by (auto simp: in_grace_def kGracePeriodUs_def word_less_nat_alt word_le_nat_alt)
next
  case False
  then show ?thesis
    by (auto simp: in_grace_def word_less_nat_alt word_le_nat_alt)
qed

lemma refine_reserve:
  "(map_option unat (fst (reserve_cell now m)), lease_of (snd (reserve_cell now m)))
     = spec_reserve (unat now) (lease_of m)"
  using u64_max_iff [of "bm_uid m"]
  by (auto simp: reserve_cell_def spec_reserve_def lease_of_def in_grace_unat Let_def
      unat_eq_zero)

lemma refine_commit:
  assumes "bm_uid m = u" "bm_refcount m \<noteq> 0"
  shows "lease_of (snd (release_reservation_cell now u True m)) = spec_commit (unat now) (lease_of m)"
  using assms by (auto simp: release_reservation_cell_ok lease_of_def spec_commit_def unat_eq_zero)

lemma refine_cancel:
  assumes "bm_uid m = u" "bm_refcount m \<noteq> 0"
  shows "lease_of (snd (release_reservation_cell now u False m)) = spec_drop (lease_of m)"
  using assms by (auto simp: release_reservation_cell_ok lease_of_def spec_drop_def)

lemma refine_acquire:
  "(fst (acquire_cell u m), lease_of (snd (acquire_cell u m))) = spec_acquire (unat u) (lease_of m)"
  using u32_max_iff [of "bm_refcount m"]
  by (auto simp: acquire_cell_eq spec_acquire_def lease_of_def word_unat_eq_iff)

lemma refine_release:
  "lease_of (release_cell m) = spec_drop (lease_of m)"
  by (cases "bm_refcount m = 0") (auto simp: release_cell_def Let_def lease_of_def spec_drop_def)

interpretation cell: lease_cell reserve_cell
    "\<lambda>now u. release_reservation_cell now u True" "\<lambda>u. release_reservation_cell 0 u False"
    acquire_cell release_cell lease_of
proof
  fix now c
  show "(map_option unat (fst (reserve_cell now c)), lease_of (snd (reserve_cell now c)))
      = spec_reserve (unat now) (lease_of c)"
    by (rule refine_reserve)
next
  fix c and u now :: u64
  assume "ls_gen (lease_of c) = unat u" "0 < ls_holders (lease_of c)"
  then have h: "bm_uid c = u" "bm_refcount c \<noteq> 0"
    by (auto simp: lease_of_def word_unat_eq_iff)
  show "fst (release_reservation_cell now u True c) \<and>
      lease_of (snd (release_reservation_cell now u True c)) = spec_commit (unat now) (lease_of c)"
    using h by (simp add: refine_commit release_reservation_cell_True)
  show "fst (release_reservation_cell 0 u False c) \<and>
      lease_of (snd (release_reservation_cell 0 u False c)) = spec_drop (lease_of c)"
    using h by (simp add: refine_cancel release_reservation_cell_True)
qed (simp_all add: refine_acquire refine_release)

section \<open>Properties\<close>



text \<open>
  The books balance: whatever sequence of reservations, commits, cancellations,
  acquisitions and releases clients make, refused ones included, the reference count of the
  cell equals the number of references held plus one for an open reservation, and an open
  reservation is always of the current generation.
\<close>

theorem reference_count_balances:
  fixes u :: u64
  defines "run ops \<equiv> fold (client_step reserve_cell (\<lambda>now u. release_reservation_cell now u True)
      (\<lambda>u. release_reservation_cell 0 u False) acquire_cell release_cell) ops
      \<lparr>cl_cell = BlockMetadata\<lparr>bm_uid := u\<rparr>, cl_reservation = None, cl_readers = 0\<rparr>"
  shows "unat (bm_refcount (cl_cell (run ops))) = cl_readers (run ops) + (if cl_reservation (run ops) = None then 0 else 1)
    \<and> (cl_reservation (run ops) = None \<or> cl_reservation (run ops) = Some (bm_uid (cl_cell (run ops))))"
proof -
  have "accounted lease_of \<lparr>cl_cell = BlockMetadata\<lparr>bm_uid := u\<rparr>, cl_reservation = None, cl_readers = 0\<rparr>"
    by (simp add: accounted_def lease_of_def BlockMetadata_def)
  from cell.run_accounted [OF this, of ops] have "accounted lease_of (run ops)" by (simp add: run_def)
  then show ?thesis
    by (cases "cl_reservation (run ops)") (auto simp: accounted_def lease_of_def word_unat_eq_iff)
qed

text \<open>
  The grace period, exactly: once the only holder committed a publication at a non-zero
  time \<open>t\<close>, the block can be reserved again at time \<open>now\<close> if and only if \<open>now\<close> is at least 100
  milliseconds past \<open>t\<close>, also when the clock reads earlier than \<open>t\<close>.
\<close>

theorem grace_period_is_exact:
  assumes "bm_uid (load_meta sh (mp_addr mp)) = u" "bm_refcount (load_meta sh (mp_addr mp)) = 1" "u \<noteq> u64_max" "t \<noteq> 0"
  shows "fst (reserve_for_publish now (Some mp) (snd (commit_publish t (Some mp) u sh))) \<noteq> None
    \<longleftrightarrow> unat t + 100000 \<le> unat now"
proof -
  let ?c = "load_meta sh (mp_addr mp)"
  have "fst (reserve_cell now (snd (release_reservation_cell t u True ?c))) \<noteq> None \<longleftrightarrow> unat t + 100000 \<le> unat now"
  proof (rule cell.commit_then_rest)
    show "ls_gen (lease_of ?c) = unat u" "ls_holders (lease_of ?c) = 1" using assms by (simp_all add: lease_of_def)
    show "0 < unat t" using assms(4) by (simp add: unat_gt_0)
    show "ls_gen (lease_of ?c) < 2 ^ 64 - 1"
      using assms(1,3) u64_max_iff [of u] unat_bound64 [of u] by (simp add: lease_of_def)
  qed
  then show ?thesis
    by (auto simp: reserve_for_publish_def commit_publish_def release_publisher_reservation_def block_def
        split: prod.splits option.splits)
qed

definition sample_mapping :: mapping where
  "sample_mapping = \<lparr>mp_this = 1, mp_name = ''/m'', mp_size = 24, mp_addr = 0\<rparr>"

theorem grace_period_is_exact_witness:
  "fst (reserve_for_publish 600000 (Some sample_mapping) (snd (commit_publish 500000 (Some sample_mapping) 3
     (store_meta 0 \<lparr>bm_uid = 3, bm_refcount = 1, bm_timestamp = 0\<rparr> empty_shm)))) \<noteq> None
   \<and> fst (reserve_for_publish 599999 (Some sample_mapping) (snd (commit_publish 500000 (Some sample_mapping) 3
     (store_meta 0 \<lparr>bm_uid = 3, bm_refcount = 1, bm_timestamp = 0\<rparr> empty_shm)))) = None"
proof -
  let ?sh = "store_meta 0 \<lparr>bm_uid = 3, bm_refcount = 1, bm_timestamp = 0\<rparr> empty_shm"
  have h: "bm_uid (load_meta ?sh (mp_addr sample_mapping)) = 3" "bm_refcount (load_meta ?sh (mp_addr sample_mapping)) = 1"
    by (simp_all add: sample_mapping_def)
  have "unat (500000 :: u64) + 100000 \<le> unat (600000 :: u64)" "\<not> unat (500000 :: u64) + 100000 \<le> unat (599999 :: u64)"
    by simp_all
  with grace_period_is_exact [OF h, of 500000 600000] grace_period_is_exact [OF h, of 500000 599999] show ?thesis by simp
qed

text \<open>
  A reference that was acquired is released exactly once: releasing it, or moving it to
  another object and releasing that, returns the cell to what it was before the acquisition,
  and releasing the emptied objects afterwards changes nothing.
\<close>

theorem acquire_release_roundtrip:
  assumes "acquire m u sh = (r, sh1)" "br_valid r"
  shows "snd (br_release r sh1) = sh
    \<and> snd (br_release (fst (br_release r sh1)) sh) = sh
    \<and> (let ((target, source), sh2) = br_move_assign BufferRef_null r sh1
       in sh2 = sh1 \<and> snd (br_release source sh2) = sh2 \<and> snd (br_release target sh2) = sh)"
proof -
  from assms obtain mp where m: "m = Some mp"
    by (cases m) (auto simp: acquire_def block_def br_valid_def BufferRef_null_def)
  obtain ok c where a: "acquire_cell u (load_meta sh (mp_addr mp)) = (ok, c)" by fastforce
  with assms m have ok: "ok" by (cases ok) (auto simp: acquire_def block_def br_valid_def BufferRef_null_def)
  have c: "c = (load_meta sh (mp_addr mp))\<lparr>bm_refcount := bm_refcount (load_meta sh (mp_addr mp)) + 1\<rparr>"
    "bm_refcount (load_meta sh (mp_addr mp)) \<noteq> u32_max"
    using a ok by (auto simp: acquire_cell_eq split: if_splits)
  have r: "r = \<lparr>br_mapping = m, br_block = Some (mp_addr mp), br_uid = u\<rparr>" "sh1 = store_meta (mp_addr mp) c sh"
    using assms m a ok by (auto simp: acquire_def block_def)
  have "bm_refcount c \<noteq> 0" using c by (metis (no_types) block_metadata.ext_inject block_metadata.surjective
      block_metadata.update_convs(2) eq_neg_iff_add_eq_0 )
  then have "release_cell c = load_meta sh (mp_addr mp)"
    using c by (simp add: release_cell_held)
  then have "snd (br_release r sh1) = sh" using r by (simp add: br_release_def)
  then show ?thesis using r by (auto simp: br_move_assign_def br_release_def BufferRef_null_def)
qed

theorem acquire_release_roundtrip_witness:
  "snd (br_release (fst (acquire (Some sample_mapping) 3 (store_meta 0 \<lparr>bm_uid = 3, bm_refcount = 2, bm_timestamp = 9\<rparr> empty_shm)))
      (snd (acquire (Some sample_mapping) 3 (store_meta 0 \<lparr>bm_uid = 3, bm_refcount = 2, bm_timestamp = 9\<rparr> empty_shm))))
    = store_meta 0 \<lparr>bm_uid = 3, bm_refcount = 2, bm_timestamp = 9\<rparr> empty_shm"
proof -
  let ?sh = "store_meta 0 \<lparr>bm_uid = 3, bm_refcount = 2, bm_timestamp = 9\<rparr> empty_shm"
  obtain r sh1 where a: "acquire (Some sample_mapping) 3 ?sh = (r, sh1)" by fastforce
  moreover have "br_valid r"
    using a by (auto simp: acquire_def block_def sample_mapping_def acquire_cell_eq br_valid_def split: prod.splits bool.splits if_splits)
  ultimately show ?thesis using acquire_release_roundtrip [OF a] by simp
qed

end
