(* ===== verification/Lease_Protocol.thy ===== *)
theory Lease_Protocol
  imports Buffer_Ref
begin

text \<open>
  The buffer metadata protocol under interleaving. Publishers and subscribers of several
  processes run the functions of \<^verbatim>\<open>buffer_ref.cpp\<close> on one shared cell; each atomic access
  (load, store, compare-exchange, fetch_sub) is one step and any other actor may move
  between two of them. An actor's program counter says which access comes next and carries
  the locals that survive. Steps are sequentially consistent, which the acquire/release
  orders of the code do not exceed.
\<close>

section \<open>Actors\<close>

datatype (plugins only: code size) pc =
    Idle
  | RsvChecked u64              \<comment> \<open>\<^verbatim>\<open>reserve_for_publish\<close>: refcount was 0; carries \<open>now\<close>\<close>
  | RsvGraceOk                  \<comment> \<open>grace test passed\<close>
  | RsvClaimed                  \<comment> \<open>compare-exchange 0 to 1 done\<close>
  | RsvOverflow                 \<comment> \<open>generation exhausted, about to store refcount 0\<close>
  | RsvUidLoaded u64            \<comment> \<open>current uid loaded\<close>
  | RsvUidStored u64            \<comment> \<open>next uid stored\<close>
  | Reserved u64                \<comment> \<open>reservation returned to the caller\<close>
  | RelChecked u64 bool         \<comment> \<open>\<^verbatim>\<open>release_publisher_reservation\<close>: uid matched\<close>
  | RelStamped u64              \<comment> \<open>timestamp stored if published\<close>
  | RelUnderflow                \<comment> \<open>fetch_sub saw 0, about to store 0\<close>
  | Quarantined u64             \<comment> \<open>commit or cancel refused: the caller keeps the reservation\<close>
  | AcqMatched u64              \<comment> \<open>\<^verbatim>\<open>acquire\<close>: first uid check passed\<close>
  | AcqObserved u64 u32         \<comment> \<open>in the compare-exchange loop, with \<open>observed_ref\<close>\<close>
  | AcqCounted u64              \<comment> \<open>refcount incremented\<close>
  | AcqBackout                  \<comment> \<open>second uid check failed, about to decrement\<close>
  | Held u64                    \<comment> \<open>a valid \<^verbatim>\<open>BufferRef\<close> returned\<close>
  | RefUnderflow                \<comment> \<open>\<^verbatim>\<open>BufferRef::release\<close>: fetch_sub saw 0\<close>

inductive actor_step :: "block_metadata \<Rightarrow> pc \<Rightarrow> block_metadata \<Rightarrow> pc \<Rightarrow> bool" where
  rsv_busy: "bm_refcount m \<noteq> 0 \<Longrightarrow> actor_step m Idle m Idle"
| rsv_check: "bm_refcount m = 0 \<Longrightarrow> actor_step m Idle m (RsvChecked now)"
| rsv_grace: "in_grace now (bm_timestamp m) \<Longrightarrow> actor_step m (RsvChecked now) m Idle"
| rsv_grace_ok: "\<not> in_grace now (bm_timestamp m) \<Longrightarrow> actor_step m (RsvChecked now) m RsvGraceOk"
| rsv_cas: "bm_refcount m = 0 \<Longrightarrow> actor_step m RsvGraceOk (m\<lparr>bm_refcount := 1\<rparr>) RsvClaimed"
| rsv_cas_fail: "bm_refcount m \<noteq> 0 \<Longrightarrow> actor_step m RsvGraceOk m Idle"
| rsv_max: "bm_uid m = u64_max \<Longrightarrow> actor_step m RsvClaimed m RsvOverflow"
| rsv_overflow: "actor_step m RsvOverflow (m\<lparr>bm_refcount := 0\<rparr>) Idle"
| rsv_load: "bm_uid m \<noteq> u64_max \<Longrightarrow> actor_step m RsvClaimed m (RsvUidLoaded (bm_uid m))"
| rsv_store: "actor_step m (RsvUidLoaded u) (m\<lparr>bm_uid := u + 1\<rparr>) (RsvUidStored (u + 1))"
| rsv_done: "actor_step m (RsvUidStored u) (m\<lparr>bm_timestamp := 0\<rparr>) (Reserved u)"
| rel_check: "bm_uid m = u \<Longrightarrow> actor_step m (Reserved u) m (RelChecked u published)"
| rel_refuse: "bm_uid m \<noteq> u \<Longrightarrow> actor_step m (Reserved u) m (Quarantined u)"
| rel_quarantine: "actor_step m (Reserved u) m (Quarantined u)"
| rel_stamp: "actor_step m (RelChecked u True) (m\<lparr>bm_timestamp := now\<rparr>) (RelStamped u)"
| rel_nostamp: "actor_step m (RelChecked u False) m (RelStamped u)"
| rel_sub: "bm_refcount m \<noteq> 0 \<Longrightarrow>
     actor_step m (RelStamped u) (m\<lparr>bm_refcount := bm_refcount m - 1\<rparr>) Idle"
| rel_sub_zero: "bm_refcount m = 0 \<Longrightarrow>
     actor_step m (RelStamped u) (m\<lparr>bm_refcount := bm_refcount m - 1\<rparr>) RelUnderflow"
| rel_fix: "actor_step m RelUnderflow (m\<lparr>bm_refcount := 0\<rparr>) Idle"
| acq_stale: "bm_uid m \<noteq> u \<Longrightarrow> actor_step m Idle m Idle"
| acq_match: "bm_uid m = u \<Longrightarrow> actor_step m Idle m (AcqMatched u)"
| acq_observe: "actor_step m (AcqMatched u) m (AcqObserved u (bm_refcount m))"
| acq_overflow: "r = u32_max \<Longrightarrow> actor_step m (AcqObserved u r) m Idle"
| acq_cas: "r \<noteq> u32_max \<Longrightarrow> bm_refcount m = r \<Longrightarrow>
     actor_step m (AcqObserved u r) (m\<lparr>bm_refcount := r + 1\<rparr>) (AcqCounted u)"
| acq_retry: "r \<noteq> u32_max \<Longrightarrow> actor_step m (AcqObserved u r) m (AcqObserved u (bm_refcount m))"
| acq_ok: "bm_uid m = u \<Longrightarrow> actor_step m (AcqCounted u) m (Held u)"
| acq_mismatch: "bm_uid m \<noteq> u \<Longrightarrow> actor_step m (AcqCounted u) m AcqBackout"
| acq_backout: "actor_step m AcqBackout (m\<lparr>bm_refcount := bm_refcount m - 1\<rparr>) Idle"
| ref_sub: "bm_refcount m \<noteq> 0 \<Longrightarrow>
     actor_step m (Held u) (m\<lparr>bm_refcount := bm_refcount m - 1\<rparr>) Idle"
| ref_sub_zero: "bm_refcount m = 0 \<Longrightarrow>
     actor_step m (Held u) (m\<lparr>bm_refcount := bm_refcount m - 1\<rparr>) RefUnderflow"
| ref_fix: "actor_step m RefUnderflow (m\<lparr>bm_refcount := 0\<rparr>) Idle"

section \<open>The shared system\<close>

record proto =
  cell :: block_metadata
  pcs :: "pc list"

inductive proto_step :: "nat \<Rightarrow> proto \<Rightarrow> proto \<Rightarrow> bool" where
  move: "i < length (pcs s) \<Longrightarrow> actor_step (cell s) (pcs s ! i) m p \<Longrightarrow>
     proto_step i s \<lparr>cell = m, pcs = (pcs s)[i := p]\<rparr>"

text \<open>A schedule: the actors in the order in which they moved.\<close>

inductive runs :: "nat list \<Rightarrow> proto \<Rightarrow> proto \<Rightarrow> bool" where
  runs_nil: "runs [] s s"
| runs_snoc: "runs is s t \<Longrightarrow> proto_step i t u \<Longrightarrow> runs (is @ [i]) s u"

inductive_simps proto_step_iff: "proto_step i s t"
inductive_cases actor_stepE: "actor_step m p m' p'"

definition start :: "nat \<Rightarrow> block_metadata \<Rightarrow> proto" where
  "start n m = \<lparr>cell = m, pcs = replicate n Idle\<rparr>"

text \<open>Who is counted in \<^verbatim>\<open>refcount\<close>, who of them is a publisher, who is about to bump the uid.\<close>

fun counted :: "pc \<Rightarrow> bool" where
  "counted RsvClaimed = True" | "counted RsvOverflow = True" | "counted (RsvUidLoaded u) = True"
| "counted (RsvUidStored u) = True" | "counted (Reserved u) = True" | "counted (RelChecked u b) = True"
| "counted (RelStamped u) = True" | "counted (Quarantined u) = True" | "counted (AcqCounted u) = True"
| "counted AcqBackout = True" | "counted (Held u) = True" | "counted _ = False"

fun publishing :: "pc \<Rightarrow> bool" where
  "publishing RsvClaimed = True" | "publishing RsvOverflow = True"
| "publishing (RsvUidLoaded u) = True" | "publishing (RsvUidStored u) = True"
| "publishing (Reserved u) = True" | "publishing (RelChecked u b) = True"
| "publishing (RelStamped u) = True" | "publishing (Quarantined u) = True" | "publishing _ = False"

fun claiming :: "pc \<Rightarrow> bool" where
  "claiming RsvClaimed = True" | "claiming (RsvUidLoaded u) = True" | "claiming _ = False"

text \<open>The generation an actor's program counter promises is the cell's current one.\<close>

fun owns_uid :: "pc \<Rightarrow> u64 \<Rightarrow> bool" where
  "owns_uid (RsvUidLoaded u) v \<longleftrightarrow> v = u \<and> u \<noteq> u64_max"
| "owns_uid (RsvUidStored u) v \<longleftrightarrow> v = u" | "owns_uid (Reserved u) v \<longleftrightarrow> v = u"
| "owns_uid (RelChecked u b) v \<longleftrightarrow> v = u" | "owns_uid (RelStamped u) v \<longleftrightarrow> v = u"
| "owns_uid (Quarantined u) v \<longleftrightarrow> v = u" | "owns_uid _ v \<longleftrightarrow> True"

definition refcount_exact :: "proto \<Rightarrow> bool" where
  "refcount_exact s \<longleftrightarrow> unat (bm_refcount (cell s)) = length (filter counted (pcs s))"

definition one_publisher :: "proto \<Rightarrow> bool" where
  "one_publisher s \<longleftrightarrow> length (filter publishing (pcs s)) \<le> 1"

definition no_wreck :: "proto \<Rightarrow> bool" where
  "no_wreck s \<longleftrightarrow> (\<forall>p \<in> set (pcs s). p \<noteq> RsvOverflow \<and> p \<noteq> RelUnderflow \<and> p \<noteq> RefUnderflow)"

definition uids_agree :: "proto \<Rightarrow> bool" where
  "uids_agree s \<longleftrightarrow> (\<forall>p \<in> set (pcs s). owns_uid p (bm_uid (cell s)))"

definition held_bound :: "proto \<Rightarrow> bool" where
  "held_bound s \<longleftrightarrow> (\<forall>u. Held u \<in> set (pcs s) \<longrightarrow> bm_uid (cell s) = u \<or>
     (bm_uid (cell s) = u + 1 \<and> (\<forall>p \<in> set (pcs s). \<not> claiming p)))"

definition proto_inv :: "proto \<Rightarrow> bool" where
  "proto_inv s \<longleftrightarrow> refcount_exact s \<and> one_publisher s \<and> no_wreck s \<and> uids_agree s \<and> held_bound s"

section \<open>The invariant\<close>

lemma publishing_counted: "publishing p \<Longrightarrow> counted p"
  by (cases p) auto

lemma claiming_publishing: "claiming p \<Longrightarrow> publishing p"
  by (cases p) auto

lemma owns_uid_free: "\<not> publishing p \<Longrightarrow> owns_uid p v"
  by (cases p) auto

lemma filter_unique:
  "length (filter P xs) \<le> 1 \<Longrightarrow> i < length xs \<Longrightarrow> P (xs ! i) \<Longrightarrow> j < length xs \<Longrightarrow> P (xs ! j) \<Longrightarrow> j = i"
proof (induction xs arbitrary: i j)
  case Nil
  then show ?case by simp
next
  case (Cons x xs)
  show ?case
  proof (cases "P x")
    case True
    with Cons.prems have "filter P xs = []" by simp
    then have none: "\<And>k. k < length xs \<Longrightarrow> \<not> P (xs ! k)" by (auto simp: filter_empty_conv)
    show ?thesis using Cons.prems none by (cases i; cases j) auto
  next
    case False
    with Cons show ?thesis by (cases i; cases j) auto
  qed
qed

lemma filter_update_other:
  "\<not> P (xs ! i) \<Longrightarrow> \<not> P y \<Longrightarrow> i < length xs \<Longrightarrow> length (filter P (xs[i := y])) = length (filter P xs)"
  using filter_update_length [of i xs P y] by simp

lemma in_set_updateD:
  assumes "x \<in> set (xs[i := y])" "x \<noteq> y"
  shows "\<exists>j. j < length xs \<and> j \<noteq> i \<and> xs ! j = x"
proof -
  from assms(1) obtain j where "j < length xs" "xs[i := y] ! j = x"
    by (auto simp: in_set_conv_nth)
  with assms(2) show ?thesis by (cases "j = i") auto
qed

text \<open>How one access moves the count, the generation and the roles.\<close>

lemma actor_count:
  assumes "actor_step m p m' p'" "p \<noteq> RsvOverflow" "p \<noteq> RelUnderflow" "p \<noteq> RefUnderflow"
    and "counted p \<Longrightarrow> bm_refcount m \<noteq> 0"
  shows "unat (bm_refcount m') + (if counted p then 1 else 0)
       = unat (bm_refcount m) + (if counted p' then 1 else 0)"
  using assms
  by (induction rule: actor_step.induct)
     (auto simp: unat_eq_zero [symmetric] simp del: unat_eq_zero)

lemma actor_no_wreck:
  assumes "actor_step m p m' p'" "bm_uid m \<noteq> u64_max" "counted p \<Longrightarrow> bm_refcount m \<noteq> 0"
  shows "p' \<noteq> RsvOverflow \<and> p' \<noteq> RelUnderflow \<and> p' \<noteq> RefUnderflow"
  using assms by (induction rule: actor_step.induct) auto

lemma actor_publishing:
  assumes "actor_step m p m' p'" "publishing p'" "\<not> publishing p"
  shows "bm_refcount m = 0 \<and> p' = RsvClaimed \<and> bm_uid m' = bm_uid m"
  using assms by (induction rule: actor_step.induct) auto

lemma actor_uid:
  assumes "actor_step m p m' p'"
  shows "bm_uid m' = bm_uid m \<or> (\<exists>u. p = RsvUidLoaded u \<and> p' = RsvUidStored (u + 1) \<and> bm_uid m' = u + 1)"
  using assms by (induction rule: actor_step.induct) auto

lemma actor_owns:
  assumes "actor_step m p m' p'" "owns_uid p (bm_uid m)"
  shows "owns_uid p' (bm_uid m')"
  using assms by (induction rule: actor_step.induct) auto

lemma actor_held:
  assumes "actor_step m p m' (Held u)"
  shows "bm_uid m = u \<and> m' = m \<and> p = AcqCounted u"
  using assms by (auto elim: actor_step.cases)

lemma actor_claiming:
  assumes "actor_step m p m' p'" "claiming p'"
  shows "claiming p \<or> bm_refcount m = 0"
  using assms by (induction rule: actor_step.induct) auto

lemma counted_pos:
  "refcount_exact s \<Longrightarrow> i < length (pcs s) \<Longrightarrow> counted (pcs s ! i) \<Longrightarrow> bm_refcount (cell s) \<noteq> 0"
  using filter_length_pos [of i "pcs s" counted] by (auto simp: refcount_exact_def)

lemma refcount_zero_none:
  assumes "refcount_exact s" "bm_refcount (cell s) = 0" "p \<in> set (pcs s)"
  shows "\<not> counted p"
  using assms by (auto simp: refcount_exact_def filter_empty_conv dest: sym)

lemma refcount_exact_step:
  assumes "proto_step i s t" "refcount_exact s" "no_wreck s"
  shows "refcount_exact t"
proof -
  from assms(1) obtain m p where i: "i < length (pcs s)" and st: "actor_step (cell s) (pcs s ! i) m p"
    and t: "t = \<lparr>cell = m, pcs = (pcs s)[i := p]\<rparr>" by (auto simp: proto_step_iff)
  from assms(3) i have w: "pcs s ! i \<noteq> RsvOverflow" "pcs s ! i \<noteq> RelUnderflow" "pcs s ! i \<noteq> RefUnderflow"
    by (auto simp: no_wreck_def)
  have "unat (bm_refcount m) + (if counted (pcs s ! i) then 1 else 0)
      = unat (bm_refcount (cell s)) + (if counted p then 1 else 0)"
    using actor_count [OF st w] counted_pos [OF assms(2) i] by blast
  then show ?thesis
    using filter_update_length [OF i, of counted p] assms(2) by (simp add: refcount_exact_def t)
qed

lemma one_publisher_step:
  assumes "proto_step i s t" "refcount_exact s" "one_publisher s"
  shows "one_publisher t"
proof -
  from assms(1) obtain m p where i: "i < length (pcs s)" and st: "actor_step (cell s) (pcs s ! i) m p"
    and t: "t = \<lparr>cell = m, pcs = (pcs s)[i := p]\<rparr>" by (auto simp: proto_step_iff)
  have upd: "length (filter publishing ((pcs s)[i := p])) + (if publishing (pcs s ! i) then 1 else 0)
      = length (filter publishing (pcs s)) + (if publishing p then 1 else 0)"
    by (rule filter_update_length [OF i])
  show ?thesis
  proof (cases "publishing p \<and> \<not> publishing (pcs s ! i)")
    case True
    then have "bm_refcount (cell s) = 0" using actor_publishing [OF st] by blast
    then have "filter publishing (pcs s) = []"
      using refcount_zero_none [OF assms(2)] publishing_counted by (auto simp: filter_empty_conv)
    with upd show ?thesis by (simp add: one_publisher_def t split: if_splits)
  next
    case False
    with upd assms(3) show ?thesis by (auto simp: one_publisher_def t split: if_splits)
  qed
qed

lemma no_wreck_step:
  assumes "proto_step i s t" "refcount_exact s" "no_wreck s" "bm_uid (cell s) \<noteq> u64_max"
  shows "no_wreck t"
proof -
  from assms(1) obtain m p where i: "i < length (pcs s)" and st: "actor_step (cell s) (pcs s ! i) m p"
    and t: "t = \<lparr>cell = m, pcs = (pcs s)[i := p]\<rparr>" by (auto simp: proto_step_iff)
  have "p \<noteq> RsvOverflow \<and> p \<noteq> RelUnderflow \<and> p \<noteq> RefUnderflow"
    using actor_no_wreck [OF st assms(4)] counted_pos [OF assms(2) i] by blast
  with assms(3) show ?thesis
    using set_update_subset_insert [of "pcs s" i p] by (auto simp: no_wreck_def t)
qed

lemma others_not_publishing:
  assumes "one_publisher s" "i < length (pcs s)" "publishing (pcs s ! i)" "j < length (pcs s)" "j \<noteq> i"
  shows "\<not> publishing (pcs s ! j)"
  using assms filter_unique [of publishing "pcs s" i j] by (auto simp: one_publisher_def)

lemma uids_agree_step:
  assumes "proto_step i s t" "one_publisher s" "uids_agree s"
  shows "uids_agree t"
proof -
  from assms(1) obtain m p where i: "i < length (pcs s)" and st: "actor_step (cell s) (pcs s ! i) m p"
    and t: "t = \<lparr>cell = m, pcs = (pcs s)[i := p]\<rparr>" by (auto simp: proto_step_iff)
  have mine: "owns_uid p (bm_uid m)"
    using actor_owns [OF st] assms(3) i by (auto simp: uids_agree_def)
  have "owns_uid (pcs s ! j) (bm_uid m)" if j: "j < length (pcs s)" "j \<noteq> i" for j
  proof (cases "bm_uid m = bm_uid (cell s)")
    case True
    with assms(3) j show ?thesis by (auto simp: uids_agree_def)
  next
    case False
    with actor_uid [OF st] have "publishing (pcs s ! i)" by auto
    with others_not_publishing [OF assms(2) i _ j] show ?thesis by (simp add: owns_uid_free)
  qed
  with mine i show ?thesis
    by (auto simp: uids_agree_def t in_set_conv_nth nth_list_update split: if_splits)
qed

lemma held_bound_step:
  assumes "proto_step i s t" "refcount_exact s" "one_publisher s" "uids_agree s" "held_bound s"
  shows "held_bound t"
proof -
  from assms(1) obtain m p where i: "i < length (pcs s)" and st: "actor_step (cell s) (pcs s ! i) m p"
    and t: "t = \<lparr>cell = m, pcs = (pcs s)[i := p]\<rparr>" by (auto simp: proto_step_iff)
  have "bm_uid m = u \<or> (bm_uid m = u + 1 \<and> (\<forall>q \<in> set ((pcs s)[i := p]). \<not> claiming q))"
    if held: "Held u \<in> set ((pcs s)[i := p])" for u
  proof (cases "p = Held u")
    case True
    with actor_held st show ?thesis by blast
  next
    case False
    with held obtain j where j: "j < length (pcs s)" "j \<noteq> i" "pcs s ! j = Held u"
      using in_set_updateD by metis
    then have in_s: "Held u \<in> set (pcs s)" by (metis nth_mem)
    have rc: "bm_refcount (cell s) \<noteq> 0" using counted_pos [OF assms(2) j(1)] j(3) by simp
    have keep: "claiming p \<Longrightarrow> claiming (pcs s ! i)" using actor_claiming [OF st] rc by blast
    from assms(5) in_s consider (cur) "bm_uid (cell s) = u"
      | (nxt) "bm_uid (cell s) = u + 1" "\<forall>q \<in> set (pcs s). \<not> claiming q"
      by (auto simp: held_bound_def)
    then show ?thesis
    proof cases
      case nxt
      then have nc: "\<not> claiming (pcs s ! i)" "\<not> claiming p" using i keep by auto
      then have "bm_uid m = bm_uid (cell s)" using actor_uid [OF st] by auto
      with nxt nc show ?thesis
        using set_update_subset_insert [of "pcs s" i p] by auto
    next
      case cur
      show ?thesis
      proof (cases "bm_uid m = bm_uid (cell s)")
        case True
        with cur show ?thesis by simp
      next
        case False
        with actor_uid [OF st] obtain v where v: "pcs s ! i = RsvUidLoaded v" "p = RsvUidStored (v + 1)"
          "bm_uid m = v + 1" by auto
        have "owns_uid (pcs s ! i) (bm_uid (cell s))" using assms(4) i by (auto simp: uids_agree_def)
        with v cur have "bm_uid m = u + 1" by simp
        moreover have "\<not> claiming q" if "q \<in> set ((pcs s)[i := p])" for q
        proof (cases "q = p")
          case True
          then show ?thesis using v by simp
        next
          case False
          with that obtain k where k: "k < length (pcs s)" "k \<noteq> i" "q = pcs s ! k"
            using in_set_updateD by metis
          then show ?thesis
            using others_not_publishing [OF assms(3) i _ k(1,2)] v claiming_publishing by auto
        qed
        ultimately show ?thesis by blast
      qed
    qed
  qed
  then show ?thesis by (simp add: held_bound_def t)
qed

lemma proto_inv_step:
  assumes "proto_step i s t" "proto_inv s" "bm_uid (cell s) \<noteq> u64_max"
  shows "proto_inv t"
  using assms refcount_exact_step one_publisher_step no_wreck_step uids_agree_step held_bound_step
  unfolding proto_inv_def by blast

lemma uid_step_le:
  assumes "proto_step i s t" "proto_inv s"
  shows "unat (bm_uid (cell s)) \<le> unat (bm_uid (cell t)) \<and> unat (bm_uid (cell t)) \<le> Suc (unat (bm_uid (cell s)))"
proof -
  from assms(1) obtain m p where i: "i < length (pcs s)" and st: "actor_step (cell s) (pcs s ! i) m p"
    and t: "t = \<lparr>cell = m, pcs = (pcs s)[i := p]\<rparr>" by (auto simp: proto_step_iff)
  have "owns_uid (pcs s ! i) (bm_uid (cell s))"
    using assms(2) i by (auto simp: proto_inv_def uids_agree_def)
  with actor_uid [OF st] show ?thesis by (auto simp: t)
qed

section \<open>Runs\<close>

lemma proto_inv_start: "bm_refcount m = 0 \<Longrightarrow> proto_inv (start n m)"
  by (auto simp: start_def proto_inv_def refcount_exact_def one_publisher_def no_wreck_def
      uids_agree_def held_bound_def filter_empty_conv)

text \<open>
  A run of \<open>n\<close> steps can bump the generation at most \<open>n\<close> times; as long as that cannot reach
  the maximum, the invariant holds at its end.
\<close>

lemma runs_inv:
  assumes "runs is s t" "proto_inv s" "unat (bm_uid (cell s)) + length is < 2 ^ 64 - 1"
  shows "proto_inv t \<and> unat (bm_uid (cell t)) \<le> unat (bm_uid (cell s)) + length is"
  using assms
proof (induction rule: runs.induct)
  case (runs_nil s)
  then show ?case by simp
next
  case (runs_snoc "is" s t i u)
  then have IH: "proto_inv t" "unat (bm_uid (cell t)) \<le> unat (bm_uid (cell s)) + length is" by auto
  with runs_snoc.prems have "bm_uid (cell t) \<noteq> u64_max" by (simp add: u64_max_iff)
  with proto_inv_step [OF runs_snoc.hyps(2)] IH uid_step_le [OF runs_snoc.hyps(2)] show ?case
    by auto
qed

section \<open>What the protocol guarantees\<close>

text \<open>
  C1. Reference counting is exact under every interleaving: after any schedule of any number
  of publishers and subscribers, started on an idle cell and short enough not to exhaust the
  64-bit generation, the shared reference count is the number of actors that hold the block,
  and no decrement has ever seen a count of zero.
\<close>

theorem lease_refcount_exact:
  assumes "bm_refcount m = 0" "runs is (start n m) t" "unat (bm_uid m) + length is < 2 ^ 64 - 1"
  shows "unat (bm_refcount (cell t)) = length (filter counted (pcs t))
    \<and> RelUnderflow \<notin> set (pcs t) \<and> RefUnderflow \<notin> set (pcs t)"
proof -
  have "proto_inv t"
    using runs_inv [OF assms(2)] proto_inv_start [OF assms(1)] assms(3) by (simp add: start_def)
  then show ?thesis by (auto simp: proto_inv_def refcount_exact_def no_wreck_def)
qed

lemma concrete_run:
  "runs [0, 1] (start 2 \<lparr>bm_uid = 5, bm_refcount = 0, bm_timestamp = 0\<rparr>)
     \<lparr>cell = \<lparr>bm_uid = 5, bm_refcount = 0, bm_timestamp = 0\<rparr>, pcs = [RsvChecked 9, AcqMatched 5]\<rparr>"
proof -
  let ?m = "\<lparr>bm_uid = 5, bm_refcount = 0, bm_timestamp = 0\<rparr>"
  have "runs ([] @ [0]) (start 2 ?m) \<lparr>cell = ?m, pcs = [RsvChecked 9, Idle]\<rparr>"
    by (rule runs_snoc [OF runs_nil])
       (auto simp: proto_step_iff start_def numeral_2_eq_2 intro!: exI [of _ "RsvChecked 9"] rsv_check)
  then have "runs (([] @ [0]) @ [1]) (start 2 ?m) \<lparr>cell = ?m, pcs = [RsvChecked 9, AcqMatched 5]\<rparr>"
    by (rule runs_snoc) (auto simp: proto_step_iff intro!: exI [of _ "AcqMatched 5"] acq_match)
  then show ?thesis by simp
qed

theorem lease_refcount_exact_witness:
  "unat (bm_refcount (\<lparr>bm_uid = 5, bm_refcount = 0, bm_timestamp = 0\<rparr> :: block_metadata))
     = length (filter counted [RsvChecked 9, AcqMatched 5])"
  using lease_refcount_exact [OF _ concrete_run] by simp

text \<open>
  C2. Publishing is exclusive: two different actors never hold the publisher's claim on one
  block at the same time, whatever the interleaving.
\<close>

theorem lease_exclusive:
  assumes "bm_refcount m = 0" "runs is (start n m) t" "unat (bm_uid m) + length is < 2 ^ 64 - 1"
    and "i < length (pcs t)" "publishing (pcs t ! i)" "j < length (pcs t)" "publishing (pcs t ! j)"
  shows "i = j"
proof -
  have "proto_inv t"
    using runs_inv [OF assms(2)] proto_inv_start [OF assms(1)] assms(3) by (simp add: start_def)
  then show ?thesis
    using assms(4-7) others_not_publishing [of t j i] by (auto simp: proto_inv_def)
qed

lemma runs_append1: "runs is s t \<Longrightarrow> proto_step i t u \<Longrightarrow> is' = is @ [i] \<Longrightarrow> runs is' s u"
  using runs_snoc by blast

lemma proto_stepI:
  "i < length ps \<Longrightarrow> actor_step m (ps ! i) m' p \<Longrightarrow> ps' = ps[i := p] \<Longrightarrow>
     proto_step i \<lparr>cell = m, pcs = ps\<rparr> \<lparr>cell = m', pcs = ps'\<rparr>"
  by (auto simp: proto_step_iff)

text \<open>The window between the claim and the uid store, as one schedule of two actors.\<close>

lemma race_run:
  assumes "bm_refcount m = 0" "\<not> in_grace now (bm_timestamp m)" "bm_uid m \<noteq> u64_max"
  shows "runs [0, 0, 0, 1, 1, 1, 1, 0, 0, 0] (start 2 m)
    \<lparr>cell = m\<lparr>bm_uid := bm_uid m + 1, bm_refcount := 2, bm_timestamp := 0\<rparr>,
     pcs = [Reserved (bm_uid m + 1), Held (bm_uid m)]\<rparr>"
proof -
  let ?u = "bm_uid m"
  let ?m1 = "m\<lparr>bm_refcount := 1\<rparr>" and ?m2 = "m\<lparr>bm_refcount := 2\<rparr>"
  let ?m3 = "m\<lparr>bm_refcount := 2, bm_uid := ?u + 1\<rparr>"
  have r0: "runs [] (start 2 m) \<lparr>cell = m, pcs = [Idle, Idle]\<rparr>"
    using runs_nil [of "start 2 m"] by (simp add: start_def numeral_2_eq_2)
  have r1: "runs [0] (start 2 m) \<lparr>cell = m, pcs = [RsvChecked now, Idle]\<rparr>"
    by (rule runs_append1 [OF r0]) (auto intro!: proto_stepI rsv_check assms)
  have r2: "runs [0, 0] (start 2 m) \<lparr>cell = m, pcs = [RsvGraceOk, Idle]\<rparr>"
    by (rule runs_append1 [OF r1]) (auto intro!: proto_stepI rsv_grace_ok assms)
  have r3: "runs [0, 0, 0] (start 2 m) \<lparr>cell = ?m1, pcs = [RsvClaimed, Idle]\<rparr>"
    by (rule runs_append1 [OF r2]) (auto intro!: proto_stepI rsv_cas assms)
  have r4: "runs [0, 0, 0, 1] (start 2 m) \<lparr>cell = ?m1, pcs = [RsvClaimed, AcqMatched ?u]\<rparr>"
    by (rule runs_append1 [OF r3]) (auto intro!: proto_stepI acq_match)
  have r5: "runs [0, 0, 0, 1, 1] (start 2 m) \<lparr>cell = ?m1, pcs = [RsvClaimed, AcqObserved ?u 1]\<rparr>"
    by (rule runs_append1 [OF r4])
       (auto intro!: proto_stepI acq_observe [of ?m1, simplified])
  have r6: "runs [0, 0, 0, 1, 1, 1] (start 2 m) \<lparr>cell = ?m2, pcs = [RsvClaimed, AcqCounted ?u]\<rparr>"
    by (rule runs_append1 [OF r5])
       (auto intro!: proto_stepI acq_cas [of 1 ?m1, simplified])
  have r7: "runs [0, 0, 0, 1, 1, 1, 1] (start 2 m) \<lparr>cell = ?m2, pcs = [RsvClaimed, Held ?u]\<rparr>"
    by (rule runs_append1 [OF r6]) (auto intro!: proto_stepI acq_ok)
  have r8: "runs [0, 0, 0, 1, 1, 1, 1, 0] (start 2 m) \<lparr>cell = ?m2, pcs = [RsvUidLoaded ?u, Held ?u]\<rparr>"
    by (rule runs_append1 [OF r7])
       (auto intro!: proto_stepI rsv_load [of ?m2, simplified] assms)
  have r9: "runs [0, 0, 0, 1, 1, 1, 1, 0, 0] (start 2 m)
      \<lparr>cell = ?m3, pcs = [RsvUidStored (?u + 1), Held ?u]\<rparr>"
    by (rule runs_append1 [OF r8]) (auto intro!: proto_stepI rsv_store [of ?m2, simplified])
  have "runs [0, 0, 0, 1, 1, 1, 1, 0, 0, 0] (start 2 m)
      \<lparr>cell = ?m3\<lparr>bm_timestamp := 0\<rparr>, pcs = [Reserved (?u + 1), Held ?u]\<rparr>"
    by (rule runs_append1 [OF r9, where i = 0]) (auto intro!: proto_stepI simp: rsv_done)
  then show ?thesis by (cases m) simp
qed

theorem lease_exclusive_witness:
  "{j. j < 2 \<and> publishing ([Reserved 6, Held 5] ! j)} = {0}"
  using lease_exclusive
    [OF _ race_run [of "\<lparr>bm_uid = 5, bm_refcount = 0, bm_timestamp = 0\<rparr>" 9], of 0]
  by (auto simp: in_grace_def)

text \<open>
  A held reference can be at most one generation old: whenever a subscriber holds a
  reference to generation \<open>w\<close>, the cell's generation is \<open>w\<close> or \<open>w + 1\<close>, and in the second
  case no publisher is in the middle of claiming.
\<close>

theorem held_at_most_one_generation_old:
  assumes "bm_refcount m = 0" "runs is (start n m) t" "unat (bm_uid m) + length is < 2 ^ 64 - 1"
    and "Held w \<in> set (pcs t)"
  shows "bm_uid (cell t) = w \<or> (bm_uid (cell t) = w + 1 \<and> (\<forall>p \<in> set (pcs t). \<not> claiming p))"
proof -
  have "proto_inv t"
    using runs_inv [OF assms(2)] proto_inv_start [OF assms(1)] assms(3) by (simp add: start_def)
  with assms(4) show ?thesis by (auto simp: proto_inv_def held_bound_def)
qed

theorem held_at_most_one_generation_old_witness:
  "(6 :: u64) = 5 \<or> ((6 :: u64) = 5 + 1 \<and> (\<forall>p \<in> set [Reserved 6, Held 5]. \<not> claiming p))"
  using held_at_most_one_generation_old
    [OF _ race_run [of "\<lparr>bm_uid = 5, bm_refcount = 0, bm_timestamp = 0\<rparr>" 9], of 5]
  by (simp add: in_grace_def)

text \<open>
  C3. The race the uid re-check leaves open: on every cell that is free, out of its grace
  period and not exhausted, there is an interleaving of one publisher and one subscriber after
  which the subscriber holds a valid reference to the old generation while the publisher holds
  the reservation for the next one. The subscriber's two uid checks both fall between the
  publisher's compare-exchange and its uid store.
\<close>

theorem stale_reference_race:
  assumes "bm_refcount m = 0" "\<not> in_grace now (bm_timestamp m)" "bm_uid m \<noteq> u64_max"
  shows "\<exists>is t. runs is (start 2 m) t \<and> Reserved (bm_uid m + 1) \<in> set (pcs t) \<and> Held (bm_uid m) \<in> set (pcs t)"
  using race_run [OF assms] by fastforce

theorem stale_reference_race_witness:
  "\<exists>is t. runs is (start 2 \<lparr>bm_uid = 5, bm_refcount = 0, bm_timestamp = 100\<rparr>) t
     \<and> Reserved 6 \<in> set (pcs t) \<and> Held 5 \<in> set (pcs t)"
  using stale_reference_race [of "\<lparr>bm_uid = 5, bm_refcount = 0, bm_timestamp = 100\<rparr>" 200000]
  by (simp add: in_grace_def kGracePeriodUs_def)

text \<open>Outside that window a held reference pins its generation.\<close>

definition pinned :: "nat \<Rightarrow> u64 \<Rightarrow> proto \<Rightarrow> bool" where
  "pinned i u s \<longleftrightarrow> i < length (pcs s) \<and> pcs s ! i = Held u \<and> bm_uid (cell s) = u
     \<and> (\<forall>p \<in> set (pcs s). \<not> claiming p)"

lemma pinned_step:
  assumes "proto_step j s t" "pinned i u s" "j \<noteq> i" "proto_inv s"
  shows "pinned i u t"
proof -
  from assms(1) obtain m p where j: "j < length (pcs s)" and st: "actor_step (cell s) (pcs s ! j) m p"
    and t: "t = \<lparr>cell = m, pcs = (pcs s)[j := p]\<rparr>" by (auto simp: proto_step_iff)
  have "bm_refcount (cell s) \<noteq> 0"
    using counted_pos [of s i] assms(2,4) by (auto simp: pinned_def proto_inv_def)
  then have p: "\<not> claiming p" using actor_claiming [OF st] assms(2) j by (auto simp: pinned_def)
  have "bm_uid m = bm_uid (cell s)"
    using actor_uid [OF st] assms(2) j by (auto simp: pinned_def dest!: nth_mem)
  with p assms(2,3) show ?thesis
    using set_update_subset_insert [of "pcs s" j p] by (auto simp: pinned_def t)
qed

lemma pinned_runs:
  assumes "runs is s t" "pinned i u s" "i \<notin> set is" "proto_inv s"
    and "unat (bm_uid (cell s)) + length is < 2 ^ 64 - 1"
  shows "pinned i u t"
  using assms
proof (induction rule: runs.induct)
  case (runs_nil s)
  then show ?case by simp
next
  case (runs_snoc "is" s t j w)
  then have "pinned i u t" "proto_inv t" using runs_inv [of "is" s t] by auto
  with runs_snoc show ?case by (auto intro: pinned_step)
qed

text \<open>
  C4. A reference taken while no publisher is between its claim and its uid store keeps the
  block: as long as its owner does not release it, no schedule of the other actors changes the
  generation, so the GPU buffer is not handed to a writer.
\<close>

theorem held_reference_pins_block:
  assumes "bm_refcount m = 0" "runs is (start n m) s" "runs js s t"
    and "unat (bm_uid m) + length is + length js < 2 ^ 64 - 1"
    and "i < length (pcs s)" "pcs s ! i = Held u" "bm_uid (cell s) = u" "\<forall>p \<in> set (pcs s). \<not> claiming p"
    and "i \<notin> set js"
  shows "pcs t ! i = Held u \<and> bm_uid (cell t) = u \<and> bm_refcount (cell t) \<noteq> 0"
proof -
  have s: "proto_inv s \<and> unat (bm_uid (cell s)) \<le> unat (bm_uid m) + length is"
    using runs_inv [OF assms(2)] proto_inv_start [OF assms(1)] assms(4) by (simp add: start_def)
  then have "pinned i u t \<and> proto_inv t"
    using pinned_runs [OF assms(3)] runs_inv [OF assms(3)] assms(4-9) by (auto simp: pinned_def)
  then show ?thesis using counted_pos [of t i] by (auto simp: pinned_def proto_inv_def)
qed

lemma quiet_run:
  "runs [0, 0, 0, 0] (start 2 \<lparr>bm_uid = 5, bm_refcount = 0, bm_timestamp = 0\<rparr>)
     \<lparr>cell = \<lparr>bm_uid = 5, bm_refcount = 1, bm_timestamp = 0\<rparr>, pcs = [Held 5, Idle]\<rparr>"
proof -
  let ?m = "\<lparr>bm_uid = 5, bm_refcount = 0, bm_timestamp = 0\<rparr>"
  let ?m1 = "\<lparr>bm_uid = 5, bm_refcount = 1, bm_timestamp = 0\<rparr>"
  have r0: "runs [] (start 2 ?m) \<lparr>cell = ?m, pcs = [Idle, Idle]\<rparr>"
    using runs_nil [of "start 2 ?m"] by (simp add: start_def numeral_2_eq_2)
  have r1: "runs [0] (start 2 ?m) \<lparr>cell = ?m, pcs = [AcqMatched 5, Idle]\<rparr>"
    by (rule runs_append1 [OF r0]) (auto intro!: proto_stepI acq_match)
  have r2: "runs [0, 0] (start 2 ?m) \<lparr>cell = ?m, pcs = [AcqObserved 5 0, Idle]\<rparr>"
    by (rule runs_append1 [OF r1]) (auto intro!: proto_stepI acq_observe [of ?m, simplified])
  have r3: "runs [0, 0, 0] (start 2 ?m) \<lparr>cell = ?m1, pcs = [AcqCounted 5, Idle]\<rparr>"
    by (rule runs_append1 [OF r2]) (auto intro!: proto_stepI acq_cas [of 0 ?m, simplified])
  show ?thesis by (rule runs_append1 [OF r3]) (auto intro!: proto_stepI acq_ok)
qed

theorem held_reference_pins_block_witness:
  "[Held 5, Idle] ! 0 = Held 5 \<and> (1 :: u32) \<noteq> 0"
proof -
  have "runs [1] \<lparr>cell = \<lparr>bm_uid = 5, bm_refcount = 1, bm_timestamp = 0\<rparr>, pcs = [Held 5, Idle]\<rparr>
      \<lparr>cell = \<lparr>bm_uid = 5, bm_refcount = 1, bm_timestamp = 0\<rparr>, pcs = [Held 5, Idle]\<rparr>"
    by (rule runs_append1 [OF runs_nil]) (auto intro!: proto_stepI rsv_busy)
  from held_reference_pins_block [OF _ quiet_run this, of 0 5] show ?thesis by simp
qed

lemma no_new_stale_step:
  assumes "proto_step i s t" "proto_inv s" "unat w < unat (bm_uid (cell s))" "Held w \<notin> set (pcs s)"
  shows "Held w \<notin> set (pcs t) \<and> unat w < unat (bm_uid (cell t))"
proof -
  from assms(1) obtain m p where i: "i < length (pcs s)" and st: "actor_step (cell s) (pcs s ! i) m p"
    and t: "t = \<lparr>cell = m, pcs = (pcs s)[i := p]\<rparr>" by (auto simp: proto_step_iff)
  have "p \<noteq> Held w" using actor_held [of _ _ _ w] st assms(3) by blast
  then show ?thesis
    using assms(4) uid_step_le [OF assms(1,2)] assms(3) set_update_subset_insert [of "pcs s" i p]
    by (auto simp: t)
qed

lemma no_new_stale_runs:
  assumes "runs is s t" "proto_inv s" "unat w < unat (bm_uid (cell s))" "Held w \<notin> set (pcs s)"
    and "unat (bm_uid (cell s)) + length is < 2 ^ 64 - 1"
  shows "Held w \<notin> set (pcs t) \<and> unat w < unat (bm_uid (cell t))"
  using assms
proof (induction rule: runs.induct)
  case (runs_nil s)
  then show ?case by simp
next
  case (runs_snoc "is" s t j v)
  then have "Held w \<notin> set (pcs t) \<and> unat w < unat (bm_uid (cell t))" "proto_inv t"
    using runs_inv [of "is" s t] by auto
  with runs_snoc.hyps(2) show ?case using no_new_stale_step by blast
qed

text \<open>
  C5. Once the publisher has stored a newer generation, a descriptor of an older one can never
  again be turned into a reference, however the actors are scheduled.
\<close>

theorem stale_descriptor_rejected:
  assumes "bm_refcount m = 0" "runs is (start n m) s" "runs js s t"
    and "unat (bm_uid m) + length is + length js < 2 ^ 64 - 1"
    and "unat w < unat (bm_uid (cell s))" "Held w \<notin> set (pcs s)"
  shows "Held w \<notin> set (pcs t)"
proof -
  have "proto_inv s \<and> unat (bm_uid (cell s)) \<le> unat (bm_uid m) + length is"
    using runs_inv [OF assms(2)] proto_inv_start [OF assms(1)] assms(4) by (simp add: start_def)
  then show ?thesis using no_new_stale_runs [OF assms(3)] assms(4-6) by auto
qed

theorem stale_descriptor_rejected_witness:
  "Held 4 \<notin> set [RsvChecked 9, AcqMatched 5]"
  using stale_descriptor_rejected
    [OF _ runs_nil [of "start 2 \<lparr>bm_uid = 5, bm_refcount = 0, bm_timestamp = 0\<rparr>"] concrete_run, of 4]
  by (simp add: start_def)

section \<open>The interleaved steps refine the whole calls\<close>

text \<open>\<open>k\<close> accesses of one actor with nobody else moving.\<close>

fun solo :: "nat \<Rightarrow> block_metadata \<Rightarrow> pc \<Rightarrow> block_metadata \<Rightarrow> pc \<Rightarrow> bool" where
  "solo 0 m p m' p' \<longleftrightarrow> m' = m \<and> p' = p"
| "solo (Suc k) m p m' p' \<longleftrightarrow> (\<exists>m1 p1. actor_step m p m1 p1 \<and> solo k m1 p1 m' p')"

inductive_simps from_Idle: "actor_step m Idle m' p"
inductive_simps from_RsvChecked: "actor_step m (RsvChecked now) m' p"
inductive_simps from_RsvGraceOk: "actor_step m RsvGraceOk m' p"
inductive_simps from_RsvClaimed: "actor_step m RsvClaimed m' p"
inductive_simps from_RsvOverflow: "actor_step m RsvOverflow m' p"
inductive_simps from_RsvUidLoaded: "actor_step m (RsvUidLoaded u) m' p"
inductive_simps from_RsvUidStored: "actor_step m (RsvUidStored u) m' p"
inductive_simps from_Reserved: "actor_step m (Reserved u) m' p"
inductive_simps from_RelChecked: "actor_step m (RelChecked u b) m' p"
inductive_simps from_RelStamped: "actor_step m (RelStamped u) m' p"
inductive_simps from_Quarantined: "actor_step m (Quarantined u) m' p"
inductive_simps from_AcqMatched: "actor_step m (AcqMatched u) m' p"
inductive_simps from_AcqObserved: "actor_step m (AcqObserved u r) m' p"
inductive_simps from_AcqCounted: "actor_step m (AcqCounted u) m' p"
inductive_simps from_AcqBackout: "actor_step m AcqBackout m' p"
inductive_simps from_Held: "actor_step m (Held u) m' p"
inductive_simps from_RelUnderflow: "actor_step m RelUnderflow m' p"
inductive_simps from_RefUnderflow: "actor_step m RefUnderflow m' p"

lemmas next_access = from_Idle from_RsvChecked from_RsvGraceOk from_RsvClaimed from_RsvOverflow
  from_RsvUidLoaded from_RsvUidStored from_Reserved from_RelChecked from_RelStamped
  from_Quarantined from_AcqMatched from_AcqObserved from_AcqCounted from_AcqBackout from_Held
  from_RelUnderflow from_RefUnderflow

text \<open>Which access can lead into a given program counter.\<close>

inductive_simps into_Held: "actor_step m p m' (Held u)"
inductive_simps into_AcqCounted: "actor_step m p m' (AcqCounted u)"
inductive_simps into_AcqObserved: "actor_step m p m' (AcqObserved u r)"
inductive_simps into_AcqMatched: "actor_step m p m' (AcqMatched u)"
inductive_simps into_Reserved: "actor_step m p m' (Reserved u)"
inductive_simps into_RsvUidStored: "actor_step m p m' (RsvUidStored u)"
inductive_simps into_RsvUidLoaded: "actor_step m p m' (RsvUidLoaded u)"
inductive_simps into_RsvClaimed: "actor_step m p m' RsvClaimed"
inductive_simps into_RsvGraceOk: "actor_step m p m' RsvGraceOk"
inductive_simps into_RsvChecked: "actor_step m p m' (RsvChecked now)"

lemmas last_access = into_Held into_AcqCounted into_AcqObserved into_AcqMatched into_Reserved
  into_RsvUidStored into_RsvUidLoaded into_RsvClaimed into_RsvGraceOk into_RsvChecked

lemma solo_snoc: "solo (Suc k) m p m' p' \<longleftrightarrow> (\<exists>m1 p1. solo k m p m1 p1 \<and> actor_step m1 p1 m' p')"
proof (induction k arbitrary: m p)
  case 0
  show ?case by auto
next
  case (Suc k)
  show ?case by (subst solo.simps(2), subst Suc.IH, subst solo.simps(2)) blast
qed

declare solo.simps(2) [simp del]

lemma solo_1 [simp]: "solo (Suc 0) m p m' p' \<longleftrightarrow> actor_step m p m' p'"
  by (simp add: solo.simps(2))

lemma solo_acquire: "solo 4 m Idle m' (Held u) \<longleftrightarrow> acquire_cell u m = (True, m')"
proof -
  have s1: "solo (Suc 0) m Idle m1 (AcqMatched v) \<longleftrightarrow> bm_uid m = v \<and> m1 = m"
    "\<not> solo (Suc 0) m Idle m1 (AcqObserved v r)" for m1 v r
    by (auto simp: from_Idle)
  have s2: "solo (Suc (Suc 0)) m Idle m1 (AcqObserved v r) \<longleftrightarrow> bm_uid m = v \<and> m1 = m \<and> r = bm_refcount m"
    for m1 v r
    unfolding solo_snoc [of "Suc 0"] into_AcqObserved using s1 by auto
  have s3: "solo (Suc (Suc (Suc 0))) m Idle m1 (AcqCounted v) \<longleftrightarrow> bm_uid m = v \<and> bm_refcount m \<noteq> u32_max
      \<and> m1 = m\<lparr>bm_refcount := bm_refcount m + 1\<rparr>" for m1 v
    unfolding solo_snoc [of "Suc (Suc 0)"] into_AcqCounted using s2 by auto
  have "solo (Suc (Suc (Suc (Suc 0)))) m Idle m' (Held u) \<longleftrightarrow> acquire_cell u m = (True, m')"
    unfolding solo_snoc [of "Suc (Suc (Suc 0))"] into_Held using s3 by (auto simp: acquire_cell_eq)
  then show ?thesis by (simp add: eval_nat_numeral)
qed

lemma solo_reserve: "solo 6 m Idle m' (Reserved u) \<longleftrightarrow> (\<exists>now. reserve_cell now m = (Some u, m'))"
proof -
  have s1: "solo (Suc 0) m Idle m1 (RsvChecked now) \<longleftrightarrow> bm_refcount m = 0 \<and> m1 = m" for m1 now
    by (auto simp: from_Idle)
  have s2: "solo (Suc (Suc 0)) m Idle m1 RsvGraceOk \<longleftrightarrow>
      bm_refcount m = 0 \<and> (\<exists>now. \<not> in_grace now (bm_timestamp m)) \<and> m1 = m" for m1
    unfolding solo_snoc [of "Suc 0"] into_RsvGraceOk using s1 by auto
  have s3: "solo (Suc (Suc (Suc 0))) m Idle m1 RsvClaimed \<longleftrightarrow>
      bm_refcount m = 0 \<and> (\<exists>now. \<not> in_grace now (bm_timestamp m)) \<and> m1 = m\<lparr>bm_refcount := 1\<rparr>" for m1
    unfolding solo_snoc [of "Suc (Suc 0)"] into_RsvClaimed using s2 by auto
  have s4: "solo (Suc (Suc (Suc (Suc 0)))) m Idle m1 (RsvUidLoaded v) \<longleftrightarrow>
      bm_refcount m = 0 \<and> (\<exists>now. \<not> in_grace now (bm_timestamp m)) \<and> bm_uid m \<noteq> u64_max \<and> v = bm_uid m
      \<and> m1 = m\<lparr>bm_refcount := 1\<rparr>" for m1 v
    unfolding solo_snoc [of "Suc (Suc (Suc 0))"] into_RsvUidLoaded using s3 by auto
  have s5: "solo (Suc (Suc (Suc (Suc (Suc 0))))) m Idle m1 (RsvUidStored v) \<longleftrightarrow>
      bm_refcount m = 0 \<and> (\<exists>now. \<not> in_grace now (bm_timestamp m)) \<and> bm_uid m \<noteq> u64_max \<and> v = bm_uid m + 1
      \<and> m1 = m\<lparr>bm_refcount := 1, bm_uid := bm_uid m + 1\<rparr>" for m1 v
    unfolding solo_snoc [of "Suc (Suc (Suc (Suc 0)))"] into_RsvUidStored using s4 by auto
  have "solo (Suc (Suc (Suc (Suc (Suc (Suc 0)))))) m Idle m' (Reserved u) \<longleftrightarrow>
      bm_refcount m = 0 \<and> (\<exists>now. \<not> in_grace now (bm_timestamp m)) \<and> bm_uid m \<noteq> u64_max \<and> u = bm_uid m + 1
      \<and> m' = m\<lparr>bm_refcount := 1, bm_uid := bm_uid m + 1, bm_timestamp := 0\<rparr>"
    unfolding solo_snoc [of "Suc (Suc (Suc (Suc (Suc 0))))"] into_Reserved using s5 by auto
  then have "solo 6 m Idle m' (Reserved u) \<longleftrightarrow>
      bm_refcount m = 0 \<and> (\<exists>now. \<not> in_grace now (bm_timestamp m)) \<and> bm_uid m \<noteq> u64_max \<and> u = bm_uid m + 1
      \<and> m' = m\<lparr>bm_refcount := 1, bm_uid := bm_uid m + 1, bm_timestamp := 0\<rparr>"
    by (simp add: eval_nat_numeral)
  then show ?thesis by (auto simp: reserve_cell_def Let_def split: if_splits)
qed

lemma solo_give_back:
  "solo 3 m (Reserved u) m' Idle \<longleftrightarrow>
     (\<exists>now published. release_reservation_cell now u published m = (True, m'))"
proof -
  have s1: "solo (Suc 0) m1 (RelStamped v) m' Idle \<longleftrightarrow>
      bm_refcount m1 \<noteq> 0 \<and> m' = m1\<lparr>bm_refcount := bm_refcount m1 - 1\<rparr>" for m1 v
    by (auto simp: from_RelStamped)
  have q: "\<not> solo (Suc k) m1 (Quarantined v) m2 p" for k m1 m2 v p
    by (simp add: solo.simps(2) from_Quarantined)
  have s2: "solo (Suc (Suc 0)) m1 (RelChecked v b) m' Idle \<longleftrightarrow>
      (\<exists>now. bm_refcount m1 \<noteq> 0 \<and> m' = (if b then m1\<lparr>bm_timestamp := now\<rparr> else m1)\<lparr>bm_refcount := bm_refcount m1 - 1\<rparr>)"
    for m1 v b
    unfolding solo.simps(2) [of "Suc 0"] from_RelChecked using s1 by (cases b) auto
  have "solo (Suc (Suc (Suc 0))) m (Reserved u) m' Idle \<longleftrightarrow>
      (\<exists>b. bm_uid m = u \<and> solo (Suc (Suc 0)) m (RelChecked u b) m' Idle)"
    unfolding solo.simps(2) [of "Suc (Suc 0)"] from_Reserved using q by auto
  then have "solo 3 m (Reserved u) m' Idle \<longleftrightarrow>
      (\<exists>b now. bm_uid m = u \<and> bm_refcount m \<noteq> 0
         \<and> m' = (if b then m\<lparr>bm_timestamp := now\<rparr> else m)\<lparr>bm_refcount := bm_refcount m - 1\<rparr>)"
    unfolding s2 by (simp add: eval_nat_numeral)
  moreover have "release_reservation_cell now u b m = (True, m') \<longleftrightarrow> bm_uid m = u \<and> bm_refcount m \<noteq> 0
      \<and> m' = (if b then m\<lparr>bm_timestamp := now\<rparr> else m)\<lparr>bm_refcount := bm_refcount m - 1\<rparr>" for now b
    by (cases b) (auto simp: release_reservation_cell_def Let_def)
  ultimately show ?thesis by blast
qed


end
