(* ===== verification/Lease_Progress.thy ===== *)
theory Lease_Progress
  imports Lease_Protocol
begin

text \<open>
  The operations on a metadata cell end. The only loop of \<^verbatim>\<open>buffer_ref.cpp\<close> is the compare-exchange
  loop of \<^verbatim>\<open>acquire\<close>; it goes round again only when somebody else changed the reference count since
  it was last read (\<^verbatim>\<open>compare_exchange_weak\<close> may also fail for no reason, which no algorithm can bound
  and which is left out here). So an actor inside an operation always has a next access, and the
  number of accesses it still makes is bounded by a measure and the changes the others make.
\<close>

section \<open>The measure\<close>

text \<open>Inside an operation, with an access to make that nobody waits for.\<close>

fun busy :: "pc \<Rightarrow> bool" where
  "busy Idle = False"
| "busy (Held u) = False"
| "busy (Reserved u) = False"
| "busy (Quarantined u) = False"
| "busy _ = True"

fun accesses_left :: "block_metadata \<Rightarrow> pc \<Rightarrow> nat" where
  "accesses_left m (RsvChecked now) = 5"
| "accesses_left m RsvGraceOk = 4"
| "accesses_left m RsvClaimed = 3"
| "accesses_left m (RsvUidLoaded u) = 2"
| "accesses_left m (RsvUidStored u) = 1"
| "accesses_left m RsvOverflow = 1"
| "accesses_left m (RelChecked u published) = 3"
| "accesses_left m (RelStamped u) = 2"
| "accesses_left m RelUnderflow = 1"
| "accesses_left m (AcqMatched u) = 4"
| "accesses_left m (AcqObserved u r) = (if r = bm_refcount m then 3 else 4)"
| "accesses_left m (AcqCounted u) = 2"
| "accesses_left m AcqBackout = 1"
| "accesses_left m RefUnderflow = 1"
| "accesses_left m _ = 0"

lemma accesses_left_bound: "accesses_left m p \<le> 5"
  by (cases p) simp_all

lemma busy_accesses: "busy p \<Longrightarrow> 0 < accesses_left m p"
  by (cases p) simp_all

text \<open>An access of the actor itself brings it nearer to the end, unless it failed for no reason.\<close>

lemma own_access:
  assumes "actor_step m p m' p'" "busy p" "p' \<noteq> p"
  shows "accesses_left m' p' < accesses_left m p"
  using assms by (cases rule: actor_step.cases) auto

text \<open>An access of somebody else only matters when it changes the reference count.\<close>

lemma foreign_access:
  "accesses_left m' p \<le> accesses_left m p + (if bm_refcount m' = bm_refcount m then 0 else 1)"
  by (cases p) simp_all

lemma never_stuck: "busy p \<Longrightarrow> \<exists>m' p'. actor_step m p m' p' \<and> p' \<noteq> p"
proof (cases p)
  case (AcqObserved u r)
  show ?thesis
  proof (cases "r = u32_max")
    case True
    then show ?thesis using acq_overflow [of r m u] AcqObserved by blast
  next
    case False
    then show ?thesis
      using acq_cas [of r m u] acq_retry [of r m u] AcqObserved by (cases "bm_refcount m = r") blast+
  qed
qed (auto simp: next_access)

section \<open>Runs during an operation\<close>

text \<open>
  \<open>during i k c s t\<close>: from \<open>s\<close> to \<open>t\<close>, actor \<open>i\<close> made \<open>k\<close> accesses of one operation, while the other
  actors made any number of accesses, \<open>c\<close> of which changed the reference count.
\<close>

inductive during :: "nat \<Rightarrow> nat \<Rightarrow> nat \<Rightarrow> proto \<Rightarrow> proto \<Rightarrow> bool" for i where
  at_start: "during i 0 0 s s"
| own: "during i k c s t \<Longrightarrow> proto_step i t u \<Longrightarrow> busy (pcs t ! i) \<Longrightarrow> pcs u ! i \<noteq> pcs t ! i \<Longrightarrow> during i (Suc k) c s u"
| foreign: "during i k c s t \<Longrightarrow> proto_step j t u \<Longrightarrow> j \<noteq> i \<Longrightarrow>
    during i k (if bm_refcount (cell u) = bm_refcount (cell t) then c else Suc c) s u"

lemma during_measure:
  "during i k c s t \<Longrightarrow> k + accesses_left (cell t) (pcs t ! i) \<le> accesses_left (cell s) (pcs s ! i) + c"
proof (induction rule: during.induct)
  case (at_start s)
  then show ?case by simp
next
  case (own k c s t u)
  then have "accesses_left (cell u) (pcs u ! i) < accesses_left (cell t) (pcs t ! i)"
    using own_access by (auto simp: proto_step_iff)
  then show ?case using own.IH by simp
next
  case (foreign k c s t j u)
  then have "pcs u ! i = pcs t ! i" by (auto simp: proto_step_iff)
  then show ?case using foreign.IH foreign_access [of "cell u" "pcs t ! i" "cell t"] by (auto split: if_splits)
qed

section \<open>Properties\<close>


text \<open>Two subscribers race for the same count: the loser goes round the loop once.\<close>

definition racing :: "u32 \<Rightarrow> pc list \<Rightarrow> proto" where
  "racing refs ps = \<lparr>cell = \<lparr>bm_uid = 5, bm_refcount = refs, bm_timestamp = 0\<rparr>, pcs = ps\<rparr>"

lemma race_lost: "during 0 1 1 (racing 0 [AcqObserved 5 0, AcqObserved 5 0]) (racing 1 [AcqObserved 5 1, AcqCounted 5])"
proof -
  let ?s = "racing 0 [AcqObserved 5 0, AcqObserved 5 0]" and ?t = "racing 1 [AcqObserved 5 0, AcqCounted 5]"
    and ?u = "racing 1 [AcqObserved 5 1, AcqCounted 5]"
  have "actor_step (cell ?s) (AcqObserved 5 0) (cell ?t) (AcqCounted 5)"
    using acq_cas [of 0 "cell ?s" 5] by (simp add: racing_def)
  then have "proto_step 1 ?s ?t" by (auto simp: proto_step_iff racing_def)
  with during.foreign [OF during.at_start this] have "during 0 0 1 ?s ?t" by (simp add: racing_def)
  moreover have "actor_step (cell ?t) (AcqObserved 5 0) (cell ?u) (AcqObserved 5 1)"
    using acq_retry [of 0 "cell ?t" 5] by (simp add: racing_def)
  then have "proto_step 0 ?t ?u" by (auto simp: proto_step_iff racing_def)
  ultimately show ?thesis using during.own [of 0 0 1 ?s ?t ?u] by (simp add: racing_def)
qed


end
