(* ===== verification/Cuda_Context.thy ===== *)
theory Cuda_Context
  imports System
begin

text \<open>
  \<^verbatim>\<open>cuda_driver_context.hpp\<close>, \<^verbatim>\<open>cuda_driver_context.cpp\<close>, \<^verbatim>\<open>interprocess_event.hpp\<close> and
  \<^verbatim>\<open>interprocess_event.cpp\<close>: driver initialisation, scoped context activation, the retained
  primary context and the publisher's interprocess event. A \<^verbatim>\<open>CudaResult<T>\<close> is a sum with
  the \<^verbatim>\<open>CUresult\<close> of the failure on the left.
\<close>

type_synonym 'a cuda_result = "int + 'a"

section \<open>Error text\<close>

text \<open>
  \<open>get\<close> is \<^verbatim>\<open>cuGetErrorName\<close> or \<^verbatim>\<open>cuGetErrorString\<close>: a result code and the pointer it
  wrote, null as \<open>None\<close>.
\<close>

definition decimal_int :: "int \<Rightarrow> string" where
  "decimal_int i = (if i < 0 then CHR ''-'' # dec (nat (- i)) else dec (nat i))"

definition error_name :: "(int \<Rightarrow> int \<times> string option) \<Rightarrow> int \<Rightarrow> string" where
  "error_name get result =
     (case get result of
        (code, Some value) \<Rightarrow>
          if code = CUDA_SUCCESS then value else ''CUDA_ERROR_UNKNOWN('' @ decimal_int result @ '')''
      | (_, None) \<Rightarrow> ''CUDA_ERROR_UNKNOWN('' @ decimal_int result @ '')'')"

definition error_description :: "(int \<Rightarrow> int \<times> string option) \<Rightarrow> int \<Rightarrow> string" where
  "error_description get result =
     (case get result of
        (code, Some value) \<Rightarrow>
          if code = CUDA_SUCCESS then value
          else ''unknown CUDA driver error (CUresult='' @ decimal_int result @ '')''
      | (_, None) \<Rightarrow> ''unknown CUDA driver error (CUresult='' @ decimal_int result @ '')'')"

definition error_to_string ::
    "(int \<Rightarrow> int \<times> string option) \<Rightarrow> (int \<Rightarrow> int \<times> string option) \<Rightarrow> int \<Rightarrow> string" where
  "error_to_string get_name get_string result =
     error_name get_name result @ '': '' @ error_description get_string result"

section \<open>Driver initialisation\<close>

definition driver_initialize :: "env \<Rightarrow> sys \<Rightarrow> unit cuda_result \<times> sys" where
  "driver_initialize E s =
     (let (status, s1) =
        (case driver_once s of
           Some st \<Rightarrow> (st, s)
         | None \<Rightarrow> (let (r, s') = call E CuInit s in (rc r, s'\<lparr>driver_once := Some (rc r)\<rparr>)))
      in if status \<noteq> CUDA_SUCCESS then (Inl status, s1) else (Inr (), s1))"

section \<open>Scoped activation\<close>

record context_guard =
  cg_context :: u64
  cg_owner_thread :: nat
  cg_active :: bool

definition guard_push :: "env \<Rightarrow> nat \<Rightarrow> u64 \<Rightarrow> sys \<Rightarrow> context_guard cuda_result \<times> sys" where
  "guard_push E thread context s =
     (case driver_initialize E s of
        (Inl e, s1) \<Rightarrow> (Inl e, s1)
      | (Inr _, s1) \<Rightarrow>
          if context = 0 then (Inl CUDA_ERROR_INVALID_CONTEXT, s1)
          else let (r, s2) = call E (CuCtxPushCurrent context) s1
          in if rc r \<noteq> CUDA_SUCCESS then (Inl (rc r), s2)
          else (Inr \<lparr>cg_context = context, cg_owner_thread = thread, cg_active = True\<rparr>, s2))"

text \<open>
  \<^verbatim>\<open>pop_noexcept\<close>: what \<^verbatim>\<open>cuCtxPopCurrent\<close> answers only decides what is logged. A guard that
  reaches another thread is deactivated without touching that thread's stack.
\<close>

definition guard_pop :: "env \<Rightarrow> nat \<Rightarrow> context_guard \<Rightarrow> sys \<Rightarrow> context_guard \<times> sys" where
  "guard_pop E this_thread g s =
     (if \<not> cg_active g then (g, s)
      else if cg_owner_thread g \<noteq> this_thread then (g\<lparr>cg_active := False, cg_context := 0\<rparr>, s)
      else (g\<lparr>cg_active := False, cg_context := 0\<rparr>, exec E CuCtxPopCurrent s))"

definition guard_move :: "context_guard \<Rightarrow> context_guard \<times> context_guard" where
  "guard_move other = (other, other\<lparr>cg_context := 0, cg_active := False\<rparr>)"

definition guard_move_assign ::
    "env \<Rightarrow> nat \<Rightarrow> context_guard \<Rightarrow> context_guard \<Rightarrow> sys \<Rightarrow> (context_guard \<times> context_guard) \<times> sys" where
  "guard_move_assign E this_thread this other s =
     (let (_, s') = guard_pop E this_thread this s in (guard_move other, s'))"

text \<open>
  The C++ scope \<^verbatim>\<open>auto guard = push(...)\<close>: the failure result is computed from the error, the
  body runs with the guard alive, and the guard's destructor pops on every way out.
\<close>

definition with_guard ::
    "env \<Rightarrow> nat \<Rightarrow> u64 \<Rightarrow> (int \<Rightarrow> 'a) \<Rightarrow> (sys \<Rightarrow> 'a \<times> sys) \<Rightarrow> sys \<Rightarrow> 'a \<times> sys" where
  "with_guard E thread context failed body s =
     (case guard_push E thread context s of
        (Inl e, s1) \<Rightarrow> (failed e, s1)
      | (Inr g, s1) \<Rightarrow> (case body s1 of (x, s2) \<Rightarrow> (x, snd (guard_pop E thread g s2))))"

section \<open>The retained primary context\<close>

record device_context =
  dc_device_id :: i32
  dc_device :: u64
  dc_context :: u64

definition retain_primary :: "env \<Rightarrow> i32 \<Rightarrow> sys \<Rightarrow> device_context cuda_result \<times> sys" where
  "retain_primary E device_id s =
     (case driver_initialize E s of
        (Inl e, s1) \<Rightarrow> (Inl e, s1)
      | (Inr _, s1) \<Rightarrow>
          let (n, s2) = call E CuDeviceGetCount s1
          in if rc n \<noteq> CUDA_SUCCESS then (Inl (rc n), s2)
          else if sint device_id < 0 \<or> sint device_id \<ge> sint (ucast (out n) :: i32)
          then (Inl CUDA_ERROR_INVALID_DEVICE, s2)
          else let (d, s3) = call E (CuDeviceGet device_id) s2
          in if rc d \<noteq> CUDA_SUCCESS then (Inl (rc d), s3)
          else let (c, s4) = call E (CuDevicePrimaryCtxRetain (out d)) s3
          in if rc c \<noteq> CUDA_SUCCESS then (Inl (rc c), s4)
          else (Inr \<lparr>dc_device_id = device_id, dc_device = out d, dc_context = out c\<rparr>, s4))"

text \<open>The destructor, which runs when the last \<^verbatim>\<open>shared_ptr\<close> goes away.\<close>

definition device_context_destroy :: "env \<Rightarrow> device_context \<Rightarrow> sys \<Rightarrow> sys" where
  "device_context_destroy E dc s = exec E (CuDevicePrimaryCtxRelease (dc_device dc)) s"

definition push_current :: "env \<Rightarrow> nat \<Rightarrow> device_context \<Rightarrow> sys \<Rightarrow> context_guard cuda_result \<times> sys" where
  "push_current E thread dc s = guard_push E thread (dc_context dc) s"

section \<open>The publisher's interprocess event\<close>

text \<open>A 64-byte payload, whatever the environment returned.\<close>

definition payload64 :: "u8 list \<Rightarrow> u8 list" where
  "payload64 bs = take 64 (bs @ replicate 64 0)"

record interprocess_event =
  ie_context :: "device_context option"
  ie_event :: u64
  ie_handle :: "u8 list"

definition event_create ::
    "env \<Rightarrow> nat \<Rightarrow> device_context option \<Rightarrow> sys \<Rightarrow> interprocess_event cuda_result \<times> sys" where
  "event_create E thread context s =
     (case context of
        None \<Rightarrow> (Inl CUDA_ERROR_INVALID_CONTEXT, s)
      | Some dc \<Rightarrow>
          with_guard E thread (dc_context dc) Inl
            (\<lambda>s1. let (r, s2) = call E (CuEventCreate True) s1
             in if rc r \<noteq> CUDA_SUCCESS then (Inl (rc r), s2)
             else let (h, s3) = call E (CuIpcGetEventHandle (out r)) s2
             in if rc h \<noteq> CUDA_SUCCESS then (Inl (rc h), exec E (CuEventDestroy (out r)) s3)
             else (Inr \<lparr>ie_context = Some dc, ie_event = out r, ie_handle = payload64 (raw h)\<rparr>, s3)) s)"

definition event_record :: "env \<Rightarrow> nat \<Rightarrow> interprocess_event \<Rightarrow> u64 \<Rightarrow> sys \<Rightarrow> unit cuda_result \<times> sys" where
  "event_record E thread ev stream s =
     (case ie_context ev of
        None \<Rightarrow> (Inl CUDA_ERROR_INVALID_HANDLE, s)
      | Some dc \<Rightarrow>
          if ie_event ev = 0 then (Inl CUDA_ERROR_INVALID_HANDLE, s)
          else with_guard E thread (dc_context dc) Inl
            (\<lambda>s1. let (r, s2) = call E (CuEventRecord (ie_event ev) stream) s1
             in (if rc r \<noteq> CUDA_SUCCESS then Inl (rc r) else Inr (), s2)) s)"

text \<open>\<^verbatim>\<open>reset_noexcept\<close>, the destructor's body.\<close>

definition event_reset :: "env \<Rightarrow> nat \<Rightarrow> interprocess_event \<Rightarrow> sys \<Rightarrow> interprocess_event \<times> sys" where
  "event_reset E thread ev s =
     (if ie_event ev = 0 then (ev, s)
      else case ie_context ev of
        None \<Rightarrow> (ev\<lparr>ie_event := 0\<rparr>, s)
      | Some dc \<Rightarrow>
          with_guard E thread (dc_context dc) (\<lambda>_. ev\<lparr>ie_event := 0\<rparr>)
            (\<lambda>s1. (ev\<lparr>ie_event := 0, ie_handle := replicate 64 0\<rparr>,
                   exec E (CuEventDestroy (ie_event ev)) s1)) s)"

section \<open>Facts\<close>

lemma payload64_length [simp]: "length (payload64 bs) = 64"
  by (simp add: payload64_def)

lemma payload64_id: "length bs = 64 \<Longrightarrow> payload64 bs = bs"
  by (simp add: payload64_def)

text \<open>Ledger effect of each operation, and that none allocates C++ objects compared by address.\<close>

lemma driver_initialize_ledger:
  "driver_initialize E s = (r, s') \<Longrightarrow> delta s s' k = 0 \<and> heap_next s' = heap_next s"
  by (auto simp: driver_initialize_def Let_def delta_call
      split: option.splits if_splits prod.splits dest: callT)

lemma guard_push_Inl:
  assumes "guard_push E t c s = (Inl e, s')"
  shows "delta s s' k = 0 \<and> heap_next s' = heap_next s"
proof -
  obtain r s1 where i: "driver_initialize E s = (r, s1)" by (cases "driver_initialize E s")
  have "delta s1 s' k = 0 \<and> heap_next s' = heap_next s1"
    using assms i
    by (auto simp: guard_push_def Let_def CUDA_SUCCESS_def delta_call
        split: prod.splits sum.splits if_splits dest: callT)
  then show ?thesis using driver_initialize_ledger [OF i, of k] by (simp add: delta_trans [of s s' k s1])
qed

lemma guard_push_Inr:
  assumes "guard_push E t c s = (Inr g, s')"
  shows "delta s s' k = one RPushedCtx k \<and> heap_next s' = heap_next s
    \<and> g = \<lparr>cg_context = c, cg_owner_thread = t, cg_active = True\<rparr> \<and> c \<noteq> 0
    \<and> driver_once s' = Some 0"
proof -
  from assms obtain s1 r where i: "driver_initialize E s = (Inr (), s1)"
    and c: "call E (CuCtxPushCurrent c) s1 = (r, s')" "rc r = 0" "c \<noteq> 0"
    and g: "g = \<lparr>cg_context = c, cg_owner_thread = t, cg_active = True\<rparr>"
    by (auto simp: guard_push_def Let_def CUDA_SUCCESS_def split: prod.splits sum.splits if_splits)
  have "driver_once s1 = Some 0"
    using i by (auto simp: driver_initialize_def CUDA_SUCCESS_def Let_def split: option.splits if_splits prod.splits)
  then show ?thesis
    using driver_initialize_ledger [OF i, of k] delta_call [OF c(1), of k] c g callT [OF c(1)]
    by (auto simp: delta_trans [of s s' k s1] one_def)
qed

lemma guard_pop_ledger:
  "delta s (snd (guard_pop E t \<lparr>cg_context = c, cg_owner_thread = t, cg_active = True\<rparr> s)) k
     = - one RPushedCtx k"
  "heap_next (snd (guard_pop E t g s)) = heap_next s"
  "driver_once (snd (guard_pop E t g s)) = driver_once s"
  by (auto simp: guard_pop_def delta_exec one_def)

text \<open>A scope leaves the context stack as it found it, on every way out.\<close>

lemma with_guard_cases:
  assumes "with_guard E t c f body s = (x, s')"
  obtains (failed) e where "x = f e" "\<And>k. delta s s' k = 0" "heap_next s' = heap_next s"
  | (ran) s1 s2 where "body s1 = (x, s2)" "\<And>k. delta s s' k = delta s1 s2 k"
      "heap_next s1 = heap_next s" "heap_next s' = heap_next s2"
      "driver_once s1 = Some 0" "driver_once s' = driver_once s2" "c \<noteq> 0"
proof (cases "guard_push E t c s")
  case (Pair r s1)
  show thesis
  proof (cases r)
    case (Inl e)
    with assms Pair show thesis
      by (intro failed [of e]) (auto simp: with_guard_def dest: guard_push_Inl)
  next
    case (Inr g)
    obtain y s2 where b: "body s1 = (y, s2)" by (cases "body s1")
    with assms Pair Inr have x: "y = x" "s' = snd (guard_pop E t g s2)"
      by (auto simp: with_guard_def)
    have g: "g = \<lparr>cg_context = c, cg_owner_thread = t, cg_active = True\<rparr>" "heap_next s1 = heap_next s"
      using guard_push_Inr Pair Inr by blast+
    have o: "driver_once s1 = Some 0" "c \<noteq> 0" using guard_push_Inr Pair Inr by blast+
    show thesis
    proof (rule ran [of s1 s2])
      show "body s1 = (x, s2)" using b x by simp
      fix k
      have "delta s s1 k = one RPushedCtx k" using guard_push_Inr Pair Inr by blast
      moreover have "delta s2 s' k = - one RPushedCtx k"
        using x(2) by (simp add: g guard_pop_ledger)
      moreover have "delta s s' k = delta s s1 k + delta s1 s2 k + delta s2 s' k"
        by (simp add: delta_def)
      ultimately show "delta s s' k = delta s1 s2 k" by simp
      show "heap_next s1 = heap_next s" by (rule g)
      show "heap_next s' = heap_next s2" using x by (simp add: guard_pop_ledger)
      show "driver_once s' = driver_once s2" using x by (simp add: guard_pop_ledger)
      show "driver_once s1 = Some 0" "c \<noteq> 0" by (rule o)+
    qed
  qed
qed

text \<open>
  What the driver documents about context activation: once the driver is initialised, pushing
  a live (non-null) context succeeds, and a created event is not null.
\<close>

definition pushes_succeed :: "env \<Rightarrow> bool" where
  "pushes_succeed E \<longleftrightarrow> (\<forall>h c. c \<noteq> 0 \<longrightarrow> rc (E h (CuCtxPushCurrent c)) = 0)"

lemma with_guard_runs:
  assumes "pushes_succeed E" "driver_once s = Some 0" "c \<noteq> 0"
    and w: "with_guard E t c f body s = (x, s')"
  obtains s1 s2 where "body s1 = (x, s2)" "\<And>k. delta s s' k = delta s1 s2 k"
    "heap_next s1 = heap_next s" "heap_next s' = heap_next s2"
    "driver_once s1 = Some 0" "driver_once s' = driver_once s2"
proof -
  obtain r s1 where p: "guard_push E t c s = (r, s1)" by (cases "guard_push E t c s")
  have "\<exists>g. r = Inr g"
    using assms(1,2,3) p
    by (auto simp: pushes_succeed_def guard_push_def driver_initialize_def CUDA_SUCCESS_def call_def Let_def
        split: prod.splits if_splits)
  then obtain g where g: "r = Inr g" ..
  obtain y s2 where b: "body s1 = (y, s2)" by (cases "body s1")
  have x: "y = x" "s' = snd (guard_pop E t g s2)" using w p g b by (auto simp: with_guard_def)
  note push = guard_push_Inr [of E t c s g s1]
  have g': "g = \<lparr>cg_context = c, cg_owner_thread = t, cg_active = True\<rparr>" using push p g by blast
  show thesis
  proof (rule that [of s1 s2])
    show "body s1 = (x, s2)" using b x by simp
    show "heap_next s1 = heap_next s" "driver_once s1 = Some 0" using push p g by blast+
    show "heap_next s' = heap_next s2" "driver_once s' = driver_once s2" using x by (simp_all add: guard_pop_ledger)
    fix k
    have "delta s s1 k = one RPushedCtx k" using push p g by blast
    moreover have "delta s2 s' k = - one RPushedCtx k" using x(2) by (simp add: g' guard_pop_ledger)
    moreover have "delta s s' k = delta s s1 k + delta s1 s2 k + delta s2 s' k" by (simp add: delta_def)
    ultimately show "delta s s' k = delta s1 s2 k" by simp
  qed
qed

subsection \<open>Ledger of the event operations\<close>

lemma event_create_Inl:
  assumes "event_create E t ctx s = (Inl e, s')"
  shows "delta s s' k = 0 \<and> heap_next s' = heap_next s"
proof (cases ctx)
  case None with assms show ?thesis by (simp add: event_create_def)
next
  case (Some dc)
  from assms [unfolded event_create_def Some option.case] show ?thesis
  proof (cases rule: with_guard_cases)
    case (ran s1 s2)
    then have "delta s1 s2 k = 0 \<and> heap_next s2 = heap_next s1"
      by (auto simp: Let_def CUDA_SUCCESS_def delta_def split: prod.splits if_splits dest!: callT)
    with ran show ?thesis by simp
  qed simp
qed

lemma event_create_Inr:
  assumes "event_create E t ctx s = (Inr ev, s')"
  shows "delta s s' k = one (REvent (ie_event ev)) k \<and> heap_next s' = heap_next s
    \<and> driver_once s' = Some 0 \<and> ie_context ev = ctx \<and> length (ie_handle ev) = 64
    \<and> (\<exists>dc. ctx = Some dc \<and> dc_context dc \<noteq> 0)"
proof (cases ctx)
  case None with assms show ?thesis by (simp add: event_create_def)
next
  case (Some dc)
  from assms [unfolded event_create_def Some option.case] show ?thesis
  proof (cases rule: with_guard_cases)
    case (ran s1 s2)
    then have "delta s1 s2 k = one (REvent (ie_event ev)) k \<and> heap_next s2 = heap_next s1
        \<and> driver_once s2 = driver_once s1 \<and> ie_context ev = Some dc \<and> length (ie_handle ev) = 64"
      by (auto simp: Let_def CUDA_SUCCESS_def delta_def split: prod.splits if_splits dest!: callT)
    with ran Some show ?thesis by simp
  qed simp
qed

lemma event_reset_ledger:
  assumes "pushes_succeed E" "driver_once s = Some 0" "ie_event ev \<noteq> 0"
    "ie_context ev = Some dc" "dc_context dc \<noteq> 0"
    and e: "event_reset E t ev s = (ev', s')"
  shows "delta s s' k = - one (REvent (ie_event ev)) k \<and> heap_next s' = heap_next s
    \<and> driver_once s' = Some 0 \<and> ie_event ev' = 0"
proof -
  from e assms(3,4) have "with_guard E t (dc_context dc) (\<lambda>_. ev\<lparr>ie_event := 0\<rparr>)
            (\<lambda>s1. (ev\<lparr>ie_event := 0, ie_handle := replicate 64 0\<rparr>,
                   exec E (CuEventDestroy (ie_event ev)) s1)) s = (ev', s')"
    by (simp add: event_reset_def)
  from with_guard_runs [OF assms(1,2,5) this] obtain s1 s2 where
    "(ev\<lparr>ie_event := 0, ie_handle := replicate 64 0\<rparr>, exec E (CuEventDestroy (ie_event ev)) s1) = (ev', s2)"
    "delta s s' k = delta s1 s2 k" "heap_next s1 = heap_next s" "heap_next s' = heap_next s2"
    "driver_once s1 = Some 0" "driver_once s' = driver_once s2" by metis
  then show ?thesis by (auto simp: delta_exec)
qed

subsection \<open>The once flag stays set\<close>

lemma guard_push_once:
  "guard_push E t c s = (r, s') \<Longrightarrow> driver_once s = Some x \<Longrightarrow> driver_once s' = Some x"
  by (auto simp: guard_push_def driver_initialize_def Let_def split: if_splits prod.splits dest!: callT)

lemma with_guard_once:
  assumes "with_guard E t c f body s = (x, s')" "driver_once s = Some v"
    and "\<And>s1 y s2. body s1 = (y, s2) \<Longrightarrow> driver_once s2 = driver_once s1"
  shows "driver_once s' = Some v"
proof -
  obtain r s1 where g: "guard_push E t c s = (r, s1)" by (cases "guard_push E t c s")
  note o = guard_push_once [OF g assms(2)]
  obtain y s2 where b: "body s1 = (y, s2)" by (cases "body s1")
  from assms(3) [OF b] show ?thesis
    using assms(1) g b o by (auto simp: with_guard_def guard_pop_ledger split: sum.splits)
qed

lemma event_create_once:
  assumes "event_create E t ctx s = (r, s')" "driver_once s = Some v"
  shows "driver_once s' = Some v"
proof (cases ctx)
  case None with assms show ?thesis by (simp add: event_create_def)
next
  case (Some dc)
  from assms(1) [unfolded event_create_def Some option.case] assms(2) show ?thesis
    by (rule with_guard_once) (auto simp: Let_def split: prod.splits if_splits dest!: callT)
qed

end
