(* ===== verification/Transport.thy ===== *)
theory Transport
  imports Cuda_Context
begin

text \<open>
  The wire message \<^verbatim>\<open>BufferCore\<close> (\<^verbatim>\<open>ros2_cuda_ipc_msgs/msg/BufferCore.msg\<close>), the
  publisher-side \<^verbatim>\<open>BufferDescriptor\<close> and the copy from the second into the first
  (\<^verbatim>\<open>transport/message_utils.cpp\<close>). Event handles are 64-byte arrays, kept as lists whose
  length the well-formedness predicates state.
\<close>

record buffer_core =
  bc_vmm_socket_path :: string
  bc_event_handle :: "u8 list"
  bc_publisher_pid :: u32
  bc_device_id :: u32
  bc_block_id :: u32
  bc_uid :: u64
  bc_byte_size :: u64

definition BufferCore :: buffer_core where
  "BufferCore = \<lparr>bc_vmm_socket_path = [], bc_event_handle = replicate 64 0, bc_publisher_pid = 0,
     bc_device_id = 0, bc_block_id = 0, bc_uid = 0, bc_byte_size = 0\<rparr>"

record buffer_descriptor =
  bd_publisher_pid :: u32
  bd_block_id :: u32
  bd_uid :: u64
  bd_device_id :: i32
  bd_byte_size :: u64
  bd_vmm_socket_path :: string
  bd_ready_event_handle :: "u8 list"

definition BufferDescriptor :: buffer_descriptor where
  "BufferDescriptor = \<lparr>bd_publisher_pid = 0, bd_block_id = 0, bd_uid = 0, bd_device_id = - 1,
     bd_byte_size = 0, bd_vmm_socket_path = [], bd_ready_event_handle = replicate 64 0\<rparr>"

definition fill_buffer_core_message :: "buffer_descriptor \<Rightarrow> buffer_core \<Rightarrow> buffer_core" where
  "fill_buffer_core_message descriptor message =
     message\<lparr>
       bc_publisher_pid := bd_publisher_pid descriptor,
       bc_device_id := ucast (bd_device_id descriptor),
       bc_block_id := bd_block_id descriptor,
       bc_uid := bd_uid descriptor,
       bc_byte_size := bd_byte_size descriptor,
       bc_vmm_socket_path := bd_vmm_socket_path descriptor,
       bc_event_handle := payload64 (bd_ready_event_handle descriptor)\<rparr>"

text \<open>
  What a subscriber reads back out of the message; \<^verbatim>\<open>static_cast<int>(msg.device_id)\<close> undoes
  the publisher's cast.
\<close>

definition descriptor_of_message :: "buffer_core \<Rightarrow> buffer_descriptor" where
  "descriptor_of_message m =
     \<lparr>bd_publisher_pid = bc_publisher_pid m, bd_block_id = bc_block_id m, bd_uid = bc_uid m,
      bd_device_id = ucast (bc_device_id m), bd_byte_size = bc_byte_size m,
      bd_vmm_socket_path = bc_vmm_socket_path m, bd_ready_event_handle = bc_event_handle m\<rparr>"

lemma fill_overwrites:
  "fill_buffer_core_message d m = fill_buffer_core_message d m'"
  by (cases m; cases m') (simp add: fill_buffer_core_message_def)

lemma fill_roundtrip:
  "length (bd_ready_event_handle d) = 64 \<Longrightarrow> descriptor_of_message (fill_buffer_core_message d m) = d"
  by (cases d) (simp add: descriptor_of_message_def fill_buffer_core_message_def payload64_id)

end
