(* ===== verification/Memory_Importer.thy ===== *)
theory Memory_Importer
  imports Transport Machine
begin

text \<open>
  \<^verbatim>\<open>backend/memory_importer.hpp\<close> and \<^verbatim>\<open>backend/memory_importer.cpp\<close>: a subscriber fetches
  the publisher's file descriptor over a Unix socket, imports and maps the allocation, opens
  the ready event, and later releases all of it. Every early return of the source is a
  branch; the ledger lemmas at the end say what each branch leaves acquired.
\<close>

section \<open>Alignment\<close>

definition align_up_size :: "u64 \<Rightarrow> u64 \<Rightarrow> u64" where
  "align_up_size value alignment =
     (if alignment = 0 then value
      else let remainder = value mod alignment
      in if remainder = 0 then value else value + alignment - remainder)"

section \<open>Fetching the descriptor\<close>

text \<open>\<^verbatim>\<open>sizeof(sockaddr_un::sun_path)\<close> on Linux.\<close>

definition sun_path_size :: nat where
  "sun_path_size = 108"

text \<open>Opening a socket, with the fallback for kernels that reject \<^verbatim>\<open>SOCK_CLOEXEC\<close>.\<close>

definition open_unix_socket :: "env \<Rightarrow> sys \<Rightarrow> i32 option \<times> sys" where
  "open_unix_socket E s =
     (let (r, s1) = call E (Socket True) s
      in if rc r = 0 then (Some (fd_of r), s1)
      else if rc r = EINVAL \<or> rc r = EPROTOTYPE
      then let (q, s2) = call E (Socket False) s1
           in if rc q = 0 then (Some (fd_of q), exec E (Fcntl (fd_of q)) s2) else (None, s2)
      else (None, s1))"

text \<open>
  The reply of \<^verbatim>\<open>recvmsg\<close> carries the byte count in \<open>out\<close> and the payload of an
  \<^verbatim>\<open>SCM_RIGHTS\<close> control message, if there is one, in \<open>raw\<close>.
\<close>

definition request_fd_from_publisher :: "env \<Rightarrow> string \<Rightarrow> sys \<Rightarrow> i32 option \<times> sys" where
  "request_fd_from_publisher E path s =
     (case open_unix_socket E s of
        (None, s1) \<Rightarrow> (None, s1)
      | (Some sock, s1) \<Rightarrow>
          if length path \<ge> sun_path_size then (None, exec E (Close sock) s1)
          else let (c, s2) = call E (Connect sock path) s1
          in if rc c \<noteq> 0 then (None, exec E (Close sock) s2)
          else let (m, s3) = call E (RecvMsg sock) s2
          in if rc m \<noteq> 0 \<or> out m = 0 then (None, exec E (Close sock) s3)
          else if length (raw m) < 4 then (None, exec E (Close sock) s3)
          else let fd = le_int32 (raw m); s4 = exec E (Close sock) s3
          in if sint fd < 0 then (None, s4) else (Some fd, s4))"

section \<open>Importing\<close>

record imported_resources =
  im_dev_ptr :: u64
  im_event :: u64
  im_context :: "device_context option"
  im_vmm_address :: u64
  im_vmm_allocation :: u64
  im_allocation_size :: u64

definition ImportedResources :: imported_resources where
  "ImportedResources = \<lparr>im_dev_ptr = 0, im_event = 0, im_context = None, im_vmm_address = 0,
     im_vmm_allocation = 0, im_allocation_size = 0\<rparr>"

text \<open>The move constructor: the new object and the emptied source.\<close>

definition imported_move :: "imported_resources \<Rightarrow> imported_resources \<times> imported_resources" where
  "imported_move other =
     (other, other\<lparr>im_dev_ptr := 0, im_event := 0, im_context := None, im_vmm_address := 0,
        im_vmm_allocation := 0, im_allocation_size := 0\<rparr>)"

text \<open>The part of \<^verbatim>\<open>import\<close> that runs inside the activated context.\<close>

definition import_mapped ::
    "env \<Rightarrow> device_context \<Rightarrow> buffer_core \<Rightarrow> u8 list \<Rightarrow> i32 \<Rightarrow> sys \<Rightarrow> imported_resources option \<times> sys" where
  "import_mapped E dc msg event_handle fd s =
     (let (a, s1) = call E (CuMemImportFromShareableHandle fd) s;
          s2 = exec E (Close fd) s1; allocation = out a
      in if rc a \<noteq> CUDA_SUCCESS then (None, s2)
      else let (g, s3) = call E (CuMemGetAllocationGranularity (ucast (bc_device_id msg))) s2
      in if rc g \<noteq> CUDA_SUCCESS then (None, exec E (CuMemRelease allocation) s3)
      else let aligned = align_up_size (bc_byte_size msg) (out g);
               size = (if aligned = 0 then out g else aligned);
               (v, s4) = call E (CuMemAddressReserve size) s3; address = out v
      in if rc v \<noteq> CUDA_SUCCESS then (None, exec E (CuMemRelease allocation) s4)
      else let (m, s5) = call E (CuMemMap address size allocation) s4
      in if rc m \<noteq> CUDA_SUCCESS
         then (None, exec E (CuMemRelease allocation) (exec E (CuMemAddressFree address size) s5))
      else let (p, s6) = call E (CuMemSetAccess address size (ucast (bc_device_id msg))) s5
      in if rc p \<noteq> CUDA_SUCCESS
         then (None, exec E (CuMemRelease allocation) (exec E (CuMemAddressFree address size)
                       (exec E (CuMemUnmap address size) s6)))
      else let (e, s7) = call E (CuIpcOpenEventHandle event_handle) s6
      in if rc e \<noteq> CUDA_SUCCESS
         then (None, exec E (CuMemRelease allocation) (exec E (CuMemAddressFree address size)
                       (exec E (CuMemUnmap address size) s7)))
      else (Some \<lparr>im_dev_ptr = address, im_event = out e, im_context = Some dc,
                  im_vmm_address = address, im_vmm_allocation = allocation,
                  im_allocation_size = size\<rparr>, s7))"

text \<open>
  \<^verbatim>\<open>VmmFdMemoryImporter::import\<close>. On a failure after the context was retained its last
  reference goes away with the locals, after the guard has popped.
\<close>

definition import_vmm ::
    "env \<Rightarrow> nat \<Rightarrow> buffer_core \<Rightarrow> u8 list \<Rightarrow> sys \<Rightarrow> imported_resources option \<times> sys" where
  "import_vmm E thread msg event_handle s =
     (if length (bc_vmm_socket_path msg) \<ge> sun_path_size then (None, s)
      else case request_fd_from_publisher E (bc_vmm_socket_path msg) s of
        (None, s1) \<Rightarrow> (None, s1)
      | (Some fd, s1) \<Rightarrow>
          (case retain_primary E (ucast (bc_device_id msg)) s1 of
             (Inl _, s2) \<Rightarrow> (None, exec E (Close fd) s2)
           | (Inr dc, s2) \<Rightarrow>
               (case push_current E thread dc s2 of
                  (Inl _, s3) \<Rightarrow> (None, device_context_destroy E dc (exec E (Close fd) s3))
                | (Inr g, s3) \<Rightarrow>
                    (case import_mapped E dc msg event_handle fd s3 of
                       (None, s4) \<Rightarrow> (None, device_context_destroy E dc (snd (guard_pop E thread g s4)))
                     | (Some imported, s4) \<Rightarrow> (Some imported, snd (guard_pop E thread g s4))))))"

section \<open>Releasing\<close>

definition release_imported_resources :: "env \<Rightarrow> nat \<Rightarrow> imported_resources \<Rightarrow> sys \<Rightarrow> bool \<times> sys" where
  "release_imported_resources E thread imported s =
     (case im_context imported of
        None \<Rightarrow> (True, s)
      | Some dc \<Rightarrow>
          with_guard E thread (dc_context dc) (\<lambda>_. False)
            (\<lambda>s0.
              let (ok1, s1) =
                    (if im_vmm_address imported \<noteq> 0 \<and> im_allocation_size imported \<noteq> 0
                     then let (u, t1) = call E (CuMemUnmap (im_vmm_address imported) (im_allocation_size imported)) s0;
                              (f, t2) = call E (CuMemAddressFree (im_vmm_address imported) (im_allocation_size imported)) t1
                          in (rc u = CUDA_SUCCESS \<and> rc f = CUDA_SUCCESS, t2)
                     else (True, s0));
                  (ok2, s2) =
                    (if im_vmm_allocation imported \<noteq> 0
                     then let (a, t) = call E (CuMemRelease (im_vmm_allocation imported)) s1
                          in (rc a = CUDA_SUCCESS, t)
                     else (True, s1));
                  (ok3, s3) =
                    (if im_event imported \<noteq> 0
                     then let (e, t) = call E (CuEventDestroy (im_event imported)) s2
                          in (rc e = CUDA_SUCCESS, t)
                     else (True, s2))
              in (ok1 \<and> ok2 \<and> ok3, s3)) s)"

section \<open>Ledger facts\<close>

lemma retain_primary_Inl:
  assumes "retain_primary E d s = (Inl e, s')"
  shows "delta s s' k = 0 \<and> heap_next s' = heap_next s"
proof -
  obtain r s1 where i: "driver_initialize E s = (r, s1)" by (cases "driver_initialize E s")
  have "delta s1 s' k = 0 \<and> heap_next s' = heap_next s1"
    using assms i
    by (auto simp: retain_primary_def Let_def delta_def CUDA_SUCCESS_def
        split: prod.splits sum.splits if_splits dest!: callT)
  then show ?thesis using driver_initialize_ledger [OF i, of k] by (simp add: delta_trans [of s s' k s1])
qed

lemma retain_primary_Inr:
  assumes "retain_primary E d s = (Inr dc, s')"
  shows "delta s s' k = one (RPrimaryCtx (dc_device dc)) k \<and> heap_next s' = heap_next s
    \<and> dc_device_id dc = d \<and> 0 \<le> sint d"
proof -
  obtain r s1 where i: "driver_initialize E s = (r, s1)" by (cases "driver_initialize E s")
  have "delta s1 s' k = one (RPrimaryCtx (dc_device dc)) k \<and> heap_next s' = heap_next s1
      \<and> dc_device_id dc = d \<and> 0 \<le> sint d"
    using assms i
    by (auto simp: retain_primary_def Let_def delta_def CUDA_SUCCESS_def
        split: prod.splits sum.splits if_splits dest!: callT)
  then show ?thesis using driver_initialize_ledger [OF i, of k] by (simp add: delta_trans [of s s' k s1])
qed

lemma open_unix_socket_ledger:
  assumes "open_unix_socket E s = (r, s')"
  shows "delta s s' k = (case r of None \<Rightarrow> 0 | Some fd \<Rightarrow> one (RFd fd) k) \<and> heap_next s' = heap_next s"
  using assms
  by (auto simp: open_unix_socket_def Let_def delta_def
      split: prod.splits if_splits dest!: callT)

lemma request_fd_ledger:
  assumes "request_fd_from_publisher E path s = (r, s')"
  shows "delta s s' k = (case r of None \<Rightarrow> 0 | Some fd \<Rightarrow> one (RFd fd) k) \<and> heap_next s' = heap_next s"
proof -
  obtain q s1 where o: "open_unix_socket E s = (q, s1)" by (cases "open_unix_socket E s")
  have "delta s1 s' k = (case r of None \<Rightarrow> 0 | Some fd \<Rightarrow> one (RFd fd) k)
      - (case q of None \<Rightarrow> 0 | Some fd \<Rightarrow> one (RFd fd) k) \<and> heap_next s' = heap_next s1"
    using assms o
    by (auto simp: request_fd_from_publisher_def Let_def delta_def
        split: prod.splits if_splits option.splits dest!: callT)
  then show ?thesis using open_unix_socket_ledger [OF o, of k]
    by (simp add: delta_trans [of s s' k s1])
qed

lemma import_mapped_None:
  assumes "import_mapped E dc msg eh fd s = (None, s')"
  shows "delta s s' k = - one (RFd fd) k \<and> heap_next s' = heap_next s"
  using assms
  by (auto simp: import_mapped_def Let_def delta_def CUDA_SUCCESS_def
      split: prod.splits if_splits dest!: callT)

definition imported_ledger :: "imported_resources \<Rightarrow> resource \<Rightarrow> int" where
  "imported_ledger im k =
     one (RAllocation (im_vmm_allocation im)) k
     + one (RReservation (im_vmm_address im) (im_allocation_size im)) k
     + one (RMapping (im_vmm_address im) (im_allocation_size im)) k + one (REvent (im_event im)) k"

lemma import_mapped_Some:
  assumes "import_mapped E dc msg eh fd s = (Some im, s')"
  shows "delta s s' k = imported_ledger im k - one (RFd fd) k \<and> heap_next s' = heap_next s
    \<and> im_context im = Some dc \<and> im_dev_ptr im = im_vmm_address im"
  using assms
  by (auto simp: import_mapped_def Let_def delta_def CUDA_SUCCESS_def imported_ledger_def
      split: prod.splits if_splits dest!: callT)

lemma import_vmm_None:
  assumes "import_vmm E t msg eh s = (None, s')"
  shows "delta s s' k = 0 \<and> heap_next s' = heap_next s"
proof (cases "length (bc_vmm_socket_path msg) \<ge> sun_path_size")
  case True
  with assms show ?thesis by (simp add: import_vmm_def)
next
  case short: False
  obtain q s1 where q: "request_fd_from_publisher E (bc_vmm_socket_path msg) s = (q, s1)"
    by (cases "request_fd_from_publisher E (bc_vmm_socket_path msg) s")
  show ?thesis
  proof (cases q)
    case None
    with q assms short request_fd_ledger [OF q, of k] show ?thesis by (simp add: import_vmm_def)
  next
    case (Some fd)
    have d1: "delta s s1 k = one (RFd fd) k" "heap_next s1 = heap_next s"
      using request_fd_ledger [OF q, of k] Some by simp_all
    obtain c s2 where c: "retain_primary E (ucast (bc_device_id msg)) s1 = (c, s2)"
      by (cases "retain_primary E (ucast (bc_device_id msg)) s1")
    have "delta s1 s' k = - one (RFd fd) k \<and> heap_next s' = heap_next s1"
    proof (cases c)
      case (Inl e)
      with c assms short q Some retain_primary_Inl [of E _ s1 e s2 k] show ?thesis
        by (auto simp: import_vmm_def delta_def)
    next
      case (Inr dc)
      have d2: "delta s1 s2 k = one (RPrimaryCtx (dc_device dc)) k" "heap_next s2 = heap_next s1"
        using retain_primary_Inr c Inr by blast+
      obtain g s3 where g: "guard_push E t (dc_context dc) s2 = (g, s3)"
        by (cases "guard_push E t (dc_context dc) s2")
      have "delta s2 s' k = - one (RFd fd) k - one (RPrimaryCtx (dc_device dc)) k \<and> heap_next s' = heap_next s2"
      proof (cases g)
        case (Inl e)
        with g c Inr assms short q Some guard_push_Inl [of E t _ s2 e s3 k] show ?thesis
          by (auto simp: import_vmm_def push_current_def device_context_destroy_def delta_def)
      next
        case g': (Inr gd)
        have d3: "delta s2 s3 k = one RPushedCtx k" "heap_next s3 = heap_next s2"
          and gd: "gd = \<lparr>cg_context = dc_context dc, cg_owner_thread = t, cg_active = True\<rparr>"
          using guard_push_Inr g g' by blast+
        obtain m s4 where m: "import_mapped E dc msg eh fd s3 = (m, s4)"
          by (cases "import_mapped E dc msg eh fd s3")
        with assms short q Some c Inr g g' have "m = None"
          and s': "s' = device_context_destroy E dc (snd (guard_pop E t gd s4))"
          by (auto simp: import_vmm_def push_current_def split: option.splits)
        then show ?thesis
          using import_mapped_None [of E dc msg eh fd s3 s4 k] m d3
          by (auto simp: gd device_context_destroy_def guard_pop_def delta_def)
      qed
      with d2 show ?thesis by (simp add: delta_trans [of s1 s' k s2])
    qed
    with d1 show ?thesis by (simp add: delta_trans [of s s' k s1])
  qed
qed

lemma import_vmm_Some:
  assumes "import_vmm E t msg eh s = (Some im, s')"
  obtains dc where "im_context im = Some dc"
    "\<And>k. delta s s' k = imported_ledger im k + one (RPrimaryCtx (dc_device dc)) k"
    "heap_next s' = heap_next s" "im_dev_ptr im = im_vmm_address im"
    "dc_device_id dc = ucast (bc_device_id msg)"
proof -
  from assms obtain fd s1 where q: "request_fd_from_publisher E (bc_vmm_socket_path msg) s = (Some fd, s1)"
    by (auto simp: import_vmm_def split: if_splits option.splits prod.splits)
  with assms obtain dc s2 where c: "retain_primary E (ucast (bc_device_id msg)) s1 = (Inr dc, s2)"
    by (auto simp: import_vmm_def split: if_splits option.splits prod.splits sum.splits)
  with q assms obtain g s3 where g: "guard_push E t (dc_context dc) s2 = (Inr g, s3)"
    by (auto simp: import_vmm_def push_current_def split: if_splits option.splits prod.splits sum.splits)
  with q c assms obtain s4 where m: "import_mapped E dc msg eh fd s3 = (Some im, s4)"
    and s': "s' = snd (guard_pop E t g s4)"
    by (auto simp: import_vmm_def push_current_def split: if_splits option.splits prod.splits)
  have gd: "g = \<lparr>cg_context = dc_context dc, cg_owner_thread = t, cg_active = True\<rparr>"
    using guard_push_Inr [OF g] by blast
  show thesis
  proof (rule that)
    show "im_context im = Some dc" "im_dev_ptr im = im_vmm_address im"
      using import_mapped_Some [OF m] by simp_all
    show "dc_device_id dc = ucast (bc_device_id msg)" using retain_primary_Inr [OF c] by simp
    show "heap_next s' = heap_next s"
      using import_mapped_Some [OF m] guard_push_Inr [OF g] retain_primary_Inr [OF c]
        request_fd_ledger [OF q] by (simp add: s' guard_pop_ledger)
    fix k
    have "delta s4 s' k = - one RPushedCtx k" by (simp add: s' gd guard_pop_ledger)
    moreover have "delta s s' k = delta s s1 k + delta s1 s2 k + delta s2 s3 k + delta s3 s4 k + delta s4 s' k"
      by (simp add: delta_def)
    ultimately show "delta s s' k = imported_ledger im k + one (RPrimaryCtx (dc_device dc)) k"
      using import_mapped_Some [OF m, of k] guard_push_Inr [OF g, of k] retain_primary_Inr [OF c, of k]
        request_fd_ledger [OF q, of k] by simp
  qed
qed

lemma retain_primary_once: "retain_primary E d s = (Inr dc, s') \<Longrightarrow> driver_once s' = Some 0"
  by (auto simp: retain_primary_def driver_initialize_def Let_def CUDA_SUCCESS_def
      split: prod.splits sum.splits option.splits if_splits dest!: callT)

lemma import_mapped_once: "import_mapped E dc msg eh fd s = (r, s') \<Longrightarrow> driver_once s' = driver_once s"
  by (auto simp: import_mapped_def Let_def split: prod.splits if_splits dest!: callT)

lemma import_vmm_live:
  assumes "import_vmm E t msg eh s = (Some im, s')"
  obtains dc where "im_context im = Some dc" "dc_context dc \<noteq> 0" "driver_once s' = Some 0"
proof -
  from assms obtain fd s1 where q: "request_fd_from_publisher E (bc_vmm_socket_path msg) s = (Some fd, s1)"
    by (auto simp: import_vmm_def split: if_splits option.splits prod.splits)
  with assms obtain dc s2 where c: "retain_primary E (ucast (bc_device_id msg)) s1 = (Inr dc, s2)"
    by (auto simp: import_vmm_def split: if_splits option.splits prod.splits sum.splits)
  with q assms obtain g s3 where g: "guard_push E t (dc_context dc) s2 = (Inr g, s3)"
    by (auto simp: import_vmm_def push_current_def split: if_splits option.splits prod.splits sum.splits)
  with q c assms obtain s4 where m: "import_mapped E dc msg eh fd s3 = (Some im, s4)"
    and s': "s' = snd (guard_pop E t g s4)"
    by (auto simp: import_vmm_def push_current_def split: if_splits option.splits prod.splits)
  show thesis
    using import_mapped_Some [OF m] guard_push_Inr [OF g] import_mapped_once [OF m]
    by (intro that [of dc]) (simp_all add: s' guard_pop_ledger)
qed

lemma release_imported_ledger:
  assumes "pushes_succeed E" "driver_once s = Some 0"
    "im_context im = Some dc" "dc_context dc \<noteq> 0"
    "im_vmm_address im \<noteq> 0" "im_vmm_allocation im \<noteq> 0" "im_event im \<noteq> 0" "im_allocation_size im \<noteq> 0"
    and r: "release_imported_resources E t im s = (ok, s')"
  shows "delta s s' k = - imported_ledger im k \<and> heap_next s' = heap_next s \<and> driver_once s' = Some 0"
proof -
  from r [unfolded release_imported_resources_def assms(3) option.case] show ?thesis
  proof (rule with_guard_runs [OF assms(1,2,4)])
    fix s1 s2
    assume b: "(let (ok1, s1) = (if im_vmm_address im \<noteq> 0 \<and> im_allocation_size im \<noteq> 0
             then let (u, t1) = call E (CuMemUnmap (im_vmm_address im) (im_allocation_size im)) s1;
                      (f, t2) = call E (CuMemAddressFree (im_vmm_address im) (im_allocation_size im)) t1
                  in (rc u = CUDA_SUCCESS \<and> rc f = CUDA_SUCCESS, t2) else (True, s1));
          (ok2, s2) = (if im_vmm_allocation im \<noteq> 0
             then let (a, t) = call E (CuMemRelease (im_vmm_allocation im)) s1 in (rc a = CUDA_SUCCESS, t)
             else (True, s1));
          (ok3, s3) = (if im_event im \<noteq> 0
             then let (e, t) = call E (CuEventDestroy (im_event im)) s2 in (rc e = CUDA_SUCCESS, t)
             else (True, s2))
      in (ok1 \<and> ok2 \<and> ok3, s3)) = (ok, s2)"
      and d: "\<And>k. delta s s' k = delta s1 s2 k" "heap_next s1 = heap_next s" "heap_next s' = heap_next s2"
        "driver_once s1 = Some 0" "driver_once s' = driver_once s2"
    from b assms(5-8) have "delta s1 s2 k = - imported_ledger im k \<and> heap_next s2 = heap_next s1 \<and> driver_once s2 = driver_once s1"
      by (auto simp: Let_def imported_ledger_def delta_def split: prod.splits dest!: callT)
    with d show ?thesis by simp
  qed
qed

section \<open>Rounding\<close>

lemma align_up_size_unat:
  assumes "0 < unat g"
  shows "unat (align_up_size v g) =
    (let r = unat v mod unat g in if r = 0 then unat v else (unat v + (unat g - r)) mod 2 ^ 64)"
proof -
  have g: "g \<noteq> 0" using assms by auto
  have r: "unat (v mod g) = unat v mod unat g" by (simp add: unat_mod)
  then have z: "v mod g = 0 \<longleftrightarrow> unat v mod unat g = 0" by (metis unat_eq_zero)
  have le: "v mod g \<le> g" using assms r by (simp add: word_le_nat_alt less_imp_le)
  have "unat (v + g - v mod g) = unat (v + (g - v mod g))" by (simp add: algebra_simps)
  also have "\<dots> = (unat v + unat (g - v mod g)) mod 2 ^ 64" by (simp add: unat_word_ariths)
  also have "unat (g - v mod g) = unat g - unat v mod unat g" using le r by (simp add: unat_sub)
  finally show ?thesis using g z by (auto simp: align_up_size_def Let_def)
qed

lemma align_up_size_cover:
  assumes "0 < unat g" "unat v + unat g \<le> 2 ^ 64"
  shows "unat v \<le> unat (align_up_size v g) \<and> unat (align_up_size v g) < unat v + unat g
    \<and> unat (align_up_size v g) mod unat g = 0"
proof -
  let ?r = "unat v mod unat g"
  have lt: "?r < unat g" using assms(1) by simp
  show ?thesis
  proof (cases "?r = 0")
    case True
    with assms show ?thesis by (simp add: align_up_size_unat Let_def)
  next
    case False
    then have b: "unat v + (unat g - ?r) < 2 ^ 64" using lt assms(2) by linarith
    then have u: "unat (align_up_size v g) = unat v + (unat g - ?r)"
      using False assms(1) by (simp add: align_up_size_unat Let_def)
    have "unat v div unat g * unat g + ?r = unat v" by (rule div_mult_mod_eq)
    then have "unat v + (unat g - ?r) = unat v div unat g * unat g + unat g" using lt by linarith
    then have "(unat v + (unat g - ?r)) mod unat g = 0" by simp
    then show ?thesis using u False lt by simp
  qed
qed

text \<open>Above that bound a size that is not already aligned wraps to zero when the granularity divides \<open>2 ^ 64\<close>.\<close>

lemma align_up_size_wrap:
  assumes "unat g dvd 2 ^ 64" "2 ^ 64 < unat v + unat g"
  shows "align_up_size v g = 0"
proof -
  let ?r = "unat v mod unat g"
  have g: "0 < unat g" using assms unat_bound64 [of v] by (cases "unat g = 0") auto
  obtain q where q: "(2::nat) ^ 64 = unat g * q" using assms(1) by blast
  have lt: "?r < unat g" using g by simp
  have v: "unat v < 2 ^ 64" by (rule unat_bound64)
  have lo: "unat g * (q - 1) < unat v" using assms(2) q unat_bound64 [of g]
    by (simp add: diff_mult_distrib2)
  have "unat v div unat g = q - 1"
  proof (rule antisym)
    have "unat v div unat g < q" using v q g by (simp add: div_less_iff_less_mult mult.commute)
    then show "unat v div unat g \<le> q - 1" by simp
    show "q - 1 \<le> unat v div unat g" using lo g by (simp add: less_eq_div_iff_mult_less_eq mult.commute)
  qed
  then have e: "unat v = unat g * (q - 1) + ?r" by (metis mult_div_mod_eq)
  have "?r \<noteq> 0" using e lo by linarith
  moreover have "unat v + (unat g - ?r) = 2 ^ 64"
  proof -
    have "0 < q" using q by (cases q) auto
    then have "unat g * q = unat g * (q - 1) + unat g" by (cases q) auto
    then show ?thesis using e q lt by linarith
  qed
  ultimately have "unat (align_up_size v g) = 0" using g by (simp add: align_up_size_unat Let_def)
  then show ?thesis by (metis unat_eq_zero)
qed

lemma import_mapped_size:
  assumes "import_mapped E dc msg eh fd s = (Some im, s')"
    and "\<And>h i. out (E h (CuMemGetAllocationGranularity i)) = g"
  shows "im_allocation_size im =
    (if align_up_size (bc_byte_size msg) g = 0 then g else align_up_size (bc_byte_size msg) g)"
  using assms(1) by (auto simp: import_mapped_def Let_def call_def assms(2) split: prod.splits if_splits)

lemma import_vmm_mapped:
  assumes "import_vmm E t msg eh s = (Some im, s')"
  obtains dc fd s1 s2 where "import_mapped E dc msg eh fd s1 = (Some im, s2)"
  using assms
  by (auto simp: import_vmm_def split: if_splits option.splits prod.splits sum.splits)

section \<open>Properties\<close>

text \<open>
  C18. An import that fails, at any of its steps and for any behaviour of the driver and the
  POSIX layer, gives back every descriptor, allocation, address range, mapping, event and
  context it had acquired.
\<close>

theorem import_failure_leaks_nothing:
  assumes "import_vmm E thread msg event_handle s = (None, s')"
  shows "held k (tr s') = held k (tr s)"
  using import_vmm_None [OF assms, of k] by (simp add: delta_def)

definition sample_core :: buffer_core where
  "sample_core = BufferCore\<lparr>bc_vmm_socket_path := ''/tmp/p.sock'', bc_byte_size := 5000\<rparr>"

lemmas import_eval = import_vmm_def request_fd_from_publisher_def open_unix_socket_def retain_primary_def
  driver_initialize_def push_current_def guard_push_def guard_pop_def import_mapped_def align_up_size_def
  device_context_destroy_def sample_core_def BufferCore_def initial_sys_def cuda_code_defs
  sun_path_size_def le_int32_def machine_defs

theorem import_failure_leaks_nothing_witness:
  "held (RAllocation 0xA1) (tr (snd (import_vmm (failing (\<lambda>c. c = CuIpcOpenEventHandle []) 201) 1
      sample_core [] initial_sys))) = held (RAllocation 0xA1) []"
proof -
  have "\<exists>s'. import_vmm (failing (\<lambda>c. c = CuIpcOpenEventHandle []) 201) 1 sample_core [] initial_sys = (None, s')"
    by (simp add: import_eval)
  then show ?thesis using import_failure_leaks_nothing by (fastforce simp: initial_sys_def)
qed


text \<open>
  Releasing what an import acquired, followed by the destruction of the context it holds,
  leaves every ledger where it was before the import: nothing leaks and nothing is given back
  twice. The driver is assumed to accept activation of a live context and to return non-null
  handles, as it documents.
\<close>

theorem import_release_roundtrip:
  assumes "pushes_succeed E"
    and "import_vmm E thread msg event_handle s = (Some im, s1)"
    and "im_vmm_address im \<noteq> 0" "im_vmm_allocation im \<noteq> 0" "im_event im \<noteq> 0" "im_allocation_size im \<noteq> 0"
    and "release_imported_resources E thread im s1 = (ok, s2)"
    and "im_context im = Some dc"
  shows "held k (tr (device_context_destroy E dc s2)) = held k (tr s)"
proof -
  obtain dc' where live: "im_context im = Some dc'" "dc_context dc' \<noteq> 0" "driver_once s1 = Some 0"
    using import_vmm_live [OF assms(2)] by blast
  with assms(8) have [simp]: "dc' = dc" by simp
  obtain dc'' where "im_context im = Some dc''"
      "delta s s1 k = imported_ledger im k + one (RPrimaryCtx (dc_device dc'')) k"
    using import_vmm_Some [OF assms(2)] by metis
  then have "delta s s1 k = imported_ledger im k + one (RPrimaryCtx (dc_device dc)) k" using live by simp
  moreover have "delta s1 s2 k = - imported_ledger im k"
    using release_imported_ledger [OF assms(1) live(3,1,2) assms(3-7)] by blast
  ultimately show ?thesis by (simp add: delta_def device_context_destroy_def)
qed

theorem import_release_roundtrip_witness:
  "\<exists>im s1 s2. import_vmm healthy 1 sample_core [] initial_sys = (Some im, s1)
     \<and> release_imported_resources healthy 1 im s1 = (True, s2)
     \<and> held (REvent 0xE1) (tr (device_context_destroy healthy \<lparr>dc_device_id = 0, dc_device = 0, dc_context = 7\<rparr> s2))
       = held (REvent 0xE1) (tr initial_sys)"
proof -
  let ?im = "\<lparr>im_dev_ptr = 0x7F0000000000, im_event = 0xE1,
    im_context = Some \<lparr>dc_device_id = 0, dc_device = 0, dc_context = 7\<rparr>, im_vmm_address = 0x7F0000000000,
    im_vmm_allocation = 0xA1, im_allocation_size = 0x200000\<rparr> :: imported_resources"
  have p: "pushes_succeed healthy" by (simp add: pushes_succeed_def healthy_def)
  obtain s1 where i: "import_vmm healthy 1 sample_core [] initial_sys = (Some ?im, s1)"
    and o: "driver_once s1 = Some 0"
    by (simp add: import_eval)
  obtain s2 where r: "release_imported_resources healthy 1 ?im s1 = (True, s2)"
    using o by (simp add: release_imported_resources_def with_guard_def import_eval)
  show ?thesis
    using import_release_roundtrip [OF p i _ _ _ _ r] i r by simp
qed

text \<open>
  C38. The range an import maps covers the message's byte size, up to the granularity of the
  device, as long as rounding the size up does not pass \<open>2 ^ 64\<close>; past that bound the rounding
  wraps to zero and only one granule is mapped, whatever the message says.
\<close>

theorem import_maps_the_message_or_wraps:
  assumes "import_vmm E thread msg event_handle s = (Some im, s')"
    and "\<And>h i. out (E h (CuMemGetAllocationGranularity i)) = g"
    and "0 < unat g" "unat g dvd 2 ^ 64" "bc_byte_size msg \<noteq> 0"
  shows "if unat (bc_byte_size msg) + unat g \<le> 2 ^ 64
         then unat (bc_byte_size msg) \<le> unat (im_allocation_size im)
           \<and> unat (im_allocation_size im) < unat (bc_byte_size msg) + unat g
         else im_allocation_size im = g"
proof -
  obtain dc fd s1 s2 where "import_mapped E dc msg event_handle fd s1 = (Some im, s2)"
    using import_vmm_mapped [OF assms(1)] .
  note size = import_mapped_size [OF this assms(2)]
  show ?thesis
  proof (cases "unat (bc_byte_size msg) + unat g \<le> 2 ^ 64")
    case True
    note c = align_up_size_cover [OF assms(3) True]
    have "0 < unat (bc_byte_size msg)" using assms(5) by (simp add: unat_gt_0)
    then have "align_up_size (bc_byte_size msg) g \<noteq> 0" using c by auto
    then show ?thesis using True c size by simp
  next
    case False
    then have "align_up_size (bc_byte_size msg) g = 0" by (intro align_up_size_wrap assms(4)) simp
    then show ?thesis using False size by simp
  qed
qed

theorem import_maps_the_message_or_wraps_witness:
  "\<exists>im s'. import_vmm healthy 1 (sample_core\<lparr>bc_byte_size := - 1\<rparr>) [] initial_sys = (Some im, s')
     \<and> im_allocation_size im = 0x200000"
proof -
  obtain im s' where i: "import_vmm healthy 1 (sample_core\<lparr>bc_byte_size := - 1\<rparr>) [] initial_sys = (Some im, s')"
    by (simp add: import_eval)
  have "unat (0x200000 :: u64) dvd 2 ^ 64" by (rule dvdI [of _ _ 8796093022208]) simp
  then have "im_allocation_size im = 0x200000"
    using import_maps_the_message_or_wraps [OF i, of "0x200000"] u64_max_unat
    by (simp add: healthy_def sample_core_def)
  with i show ?thesis by blast
qed

end
