(* ===== verification/Memory_Backend.thy ===== *)
theory Memory_Backend
  imports Memory_Importer Buffer_Metadata
begin

text \<open>
  \<^verbatim>\<open>backend/memory_backend.hpp\<close>, \<^verbatim>\<open>backend/memory_backend.cpp\<close> and
  \<^verbatim>\<open>backend/socket_path.hpp\<close>: the publisher's side of the VMM file-descriptor backend. It
  allocates one exportable range per block and serves its descriptor over a Unix socket; the
  destructor of a block's state gives everything back. The worker thread's accept loop is a
  function of the values \<^verbatim>\<open>running_\<close> has at its successive tests.
\<close>

section \<open>Helpers\<close>

definition align_up :: "u64 \<Rightarrow> u64 \<Rightarrow> u64" where
  "align_up value alignment =
     (if alignment = 0 then value
      else let remainder = value mod alignment
      in if remainder = 0 then value else value + alignment - remainder)"

text \<open>A C string: the characters of a byte buffer up to the first NUL.\<close>

definition c_string :: "u8 list \<Rightarrow> string" where
  "c_string bs = map (\<lambda>b. char_of (unat b)) (takeWhile (\<lambda>b. b \<noteq> 0) bs)"

text \<open>\<open>None\<close> is the \<^verbatim>\<open>std::invalid_argument\<close> the source throws.\<close>

definition build_socket_path :: "env \<Rightarrow> string \<Rightarrow> sys \<Rightarrow> string option \<times> sys" where
  "build_socket_path E uuid s =
     (let (r, s') = call E (UuidParseRange uuid) s
      in if rc r \<noteq> 0 then (None, s')
      else (Some (''/tmp/cuda_memory_pool_'' @ uuid @ ''.sock''), s'))"

definition ensure_driver :: "env \<Rightarrow> sys \<Rightarrow> bool \<times> sys" where
  "ensure_driver E s =
     (let (status, s1) =
        (case backend_once s of
           Some st \<Rightarrow> (st, s)
         | None \<Rightarrow> (let (r, s') = call E CuInit s in (rc r, s'\<lparr>backend_once := Some (rc r)\<rparr>)))
      in (status = CUDA_SUCCESS, s1))"

section \<open>The descriptor server\<close>

record unix_fd_server =
  us_path :: string
  us_fd :: i32
  us_listen_fd :: i32
  us_running :: bool
  us_worker :: bool

text \<open>The constructor, \<open>None\<close> where it throws.\<close>

definition UnixFdServer :: "string \<Rightarrow> i32 \<Rightarrow> unix_fd_server option" where
  "UnixFdServer socket_path fd_to_send =
     (if sint fd_to_send < 0 then None
      else Some \<lparr>us_path = socket_path, us_fd = fd_to_send, us_listen_fd = - 1,
                 us_running = False, us_worker = False\<rparr>)"

definition server_stop :: "env \<Rightarrow> unix_fd_server \<Rightarrow> sys \<Rightarrow> unix_fd_server \<times> sys" where
  "server_stop E srv s =
     (let srv1 = srv\<lparr>us_running := False\<rparr>;
          (srv2, s1) =
            (if 0 \<le> sint (us_listen_fd srv1)
             then (srv1\<lparr>us_listen_fd := - 1\<rparr>,
                   exec E (Close (us_listen_fd srv1)) (exec E (Shutdown (us_listen_fd srv1)) s))
             else (srv1, s));
          srv3 = srv2\<lparr>us_worker := False\<rparr>
      in (srv3, exec E (Unlink (us_path srv3)) s1))"

definition server_start :: "env \<Rightarrow> unix_fd_server \<Rightarrow> sys \<Rightarrow> (bool \<times> unix_fd_server) \<times> sys" where
  "server_start E srv s =
     (let (srv1, s1) = server_stop E srv s
      in case open_unix_socket E s1 of
        (None, s2) \<Rightarrow> ((False, srv1), s2)
      | (Some sock, s2) \<Rightarrow>
          let s3 = exec E (Unlink (us_path srv1)) s2;
              (b, s4) = call E (Bind sock (take (sun_path_size - 1) (us_path srv1))) s3
          in if rc b \<noteq> 0 then ((False, srv1), exec E (Close sock) s4)
          else let (l, s5) = call E (Listen sock) s4
          in if rc l \<noteq> 0 then ((False, srv1), exec E (Close sock) s5)
          else ((True, srv1\<lparr>us_listen_fd := sock, us_running := True, us_worker := True\<rparr>), s5))"

definition send_fd :: "env \<Rightarrow> unix_fd_server \<Rightarrow> i32 \<Rightarrow> sys \<Rightarrow> sys" where
  "send_fd E srv client s = exec E (SendMsg client (us_fd srv)) s"

text \<open>
  The accept loop. \<open>running\<close> lists what \<^verbatim>\<open>running_.load\<close> returns at the successive loop heads;
  the loop ends at the first \<open>False\<close>. A failed \<^verbatim>\<open>accept\<close>, interrupted or not, goes round
  again.
\<close>

fun server_run :: "env \<Rightarrow> unix_fd_server \<Rightarrow> bool list \<Rightarrow> sys \<Rightarrow> sys" where
  "server_run E srv [] s = s"
| "server_run E srv (False # _) s = s"
| "server_run E srv (True # running) s =
     (let (a, s1) = call E (Accept (us_listen_fd srv)) s
      in if rc a \<noteq> 0 then server_run E srv running s1
      else let client = fd_of a;
               (f, s2) = call E (Fcntl client) s1;
               s3 = (if rc f = 0 then exec E (Fcntl client) s2 else s2)
      in server_run E srv running (exec E (Close client) (send_fd E srv client s3)))"

section \<open>Block state\<close>

record vmm_fd_block_state =
  vs_allocation :: u64
  vs_address :: u64
  vs_allocation_size :: u64
  vs_shareable_fd :: i32
  vs_uuid :: string
  vs_server :: "unix_fd_server option"

definition VmmFdBlockState :: vmm_fd_block_state where
  "VmmFdBlockState = \<lparr>vs_allocation = 0, vs_address = 0, vs_allocation_size = 0,
     vs_shareable_fd = - 1, vs_uuid = [], vs_server = None\<rparr>"

text \<open>The destructor; \<^verbatim>\<open>server.reset()\<close> runs \<^verbatim>\<open>~UnixFdServer\<close>, which stops again.\<close>

definition destroy_vmm_state :: "env \<Rightarrow> vmm_fd_block_state \<Rightarrow> sys \<Rightarrow> sys" where
  "destroy_vmm_state E st s =
     (let s1 = (case vs_server st of
                  None \<Rightarrow> s
                | Some srv \<Rightarrow> (let (srv', t) = server_stop E srv s in snd (server_stop E srv' t)));
          s2 = (if 0 \<le> sint (vs_shareable_fd st) then exec E (Close (vs_shareable_fd st)) s1 else s1);
          s3 = (if vs_address st \<noteq> 0 \<and> vs_allocation_size st > 0
                then exec E (CuMemAddressFree (vs_address st) (vs_allocation_size st))
                       (exec E (CuMemUnmap (vs_address st) (vs_allocation_size st)) s2)
                else s2)
      in if vs_allocation st \<noteq> 0 then exec E (CuMemRelease (vs_allocation st)) s3 else s3)"

record gpu_buffer_block =
  gb_block_id :: u32
  gb_shared_metadata :: "mapping option"
  gb_device_ptr :: u64
  gb_ready_event :: "interprocess_event option"
  gb_vmm_socket_path :: string
  gb_vmm_fd_state :: "vmm_fd_block_state option"

definition GpuBufferBlock :: gpu_buffer_block where
  "GpuBufferBlock = \<lparr>gb_block_id = 0, gb_shared_metadata = None, gb_device_ptr = 0,
     gb_ready_event = None, gb_vmm_socket_path = [], gb_vmm_fd_state = None\<rparr>"

definition reset_vmm_state :: "env \<Rightarrow> vmm_fd_block_state option \<Rightarrow> sys \<Rightarrow> sys" where
  "reset_vmm_state E state s = (case state of None \<Rightarrow> s | Some st \<Rightarrow> destroy_vmm_state E st s)"

fun destroy_vmm_fd_memory :: "env \<Rightarrow> gpu_buffer_block list \<Rightarrow> sys \<Rightarrow> gpu_buffer_block list \<times> sys" where
  "destroy_vmm_fd_memory E [] s = ([], s)"
| "destroy_vmm_fd_memory E (block # blocks) s =
     (let s1 = reset_vmm_state E (gb_vmm_fd_state block) s;
          (blocks', s2) = destroy_vmm_fd_memory E blocks s1
      in (block\<lparr>gb_device_ptr := 0, gb_vmm_fd_state := None, gb_vmm_socket_path := []\<rparr> # blocks', s2))"

section \<open>Allocation\<close>

text \<open>How an allocation step ended: it returned true or false, or an exception left it.\<close>

datatype alloc_result = Allocated | AllocationFailed | AllocationThrew

text \<open>
  The body of the allocation loop: how it ended, the state object as far as it was filled in
  and, on success, the socket path.
\<close>

definition allocate_block_state ::
    "env \<Rightarrow> i32 \<Rightarrow> u64 \<Rightarrow> sys \<Rightarrow> (alloc_result \<times> vmm_fd_block_state \<times> string) \<times> sys" where
  "allocate_block_state E device_index aligned_size s =
     (let st0 = VmmFdBlockState\<lparr>vs_allocation_size := aligned_size\<rparr>;
          (a, s1) = call E (CuMemAddressReserve aligned_size) s
      in if rc a \<noteq> CUDA_SUCCESS then ((AllocationFailed, st0, []), s1)
      else let st1 = st0\<lparr>vs_address := out a\<rparr>;
               (c, s2) = call E (CuMemCreate aligned_size device_index) s1
      in if rc c \<noteq> CUDA_SUCCESS then ((AllocationFailed, st1, []), s2)
      else let st2 = st1\<lparr>vs_allocation := out c\<rparr>;
               (m, s3) = call E (CuMemMap (out a) aligned_size (out c)) s2
      in if rc m \<noteq> CUDA_SUCCESS then ((AllocationFailed, st2, []), s3)
      else let (p, s4) = call E (CuMemSetAccess (out a) aligned_size device_index) s3
      in if rc p \<noteq> CUDA_SUCCESS then ((AllocationFailed, st2, []), s4)
      else let (x, s5) = call E (CuMemExportToShareableHandle (out c)) s4
      in if rc x \<noteq> CUDA_SUCCESS then ((AllocationFailed, st2, []), s5)
      else let fd = ucast (out x); st3 = st2\<lparr>vs_shareable_fd := fd\<rparr>;
               s6 = (if 0 \<le> sint fd
                     then (let (f, t) = call E (Fcntl fd) s5 in if rc f = 0 then exec E (Fcntl fd) t else t)
                     else s5);
               (u, s7) = call E UuidGenerate s6;
               (str, s8) = call E (UuidUnparseLower (raw u)) s7;
               uuid = c_string (take 36 (raw str)); st4 = st3\<lparr>vs_uuid := uuid\<rparr>
      in case build_socket_path E uuid s8 of
           (None, s9) \<Rightarrow> ((AllocationThrew, st4, []), s9)
         | (Some socket_path, s9) \<Rightarrow>
             (case UnixFdServer socket_path fd of
                None \<Rightarrow> ((AllocationThrew, st4, []), s9)
              | Some srv \<Rightarrow>
                  let ((started, srv'), s10) = server_start E srv s9
                  in ((if started then Allocated else AllocationFailed,
                       st4\<lparr>vs_server := Some srv'\<rparr>, socket_path), s10)))"

text \<open>
  The loop over the blocks. On a failure the loop's own state object dies after
  \<^verbatim>\<open>destroy_vmm_fd_memory\<close> has cleared the blocks; an exception unwinds it alone.
\<close>

fun allocate_vmm_blocks ::
    "env \<Rightarrow> i32 \<Rightarrow> u64 \<Rightarrow> gpu_buffer_block list \<Rightarrow> gpu_buffer_block list \<Rightarrow> sys
     \<Rightarrow> (alloc_result \<times> gpu_buffer_block list) \<times> sys" where
  "allocate_vmm_blocks E device_index aligned_size ready [] s = ((Allocated, ready), s)"
| "allocate_vmm_blocks E device_index aligned_size ready (block # blocks) s =
     (case allocate_block_state E device_index aligned_size s of
        ((Allocated, st, socket_path), s1) \<Rightarrow>
          allocate_vmm_blocks E device_index aligned_size
            (ready @ [block\<lparr>gb_vmm_socket_path := socket_path, gb_device_ptr := vs_address st,
                            gb_vmm_fd_state := Some st\<rparr>])
            blocks (reset_vmm_state E (gb_vmm_fd_state block) s1)
      | ((AllocationFailed, st, _), s1) \<Rightarrow>
          let (blocks', s2) = destroy_vmm_fd_memory E (ready @ block # blocks) s1
          in ((AllocationFailed, blocks'), destroy_vmm_state E st s2)
      | ((AllocationThrew, st, _), s1) \<Rightarrow>
          ((AllocationThrew, ready @ block # blocks), destroy_vmm_state E st s1))"

definition allocate_vmm_fd_memory ::
    "env \<Rightarrow> u64 \<Rightarrow> i32 \<Rightarrow> gpu_buffer_block list \<Rightarrow> sys \<Rightarrow> (alloc_result \<times> gpu_buffer_block list) \<times> sys" where
  "allocate_vmm_fd_memory E frame_size_bytes device_index blocks s =
     (let (ok, s1) = ensure_driver E s
      in if \<not> ok then ((AllocationFailed, blocks), s1)
      else let (g, s2) = call E (CuMemGetAllocationGranularity device_index) s1
      in if rc g \<noteq> CUDA_SUCCESS then ((AllocationFailed, blocks), s2)
      else allocate_vmm_blocks E device_index (align_up frame_size_bytes (out g)) [] blocks s2)"

section \<open>Ledger facts\<close>

text \<open>
  What the driver documents: it hands out non-null addresses and allocation handles, and does
  not reserve an empty range.
\<close>

definition vmm_contract :: "env \<Rightarrow> bool" where
  "vmm_contract E \<longleftrightarrow>
     (\<forall>h n. rc (E h (CuMemAddressReserve n)) = 0 \<longrightarrow> n \<noteq> 0 \<and> out (E h (CuMemAddressReserve n)) \<noteq> 0)
     \<and> (\<forall>h n d. rc (E h (CuMemCreate n d)) = 0 \<longrightarrow> out (E h (CuMemCreate n d)) \<noteq> 0)"

definition server_ledger :: "unix_fd_server \<Rightarrow> resource \<Rightarrow> int" where
  "server_ledger srv k = (if 0 \<le> sint (us_listen_fd srv) then one (RFd (us_listen_fd srv)) k else 0)"

definition range_ledger :: "vmm_fd_block_state \<Rightarrow> resource \<Rightarrow> int" where
  "range_ledger st k =
     (if vs_address st \<noteq> 0 \<and> vs_allocation_size st > 0
      then one (RReservation (vs_address st) (vs_allocation_size st)) k
        + one (RMapping (vs_address st) (vs_allocation_size st)) k else 0)
     + (if vs_allocation st \<noteq> 0 then one (RAllocation (vs_allocation st)) k else 0)"

definition state_ledger :: "vmm_fd_block_state \<Rightarrow> resource \<Rightarrow> int" where
  "state_ledger st k =
     (case vs_server st of None \<Rightarrow> 0 | Some srv \<Rightarrow> server_ledger srv k)
     + (if 0 \<le> sint (vs_shareable_fd st) then one (RFd (vs_shareable_fd st)) k else 0)
     + range_ledger st k"

definition state_option_ledger :: "vmm_fd_block_state option \<Rightarrow> resource \<Rightarrow> int" where
  "state_option_ledger st k = (case st of None \<Rightarrow> 0 | Some x \<Rightarrow> state_ledger x k)"

definition blocks_ledger :: "gpu_buffer_block list \<Rightarrow> resource \<Rightarrow> int" where
  "blocks_ledger bs k = sum_list (map (\<lambda>b. state_option_ledger (gb_vmm_fd_state b) k) bs)"

lemma blocks_ledger_simps [simp]:
  "blocks_ledger [] k = 0"
  "blocks_ledger (b # bs) k = state_option_ledger (gb_vmm_fd_state b) k + blocks_ledger bs k"
  "blocks_ledger (bs @ cs) k = blocks_ledger bs k + blocks_ledger cs k"
  by (simp_all add: blocks_ledger_def)

text \<open>The counters a step must leave alone.\<close>

definition quiet :: "sys \<Rightarrow> sys \<Rightarrow> bool" where
  "quiet s s' \<longleftrightarrow> heap_next s' = heap_next s \<and> driver_once s' = driver_once s"

lemma quiet_refl [simp]: "quiet s s"
  by (simp add: quiet_def)

lemma quiet_trans: "quiet s t \<Longrightarrow> quiet t u \<Longrightarrow> quiet s u"
  by (simp add: quiet_def)

lemma server_stop_ledger:
  assumes "server_stop E srv s = (srv', s')"
  shows "delta s s' k = - server_ledger srv k \<and> quiet s s' \<and> sint (us_listen_fd srv') < 0
    \<and> us_path srv' = us_path srv \<and> us_fd srv' = us_fd srv"
  using assms by (auto simp: server_stop_def Let_def server_ledger_def delta_def quiet_def split: if_splits)

lemma open_unix_socket_frame:
  assumes "open_unix_socket E s = (r, s')"
  shows "quiet s s' \<and> (case r of None \<Rightarrow> True | Some fd \<Rightarrow> 0 \<le> sint fd)"
  using assms
  by (auto simp: open_unix_socket_def Let_def quiet_def split: prod.splits if_splits dest!: callT)

lemma server_start_ledger:
  assumes st: "server_start E srv s = ((ok, srv'), s')" and neg: "sint (us_listen_fd srv) < 0"
  shows "delta s s' k = server_ledger srv' k \<and> quiet s s'"
proof -
  obtain srv1 s1 where stop: "server_stop E srv s = (srv1, s1)" by (cases "server_stop E srv s")
  obtain r s2 where o: "open_unix_socket E s1 = (r, s2)" by (cases "open_unix_socket E s1")
  have srv1: "sint (us_listen_fd srv1) < 0" "delta s s1 k = 0" "quiet s s1"
    using server_stop_ledger [OF stop, of k] neg by (auto simp: server_ledger_def)
  have "delta s1 s' k = server_ledger srv' k \<and> quiet s1 s'"
  proof (cases r)
    case None
    with st stop o srv1 open_unix_socket_ledger [OF o, of k] open_unix_socket_frame [OF o] show ?thesis
      by (auto simp: server_start_def server_ledger_def)
  next
    case (Some sock)
    have n: "\<not> 0 \<le> sint (us_listen_fd srv1)" using srv1 by simp
    have d: "delta s1 s2 k = one (RFd sock) k" "quiet s1 s2" "0 \<le> sint sock"
      using open_unix_socket_ledger [OF o, of k] open_unix_socket_frame [OF o] Some by auto
    have "delta s2 s' k = server_ledger srv' k - one (RFd sock) k \<and> quiet s2 s'"
      using st stop o Some n d(3)
      by (auto simp: server_start_def server_ledger_def Let_def delta_def quiet_def
          split: prod.splits if_splits dest!: callT)
    with d show ?thesis by (auto simp: delta_trans [of s1 s' k s2] quiet_def)
  qed
  with srv1 show ?thesis by (auto simp: delta_trans [of s s' k s1] quiet_def)
qed

lemma destroy_vmm_state_ledger:
  "delta s (destroy_vmm_state E st s) k = - state_ledger st k \<and> quiet s (destroy_vmm_state E st s)"
proof -
  define s1 where "s1 = (case vs_server st of None \<Rightarrow> s
      | Some srv \<Rightarrow> (let (srv', t) = server_stop E srv s in snd (server_stop E srv' t)))"
  have "delta s s1 k = - (case vs_server st of None \<Rightarrow> 0 | Some srv \<Rightarrow> server_ledger srv k) \<and> quiet s s1"
  proof (cases "vs_server st")
    case None then show ?thesis by (simp add: s1_def)
  next
    case (Some srv)
    obtain srv1 t where a: "server_stop E srv s = (srv1, t)" by (cases "server_stop E srv s")
    obtain srv2 u where b: "server_stop E srv1 t = (srv2, u)" by (cases "server_stop E srv1 t")
    have "s1 = u" using Some a b by (simp add: s1_def)
    then show ?thesis
      using server_stop_ledger [OF a, of k] server_stop_ledger [OF b, of k] Some
      by (auto simp: delta_trans [of s u k t] server_ledger_def quiet_def)
  qed
  moreover have "delta s1 (destroy_vmm_state E st s) k = - ((if 0 \<le> sint (vs_shareable_fd st)
      then one (RFd (vs_shareable_fd st)) k else 0) + range_ledger st k)
    \<and> quiet s1 (destroy_vmm_state E st s)"
    by (auto simp: destroy_vmm_state_def s1_def [symmetric] Let_def range_ledger_def delta_def quiet_def)
  ultimately show ?thesis
    by (auto simp: state_ledger_def delta_trans [of s _ k s1] quiet_def delta_def)
qed

lemma reset_vmm_state_ledger:
  "delta s (reset_vmm_state E st s) k = - state_option_ledger st k \<and> quiet s (reset_vmm_state E st s)"
  using destroy_vmm_state_ledger
  by (cases st) (auto simp: reset_vmm_state_def state_option_ledger_def)

lemma destroy_vmm_fd_memory_ledger:
  "destroy_vmm_fd_memory E bs s = (bs', s') \<Longrightarrow> delta s s' k = - blocks_ledger bs k \<and> quiet s s'
     \<and> bs' = map (\<lambda>b. b\<lparr>gb_device_ptr := 0, gb_vmm_fd_state := None, gb_vmm_socket_path := []\<rparr>) bs"
proof (induction bs arbitrary: s bs' s')
  case (Cons b bs)
  let ?s1 = "reset_vmm_state E (gb_vmm_fd_state b) s"
  obtain cs where d: "destroy_vmm_fd_memory E bs ?s1 = (cs, s')" and bs': "bs' = b\<lparr>gb_device_ptr := 0,
      gb_vmm_fd_state := None, gb_vmm_socket_path := []\<rparr> # cs"
    using Cons.prems by (auto simp: Let_def split: prod.splits)
  from Cons.IH [OF d] reset_vmm_state_ledger [of s E "gb_vmm_fd_state b" k] bs' show ?case
    by (auto simp: delta_trans [of s s' k ?s1] quiet_def)
qed simp

lemma reserve_call:
  "vmm_contract E \<Longrightarrow> call E (CuMemAddressReserve n) s = (r, s') \<Longrightarrow> rc r = 0 \<Longrightarrow> n \<noteq> 0 \<and> out r \<noteq> 0"
  by (auto simp: vmm_contract_def dest!: callD)

lemma create_call:
  "vmm_contract E \<Longrightarrow> call E (CuMemCreate n d) s = (r, s') \<Longrightarrow> rc r = 0 \<Longrightarrow> out r \<noteq> 0"
  by (auto simp: vmm_contract_def dest!: callD)

text \<open>
  The step from the exported descriptor on: everything after it is held by the state object.
\<close>

lemma serve_block_ledger:
  assumes b: "build_socket_path E (vs_uuid st) s = (q, s1)" and none: "vs_server st = None"
    and r: "(r, st', p, s') =
      (case q of None \<Rightarrow> (AllocationThrew, st, [], s1)
       | Some socket_path \<Rightarrow>
           (case UnixFdServer socket_path (vs_shareable_fd st) of
              None \<Rightarrow> (AllocationThrew, st, [], s1)
            | Some srv \<Rightarrow>
                let ((started, srv'), s2) = server_start E srv s1
                in (if started then Allocated else AllocationFailed,
                    st\<lparr>vs_server := Some srv'\<rparr>, socket_path, s2)))"
  shows "delta s s' k = state_ledger st' k - state_ledger st k \<and> quiet s s'
    \<and> vs_address st' = vs_address st"
proof -
  have d1: "delta s s1 k = 0" "quiet s s1"
    using b by (auto simp: build_socket_path_def Let_def delta_def quiet_def split: prod.splits if_splits dest!: callT)
  show ?thesis
  proof (cases "\<exists>path srv. q = Some path \<and> UnixFdServer path (vs_shareable_fd st) = Some srv")
    case False
    then show ?thesis using r d1 by (auto split: option.splits)
  next
    case True
    then obtain path srv where q: "q = Some path" "UnixFdServer path (vs_shareable_fd st) = Some srv" by blast
    obtain ok srv' s2 where st: "server_start E srv s1 = ((ok, srv'), s2)" by (metis surj_pair)
    have neg: "sint (us_listen_fd srv) < 0" using q(2) by (auto simp: UnixFdServer_def split: if_splits)
    show ?thesis
      using server_start_ledger [OF st neg, of k] r q st d1 none delta_trans [of s s2 k s1]
      by (auto simp: quiet_def state_ledger_def range_ledger_def)
  qed
qed

lemma allocate_block_state_ledger:
  assumes contract: "vmm_contract E"
    and al: "allocate_block_state E d n s = ((r, st, p), s')"
  shows "(delta s s' k = state_ledger st k
       \<or> r = AllocationFailed \<and> delta s s' k = state_ledger st k - one (RMapping (vs_address st) (vs_allocation_size st)) k)
     \<and> quiet s s' \<and> (r = Allocated \<longrightarrow> vs_address st \<noteq> 0)"
proof -
  obtain a s1 where a: "call E (CuMemAddressReserve n) s = (a, s1)" by (cases "call E (CuMemAddressReserve n) s")
  note da = delta_call [OF a, of k] callT [OF a]
  show ?thesis
  proof (cases "rc a = 0")
    case False
    with al a da show ?thesis
      by (auto simp: allocate_block_state_def CUDA_SUCCESS_def VmmFdBlockState_def state_ledger_def range_ledger_def quiet_def)
  next
    case ra: True
    with reserve_call [OF contract a] have n: "n > 0" "n \<noteq> 0" "out a \<noteq> 0" by (auto simp: word_gt_0)
    obtain c s2 where c: "call E (CuMemCreate n d) s1 = (c, s2)" by (cases "call E (CuMemCreate n d) s1")
    note dc = delta_call [OF c, of k] callT [OF c]
    show ?thesis
    proof (cases "rc c = 0")
      case False
      with al a c da dc ra n delta_trans [of s s2 k s1] show ?thesis
        by (auto simp: allocate_block_state_def CUDA_SUCCESS_def VmmFdBlockState_def state_ledger_def
            range_ledger_def quiet_def)
    next
      case rc: True
      with create_call [OF contract c] have o: "out c \<noteq> 0" by blast
      obtain m s3 where m: "call E (CuMemMap (out a) n (out c)) s2 = (m, s3)" by (cases "call E (CuMemMap (out a) n (out c)) s2")
      note dm = delta_call [OF m, of k] callT [OF m]
      have d2: "delta s s2 k = one (RReservation (out a) n) k + one (RAllocation (out c)) k" "quiet s s2"
        using da dc ra rc by (auto simp: delta_trans [of s s2 k s1] quiet_def)
      show ?thesis
      proof (cases "rc m = 0")
        case False
        with al a c m d2 dm ra rc n o delta_trans [of s s3 k s2] show ?thesis
          by (auto simp: allocate_block_state_def CUDA_SUCCESS_def VmmFdBlockState_def state_ledger_def
            range_ledger_def quiet_def)
      next
        case rm: True
        let ?st2 = "VmmFdBlockState\<lparr>vs_allocation_size := n, vs_address := out a, vs_allocation := out c\<rparr>"
        have d3: "delta s s3 k = state_ledger ?st2 k" "quiet s s3"
          using d2 dm rm n o by (auto simp: delta_trans [of s s3 k s2] quiet_def state_ledger_def range_ledger_def VmmFdBlockState_def)
        obtain pr s4 where pr: "call E (CuMemSetAccess (out a) n d) s3 = (pr, s4)" by (cases "call E (CuMemSetAccess (out a) n d) s3")
        obtain x s5 where x: "call E (CuMemExportToShareableHandle (out c)) s4 = (x, s5)"
          by (cases "call E (CuMemExportToShareableHandle (out c)) s4")
        note dx = delta_call [OF pr, of k] callT [OF pr] delta_call [OF x, of k] callT [OF x]
        show ?thesis
        proof (cases "rc pr = 0 \<and> rc x = 0")
          case False
          have "delta s3 s4 k = 0" "quiet s3 s4" using dx by (auto simp: quiet_def)
          moreover have "st = ?st2 \<and> r = AllocationFailed \<and> (s' = s4 \<or> s' = s5 \<and> rc x \<noteq> 0)"
          proof (cases "rc pr = 0")
            case True
            with False have "rc x \<noteq> 0" by simp
            with al a c m pr x ra rc rm True show ?thesis
              by (simp add: allocate_block_state_def CUDA_SUCCESS_def Let_def)
          next
            case False
            with al a c m pr ra rc rm show ?thesis
              by (simp add: allocate_block_state_def CUDA_SUCCESS_def Let_def)
          qed
          ultimately have "st = ?st2" "delta s3 s' k = 0" "quiet s3 s'" "r = AllocationFailed"
            using dx delta_trans [of s3 s' k s4] by (auto simp: quiet_def)
          with d3 show ?thesis by (auto simp: delta_trans [of s s' k s3] quiet_def)
        next
          case rx: True
          let ?fd = "ucast (out x) :: i32"
          define s6 where "s6 = (if 0 \<le> sint ?fd
                     then (let (f, t) = call E (Fcntl ?fd) s5 in if rc f = 0 then exec E (Fcntl ?fd) t else t) else s5)"
          obtain u s7 where u: "call E UuidGenerate s6 = (u, s7)" by (cases "call E UuidGenerate s6")
          obtain str s8 where str: "call E (UuidUnparseLower (raw u)) s7 = (str, s8)" by (cases "call E (UuidUnparseLower (raw u)) s7")
          let ?st4 = "?st2\<lparr>vs_shareable_fd := ?fd, vs_uuid := c_string (take 36 (raw str))\<rparr>"
          obtain q s9 where q: "build_socket_path E (vs_uuid ?st4) s8 = (q, s9)" by (cases "build_socket_path E (vs_uuid ?st4) s8")
          have "delta s5 s6 k = 0 \<and> quiet s5 s6"
            by (auto simp: s6_def delta_def quiet_def split: prod.splits dest!: callT)
          then have "delta s3 s8 k = state_ledger ?st4 k - state_ledger ?st2 k \<and> quiet s3 s8"
            using dx rx callT [OF u] callT [OF str]
            by (auto simp: delta_def quiet_def state_ledger_def range_ledger_def VmmFdBlockState_def)
          moreover have "vs_server ?st4 = None" by (simp add: VmmFdBlockState_def)
          moreover have "(r, st, p, s') =
              (case q of None \<Rightarrow> (AllocationThrew, ?st4, [], s9)
               | Some socket_path \<Rightarrow>
                   (case UnixFdServer socket_path (vs_shareable_fd ?st4) of
                      None \<Rightarrow> (AllocationThrew, ?st4, [], s9)
                    | Some srv \<Rightarrow>
                        let ((started, srv'), s2) = server_start E srv s9
                        in (if started then Allocated else AllocationFailed,
                            ?st4\<lparr>vs_server := Some srv'\<rparr>, socket_path, s2)))"
            using al a c m pr x ra rc rm rx u str q
            by (auto simp: allocate_block_state_def CUDA_SUCCESS_def s6_def Let_def VmmFdBlockState_def
                split: option.splits prod.splits)
          ultimately show ?thesis
            using serve_block_ledger [OF q, of r st p s' k] d3 n
            by (auto simp: delta_trans [of s s' k s3] delta_trans [of s3 s' k s8] quiet_def VmmFdBlockState_def)
        qed
      qed
    qed
  qed
qed

text \<open>
  A whole allocation. A block that fails before its range is mapped is unmapped all the same by
  the destructor of its state, so a failure may make one unmap call too many; nothing else is
  left over and nothing is given back twice.
\<close>

definition block_keys :: "gpu_buffer_block \<Rightarrow> u32 \<times> mapping option \<times> interprocess_event option" where
  "block_keys b = (gb_block_id b, gb_shared_metadata b, gb_ready_event b)"

lemma block_keys_update [simp]:
  "block_keys (b\<lparr>gb_device_ptr := p\<rparr>) = block_keys b"
  "block_keys (b\<lparr>gb_vmm_fd_state := st\<rparr>) = block_keys b"
  "block_keys (b\<lparr>gb_vmm_socket_path := x\<rparr>) = block_keys b"
  by (simp_all add: block_keys_def)

definition backed :: "gpu_buffer_block \<Rightarrow> bool" where
  "backed b \<longleftrightarrow> (case gb_vmm_fd_state b of None \<Rightarrow> False
     | Some st \<Rightarrow> gb_device_ptr b = vs_address st \<and> vs_address st \<noteq> 0)"

lemma allocate_vmm_blocks_ledger:
  assumes "vmm_contract E"
    and "allocate_vmm_blocks E d n ready bs s = ((r, bs'), s')"
  shows "quiet s s' \<and> map block_keys bs' = map block_keys (ready @ bs)
    \<and> (r = Allocated \<longrightarrow> (\<forall>b\<in>set ready. backed b) \<longrightarrow> (\<forall>b\<in>set bs'. backed b))
    \<and> (r = AllocationFailed \<longrightarrow> (\<forall>b\<in>set bs'. gb_vmm_fd_state b = None))
    \<and> (delta s s' k = blocks_ledger bs' k - blocks_ledger (ready @ bs) k
       \<or> r = AllocationFailed \<and> (\<exists>a z. k = RMapping a z)
         \<and> delta s s' k = blocks_ledger bs' k - blocks_ledger (ready @ bs) k - 1)"
  using assms(2)
proof (induction bs arbitrary: ready s)
  case (Cons b bs)
  obtain r1 st p s1 where a: "allocate_block_state E d n s = ((r1, st, p), s1)" by (metis surj_pair)
  note step = allocate_block_state_ledger [OF assms(1) a, of k]
  show ?case
  proof (cases r1)
    case Allocated
    let ?s2 = "reset_vmm_state E (gb_vmm_fd_state b) s1"
    let ?b = "b\<lparr>gb_vmm_socket_path := p, gb_device_ptr := vs_address st, gb_vmm_fd_state := Some st\<rparr>"
    from Cons.prems a Allocated have "allocate_vmm_blocks E d n (ready @ [?b]) bs ?s2 = ((r, bs'), s')" by simp
    note IH = Cons.IH [OF this]
    have "delta s ?s2 k = state_ledger st k - state_option_ledger (gb_vmm_fd_state b) k \<and> quiet s ?s2"
      using step Allocated reset_vmm_state_ledger [of s1 E "gb_vmm_fd_state b" k] delta_trans [of s ?s2 k s1]
      by (auto simp: quiet_def)
    moreover have "backed ?b" using step Allocated by (simp add: backed_def)
    ultimately show ?thesis
      using IH delta_trans [of s s' k ?s2] by (auto simp: quiet_def state_option_ledger_def)
  next
    case AllocationFailed
    obtain cs s2 where c: "destroy_vmm_fd_memory E (ready @ b # bs) s1 = (cs, s2)"
      by (cases "destroy_vmm_fd_memory E (ready @ b # bs) s1")
    have r: "r = AllocationFailed" "bs' = cs" "s' = destroy_vmm_state E st s2"
      using Cons.prems a AllocationFailed c by auto
    note dd = destroy_vmm_fd_memory_ledger [OF c, of k] destroy_vmm_state_ledger [of s2 E st k]
    have "blocks_ledger cs k = 0"
      using dd by (auto simp: blocks_ledger_def state_option_ledger_def comp_def)
    moreover have "delta s s' k = delta s s1 k - blocks_ledger (ready @ b # bs) k - state_ledger st k"
      using dd r by (simp add: delta_def)
    moreover have "quiet s s'" using step dd r by (auto simp: quiet_def)
    ultimately show ?thesis
      using step dd r by (auto simp: one_def comp_def split: if_splits)
  next
    case AllocationThrew
    then have r: "r = AllocationThrew" "bs' = ready @ b # bs" "s' = destroy_vmm_state E st s1"
      using Cons.prems a by auto
    have "delta s s' k = 0"
      using step AllocationThrew destroy_vmm_state_ledger [of s1 E st k] delta_trans [of s s' k s1] r by auto
    moreover have "quiet s s'" using step destroy_vmm_state_ledger [of s1 E st k] r by (auto simp: quiet_def)
    ultimately show ?thesis using r by simp
  qed
qed auto

lemma allocate_vmm_fd_memory_ledger:
  assumes "vmm_contract E"
    and al: "allocate_vmm_fd_memory E frame d bs s = ((r, bs'), s')" and fresh: "\<forall>b\<in>set bs. gb_vmm_fd_state b = None"
  shows "quiet s s' \<and> map block_keys bs' = map block_keys bs
    \<and> (r = Allocated \<longrightarrow> (\<forall>b\<in>set bs'. backed b))
    \<and> (r = AllocationFailed \<longrightarrow> (\<forall>b\<in>set bs'. gb_vmm_fd_state b = None))
    \<and> (delta s s' k = blocks_ledger bs' k
       \<or> r = AllocationFailed \<and> (\<exists>a z. k = RMapping a z) \<and> delta s s' k = blocks_ledger bs' k - 1)"
proof -
  have z: "blocks_ledger bs k = 0"
    using fresh by (induction bs) (auto simp: state_option_ledger_def)
  obtain ok s1 where e: "ensure_driver E s = (ok, s1)" by (cases "ensure_driver E s")
  have d1: "delta s s1 k = 0 \<and> quiet s s1"
    using e by (auto simp: ensure_driver_def Let_def quiet_def delta_def split: option.splits prod.splits dest!: callT)
  obtain g s2 where g: "call E (CuMemGetAllocationGranularity d) s1 = (g, s2)"
    by (cases "call E (CuMemGetAllocationGranularity d) s1")
  have d2: "delta s s2 k = 0 \<and> quiet s s2"
    using d1 callT [OF g] by (auto simp: quiet_def delta_def)
  show ?thesis
  proof (cases "ok \<and> rc g = 0")
    case False
    then have "r = AllocationFailed \<and> bs' = bs \<and> (s' = s1 \<or> s' = s2)"
      using al e g by (auto simp: allocate_vmm_fd_memory_def CUDA_SUCCESS_def split: if_splits)
    then show ?thesis using d1 d2 z fresh by auto
  next
    case True
    then have "allocate_vmm_blocks E d (align_up frame (out g)) [] bs s2 = ((r, bs'), s')"
      using al e g by (simp add: allocate_vmm_fd_memory_def CUDA_SUCCESS_def)
    from allocate_vmm_blocks_ledger [OF assms(1) this, of k] show ?thesis
      using d2 z delta_trans [of s s' k s2] by (auto simp: quiet_def)
  qed
qed

section \<open>The accept loop and the socket path\<close>

lemma server_run_ledger: "delta s (server_run E srv running s) k = 0"
proof (induction E srv running s rule: server_run.induct)
  case (3 E srv running s)
  obtain a s1 where a: "call E (Accept (us_listen_fd srv)) s = (a, s1)" by (cases "call E (Accept (us_listen_fd srv)) s")
  show ?case
  proof (cases "rc a = 0")
    case False
    then have "server_run E srv (True # running) s = server_run E srv running s1" using a by simp
    moreover have "delta s1 (server_run E srv running s1) k = 0" using 3(1) [OF a [symmetric] refl False] .
    ultimately show ?thesis
      using delta_call [OF a, of k] False delta_trans [of s "server_run E srv running s1" k s1] by simp
  next
    case True
    obtain f s2 where f: "call E (Fcntl (fd_of a)) s1 = (f, s2)" by (cases "call E (Fcntl (fd_of a)) s1")
    define s3 where "s3 = exec E (Close (fd_of a)) (send_fd E srv (fd_of a) (if rc f = 0 then exec E (Fcntl (fd_of a)) s2 else s2))"
    have "delta s s3 k = 0"
      using delta_call [OF a, of k] True callT [OF a] callT [OF f]
      by (auto simp: s3_def send_fd_def delta_def)
    moreover have "server_run E srv (True # running) s = server_run E srv running s3"
      using a f True by (simp add: s3_def Let_def)
    ultimately show ?thesis using 3(2) delta_trans [of s "server_run E srv running s3" k s3] a f True
      by (simp add: s3_def)
  qed
qed simp_all

lemma build_socket_path_length:
  assumes "build_socket_path E uuid s = (Some p, s')" "length uuid \<le> 36"
  shows "length p < sun_path_size - 1"
  using assms by (auto simp: build_socket_path_def sun_path_size_def split: prod.splits if_splits)

lemma c_string_length: "length (c_string bs) \<le> length bs"
  by (simp add: c_string_def length_takeWhile_le)

lemma allocate_block_state_path:
  assumes "allocate_block_state E d n s = ((Allocated, st, p), s')"
  shows "length p < sun_path_size - 1 \<and> (\<exists>srv. vs_server st = Some srv \<and> us_path srv = p)"
proof -
  obtain a s1 where a: "call E (CuMemAddressReserve n) s = (a, s1)" by (cases "call E (CuMemAddressReserve n) s")
  obtain c s2 where c: "call E (CuMemCreate n d) s1 = (c, s2)" by (cases "call E (CuMemCreate n d) s1")
  obtain m s3 where m: "call E (CuMemMap (out a) n (out c)) s2 = (m, s3)" by (cases "call E (CuMemMap (out a) n (out c)) s2")
  obtain w s4 where w: "call E (CuMemSetAccess (out a) n d) s3 = (w, s4)" by (cases "call E (CuMemSetAccess (out a) n d) s3")
  obtain x s5 where x: "call E (CuMemExportToShareableHandle (out c)) s4 = (x, s5)"
    by (cases "call E (CuMemExportToShareableHandle (out c)) s4")
  let ?fd = "ucast (out x) :: i32"
  define s6 where "s6 = (if 0 \<le> sint ?fd
             then (let (f, t) = call E (Fcntl ?fd) s5 in if rc f = 0 then exec E (Fcntl ?fd) t else t) else s5)"
  obtain u s7 where u: "call E UuidGenerate s6 = (u, s7)" by (cases "call E UuidGenerate s6")
  obtain str s8 where str: "call E (UuidUnparseLower (raw u)) s7 = (str, s8)" by (cases "call E (UuidUnparseLower (raw u)) s7")
  obtain q s9 where b: "build_socket_path E (c_string (take 36 (raw str))) s8 = (q, s9)"
    by (cases "build_socket_path E (c_string (take 36 (raw str))) s8")
  have good: "rc a = CUDA_SUCCESS" "rc c = CUDA_SUCCESS" "rc m = CUDA_SUCCESS" "rc w = CUDA_SUCCESS" "rc x = CUDA_SUCCESS"
    using assms a c m w x by (simp_all add: allocate_block_state_def Let_def split: if_splits)
  let ?st = "VmmFdBlockState\<lparr>vs_allocation_size := n, vs_address := out a, vs_allocation := out c,
      vs_shareable_fd := ?fd, vs_uuid := c_string (take 36 (raw str))\<rparr>"
  have r: "(case q of None \<Rightarrow> ((AllocationThrew, ?st, []), s9)
         | Some path \<Rightarrow> (case UnixFdServer path ?fd of
              None \<Rightarrow> ((AllocationThrew, ?st, []), s9)
            | Some srv \<Rightarrow> let ((started, srv'), s10) = server_start E srv s9
                in ((if started then Allocated else AllocationFailed, ?st\<lparr>vs_server := Some srv'\<rparr>, path), s10)))
       = ((Allocated, st, p), s')"
    using assms a c m w x good u str b by (simp add: allocate_block_state_def Let_def s6_def cong: option.case_cong)
  from r obtain srv srv' s10 where q: "q = Some p" and u: "UnixFdServer p ?fd = Some srv"
    and st: "server_start E srv s9 = ((True, srv'), s10)" "vs_server st = Some srv'"
    by (auto simp: Let_def split: option.splits prod.splits if_splits)
  have "length (c_string (take 36 (raw str))) \<le> 36"
    using c_string_length [of "take 36 (raw str)"] by simp
  then have "length p < sun_path_size - 1" using build_socket_path_length b q by blast
  moreover have "us_path srv' = us_path srv"
  proof -
    obtain srv1 s1 where "server_stop E srv s9 = (srv1, s1)" by (cases "server_stop E srv s9")
    with st(1) server_stop_ledger [OF this] show ?thesis
      by (auto simp: server_start_def Let_def split: option.splits prod.splits if_splits)
  qed
  moreover have "us_path srv = p" using u by (auto simp: UnixFdServer_def split: if_splits)
  ultimately show ?thesis using st by simp
qed

lemma allocate_vmm_blocks_paths:
  assumes "allocate_vmm_blocks E d n ready bs s = ((Allocated, bs'), s')"
    and "\<forall>b\<in>set ready. length (gb_vmm_socket_path b) < sun_path_size - 1"
  shows "\<forall>b\<in>set bs'. length (gb_vmm_socket_path b) < sun_path_size - 1"
  using assms
proof (induction bs arbitrary: ready s)
  case (Cons b bs)
  obtain r1 st p s1 where a: "allocate_block_state E d n s = ((r1, st, p), s1)" by (metis surj_pair)
  with Cons.prems(1) have r1: "r1 = Allocated" by (cases r1) (auto split: prod.splits)
  with a Cons.prems(1) have "allocate_vmm_blocks E d n (ready @ [b\<lparr>gb_vmm_socket_path := p,
      gb_device_ptr := vs_address st, gb_vmm_fd_state := Some st\<rparr>]) bs
      (reset_vmm_state E (gb_vmm_fd_state b) s1) = ((Allocated, bs'), s')" by simp
  from Cons.IH [OF this] show ?case
    using Cons.prems(2) allocate_block_state_path [of E d n s st p s1] a r1 by auto
qed simp

lemma blocks_ledger_none: "\<forall>b\<in>set bs. gb_vmm_fd_state b = None \<Longrightarrow> blocks_ledger bs k = 0"
  by (induction bs) (auto simp: state_option_ledger_def)

section \<open>Properties\<close>

text \<open>
  When the allocation of a pool's memory fails, at whichever block and step, everything
  taken for it is given back: no ledger ends above its start, and all but the mapping ledger
  end exactly where they started (the destructor also unmaps a range that was never mapped).
\<close>

theorem allocation_failure_gives_back:
  assumes "vmm_contract E" "\<forall>b\<in>set blocks. gb_vmm_fd_state b = None"
    and "allocate_vmm_fd_memory E frame device blocks s = ((AllocationFailed, blocks'), s')"
  shows "held k (tr s') \<le> held k (tr s) \<and> ((\<nexists>a n. k = RMapping a n) \<longrightarrow> held k (tr s') = held k (tr s))"
proof -
  note l = allocate_vmm_fd_memory_ledger [OF assms(1,3,2), of k]
  then have "blocks_ledger blocks' k = 0"
    by (intro blocks_ledger_none) simp
  with l show ?thesis by (auto simp: delta_def)
qed

definition two_blocks :: "gpu_buffer_block list" where
  "two_blocks = [GpuBufferBlock\<lparr>gb_block_id := 0\<rparr>, GpuBufferBlock\<lparr>gb_block_id := 1\<rparr>]"

lemmas backend_eval = allocate_vmm_fd_memory_def ensure_driver_def allocate_block_state_def build_socket_path_def
  UnixFdServer_def server_start_def server_stop_def open_unix_socket_def align_up_def reset_vmm_state_def
  destroy_vmm_state_def VmmFdBlockState_def GpuBufferBlock_def two_blocks_def c_string_def
  initial_sys_def cuda_code_defs machine_defs

lemma vmm_contract_machine: "vmm_contract healthy" "0 < e \<Longrightarrow> vmm_contract (failing p e)"
  by (auto simp: vmm_contract_def healthy_def failing_def)

theorem allocation_failure_gives_back_witness:
  "held (RAllocation 0xA0) (tr (snd (allocate_vmm_fd_memory (failing (\<lambda>c. c = Listen 4) 98) 5000 0
      two_blocks initial_sys))) = held (RAllocation 0xA0) (tr initial_sys)"
proof -
  have "\<exists>bs s'. allocate_vmm_fd_memory (failing (\<lambda>c. c = Listen 4) 98) 5000 0 two_blocks initial_sys
      = ((AllocationFailed, bs), s')"
    by (simp add: backend_eval fd_of_def)
  then obtain bs s' where a: "allocate_vmm_fd_memory (failing (\<lambda>c. c = Listen 4) 98) 5000 0 two_blocks initial_sys
      = ((AllocationFailed, bs), s')" by blast
  have "\<forall>b\<in>set two_blocks. gb_vmm_fd_state b = None" by (simp add: two_blocks_def GpuBufferBlock_def)
  from allocation_failure_gives_back [OF _ this a] a show ?thesis by (simp add: vmm_contract_machine)
qed

text \<open>
  What a successful allocation took is exactly what destroying the blocks gives back: after
  both every ledger is where it was, and every block is empty again.
\<close>

theorem allocation_destroy_roundtrip:
  assumes "vmm_contract E" "\<forall>b\<in>set blocks. gb_vmm_fd_state b = None"
    and "allocate_vmm_fd_memory E frame device blocks s = ((Allocated, blocks'), s1)"
    and "destroy_vmm_fd_memory E blocks' s1 = (blocks'', s2)"
  shows "held k (tr s2) = held k (tr s) \<and> (\<forall>b\<in>set blocks''. gb_vmm_fd_state b = None \<and> gb_device_ptr b = 0)"
proof -
  have "delta s s1 k = blocks_ledger blocks' k"
    using allocate_vmm_fd_memory_ledger [OF assms(1,3,2), of k] by auto
  moreover have "delta s1 s2 k = - blocks_ledger blocks' k"
    using destroy_vmm_fd_memory_ledger [OF assms(4)] by blast
  ultimately show ?thesis
    using destroy_vmm_fd_memory_ledger [OF assms(4), of k] by (auto simp: delta_def)
qed

theorem allocation_destroy_roundtrip_witness:
  "\<exists>blocks s1. allocate_vmm_fd_memory healthy 5000 0 two_blocks initial_sys = ((Allocated, blocks), s1)
     \<and> held (RFd 9) (tr (snd (destroy_vmm_fd_memory healthy blocks s1))) = held (RFd 9) (tr initial_sys)"
proof -
  have "\<exists>bs s'. allocate_vmm_fd_memory healthy 5000 0 two_blocks initial_sys = ((Allocated, bs), s')"
    by (simp add: backend_eval fd_of_def)
  then obtain bs s1 where a: "allocate_vmm_fd_memory healthy 5000 0 two_blocks initial_sys = ((Allocated, bs), s1)"
    by blast
  obtain cs s2 where d: "destroy_vmm_fd_memory healthy bs s1 = (cs, s2)" by (cases "destroy_vmm_fd_memory healthy bs s1")
  have "\<forall>b\<in>set two_blocks. gb_vmm_fd_state b = None" by (simp add: two_blocks_def GpuBufferBlock_def)
  from allocation_destroy_roundtrip [OF vmm_contract_machine(1) this a d, of "RFd 9"] a d show ?thesis by simp
qed

text \<open>
  Serving descriptors never leaks one: whatever the clients do and however long the accept
  loop runs, every connection it accepted is closed and the served descriptor stays open.
\<close>

theorem serving_keeps_descriptors:
  "held k (tr (server_run E srv running s)) = held k (tr s)"
  using server_run_ledger [of s E srv running k] by (simp add: delta_def)

text \<open>
  Every socket path a successful allocation publishes fits the address structure on both
  sides: \<^verbatim>\<open>bind\<close> does not truncate it and the importer does not reject it.
\<close>

theorem published_paths_fit:
  assumes "allocate_vmm_fd_memory E frame device blocks s = ((Allocated, blocks'), s')" "b \<in> set blocks'"
  shows "take (sun_path_size - 1) (gb_vmm_socket_path b) = gb_vmm_socket_path b
    \<and> \<not> length (gb_vmm_socket_path b) \<ge> sun_path_size"
proof -
  obtain n s0 where "allocate_vmm_blocks E device n [] blocks s0 = ((Allocated, blocks'), s')"
    using assms(1) by (auto simp: allocate_vmm_fd_memory_def split: prod.splits if_splits)
  from allocate_vmm_blocks_paths [OF this] assms(2)
  have "length (gb_vmm_socket_path b) < sun_path_size - 1" by simp
  then show ?thesis by simp
qed

theorem published_paths_fit_witness:
  "\<exists>blocks s'. allocate_vmm_fd_memory healthy 5000 0 two_blocks initial_sys = ((Allocated, blocks), s')
     \<and> blocks \<noteq> [] \<and> \<not> length (gb_vmm_socket_path (hd blocks)) \<ge> sun_path_size"
proof -
  have "\<exists>bs s'. allocate_vmm_fd_memory healthy 5000 0 two_blocks initial_sys = ((Allocated, bs), s') \<and> bs \<noteq> []"
    by (simp add: backend_eval fd_of_def)
  then obtain bs s1 where a: "allocate_vmm_fd_memory healthy 5000 0 two_blocks initial_sys = ((Allocated, bs), s1)"
    and n: "bs \<noteq> []" by blast
  from published_paths_fit [OF a, of "hd bs"] a n show ?thesis by simp
qed

end
