(* ===== verification/Gpu_Buffer_Pool.thy ===== *)
theory Gpu_Buffer_Pool
  imports Memory_Backend Buffer_Ref
begin

text \<open>
  \<^verbatim>\<open>publisher/gpu_buffer_pool.hpp\<close> and \<^verbatim>\<open>publisher/gpu_buffer_pool.cpp\<close>: the publisher's
  pool of blocks. It creates one metadata object and one GPU allocation per block, rolls back
  a failed initialisation, hands out blocks round robin and checks every later use of a
  reservation against the pool that made it.
\<close>

type_synonym world = "sys \<times> shm"

section \<open>Process-wide helpers\<close>

text \<open>
  The pool's mutex: a failed lock is an answer of the environment. The lock is released on
  every way out of its scope, which no other operation of the model observes.
\<close>

definition pool_lock :: "env \<Rightarrow> sys \<Rightarrow> bool \<times> sys" where
  "pool_lock E s = (let (r, s') = call E MutexLock s in (rc r = 0, s'))"

definition allocate_process_block_id :: "sys \<Rightarrow> u32 option \<times> sys" where
  "allocate_process_block_id s =
     (let current = next_process_block_id s
      in if current \<noteq> u32_max then (Some current, s\<lparr>next_process_block_id := current + 1\<rparr>)
         else (None, s))"

subsection \<open>Orphaned metadata objects\<close>

definition is_space :: "char \<Rightarrow> bool" where
  "is_space c \<longleftrightarrow> of_char c = (32 :: nat) \<or> 9 \<le> (of_char c :: nat) \<and> (of_char c :: nat) \<le> 13"

text \<open>
  The conversion \<^verbatim>\<open>%u\<close> of \<^verbatim>\<open>sscanf\<close>: white space, an optional sign, digits; the value is
  \<^verbatim>\<open>strtoul\<close>'s, saturated at 64 bits and negated by a minus sign, stored in 32 bits.
\<close>

definition scan_unsigned :: "string \<Rightarrow> (u32 \<times> string) option" where
  "scan_unsigned str =
     (let text = dropWhile is_space str;
          (negative, rest) =
            (case text of
               c # cs \<Rightarrow> if c = CHR ''-'' then (True, cs) else if c = CHR ''+'' then (False, cs) else (False, text)
             | [] \<Rightarrow> (False, text));
          digits = takeWhile is_digit rest; value = undec digits
      in if digits = [] then None
         else Some (if value \<ge> 2 ^ 64 then u32_max
                    else if negative then - of_nat value else of_nat value,
                    dropWhile is_digit rest))"

definition strip_prefix :: "string \<Rightarrow> string \<Rightarrow> string option" where
  "strip_prefix p str = (if take (length p) str = p then Some (drop (length p) str) else None)"

text \<open>
  \<^verbatim>\<open>sscanf(name, "ros2_cuda_ipc_%u_%u%c", ...) == 2\<close>: both numbers convert and nothing follows.
\<close>

definition scan_metadata_name :: "string \<Rightarrow> (u32 \<times> u32) option" where
  "scan_metadata_name name =
     (case strip_prefix ''ros2_cuda_ipc_'' name of
        None \<Rightarrow> None
      | Some a \<Rightarrow>
          (case scan_unsigned a of
             None \<Rightarrow> None
           | Some (pid, b) \<Rightarrow>
               (case strip_prefix ''_'' b of
                  None \<Rightarrow> None
                | Some c \<Rightarrow>
                    (case scan_unsigned c of
                       None \<Rightarrow> None
                     | Some (block_id, d) \<Rightarrow> if d = [] then Some (pid, block_id) else None))))"

definition cleanup_entry :: "env \<Rightarrow> string \<Rightarrow> world \<Rightarrow> world" where
  "cleanup_entry E name w =
     (case scan_metadata_name name of
        None \<Rightarrow> w
      | Some (pid, block_id) \<Rightarrow>
          if pid = 0 then w
          else let (k, s1) = call E (Kill pid) (fst w)
          in if rc k = 0 \<or> rc k \<noteq> ESRCH then (s1, snd w)
          else snd (shm_unlink E (CHR ''/'' # name) (s1, snd w)))"

fun cleanup_entries :: "env \<Rightarrow> string list \<Rightarrow> world \<Rightarrow> world" where
  "cleanup_entries E [] w = w"
| "cleanup_entries E (name # names) w = cleanup_entries E names (cleanup_entry E name w)"

definition cleanup_orphaned_metadata_objects :: "env \<Rightarrow> world \<Rightarrow> world" where
  "cleanup_orphaned_metadata_objects E w =
     (let (d, s1) = call E ReadDirShm (fst w)
      in if rc d \<noteq> 0 then (s1, snd w) else cleanup_entries E (entries d) (s1, snd w))"

section \<open>The pool\<close>

record block_reservation =
  rv_mapping :: "mapping option"
  rv_block_id :: u32
  rv_uid :: u64
  rv_publisher_pid :: u32
  rv_pool_index :: u32

record gpu_buffer_pool =
  gp_block_count :: u64
  gp_blocks :: "gpu_buffer_block list"
  gp_next_block :: nat
  gp_byte_size :: u64
  gp_device_index :: i32
  gp_publisher_pid :: u32
  gp_initialised :: bool
  gp_context :: "device_context option"

definition GpuBufferPool :: "u64 \<Rightarrow> u32 \<Rightarrow> gpu_buffer_pool" where
  "GpuBufferPool block_count pid =
     \<lparr>gp_block_count = block_count, gp_blocks = [], gp_next_block = 0, gp_byte_size = 0,
      gp_device_index = - 1, gp_publisher_pid = pid, gp_initialised = False, gp_context = None\<rparr>"

definition matches :: "gpu_buffer_pool \<Rightarrow> u64 \<Rightarrow> i32 \<Rightarrow> bool" where
  "matches p byte_size device_index \<longleftrightarrow>
     gp_initialised p \<and> gp_byte_size p = byte_size \<and> gp_device_index p = device_index"

definition resources :: "gpu_buffer_pool \<Rightarrow> u32 \<Rightarrow> gpu_buffer_block option" where
  "resources p pool_index =
     (if unat pool_index \<ge> length (gp_blocks p) then None else Some (gp_blocks p ! unat pool_index))"

definition owns :: "gpu_buffer_pool \<Rightarrow> block_reservation \<Rightarrow> bool" where
  "owns p rv \<longleftrightarrow>
     (if \<not> gp_initialised p \<or> rv_publisher_pid rv \<noteq> gp_publisher_pid p \<or> rv_mapping rv = None then False
      else case resources p (rv_pool_index rv) of
             None \<Rightarrow> False
           | Some b \<Rightarrow> gb_block_id b = rv_block_id rv
               \<and> map_option mp_this (gb_shared_metadata b) = map_option mp_this (rv_mapping rv))"

subsection \<open>Destruction\<close>

text \<open>Resetting the blocks' events; the pool still holds the context each of them shares.\<close>

fun reset_events :: "env \<Rightarrow> nat \<Rightarrow> gpu_buffer_block list \<Rightarrow> sys \<Rightarrow> gpu_buffer_block list \<times> sys" where
  "reset_events E thread [] s = ([], s)"
| "reset_events E thread (b # bs) s =
     (let s1 = (case gb_ready_event b of None \<Rightarrow> s | Some ev \<Rightarrow> snd (event_reset E thread ev s));
          (bs', s2) = reset_events E thread bs s1
      in (b\<lparr>gb_ready_event := None\<rparr> # bs', s2))"

fun unlink_metadata :: "env \<Rightarrow> gpu_buffer_block list \<Rightarrow> world \<Rightarrow> world" where
  "unlink_metadata E [] w = w"
| "unlink_metadata E (b # bs) w =
     unlink_metadata E bs
       (case gb_shared_metadata b of None \<Rightarrow> w | Some mp \<Rightarrow> snd (shm_unlink E (mp_name mp) w))"

text \<open>
  \<^verbatim>\<open>destroy_blocks\<close>. The events are gone when \<^verbatim>\<open>context_.reset()\<close> runs, so the pool's is the
  last reference to the context; the guard's destructor comes after it.
\<close>

definition destroy_blocks :: "env \<Rightarrow> nat \<Rightarrow> gpu_buffer_pool \<Rightarrow> world \<Rightarrow> gpu_buffer_pool \<times> world" where
  "destroy_blocks E thread p w =
     (let (locked, s0) = pool_lock E (fst w)
      in if \<not> locked then (p, (s0, snd w))
      else let (bs1, s1) = reset_events E thread (gp_blocks p) s0;
               (guard, s2) =
                 (case gp_context p of
                    None \<Rightarrow> (None, s1)
                  | Some dc \<Rightarrow> (case push_current E thread dc s1 of
                                  (Inl _, t) \<Rightarrow> (None, t)
                                | (Inr g, t) \<Rightarrow> (Some g, t)));
               (bs2, s3) = destroy_vmm_fd_memory E bs1 s2;
               (s4, sh4) = unlink_metadata E bs2 (s3, snd w);
               s5 = (case gp_context p of None \<Rightarrow> s4 | Some dc \<Rightarrow> device_context_destroy E dc s4);
               s6 = (case guard of None \<Rightarrow> s5 | Some g \<Rightarrow> snd (guard_pop E thread g s5))
      in (p\<lparr>gp_blocks := [], gp_next_block := 0, gp_byte_size := 0, gp_device_index := - 1,
           gp_initialised := False, gp_context := None\<rparr>, (s6, sh4)))"

definition reset :: "env \<Rightarrow> nat \<Rightarrow> gpu_buffer_pool \<Rightarrow> world \<Rightarrow> gpu_buffer_pool \<times> world" where
  "reset E thread p w = destroy_blocks E thread p w"

text \<open>
  Replacing the context and clearing the vector at the start of an initialisation. Blocks are
  normally gone by then; they remain when the preceding \<^verbatim>\<open>destroy_blocks\<close> could not lock. A
  block's members die in reverse order of declaration, and an old context dies with the last
  event that shares it, or at once when no event does.
\<close>

fun drop_blocks :: "env \<Rightarrow> nat \<Rightarrow> gpu_buffer_block list \<Rightarrow> sys \<Rightarrow> sys" where
  "drop_blocks E thread [] s = s"
| "drop_blocks E thread (b # bs) s =
     (let s1 = reset_vmm_state E (gb_vmm_fd_state b) s;
          s2 = (case gb_ready_event b of None \<Rightarrow> s1 | Some ev \<Rightarrow> snd (event_reset E thread ev s1));
          s3 = (case gb_ready_event b of
                  None \<Rightarrow> s2
                | Some ev \<Rightarrow>
                    if \<forall>b'\<in>set bs. gb_ready_event b' = None
                    then (case ie_context ev of None \<Rightarrow> s2 | Some dc \<Rightarrow> device_context_destroy E dc s2)
                    else s2)
      in drop_blocks E thread bs s3)"

definition replace_context ::
    "env \<Rightarrow> nat \<Rightarrow> device_context option \<Rightarrow> gpu_buffer_block list \<Rightarrow> sys \<Rightarrow> sys" where
  "replace_context E thread old blocks s =
     (let s1 = (case old of
                  None \<Rightarrow> s
                | Some dc \<Rightarrow> if \<forall>b\<in>set blocks. gb_ready_event b = None
                             then device_context_destroy E dc s else s)
      in drop_blocks E thread blocks s1)"

subsection \<open>Initialisation\<close>

definition NAME_MAX :: nat where
  "NAME_MAX = 255"

text \<open>
  The body of the metadata loop: the mapping for one block. A name left over under a reused
  process id is unlinked once and the creation retried.
\<close>

definition create_or_replace :: "env \<Rightarrow> string \<Rightarrow> world \<Rightarrow> mapping option \<times> world" where
  "create_or_replace E shm_name w =
     (let ((m, errno), w1) = create E shm_name w
      in if m = None \<and> errno = EEXIST
         then (let (u, w2) = shm_unlink E shm_name w1
               in if rc u = 0 \<or> rc u = ENOENT
                  then (let ((m', _), w3) = create E shm_name w2 in (m', w3))
                  else (None, w2))
         else (m, w1))"

fun create_metadata ::
    "env \<Rightarrow> u32 \<Rightarrow> gpu_buffer_block list \<Rightarrow> gpu_buffer_block list \<Rightarrow> world
     \<Rightarrow> (bool \<times> gpu_buffer_block list) \<times> world" where
  "create_metadata E pid ready [] w = ((True, ready), w)"
| "create_metadata E pid ready (b # bs) w =
     (case allocate_process_block_id (fst w) of
        (None, s1) \<Rightarrow> ((False, ready @ b # bs), (s1, snd w))
      | (Some block_id, s1) \<Rightarrow>
          let shm_name = shm_name_for_block pid block_id
          in if length shm_name > NAME_MAX then ((False, ready @ b # bs), (s1, snd w))
          else (case create_or_replace E shm_name (s1, snd w) of
                  (None, w2) \<Rightarrow> ((False, ready @ b # bs), w2)
                | (Some mp, w2) \<Rightarrow>
                    create_metadata E pid
                      (ready @ [b\<lparr>gb_block_id := block_id, gb_shared_metadata := Some mp\<rparr>]) bs w2))"

fun create_events ::
    "env \<Rightarrow> nat \<Rightarrow> device_context option \<Rightarrow> gpu_buffer_block list \<Rightarrow> gpu_buffer_block list \<Rightarrow> sys
     \<Rightarrow> (bool \<times> gpu_buffer_block list) \<times> sys" where
  "create_events E thread context ready [] s = ((True, ready), s)"
| "create_events E thread context ready (b # bs) s =
     (case event_create E thread context s of
        (Inl e, s1) \<Rightarrow> ((False, ready @ b # bs), s1)
      | (Inr ev, s1) \<Rightarrow>
          create_events E thread context (ready @ [b\<lparr>gb_ready_event := Some ev\<rparr>]) bs
            (case gb_ready_event b of None \<Rightarrow> s1 | Some old \<Rightarrow> snd (event_reset E thread old s1)))"

text \<open>\<^verbatim>\<open>allocate_blocks\<close>; the guard pops before the events are created, also on an exception.\<close>

definition allocate_blocks ::
    "env \<Rightarrow> nat \<Rightarrow> gpu_buffer_pool \<Rightarrow> sys \<Rightarrow> (alloc_result \<times> gpu_buffer_pool) \<times> sys" where
  "allocate_blocks E thread p s =
     (case gp_context p of
        None \<Rightarrow> ((AllocationFailed, p), s)
      | Some dc \<Rightarrow>
          (case with_guard E thread (dc_context dc) (\<lambda>_. (AllocationFailed, gp_blocks p))
                  (allocate_vmm_fd_memory E (gp_byte_size p) (gp_device_index p) (gp_blocks p)) s of
             ((Allocated, bs), s1) \<Rightarrow>
               let ((ok, bs'), s2) = create_events E thread (Some dc) [] bs s1
               in ((if ok then Allocated else AllocationFailed, p\<lparr>gp_blocks := bs'\<rparr>), s2)
           | ((r, bs), s1) \<Rightarrow> ((r, p\<lparr>gp_blocks := bs\<rparr>), s1)))"

text \<open>
  \<^verbatim>\<open>initialise\<close>: true, false, or an exception that leaves the blocks made so far for the next
  call or the destructor.
\<close>

definition initialise ::
    "env \<Rightarrow> nat \<Rightarrow> u64 \<Rightarrow> i32 \<Rightarrow> gpu_buffer_pool \<Rightarrow> world \<Rightarrow> (alloc_result \<times> gpu_buffer_pool) \<times> world" where
  "initialise E thread byte_size device_index p w =
     (if gp_block_count p = 0 \<or> gp_block_count p > 0xFFFFFFFF \<or> byte_size = 0
      then ((AllocationFailed, p), w)
      else
        let (p1, w1) = (if gp_initialised p \<or> gp_blocks p \<noteq> [] then destroy_blocks E thread p w else (p, w));
            w2 = cleanup_orphaned_metadata_objects E w1
        in case retain_primary E device_index (fst w2) of
             (Inl _, s3) \<Rightarrow> ((AllocationFailed, p1), (s3, snd w2))
           | (Inr dc, s3) \<Rightarrow>
               let s4 = replace_context E thread (gp_context p1) (gp_blocks p1) s3;
                   p2 = p1\<lparr>gp_context := Some dc, gp_byte_size := byte_size, gp_device_index := device_index,
                           gp_blocks := replicate (unat (gp_block_count p1)) GpuBufferBlock\<rparr>;
                   ((ok, bs), w5) = create_metadata E (gp_publisher_pid p2) [] (gp_blocks p2) (s4, snd w2);
                   p3 = p2\<lparr>gp_blocks := bs\<rparr>
               in if \<not> ok
                  then (case destroy_blocks E thread p3 w5 of (p4, w6) \<Rightarrow> ((AllocationFailed, p4), w6))
                  else (case allocate_blocks E thread p3 (fst w5) of
                          ((Allocated, p4), s6) \<Rightarrow>
                            ((Allocated, p4\<lparr>gp_initialised := True, gp_next_block := 0\<rparr>), (s6, snd w5))
                        | ((AllocationFailed, p4), s6) \<Rightarrow>
                            (case destroy_blocks E thread p4 (s6, snd w5) of
                               (p5, w7) \<Rightarrow> ((AllocationFailed, p5), w7))
                        | ((AllocationThrew, p4), s6) \<Rightarrow> ((AllocationThrew, p4), (s6, snd w5))))"

section \<open>Reservations\<close>

text \<open>
  The search loop of \<^verbatim>\<open>reserve_for_publish\<close> from one offset on; every candidate with metadata
  reads the clock once.
\<close>

function reserve_from :: "env \<Rightarrow> gpu_buffer_pool \<Rightarrow> nat \<Rightarrow> world
    \<Rightarrow> (block_reservation option \<times> gpu_buffer_pool) \<times> world" where
  "reserve_from E p offset w =
     (if offset \<ge> length (gp_blocks p) then ((None, p), w)
      else let index = (gp_next_block p + offset) mod length (gp_blocks p);
               b = gp_blocks p ! index
      in case gb_shared_metadata b of
           None \<Rightarrow> reserve_from E p (Suc offset) w
         | Some mp \<Rightarrow>
             let (t, s1) = call E SteadyClockNow (fst w)
             in case Buffer_Ref.reserve_for_publish (out t) (Some mp) (snd w) of
                  (None, sh1) \<Rightarrow> reserve_from E p (Suc offset) (s1, sh1)
                | (Some r, sh1) \<Rightarrow>
                    ((Some \<lparr>rv_mapping = pr_mapping r, rv_block_id = gb_block_id b, rv_uid = pr_uid r,
                            rv_publisher_pid = gp_publisher_pid p, rv_pool_index = of_nat index\<rparr>,
                      p\<lparr>gp_next_block := (index + 1) mod length (gp_blocks p)\<rparr>), (s1, sh1)))"
  by pat_completeness auto

termination
  by (relation "measure (\<lambda>(_, p, offset, _). length (gp_blocks p) - offset)") auto

declare reserve_from.simps [simp del]

definition pool_reserve_for_publish ::
    "env \<Rightarrow> gpu_buffer_pool \<Rightarrow> world \<Rightarrow> (block_reservation option \<times> gpu_buffer_pool) \<times> world" where
  "pool_reserve_for_publish E p w =
     (let (locked, s1) = pool_lock E (fst w)
      in if \<not> locked then ((None, p), (s1, snd w))
      else if \<not> gp_initialised p \<or> gp_blocks p = [] then ((None, p), (s1, snd w))
      else reserve_from E p 0 (s1, snd w))"

section \<open>Resources by index and by reservation\<close>

definition device_ptr_at :: "env \<Rightarrow> gpu_buffer_pool \<Rightarrow> u32 \<Rightarrow> sys \<Rightarrow> u64 \<times> sys" where
  "device_ptr_at E p pool_index s =
     (let (locked, s1) = pool_lock E s
      in if \<not> locked then (0, s1)
      else (case resources p pool_index of None \<Rightarrow> 0 | Some b \<Rightarrow> gb_device_ptr b, s1))"

definition record_ready_at ::
    "env \<Rightarrow> nat \<Rightarrow> gpu_buffer_pool \<Rightarrow> u32 \<Rightarrow> u64 \<Rightarrow> sys \<Rightarrow> unit cuda_result \<times> sys" where
  "record_ready_at E thread p pool_index stream s =
     (let (locked, s1) = pool_lock E s
      in if \<not> locked then (Inl CUDA_ERROR_INVALID_HANDLE, s1)
      else case resources p pool_index of
             None \<Rightarrow> (Inl CUDA_ERROR_INVALID_HANDLE, s1)
           | Some b \<Rightarrow>
               if \<not> gp_initialised p then (Inl CUDA_ERROR_INVALID_HANDLE, s1)
               else (case gb_ready_event b of
                       None \<Rightarrow> (Inl CUDA_ERROR_INVALID_HANDLE, s1)
                     | Some ev \<Rightarrow> event_record E thread ev stream s1))"

definition owned_block :: "gpu_buffer_pool \<Rightarrow> block_reservation \<Rightarrow> gpu_buffer_block option" where
  "owned_block p rv = (if owns p rv then resources p (rv_pool_index rv) else None)"

definition device_ptr_of :: "env \<Rightarrow> gpu_buffer_pool \<Rightarrow> block_reservation \<Rightarrow> sys \<Rightarrow> u64 \<times> sys" where
  "device_ptr_of E p rv s =
     (let (locked, s1) = pool_lock E s
      in if \<not> locked then (0, s1)
      else (case owned_block p rv of None \<Rightarrow> 0 | Some b \<Rightarrow> gb_device_ptr b, s1))"

definition record_ready ::
    "env \<Rightarrow> nat \<Rightarrow> gpu_buffer_pool \<Rightarrow> block_reservation \<Rightarrow> u64 \<Rightarrow> sys \<Rightarrow> unit cuda_result \<times> sys" where
  "record_ready E thread p rv stream s =
     (let (locked, s1) = pool_lock E s
      in if \<not> locked then (Inl CUDA_ERROR_INVALID_HANDLE, s1)
      else case owned_block p rv of
             None \<Rightarrow> (Inl CUDA_ERROR_INVALID_HANDLE, s1)
           | Some b \<Rightarrow>
               (case gb_ready_event b of
                  None \<Rightarrow> (Inl CUDA_ERROR_INVALID_HANDLE, s1)
                | Some ev \<Rightarrow> event_record E thread ev stream s1))"

text \<open>The string copy may run out of memory, which the source turns into \<^verbatim>\<open>nullopt\<close>: not modelled.\<close>

definition try_build_descriptor ::
    "env \<Rightarrow> gpu_buffer_pool \<Rightarrow> block_reservation \<Rightarrow> sys \<Rightarrow> buffer_descriptor option \<times> sys" where
  "try_build_descriptor E p rv s =
     (let (locked, s1) = pool_lock E s
      in if \<not> locked then (None, s1)
      else (case owned_block p rv of
              None \<Rightarrow> None
            | Some b \<Rightarrow>
                (case gb_ready_event b of
                   None \<Rightarrow> None
                 | Some ev \<Rightarrow>
                     Some \<lparr>bd_publisher_pid = rv_publisher_pid rv, bd_block_id = gb_block_id b,
                           bd_uid = rv_uid rv, bd_device_id = gp_device_index p,
                           bd_byte_size = gp_byte_size p, bd_vmm_socket_path = gb_vmm_socket_path b,
                           bd_ready_event_handle = ie_handle ev\<rparr>), s1))"

text \<open>The clock is read when the generation matches, before the count is lowered.\<close>

definition commit_reservation :: "env \<Rightarrow> block_reservation \<Rightarrow> world \<Rightarrow> bool \<times> world" where
  "commit_reservation E rv w =
     (if current_uid (rv_mapping rv) (snd w) = Some (rv_uid rv)
      then (let (t, s1) = call E SteadyClockNow (fst w);
                (ok, sh1) = commit_publish (out t) (rv_mapping rv) (rv_uid rv) (snd w)
            in (ok, (s1, sh1)))
      else (let (ok, sh1) = commit_publish 0 (rv_mapping rv) (rv_uid rv) (snd w) in (ok, (fst w, sh1))))"

definition pool_commit :: "env \<Rightarrow> gpu_buffer_pool \<Rightarrow> block_reservation \<Rightarrow> world \<Rightarrow> bool \<times> world" where
  "pool_commit E p rv w =
     (let (locked, s1) = pool_lock E (fst w)
      in if \<not> locked then (False, (s1, snd w))
      else if \<not> owns p rv then (False, (s1, snd w))
      else commit_reservation E rv (s1, snd w))"

definition pool_cancel :: "gpu_buffer_pool \<Rightarrow> block_reservation \<Rightarrow> shm \<Rightarrow> bool \<times> shm" where
  "pool_cancel p rv sh =
     (if rv_publisher_pid rv = gp_publisher_pid p \<and> rv_mapping rv \<noteq> None
      then cancel_publish (rv_mapping rv) (rv_uid rv) sh else (False, sh))"

section \<open>Ledger facts\<close>

text \<open>
  What the driver and the platform document, as the pool relies on it: a live context can be
  activated, handles are not null, and an uncontended mutex can be locked.
\<close>

definition pool_contract :: "env \<Rightarrow> bool" where
  "pool_contract E \<longleftrightarrow> pushes_succeed E \<and> vmm_contract E
     \<and> (\<forall>h b. rc (E h (CuEventCreate b)) = 0 \<longrightarrow> out (E h (CuEventCreate b)) \<noteq> 0)
     \<and> (\<forall>h. rc (E h MutexLock) = 0)"

definition event_ledger :: "interprocess_event option \<Rightarrow> resource \<Rightarrow> int" where
  "event_ledger e k = (case e of None \<Rightarrow> 0 | Some ev \<Rightarrow> one (REvent (ie_event ev)) k)"

definition events_ledger :: "gpu_buffer_block list \<Rightarrow> resource \<Rightarrow> int" where
  "events_ledger bs k = sum_list (map (\<lambda>b. event_ledger (gb_ready_event b) k) bs)"

lemma events_ledger_simps [simp]:
  "events_ledger [] k = 0"
  "events_ledger (b # bs) k = event_ledger (gb_ready_event b) k + events_ledger bs k"
  "events_ledger (bs @ cs) k = events_ledger bs k + events_ledger cs k"
  by (simp_all add: events_ledger_def)

definition pool_ledger :: "gpu_buffer_pool \<Rightarrow> resource \<Rightarrow> int" where
  "pool_ledger p k = blocks_ledger (gp_blocks p) k + events_ledger (gp_blocks p) k
     + (case gp_context p of None \<Rightarrow> 0 | Some dc \<Rightarrow> one (RPrimaryCtx (dc_device dc)) k)"

text \<open>The events of the blocks can be destroyed: not null, and sharing a live context.\<close>

definition live_events :: "device_context \<Rightarrow> gpu_buffer_block list \<Rightarrow> bool" where
  "live_events dc bs \<longleftrightarrow> (\<forall>b\<in>set bs. \<forall>ev. gb_ready_event b = Some ev \<longrightarrow>
     ie_event ev \<noteq> 0 \<and> ie_context ev = Some dc \<and> dc_context dc \<noteq> 0)"

lemma pool_lock_frame: "pool_lock E s = (b, s') \<Longrightarrow> delta s s' k = 0 \<and> quiet s s'"
  by (auto simp: pool_lock_def delta_def quiet_def split: prod.splits dest!: callT)

lemma pool_lock_contract: "pool_contract E \<Longrightarrow> pool_lock E s = (b, s') \<Longrightarrow> b"
  by (auto simp: pool_lock_def pool_contract_def split: prod.splits dest!: callD)

lemma reset_events_ledger:
  assumes "pool_contract E" "live_events dc bs" "driver_once s = Some 0"
    and "reset_events E t bs s = (bs', s')"
  shows "delta s s' k = - events_ledger bs k \<and> quiet s s'
    \<and> bs' = map (\<lambda>b. b\<lparr>gb_ready_event := None\<rparr>) bs"
  using assms(2-)
proof (induction bs arbitrary: s bs' s')
  case (Cons b bs)
  define s1 where "s1 = (case gb_ready_event b of None \<Rightarrow> s | Some ev \<Rightarrow> snd (event_reset E t ev s))"
  have d: "delta s s1 k = - event_ledger (gb_ready_event b) k \<and> quiet s s1"
  proof (cases "gb_ready_event b")
    case None then show ?thesis by (simp add: s1_def event_ledger_def)
  next
    case (Some ev)
    obtain ev' s2 where e: "event_reset E t ev s = (ev', s2)" by (cases "event_reset E t ev s")
    have "ie_event ev \<noteq> 0" "ie_context ev = Some dc" "dc_context dc \<noteq> 0"
      using Cons.prems(1) Some by (auto simp: live_events_def)
    from event_reset_ledger [OF _ Cons.prems(2) this e, of k] assms(1) Some e Cons.prems(2) show ?thesis
      by (simp add: s1_def event_ledger_def pool_contract_def quiet_def)
  qed
  obtain cs where r: "reset_events E t bs s1 = (cs, s')" "bs' = b\<lparr>gb_ready_event := None\<rparr> # cs"
    using Cons.prems(3) by (auto simp: s1_def Let_def split: prod.splits)
  have "live_events dc bs" "driver_once s1 = Some 0"
    using Cons.prems(1,2) d by (auto simp: live_events_def quiet_def)
  from Cons.IH [OF this r(1)] d r(2) delta_trans [of s s' k s1] show ?case by (auto simp: quiet_def)
qed simp

lemma shm_unlink_ledger: "shm_unlink E n (s, sh) = (r, (s', sh')) \<Longrightarrow> delta s s' k = 0 \<and> quiet s s'"
  by (frule shm_unlink_heap) (auto simp: delta_def quiet_def)

lemma unlink_metadata_ledger: "unlink_metadata E bs (s, sh) = (s', sh') \<Longrightarrow> delta s s' k = 0 \<and> quiet s s'"
proof (induction bs arbitrary: s sh)
  case (Cons b bs)
  show ?case
  proof (cases "gb_shared_metadata b")
    case None with Cons show ?thesis by simp
  next
    case (Some mp)
    obtain r s1 sh1 where u: "shm_unlink E (mp_name mp) (s, sh) = (r, (s1, sh1))" by (metis surj_pair)
    with Cons.prems Some have "unlink_metadata E bs (s1, sh1) = (s', sh')" by simp
    from Cons.IH [OF this] shm_unlink_ledger [OF u, of k] delta_trans [of s s' k s1] show ?thesis
      by (auto simp: quiet_def)
  qed
qed simp

lemma blocks_ledger_events_reset [simp]:
  "blocks_ledger (map (\<lambda>b. b\<lparr>gb_ready_event := None\<rparr>) bs) k = blocks_ledger bs k"
  by (induction bs) auto

lemma destroy_blocks_ledger:
  assumes "pool_contract E" "gp_context p = Some dc" "live_events dc (gp_blocks p)" "driver_once s = Some 0"
    and "destroy_blocks E t p (s, sh) = (p', (s', sh'))"
  shows "delta s s' k = - pool_ledger p k \<and> heap_next s' = heap_next s \<and> driver_once s' = Some 0
    \<and> p' = p\<lparr>gp_blocks := [], gp_next_block := 0, gp_byte_size := 0, gp_device_index := - 1,
           gp_initialised := False, gp_context := None\<rparr>"
proof -
  obtain l s0 where l: "pool_lock E s = (l, s0)" by (cases "pool_lock E s")
  then have l': l using pool_lock_contract assms(1) by blast
  obtain bs1 s1 where r: "reset_events E t (gp_blocks p) s0 = (bs1, s1)" by (cases "reset_events E t (gp_blocks p) s0")
  obtain q s2 where q: "push_current E t dc s1 = (q, s2)" by (cases "push_current E t dc s1")
  obtain bs2 s3 where d: "destroy_vmm_fd_memory E bs1 s2 = (bs2, s3)" by (cases "destroy_vmm_fd_memory E bs1 s2")
  obtain s4 sh4 where u: "unlink_metadata E bs2 (s3, sh) = (s4, sh4)" by (cases "unlink_metadata E bs2 (s3, sh)")
  define s5 where "s5 = device_context_destroy E dc s4"
  have s': "s' = (case q of Inl _ \<Rightarrow> s5 | Inr g \<Rightarrow> snd (guard_pop E t g s5))"
    and p': "p' = p\<lparr>gp_blocks := [], gp_next_block := 0, gp_byte_size := 0, gp_device_index := - 1,
           gp_initialised := False, gp_context := None\<rparr>"
    using assms(5) l l' r q d u assms(2)
    by (auto simp: destroy_blocks_def s5_def split: sum.splits)
  note f = pool_lock_frame [OF l, of k]
  have e: "delta s0 s1 k = - events_ledger (gp_blocks p) k \<and> quiet s0 s1"
      "bs1 = map (\<lambda>b. b\<lparr>gb_ready_event := None\<rparr>) (gp_blocks p)"
    using reset_events_ledger [OF assms(1,3) _ r, of k] f assms(4) by (auto simp: quiet_def)
  have v: "delta s2 s3 k = - blocks_ledger (gp_blocks p) k \<and> quiet s2 s3"
    using destroy_vmm_fd_memory_ledger [OF d, of k] e(2) by simp
  have w: "delta s3 s4 k = 0 \<and> quiet s3 s4" using unlink_metadata_ledger [OF u] by blast
  have x: "delta s4 s5 k = - one (RPrimaryCtx (dc_device dc)) k \<and> quiet s4 s5"
    by (simp add: s5_def device_context_destroy_def delta_exec quiet_def)
  have "delta s s' k = delta s s0 k + delta s0 s1 k + delta s1 s2 k + delta s2 s3 k + delta s3 s4 k
      + delta s4 s5 k + delta s5 s' k" by (simp add: delta_def)
  moreover have "delta s1 s2 k + delta s5 s' k = 0 \<and> heap_next s2 = heap_next s1 \<and> quiet s5 s'
      \<and> driver_once s2 = Some 0"
  proof (cases q)
    case (Inl er)
    have "driver_once s1 = Some 0" using e f assms(4) by (simp add: quiet_def)
    then have "driver_once s2 = Some 0"
      using q by (auto simp: push_current_def guard_push_def driver_initialize_def CUDA_SUCCESS_def
          split: if_splits prod.splits dest!: callT)
    then show ?thesis using guard_push_Inl [of E t "dc_context dc" s1 er s2 k] q Inl s' by (simp add: push_current_def)
  next
    case (Inr g)
    have g: "g = \<lparr>cg_context = dc_context dc, cg_owner_thread = t, cg_active = True\<rparr>"
      "delta s1 s2 k = one RPushedCtx k" "heap_next s2 = heap_next s1" "driver_once s2 = Some 0"
      using guard_push_Inr [of E t "dc_context dc" s1 g s2 k] q Inr by (auto simp: push_current_def)
    then show ?thesis using s' Inr by (simp add: guard_pop_ledger quiet_def)
  qed
  ultimately show ?thesis
    using f e v w x assms(2) p' by (auto simp: quiet_def pool_ledger_def)
qed

text \<open>What a step of initialisation outside the driver may change: no ledger, the heap only upwards.\<close>

definition heap_step :: "sys \<Rightarrow> sys \<Rightarrow> bool" where
  "heap_step s s' \<longleftrightarrow> driver_once s' = driver_once s \<and> heap_next s \<le> heap_next s'"

lemma heap_step_refl [simp]: "heap_step s s"
  by (simp add: heap_step_def)

lemma quiet_heap_step: "quiet s s' \<Longrightarrow> heap_step s s'"
  by (simp add: quiet_def heap_step_def)

lemma create_or_replace_ledger:
  assumes "create_or_replace E name (s, sh) = (m, (s', sh'))"
  shows "delta s s' k = 0 \<and> heap_step s s'"
proof -
  obtain m1 e s1 sh1 where c: "create E name (s, sh) = ((m1, e), (s1, sh1))" by (metis surj_pair)
  obtain r s2 sh2 where u: "shm_unlink E name (s1, sh1) = (r, (s2, sh2))" by (metis surj_pair)
  obtain m3 e3 s3 sh3 where c3: "create E name (s2, sh2) = ((m3, e3), (s3, sh3))" by (metis surj_pair)
  note f = create_ledger [OF c, of k] shm_unlink_ledger [OF u, of k] create_ledger [OF c3, of k]
  have "s' = s1 \<or> s' = s2 \<or> s' = s3"
    using assms c u c3 by (auto simp: create_or_replace_def split: if_splits)
  then show ?thesis
    using f delta_trans [of s s2 k s1] delta_trans [of s s3 k s2] by (auto simp: heap_step_def quiet_def)
qed

definition unbacked :: "gpu_buffer_block list \<Rightarrow> bool" where
  "unbacked bs \<longleftrightarrow> (\<forall>b\<in>set bs. gb_vmm_fd_state b = None \<and> gb_ready_event b = None)"

lemma unbacked_simps [simp]:
  "unbacked []"
  "unbacked (b # bs) \<longleftrightarrow> gb_vmm_fd_state b = None \<and> gb_ready_event b = None \<and> unbacked bs"
  "unbacked (bs @ cs) \<longleftrightarrow> unbacked bs \<and> unbacked cs"
  by (auto simp: unbacked_def)

lemma create_metadata_ledger:
  assumes "create_metadata E pid ready bs (s, sh) = ((ok, bs'), (s', sh'))"
  shows "delta s s' k = 0 \<and> heap_step s s' \<and> length bs' = length ready + length bs
    \<and> (unbacked ready \<longrightarrow> unbacked bs \<longrightarrow> unbacked bs')"
  using assms
proof (induction bs arbitrary: ready s sh)
  case (Cons b bs)
  obtain i s1 where a: "allocate_process_block_id s = (i, s1)" by (cases "allocate_process_block_id s")
  have d1: "delta s s1 k = 0" "heap_step s s1"
    using a by (auto simp: allocate_process_block_id_def Let_def heap_step_def split: if_splits)
  show ?case
  proof (cases i)
    case None
    with Cons.prems a d1 show ?thesis by auto
  next
    case (Some id)
    show ?thesis
    proof (cases "length (shm_name_for_block pid id) > NAME_MAX")
      case True
      with Cons.prems a d1 Some show ?thesis by auto
    next
      case short: False
      obtain m s2 sh2 where c: "create_or_replace E (shm_name_for_block pid id) (s1, sh) = (m, (s2, sh2))"
        by (metis surj_pair)
      note d2 = create_or_replace_ledger [OF c, of k] delta_trans [of s s2 k s1]
      show ?thesis
      proof (cases m)
        case None
        with Cons.prems a Some short c have e: "s' = s2 \<and> bs' = ready @ b # bs" by simp
        show ?thesis unfolding e [THEN conjunct1] using d1 d2 e by (auto simp: heap_step_def)
      next
        case m': (Some mp)
        with Cons.prems a Some short c have
          "create_metadata E pid (ready @ [b\<lparr>gb_block_id := id, gb_shared_metadata := Some mp\<rparr>]) bs (s2, sh2)
             = ((ok, bs'), (s', sh'))" by simp
        note IH = Cons.IH [OF this]
        have "delta s s' k = 0" "heap_step s s'"
          using IH d1 d2 delta_trans [of s s' k s2] by (simp_all add: heap_step_def)
        with IH show ?thesis by simp
      qed
    qed
  qed
qed auto

lemma cleanup_entry_ledger:
  assumes "cleanup_entry E name (s, sh) = (s', sh')"
  shows "delta s s' k = 0 \<and> quiet s s'"
proof (cases "scan_metadata_name name")
  case None
  with assms show ?thesis by (simp add: cleanup_entry_def)
next
  case (Some q)
  obtain pid bid where q: "q = (pid, bid)" by (cases q)
  obtain r s1 where r: "call E (Kill pid) s = (r, s1)" by (cases "call E (Kill pid) s")
  obtain u s2 sh2 where u: "shm_unlink E (CHR ''/'' # name) (s1, sh) = (u, (s2, sh2))" by (metis surj_pair)
  have "s' = s \<or> s' = s1 \<or> s' = s2"
    using assms Some q r u by (auto simp: cleanup_entry_def split: if_splits)
  then show ?thesis
    using delta_call [OF r, of k] callT [OF r] shm_unlink_ledger [OF u, of k] delta_trans [of s s2 k s1]
    by (auto simp: quiet_def)
qed

lemma cleanup_entries_ledger:
  "cleanup_entries E names (s, sh) = (s', sh') \<Longrightarrow> delta s s' k = 0 \<and> quiet s s'"
proof (induction names arbitrary: s sh)
  case (Cons name names)
  obtain s1 sh1 where c: "cleanup_entry E name (s, sh) = (s1, sh1)" by (cases "cleanup_entry E name (s, sh)")
  with Cons.prems have "cleanup_entries E names (s1, sh1) = (s', sh')" by simp
  from Cons.IH [OF this] cleanup_entry_ledger [OF c, of k] delta_trans [of s s' k s1] show ?case
    by (auto simp: quiet_def)
qed simp

lemma cleanup_orphaned_ledger:
  assumes "cleanup_orphaned_metadata_objects E (s, sh) = (s', sh')"
  shows "delta s s' k = 0 \<and> quiet s s'"
proof -
  obtain d s1 where d: "call E ReadDirShm s = (d, s1)" by (cases "call E ReadDirShm s")
  show ?thesis
  proof (cases "rc d = 0")
    case False
    with assms d delta_call [OF d, of k] callT [OF d] show ?thesis
      by (auto simp: cleanup_orphaned_metadata_objects_def quiet_def)
  next
    case True
    with assms d have "cleanup_entries E (entries d) (s1, sh) = (s', sh')"
      by (simp add: cleanup_orphaned_metadata_objects_def)
    from cleanup_entries_ledger [OF this, of k] show ?thesis
      using delta_call [OF d, of k] callT [OF d] delta_trans [of s s' k s1] by (auto simp: quiet_def)
  qed
qed

lemma event_create_live:
  assumes "pool_contract E" and "event_create E t (Some dc) s = (Inr ev, s')"
  shows "ie_event ev \<noteq> 0"
proof -
  from assms(2) have "with_guard E t (dc_context dc) Inl
            (\<lambda>s1. let (r, s2) = call E (CuEventCreate True) s1
             in if rc r \<noteq> CUDA_SUCCESS then (Inl (rc r), s2)
             else let (h, s3) = call E (CuIpcGetEventHandle (out r)) s2
             in if rc h \<noteq> CUDA_SUCCESS then (Inl (rc h), exec E (CuEventDestroy (out r)) s3)
             else (Inr \<lparr>ie_context = Some dc, ie_event = out r, ie_handle = payload64 (raw h)\<rparr>, s3)) s = (Inr ev, s')"
    by (simp add: event_create_def)
  then show ?thesis
  proof (cases rule: with_guard_cases)
    case (ran s1 s2)
    obtain r s3 where r: "call E (CuEventCreate True) s1 = (r, s3)" by (cases "call E (CuEventCreate True) s1")
    with ran(1) have "rc r = 0 \<and> ie_event ev = out r"
      by (auto simp: Let_def CUDA_SUCCESS_def split: prod.splits if_splits)
    moreover have "r = E (tr s1) (CuEventCreate True)" using callD [OF r] by blast
    ultimately show ?thesis using assms(1) by (auto simp: pool_contract_def)
  qed simp
qed

lemma create_events_ledger:
  assumes "pool_contract E" "create_events E t (Some dc) ready bs s = ((ok, bs'), s')"
    and "\<forall>b\<in>set bs. gb_ready_event b = None" "live_events dc ready" "driver_once s = Some 0"
  shows "delta s s' k = events_ledger bs' k - events_ledger ready k \<and> heap_step s s'
    \<and> live_events dc bs' \<and> length bs' = length ready + length bs
    \<and> map (\<lambda>b. (gb_block_id b, gb_shared_metadata b, gb_vmm_fd_state b, gb_device_ptr b, gb_vmm_socket_path b)) bs'
      = map (\<lambda>b. (gb_block_id b, gb_shared_metadata b, gb_vmm_fd_state b, gb_device_ptr b, gb_vmm_socket_path b)) (ready @ bs)
    \<and> (ok \<longrightarrow> (\<forall>b\<in>set ready. gb_ready_event b \<noteq> None) \<longrightarrow> (\<forall>b\<in>set bs'. gb_ready_event b \<noteq> None))"
  using assms(2-)
proof (induction bs arbitrary: ready s)
  case (Cons b bs)
  obtain r s1 where c: "event_create E t (Some dc) s = (r, s1)" by (cases "event_create E t (Some dc) s")
  show ?case
  proof (cases r)
    case (Inl e)
    have once: "driver_once s1 = Some 0" using event_create_once [OF c] Cons.prems(4) by simp
    have "events_ledger (b # bs) k = 0" using Cons.prems(2)
      by (induction bs) (auto simp: event_ledger_def)
    with Cons.prems c Inl event_create_Inl [of E t "Some dc" s e s1 k] once show ?thesis
      by (auto simp: heap_step_def live_events_def)
  next
    case (Inr ev)
    let ?b = "b\<lparr>gb_ready_event := Some ev\<rparr>"
    note f = event_create_Inr [of E t "Some dc" s ev s1 k]
    from Cons.prems c Inr have "create_events E t (Some dc) (ready @ [?b]) bs s1 = ((ok, bs'), s')" by simp
    moreover have "live_events dc (ready @ [?b])"
      using Cons.prems(3) f c Inr event_create_live [OF assms(1), of t dc s ev s1] by (auto simp: live_events_def)
    moreover have "driver_once s1 = Some 0" "\<forall>b\<in>set bs. gb_ready_event b = None"
      using f c Inr Cons.prems(2) by auto
    ultimately have "delta s1 s' k = events_ledger bs' k - events_ledger (ready @ [?b]) k \<and> heap_step s1 s'
    \<and> live_events dc bs' \<and> length bs' = length (ready @ [?b]) + length bs
    \<and> map (\<lambda>b. (gb_block_id b, gb_shared_metadata b, gb_vmm_fd_state b, gb_device_ptr b, gb_vmm_socket_path b)) bs'
      = map (\<lambda>b. (gb_block_id b, gb_shared_metadata b, gb_vmm_fd_state b, gb_device_ptr b, gb_vmm_socket_path b)) ((ready @ [?b]) @ bs)
    \<and> (ok \<longrightarrow> (\<forall>b\<in>set (ready @ [?b]). gb_ready_event b \<noteq> None) \<longrightarrow> (\<forall>b\<in>set bs'. gb_ready_event b \<noteq> None))"
      using Cons.IH by blast
    moreover have "delta s s1 k = event_ledger (Some ev) k" "heap_step s s1"
      using f c Inr Cons.prems(4) by (auto simp: event_ledger_def heap_step_def)
    ultimately show ?thesis using delta_trans [of s s' k s1] by (auto simp: heap_step_def)
  qed
qed auto

definition resource_ledger :: "gpu_buffer_pool \<Rightarrow> resource \<Rightarrow> int" where
  "resource_ledger p k = blocks_ledger (gp_blocks p) k + events_ledger (gp_blocks p) k"

definition block_identity :: "gpu_buffer_block \<Rightarrow> u32 \<times> mapping option" where
  "block_identity b = (gb_block_id b, gb_shared_metadata b)"

lemma unbacked_block_keys: "map block_keys bs' = map block_keys bs \<Longrightarrow> unbacked bs \<Longrightarrow>
    (\<forall>b\<in>set bs'. gb_ready_event b = None) \<and> length bs' = length bs
    \<and> map block_identity bs' = map block_identity bs"
proof (induction bs' arbitrary: bs)
  case (Cons b bs')
  then obtain c cs where bs: "bs = c # cs" by (cases bs) auto
  have k: "block_keys b = block_keys c" "map block_keys bs' = map block_keys cs" using Cons.prems(1) bs by simp_all
  have u: "gb_ready_event c = None" "unbacked cs" using Cons.prems(2) bs by simp_all
  show ?case using Cons.IH [OF k(2) u(2)] k(1) u(1) bs by (simp add: block_keys_def block_identity_def)
qed (simp add: block_identity_def)

lemma events_ledger_none: "\<forall>b\<in>set bs. gb_ready_event b = None \<Longrightarrow> events_ledger bs k = 0 \<and> live_events dc bs"
  by (induction bs) (auto simp: event_ledger_def live_events_def)

lemma create_events_projections:
  assumes "map (\<lambda>b. (gb_block_id b, gb_shared_metadata b, gb_vmm_fd_state b, gb_device_ptr b, gb_vmm_socket_path b)) bs
     = map (\<lambda>b. (gb_block_id b, gb_shared_metadata b, gb_vmm_fd_state b, gb_device_ptr b, gb_vmm_socket_path b)) cs"
  shows "blocks_ledger bs k = blocks_ledger cs k \<and> map block_identity bs = map block_identity cs
    \<and> ((\<forall>b\<in>set cs. backed b) \<longrightarrow> (\<forall>b\<in>set bs. backed b))
    \<and> map gb_vmm_socket_path bs = map gb_vmm_socket_path cs"
  using assms
proof (induction bs arbitrary: cs)
  case (Cons b bs)
  then obtain d ds where "cs = d # ds" by (cases cs) auto
  with Cons show ?case by (auto simp: block_identity_def backed_def split: option.splits)
qed (simp add: block_identity_def)

lemma allocate_blocks_ledger:
  assumes "pool_contract E" "gp_context p = Some dc" "unbacked (gp_blocks p)" "driver_once s = Some 0"
    and al: "allocate_blocks E t p s = ((r, p'), s')"
  shows "heap_step s s' \<and> (\<exists>bs. p' = p\<lparr>gp_blocks := bs\<rparr>) \<and> live_events dc (gp_blocks p')
    \<and> map block_identity (gp_blocks p') = map block_identity (gp_blocks p)
    \<and> (r = Allocated \<longrightarrow> (\<forall>b\<in>set (gp_blocks p'). backed b \<and> gb_ready_event b \<noteq> None))
    \<and> (delta s s' k = resource_ledger p' k
       \<or> r = AllocationFailed \<and> (\<exists>a z. k = RMapping a z) \<and> delta s s' k = resource_ledger p' k - 1)"
proof -
  let ?body = "allocate_vmm_fd_memory E (gp_byte_size p) (gp_device_index p) (gp_blocks p)"
  obtain r1 bs s1 where w: "with_guard E t (dc_context dc) (\<lambda>_. (AllocationFailed, gp_blocks p)) ?body s = ((r1, bs), s1)"
    by (metis surj_pair)
  have vc: "vmm_contract E" using assms(1) by (simp add: pool_contract_def)
  have fresh: "\<forall>b\<in>set (gp_blocks p). gb_vmm_fd_state b = None" "\<forall>b\<in>set (gp_blocks p). gb_ready_event b = None"
    using assms(3) by (auto simp: unbacked_def)
  have main: "heap_step s s1 \<and> map block_keys bs = map block_keys (gp_blocks p)
     \<and> (r1 = Allocated \<longrightarrow> (\<forall>b\<in>set bs. backed b))
     \<and> (delta s s1 k = blocks_ledger bs k
       \<or> r1 = AllocationFailed \<and> (\<exists>a z. k = RMapping a z) \<and> delta s s1 k = blocks_ledger bs k - 1)"
    using w
  proof (cases rule: with_guard_cases)
    case (failed e)
    have "driver_once s1 = Some 0"
      using w assms(4) with_guard_once [OF w assms(4)] allocate_vmm_fd_memory_ledger [OF vc _ fresh(1)]
      by (auto simp: quiet_def)
    with failed fresh assms(4) blocks_ledger_none [OF fresh(1), of k] show ?thesis
      by (auto simp: heap_step_def)
  next
    case (ran s2 s3)
    from allocate_vmm_fd_memory_ledger [OF vc ran(1) fresh(1), of k] ran assms(4) show ?thesis
      by (auto simp: quiet_def heap_step_def)
  qed
  note keys = unbacked_block_keys [OF conjunct1 [OF conjunct2 [OF main]] assms(3)]
  show ?thesis
  proof (cases "r1 = Allocated")
    case False
    then have "r = r1" "p' = p\<lparr>gp_blocks := bs\<rparr>" "s' = s1"
      using al w assms(2) by (auto simp: allocate_blocks_def split: alloc_result.splits)
    with main keys events_ledger_none [of bs k dc] False show ?thesis by (auto simp: resource_ledger_def)
  next
    case True
    obtain ok cs s2 where c: "create_events E t (Some dc) [] bs s1 = ((ok, cs), s2)" by (metis surj_pair)
    have r: "r = (if ok then Allocated else AllocationFailed)" "p' = p\<lparr>gp_blocks := cs\<rparr>" "s' = s2"
      using al w assms(2) True c by (auto simp: allocate_blocks_def)
    have "driver_once s1 = Some 0" using main assms(4) by (simp add: heap_step_def)
    then have f: "delta s1 s2 k = events_ledger cs k \<and> heap_step s1 s2 \<and> live_events dc cs \<and> length cs = length bs
      \<and> map (\<lambda>b. (gb_block_id b, gb_shared_metadata b, gb_vmm_fd_state b, gb_device_ptr b, gb_vmm_socket_path b)) cs
        = map (\<lambda>b. (gb_block_id b, gb_shared_metadata b, gb_vmm_fd_state b, gb_device_ptr b, gb_vmm_socket_path b)) bs
      \<and> (ok \<longrightarrow> (\<forall>b\<in>set cs. gb_ready_event b \<noteq> None))"
      using create_events_ledger [OF assms(1) c, of k] keys by (simp add: live_events_def)
    have "map (\<lambda>b. (gb_block_id b, gb_shared_metadata b, gb_vmm_fd_state b, gb_device_ptr b, gb_vmm_socket_path b)) cs
        = map (\<lambda>b. (gb_block_id b, gb_shared_metadata b, gb_vmm_fd_state b, gb_device_ptr b, gb_vmm_socket_path b)) bs"
      using f by blast
    note pr = create_events_projections [OF this, of k]
    have "delta s s' k = resource_ledger p' k"
      using main True f pr r delta_trans [of s s' k s1] by (simp add: resource_ledger_def)
    moreover have "heap_step s s'" using main f r by (simp add: heap_step_def)
    ultimately show ?thesis using main True f pr r keys by auto
  qed
qed

definition idle :: "gpu_buffer_pool \<Rightarrow> bool" where
  "idle p \<longleftrightarrow> gp_blocks p = [] \<and> \<not> gp_initialised p \<and> gp_context p = None"

lemma replace_context_idle: "replace_context E t None [] s = s"
  by (simp add: replace_context_def)

lemma unbacked_replicate [simp]: "unbacked (replicate n GpuBufferBlock)"
  by (simp add: unbacked_def GpuBufferBlock_def)

text \<open>
  Initialising an idle pool: success acquired exactly what the pool's ledger says, failure
  nothing (but for the spurious unmap of allocate_vmm_blocks), an exception what the blocks
  left behind hold.
\<close>

lemma initialise_ledger:
  assumes "pool_contract E" "idle p"
    and ini: "initialise E t n d p (s, sh) = ((r, p'), (s', sh'))"
  shows "heap_next s \<le> heap_next s'
    \<and> (r = AllocationFailed \<longrightarrow> idle p' \<and> (delta s s' k = 0 \<or> (\<exists>a z. k = RMapping a z) \<and> delta s s' k = - 1))
    \<and> (r \<noteq> AllocationFailed \<longrightarrow> delta s s' k = pool_ledger p' k \<and> driver_once s' = Some 0 \<and> gp_blocks p' \<noteq> []
         \<and> (\<exists>dc. gp_context p' = Some dc \<and> live_events dc (gp_blocks p')))
    \<and> (r = Allocated \<longrightarrow> gp_initialised p' \<and> (\<forall>b\<in>set (gp_blocks p'). backed b \<and> gb_ready_event b \<noteq> None))"
proof (cases "gp_block_count p = 0 \<or> gp_block_count p > 0xFFFFFFFF \<or> n = 0")
  case True
  with ini assms(2) show ?thesis by (auto simp: initialise_def)
next
  case valid: False
  have idle: "\<not> (gp_initialised p \<or> gp_blocks p \<noteq> [])" using assms(2) by (simp add: idle_def)
  obtain s2 sh2 where c: "cleanup_orphaned_metadata_objects E (s, sh) = (s2, sh2)"
    by (cases "cleanup_orphaned_metadata_objects E (s, sh)")
  note d2 = cleanup_orphaned_ledger [OF c, of k]
  obtain q s3 where q: "retain_primary E d s2 = (q, s3)" by (cases "retain_primary E d s2")
  show ?thesis
  proof (cases q)
    case (Inl e)
    then have "r = AllocationFailed" "p' = p" "s' = s3"
      using ini valid idle c q by (auto simp: initialise_def)
    with d2 q Inl retain_primary_Inl [of E d s2 e s3 k] assms(2) delta_trans [of s s3 k s2] show ?thesis
      by (auto simp: quiet_def)
  next
    case (Inr dc)
    note rp = retain_primary_Inr [of E d s2 dc s3 k] retain_primary_once [of E d s2 dc s3]
    have d3: "delta s s3 k = one (RPrimaryCtx (dc_device dc)) k" "heap_next s \<le> heap_next s3" "driver_once s3 = Some 0"
      using d2 rp q Inr delta_trans [of s s3 k s2] by (auto simp: quiet_def)
    let ?p2 = "p\<lparr>gp_context := Some dc, gp_byte_size := n, gp_device_index := d,
                 gp_blocks := replicate (unat (gp_block_count p)) GpuBufferBlock\<rparr>"
    obtain ok bs s5 sh5 where m: "create_metadata E (gp_publisher_pid p) [] (gp_blocks ?p2) (s3, sh2) = ((ok, bs), (s5, sh5))"
      by (metis surj_pair)
    have m': "delta s3 s5 k = 0" "heap_step s3 s5" "unbacked bs" "bs \<noteq> []"
      using create_metadata_ledger [OF m, of k] valid by (auto simp: unat_eq_zero)
    let ?p3 = "?p2\<lparr>gp_blocks := bs\<rparr>"
    have d5: "delta s s5 k = one (RPrimaryCtx (dc_device dc)) k" "heap_next s \<le> heap_next s5" "driver_once s5 = Some 0"
      using d3 m' delta_trans [of s s5 k s3] by (auto simp: heap_step_def)
    have z: "blocks_ledger bs k = 0" "events_ledger bs k = 0" "live_events dc bs"
      using m'(3) blocks_ledger_none [of bs k] events_ledger_none [of bs k dc] by (auto simp: unbacked_def)
    note run = ini valid idle c q Inr m assms(2)
    note init = initialise_def replace_context_idle idle_def Let_def
    show ?thesis
    proof (cases ok)
      case False
      obtain p4 s6 sh6 where x: "destroy_blocks E t ?p3 (s5, sh5) = (p4, (s6, sh6))" by (metis surj_pair)
      have "delta s5 s6 k = - pool_ledger ?p3 k \<and> heap_next s6 = heap_next s5 \<and> idle p4"
        using destroy_blocks_ledger [OF assms(1) _ _ d5(3) x, of dc k] z by (auto simp: idle_def)
      moreover have "r = AllocationFailed" "p' = p4" "s' = s6"
        using run False x by (simp_all add: init)
      ultimately show ?thesis using d5 z delta_trans [of s s6 k s5] by (auto simp: pool_ledger_def)
    next
      case True
      obtain r4 p4 s6 where a: "allocate_blocks E t ?p3 s5 = ((r4, p4), s6)" by (metis surj_pair)
      have ne: "gp_blocks p4 \<noteq> []"
        using allocate_blocks_ledger [OF assms(1) _ _ d5(3) a, of dc k] m'(3,4) by auto
      have f: "heap_step s5 s6 \<and> (\<exists>bs. p4 = ?p3\<lparr>gp_blocks := bs\<rparr>) \<and> live_events dc (gp_blocks p4)
        \<and> (r4 = Allocated \<longrightarrow> (\<forall>b\<in>set (gp_blocks p4). backed b \<and> gb_ready_event b \<noteq> None))
        \<and> (delta s5 s6 k = resource_ledger p4 k
          \<or> r4 = AllocationFailed \<and> (\<exists>a z. k = RMapping a z) \<and> delta s5 s6 k = resource_ledger p4 k - 1)"
        using allocate_blocks_ledger [OF assms(1) _ _ d5(3) a, of dc k] m'(3) by simp
      have p4: "gp_context p4 = Some dc" "gp_initialised p4 = gp_initialised p" using f by auto
      have pl: "pool_ledger p4 k = resource_ledger p4 k + one (RPrimaryCtx (dc_device dc)) k"
        using p4 by (simp add: pool_ledger_def resource_ledger_def)
      have h: "heap_next s \<le> heap_next s6" "driver_once s6 = Some 0" using d5 f by (auto simp: heap_step_def)
      show ?thesis
      proof (cases r4)
        case Allocated
        with run True a have e: "r = Allocated" "p' = p4\<lparr>gp_initialised := True, gp_next_block := 0\<rparr>" "s' = s6"
          by (simp_all add: init)
        have "pool_ledger p' k = pool_ledger p4 k" by (simp add: e pool_ledger_def)
        with e f d5 pl h p4 ne Allocated delta_trans [of s s6 k s5] show ?thesis by auto
      next
        case AllocationFailed
        obtain p5 s7 sh7 where x: "destroy_blocks E t p4 (s6, sh5) = (p5, (s7, sh7))" by (metis surj_pair)
        with run True a AllocationFailed have e: "r = AllocationFailed" "p' = p5" "s' = s7"
          by (simp_all add: init)
        have "delta s6 s7 k = - pool_ledger p4 k \<and> heap_next s7 = heap_next s6 \<and> idle p5"
          using destroy_blocks_ledger [OF assms(1) p4(1) _ h(2) x, of k] f by (auto simp: idle_def)
        with e f d5 pl h delta_trans [of s s7 k s6] delta_trans [of s s6 k s5] show ?thesis by auto
      next
        case AllocationThrew
        with run True a have e: "r = AllocationThrew" "p' = p4" "s' = s6" by (simp_all add: init)
        with f d5 pl h p4 ne AllocationThrew delta_trans [of s s6 k s5] show ?thesis by auto
      qed
    qed
  qed
qed

section \<open>The blocks an initialisation makes\<close>

text \<open>A block whose metadata object exists under the block's own name, unused so far.\<close>

definition fresh_block :: "u32 \<Rightarrow> nat \<Rightarrow> shm \<Rightarrow> gpu_buffer_block \<Rightarrow> bool" where
  "fresh_block pid heap sh b \<longleftrightarrow>
     (case gb_shared_metadata b of None \<Rightarrow> False
      | Some mp \<Rightarrow> mp_name mp = shm_name_for_block pid (gb_block_id b)
          \<and> sh_names sh (mp_name mp) = Some (mp_addr mp) \<and> mp_addr mp < sh_next sh
          \<and> bm_refcount (load_meta sh (mp_addr mp)) = 0 \<and> bm_timestamp (load_meta sh (mp_addr mp)) = 0
          \<and> bm_uid (load_meta sh (mp_addr mp)) \<noteq> 0 \<and> bm_uid (load_meta sh (mp_addr mp)) \<noteq> u64_max
          \<and> heap \<le> mp_this mp)"

lemma create_or_replace_Some:
  assumes "create_or_replace E name (s, sh) = (Some mp, (s', sh'))"
  shows "mp_name mp = name \<and> sh_names sh' name = Some (mp_addr mp) \<and> mp_addr mp < sh_next sh'
    \<and> bm_refcount (load_meta sh' (mp_addr mp)) = 0 \<and> bm_timestamp (load_meta sh' (mp_addr mp)) = 0
    \<and> bm_uid (load_meta sh' (mp_addr mp)) \<noteq> 0 \<and> bm_uid (load_meta sh' (mp_addr mp)) \<noteq> u64_max
    \<and> heap_next s \<le> mp_this mp \<and> heap_next s \<le> heap_next s' \<and> sh_next sh \<le> sh_next sh'
    \<and> same_cells (sh_next sh) sh sh' \<and> (\<forall>n. n \<noteq> name \<longrightarrow> sh_names sh' n = sh_names sh n)"
proof -
  obtain m1 e s1 sh1 where c: "create E name (s, sh) = ((m1, e), (s1, sh1))" by (metis surj_pair)
  obtain r s2 sh2 where u: "shm_unlink E name (s1, sh1) = (r, (s2, sh2))" by (metis surj_pair)
  obtain m3 e3 s3 sh3 where c3: "create E name (s2, sh2) = ((m3, e3), (s3, sh3))" by (metis surj_pair)
  show ?thesis
  proof (cases m1)
    case (Some mp1)
    with assms c have "mp1 = mp" "s' = s1" "sh' = sh1" by (auto simp: create_or_replace_def)
    with create_success [of E name s sh mp e s1 sh1] c Some show ?thesis
      by (auto simp: same_cells_def)
  next
    case None
    with assms c u c3 have e: "m3 = Some mp" "s' = s3" "sh' = sh3"
      by (auto simp: create_or_replace_def split: if_splits)
    have s12: "same_cells (sh_next sh) sh sh1 \<and> sh_next sh \<le> sh_next sh1 \<and> heap_next s \<le> heap_next s1
       \<and> (\<forall>n. n \<noteq> name \<longrightarrow> sh_names sh1 n = sh_names sh n)"
      using create_cells [OF c] .
    have s2: "sh_objs sh2 = sh_objs sh1" "sh_next sh2 = sh_next sh1" "heap_next s2 = heap_next s1"
      "\<forall>n. n \<noteq> name \<longrightarrow> sh_names sh2 n = sh_names sh1 n"
      using shm_unlink_cases [OF u] shm_unlink_heap [OF u] by (auto split: if_splits)
    have "same_cells (sh_next sh) sh sh3"
      using s12 s2 create_success [of E name s2 sh2 mp e3 s3 sh3] c3 e by (auto simp: same_cells_def)
    then show ?thesis
      using s12 s2 create_success [of E name s2 sh2 mp e3 s3 sh3] c3 e by auto
  qed
qed

lemma create_counter:
  "create E name (s, sh) = (r, (s', sh')) \<Longrightarrow> next_process_block_id s' = next_process_block_id s"
  by (auto simp: create_def shm_open_create_def shm_unlink_def make_mapping_def alloc_ptr_def Let_def
      split: prod.splits if_splits dest!: callT)

lemma create_or_replace_counter:
  assumes "create_or_replace E name (s, sh) = (r, (s', sh'))"
  shows "next_process_block_id s' = next_process_block_id s"
proof -
  obtain m1 e s1 sh1 where c: "create E name (s, sh) = ((m1, e), (s1, sh1))" by (metis surj_pair)
  obtain u s2 sh2 where u: "shm_unlink E name (s1, sh1) = (u, (s2, sh2))" by (metis surj_pair)
  obtain m3 e3 s3 sh3 where c3: "create E name (s2, sh2) = ((m3, e3), (s3, sh3))" by (metis surj_pair)
  have "next_process_block_id s2 = next_process_block_id s1"
    using u by (auto simp: shm_unlink_def Let_def split: if_splits)
  then show ?thesis
    using assms c u c3 create_counter [OF c] create_counter [OF c3]
    by (auto simp: create_or_replace_def split: if_splits)
qed

lemma fresh_block_mono:
  assumes "fresh_block pid h sh b" "same_cells (sh_next sh) sh sh'" "sh_next sh \<le> sh_next sh'"
    and "\<forall>n. n \<noteq> shm_name_for_block pid i \<longrightarrow> sh_names sh' n = sh_names sh n" "gb_block_id b \<noteq> i"
  shows "fresh_block pid h sh' b"
  using assms by (auto simp: fresh_block_def split: option.splits dest: same_cellsD)

text \<open>The process-wide counter only grows, and a block's identity is below it.\<close>

lemma create_metadata_fresh:
  assumes "create_metadata E pid ready bs (s, sh) = ((ok, bs'), (s', sh'))"
    and "\<forall>b\<in>set ready. fresh_block pid h sh b \<and> gb_block_id b < next_process_block_id s"
    and "distinct (map gb_block_id ready)" "h \<le> heap_next s" "ok"
  shows "(\<forall>b\<in>set bs'. fresh_block pid h sh' b) \<and> distinct (map gb_block_id bs')"
  using assms
proof (induction bs arbitrary: ready s sh)
  case (Cons b bs)
  obtain i s1 where a: "allocate_process_block_id s = (i, s1)" by (cases "allocate_process_block_id s")
  obtain id where i: "i = Some id" using Cons.prems(1,5) a by (cases i) auto
  have id: "id = next_process_block_id s" "next_process_block_id s1 = id + 1" "id \<noteq> u32_max" "heap_next s1 = heap_next s"
    using a i by (auto simp: allocate_process_block_id_def Let_def split: if_splits)
  obtain m s2 sh2 where c: "create_or_replace E (shm_name_for_block pid id) (s1, sh) = (m, (s2, sh2))"
    by (metis surj_pair)
  obtain mp where m: "m = Some mp" using Cons.prems(1,5) a i c by (cases m) (auto simp: Let_def split: if_splits)
  let ?b = "b\<lparr>gb_block_id := id, gb_shared_metadata := Some mp\<rparr>"
  from Cons.prems(1,5) a i c m have rec:
    "create_metadata E pid (ready @ [?b]) bs (s2, sh2) = ((ok, bs'), (s', sh'))" by (auto simp: Let_def split: if_splits)
  note f = create_or_replace_Some [OF c [unfolded m]]
  have lt: "id < id + 1" using id(3) by (simp add: word_less_nat_alt unat_plus_one)
  have "gb_block_id c \<noteq> id" if "c \<in> set ready" for c using Cons.prems(2) that id(1) by auto
  then have old: "\<forall>c\<in>set ready. fresh_block pid h sh2 c"
    using Cons.prems(2) f by (blast intro: fresh_block_mono)
  have new: "fresh_block pid h sh2 ?b" using f Cons.prems(4) id by (auto simp: fresh_block_def)
  have n2: "next_process_block_id s2 = id + 1" using create_or_replace_counter [OF c] id by simp
  show ?case
  proof (rule Cons.IH [OF rec])
    show "\<forall>b\<in>set (ready @ [?b]). fresh_block pid h sh2 b \<and> gb_block_id b < next_process_block_id s2"
      using old new Cons.prems(2) id(1) n2 lt by (auto dest: order.strict_trans)
    show "distinct (map gb_block_id (ready @ [?b]))"
      using Cons.prems(2,3) id(1) by auto
    show "h \<le> heap_next s2" using Cons.prems(4) f id by simp
    show ok by (rule Cons.prems(5))
  qed
qed auto

lemma fresh_block_identity:
  assumes "map block_identity bs' = map block_identity bs" "\<forall>b\<in>set bs. fresh_block pid h sh b"
  shows "\<forall>b\<in>set bs'. fresh_block pid h sh b"
proof
  fix b assume "b \<in> set bs'"
  then have "block_identity b \<in> set (map block_identity bs)" using assms(1) by (metis image_eqI set_map)
  then obtain c where c: "c \<in> set bs" "block_identity b = block_identity c" by auto
  then have "fresh_block pid h sh b = fresh_block pid h sh c"
    by (simp add: fresh_block_def block_identity_def cong: option.case_cong)
  with assms(2) c(1) show "fresh_block pid h sh b" by blast
qed

lemma initialise_AllocatedE:
  assumes "idle p" and ini: "initialise E t n d p (s, sh) = ((Allocated, p'), (s', sh'))"
  obtains s2 sh2 dc s3 bs s5 p4 where
    "cleanup_orphaned_metadata_objects E (s, sh) = (s2, sh2)"
    "retain_primary E d s2 = (Inr dc, s3)"
    "create_metadata E (gp_publisher_pid p) [] (replicate (unat (gp_block_count p)) GpuBufferBlock) (s3, sh2)
       = ((True, bs), (s5, sh'))"
    "allocate_blocks E t (p\<lparr>gp_context := Some dc, gp_byte_size := n, gp_device_index := d, gp_blocks := bs\<rparr>) s5
       = ((Allocated, p4), s')"
    "p' = p4\<lparr>gp_initialised := True, gp_next_block := 0\<rparr>"
    "gp_block_count p \<noteq> 0" "gp_block_count p \<le> 0xFFFFFFFF"
proof -
  have valid: "\<not> (gp_block_count p = 0 \<or> gp_block_count p > 0xFFFFFFFF \<or> n = 0)"
    using ini by (auto simp: initialise_def)
  have idle: "\<not> (gp_initialised p \<or> gp_blocks p \<noteq> [])" using assms(1) by (simp add: idle_def)
  obtain s2 sh2 where c: "cleanup_orphaned_metadata_objects E (s, sh) = (s2, sh2)"
    by (cases "cleanup_orphaned_metadata_objects E (s, sh)")
  obtain q s3 where q: "retain_primary E d s2 = (q, s3)" by (cases "retain_primary E d s2")
  obtain dc where dc: "q = Inr dc"
    using ini valid idle c q by (cases q) (auto simp: initialise_def)
  let ?p2 = "p\<lparr>gp_context := Some dc, gp_byte_size := n, gp_device_index := d,
               gp_blocks := replicate (unat (gp_block_count p)) GpuBufferBlock\<rparr>"
  obtain ok bs s5 sh5 where m: "create_metadata E (gp_publisher_pid p) [] (gp_blocks ?p2) (s3, sh2) = ((ok, bs), (s5, sh5))"
    by (metis surj_pair)
  note run = ini valid idle c q dc m assms(1)
  note init = initialise_def replace_context_idle idle_def Let_def
  have ok: ok
  proof (rule ccontr)
    assume "\<not> ok" with run show False by (simp add: init split: prod.splits)
  qed
  let ?p3 = "p\<lparr>gp_context := Some dc, gp_byte_size := n, gp_device_index := d, gp_blocks := bs\<rparr>"
  obtain r4 p4 s6 where a: "allocate_blocks E t ?p3 s5 = ((r4, p4), s6)" by (metis surj_pair)
  have r4: "r4 = Allocated" using run ok a by (cases r4) (simp_all add: init split: prod.splits)
  have "p' = p4\<lparr>gp_initialised := True, gp_next_block := 0\<rparr>" "s' = s6" "sh' = sh5"
    using run ok a r4 by (simp_all add: init)
  with that [of s2 sh2 dc s3 bs s5 p4] c q dc m a ok r4 valid show thesis by auto
qed

lemma initialise_blocks:
  assumes "pool_contract E" "idle p" "initialise E t n d p (s, sh) = ((Allocated, p'), (s', sh'))"
  shows "length (gp_blocks p') = unat (gp_block_count p) \<and> 0 < length (gp_blocks p')
    \<and> length (gp_blocks p') < 2 ^ 32 \<and> distinct (map gb_block_id (gp_blocks p'))
    \<and> (\<forall>b\<in>set (gp_blocks p'). fresh_block (gp_publisher_pid p) (heap_next s) sh' b)
    \<and> gp_publisher_pid p' = gp_publisher_pid p \<and> gp_byte_size p' = n \<and> gp_device_index p' = d
    \<and> gp_next_block p' = 0 \<and> gp_initialised p'"
proof -
  obtain s2 sh2 dc s3 bs s5 p4 where c: "cleanup_orphaned_metadata_objects E (s, sh) = (s2, sh2)"
    and q: "retain_primary E d s2 = (Inr dc, s3)"
    and m: "create_metadata E (gp_publisher_pid p) [] (replicate (unat (gp_block_count p)) GpuBufferBlock) (s3, sh2)
       = ((True, bs), (s5, sh'))"
    and a: "allocate_blocks E t (p\<lparr>gp_context := Some dc, gp_byte_size := n, gp_device_index := d, gp_blocks := bs\<rparr>) s5
       = ((Allocated, p4), s')"
    and p': "p' = p4\<lparr>gp_initialised := True, gp_next_block := 0\<rparr>"
    and v: "gp_block_count p \<noteq> 0" "gp_block_count p \<le> 0xFFFFFFFF"
    using initialise_AllocatedE [OF assms(2,3)] by metis
  have hs: "heap_next s \<le> heap_next s3" "driver_once s3 = Some 0"
    using cleanup_orphaned_ledger [OF c] retain_primary_Inr [OF q] retain_primary_once [OF q] by (auto simp: quiet_def)
  note l = create_metadata_ledger [OF m]
  have f: "(\<forall>b\<in>set bs. fresh_block (gp_publisher_pid p) (heap_next s) sh' b) \<and> distinct (map gb_block_id bs)"
    using create_metadata_fresh [OF m, of "heap_next s"] hs by simp
  have al: "map block_identity (gp_blocks p4) = map block_identity bs"
      "\<exists>cs. p4 = p\<lparr>gp_context := Some dc, gp_byte_size := n, gp_device_index := d, gp_blocks := cs\<rparr>"
    using allocate_blocks_ledger [OF assms(1) _ _ _ a, of dc] l hs by (auto simp: heap_step_def)
  have "map gb_block_id (gp_blocks p4) = map fst (map block_identity (gp_blocks p4))"
    by (simp add: block_identity_def comp_def)
  also have "\<dots> = map gb_block_id bs" unfolding al(1) by (simp add: block_identity_def comp_def)
  finally have ids: "map gb_block_id (gp_blocks p4) = map gb_block_id bs" .
  have len: "length (gp_blocks p4) = unat (gp_block_count p)"
    using arg_cong [OF al(1), of length] l by simp
  have "unat (gp_block_count p) \<le> unat (0xFFFFFFFF :: u64)" using v(2) by (simp add: word_le_nat_alt)
  then have "unat (gp_block_count p) < 2 ^ 32" by simp
  moreover have "0 < unat (gp_block_count p)" using v(1) by (simp add: unat_gt_0)
  moreover have "\<forall>b\<in>set (gp_blocks p4). fresh_block (gp_publisher_pid p) (heap_next s) sh' b"
    using fresh_block_identity [OF al(1)] f by blast
  ultimately show ?thesis using p' al(2) ids f len by auto
qed

section \<open>Reservation facts\<close>

lemma cell_reserve_refused: "Buffer_Ref.reserve_for_publish now m sh = (None, sh') \<Longrightarrow> sh' = sh"
  by (auto simp: reserve_for_publish_def split: option.splits prod.splits dest!: reserve_cell_NoneD)

lemma cell_reserve_granted:
  assumes "Buffer_Ref.reserve_for_publish now m sh = (Some r, sh')"
  obtains mp where "m = Some mp" "pr_mapping r = m" "bm_refcount (load_meta sh (mp_addr mp)) = 0"
    "pr_uid r = bm_uid (load_meta sh (mp_addr mp)) + 1"
    "sh' = store_meta (mp_addr mp) \<lparr>bm_uid = pr_uid r, bm_refcount = 1, bm_timestamp = 0\<rparr> sh"
proof -
  from assms obtain mp where mp: "m = Some mp" by (cases m) (auto simp: reserve_for_publish_def block_def)
  obtain q c where r: "reserve_cell now (load_meta sh (mp_addr mp)) = (q, c)" by (metis surj_pair)
  with assms mp obtain u where "q = Some u" by (cases q) (auto simp: reserve_for_publish_def block_def)
  with reserve_cell_SomeD [of now "load_meta sh (mp_addr mp)" u c] r assms mp that [of mp] show thesis
    by (auto simp: reserve_for_publish_def block_def)
qed

text \<open>The candidate the round-robin search looks at after \<open>offset\<close> others.\<close>

definition candidate :: "gpu_buffer_pool \<Rightarrow> nat \<Rightarrow> nat" where
  "candidate p offset = (gp_next_block p + offset) mod length (gp_blocks p)"

text \<open>A candidate is passed over when it has no metadata or its cell refuses at some clock value.\<close>

definition refuses :: "shm \<Rightarrow> gpu_buffer_block \<Rightarrow> bool" where
  "refuses sh b \<longleftrightarrow> (\<exists>now. fst (Buffer_Ref.reserve_for_publish now (gb_shared_metadata b) sh) = None)"

lemma refuses_no_metadata: "gb_shared_metadata b = None \<Longrightarrow> refuses sh b"
  by (simp add: refuses_def reserve_for_publish_def block_def)

lemma reserve_from_cases:
  assumes "reserve_from E p offset (s, sh) = ((r, p'), (s', sh'))"
  shows "(r = None \<and> p' = p \<and> sh' = sh
      \<and> (\<forall>o' \<ge> offset. o' < length (gp_blocks p) \<longrightarrow> refuses sh (gp_blocks p ! candidate p o')))
    \<or> (\<exists>rv chosen mp. r = Some rv \<and> offset \<le> chosen \<and> chosen < length (gp_blocks p)
      \<and> (\<forall>o'. offset \<le> o' \<and> o' < chosen \<longrightarrow> refuses sh (gp_blocks p ! candidate p o'))
      \<and> gb_shared_metadata (gp_blocks p ! candidate p chosen) = Some mp
      \<and> bm_refcount (load_meta sh (mp_addr mp)) = 0
      \<and> rv = \<lparr>rv_mapping = Some mp, rv_block_id = gb_block_id (gp_blocks p ! candidate p chosen),
              rv_uid = bm_uid (load_meta sh (mp_addr mp)) + 1, rv_publisher_pid = gp_publisher_pid p,
              rv_pool_index = of_nat (candidate p chosen)\<rparr>
      \<and> p' = p\<lparr>gp_next_block := (candidate p chosen + 1) mod length (gp_blocks p)\<rparr>
      \<and> sh' = store_meta (mp_addr mp) \<lparr>bm_uid = rv_uid rv, bm_refcount = 1, bm_timestamp = 0\<rparr> sh)"
  using assms
proof (induction "length (gp_blocks p) - offset" arbitrary: offset s sh rule: less_induct)
  case less
  show ?case
  proof (cases "offset \<ge> length (gp_blocks p)")
    case True
    with less.prems show ?thesis by (auto simp: reserve_from.simps)
  next
    case lt: False
    let ?b = "gp_blocks p ! candidate p offset"
    note IH = less.hyps [of "Suc offset"]
    have next_: "\<And>o'. offset \<le> o' \<Longrightarrow> o' \<noteq> offset \<Longrightarrow> Suc offset \<le> o'" by simp
    show ?thesis
    proof (cases "gb_shared_metadata ?b")
      case None
      with less.prems lt have "reserve_from E p (Suc offset) (s, sh) = ((r, p'), (s', sh'))"
        by (simp add: reserve_from.simps [of E p offset] candidate_def Let_def)
      from IH [OF _ this] lt refuses_no_metadata [OF None, of sh] next_ show ?thesis by (smt (verit) Suc_leD diff_less_mono2 lessI linorder_not_le)
    next
      case (Some mp)
      obtain t s1 where t: "call E SteadyClockNow s = (t, s1)" by (cases "call E SteadyClockNow s")
      obtain q sh1 where q: "Buffer_Ref.reserve_for_publish (out t) (Some mp) sh = (q, sh1)"
        by (metis surj_pair)
      show ?thesis
      proof (cases q)
        case None
        with q have sh1: "sh1 = sh" by (simp add: cell_reserve_refused)
        have rf: "refuses sh ?b" unfolding refuses_def Some using q None by (metis fst_conv)
        with less.prems lt Some t q None sh1 have "reserve_from E p (Suc offset) (s1, sh) = ((r, p'), (s', sh'))"
          by (simp add: reserve_from.simps [of E p offset] candidate_def Let_def)
        from IH [OF _ this] lt rf next_ show ?thesis by (smt (verit) Suc_leD diff_less_mono2 lessI linorder_not_le)
      next
        case (Some res)
        note q' = q [unfolded Some]
        have "(r, p') = (Some \<lparr>rv_mapping = pr_mapping res, rv_block_id = gb_block_id ?b, rv_uid = pr_uid res,
               rv_publisher_pid = gp_publisher_pid p, rv_pool_index = of_nat (candidate p offset)\<rparr>,
              p\<lparr>gp_next_block := (candidate p offset + 1) mod length (gp_blocks p)\<rparr>)" "sh' = sh1"
          using less.prems lt \<open>gb_shared_metadata ?b = Some mp\<close> t q'
          by (simp_all add: reserve_from.simps [of E p offset] candidate_def Let_def)
        moreover obtain "pr_mapping res = Some mp" "bm_refcount (load_meta sh (mp_addr mp)) = 0"
            "pr_uid res = bm_uid (load_meta sh (mp_addr mp)) + 1"
            "sh1 = store_meta (mp_addr mp) \<lparr>bm_uid = pr_uid res, bm_refcount = 1, bm_timestamp = 0\<rparr> sh"
          using cell_reserve_granted [OF q'] by (metis option.inject)
        ultimately show ?thesis using lt \<open>gb_shared_metadata ?b = Some mp\<close>
          by (intro disjI2 exI [of _ "the r"] exI [of _ offset] exI [of _ mp]) auto
      qed
    qed
  qed
qed

section \<open>The pool invariant\<close>

text \<open>
  Between calls a pool is idle, or it holds a live context that all its events share.
\<close>

definition pool_inv :: "gpu_buffer_pool \<Rightarrow> sys \<Rightarrow> bool" where
  "pool_inv p s \<longleftrightarrow> idle p \<or>
     (\<exists>dc. gp_context p = Some dc \<and> gp_blocks p \<noteq> [] \<and> live_events dc (gp_blocks p) \<and> driver_once s = Some 0)"

lemma destroy_blocks_idle:
  assumes "idle p" "destroy_blocks E t p (s, sh) = (p', (s', sh'))"
  shows "delta s s' k = 0 \<and> quiet s s' \<and> idle p' \<and> gp_block_count p' = gp_block_count p
    \<and> gp_publisher_pid p' = gp_publisher_pid p"
proof -
  obtain l s0 where l: "pool_lock E s = (l, s0)" by (cases "pool_lock E s")
  with assms have "s' = s0" "p' = p \<or> p' = p\<lparr>gp_blocks := [], gp_next_block := 0, gp_byte_size := 0,
      gp_device_index := - 1, gp_initialised := False, gp_context := None\<rparr>"
    by (auto simp: destroy_blocks_def idle_def split: if_splits)
  with pool_lock_frame [OF l, of k] assms(1) show ?thesis by (auto simp: idle_def)
qed

lemma destroy_blocks_inv:
  assumes "pool_contract E" "pool_inv p s" "destroy_blocks E t p (s, sh) = (p', (s', sh'))"
  shows "delta s s' k = - pool_ledger p k \<and> heap_next s' = heap_next s \<and> idle p'
    \<and> gp_block_count p' = gp_block_count p \<and> gp_publisher_pid p' = gp_publisher_pid p"
proof (cases "idle p")
  case True
  then have "pool_ledger p k = 0" by (simp add: idle_def pool_ledger_def)
  with destroy_blocks_idle [OF True assms(3), of k] show ?thesis by (simp add: quiet_def)
next
  case False
  with assms(2) obtain dc where "gp_context p = Some dc" "live_events dc (gp_blocks p)" "driver_once s = Some 0"
    by (auto simp: pool_inv_def)
  from destroy_blocks_ledger [OF assms(1) this assms(3), of k] show ?thesis by (auto simp: idle_def)
qed

lemma initialise_after_destroy:
  assumes "gp_initialised p \<or> gp_blocks p \<noteq> []" "idle (fst (destroy_blocks E t p w))"
    "gp_block_count (fst (destroy_blocks E t p w)) = gp_block_count p"
    "\<not> (gp_block_count p = 0 \<or> gp_block_count p > 0xFFFFFFFF \<or> n = 0)"
  shows "initialise E t n d p w = initialise E t n d (fst (destroy_blocks E t p w)) (snd (destroy_blocks E t p w))"
proof -
  obtain p1 w1 where d: "destroy_blocks E t p w = (p1, w1)" by (cases "destroy_blocks E t p w")
  have "\<not> (gp_initialised p1 \<or> gp_blocks p1 \<noteq> [])" using assms(2) d by (simp add: idle_def)
  with assms d show ?thesis by (simp add: initialise_def)
qed

lemma initialise_idle_inv:
  assumes "pool_contract E" "idle p" "initialise E t n d p (s, sh) = ((r, p'), (s', sh'))"
  shows "pool_inv p' s'"
proof (cases "r = AllocationFailed")
  case True
  with initialise_ledger [OF assms] show ?thesis by (auto simp: pool_inv_def)
next
  case False
  then obtain dc where "gp_context p' = Some dc" "live_events dc (gp_blocks p')" "driver_once s' = Some 0"
    using initialise_ledger [OF assms] by blast
  moreover have "gp_blocks p' \<noteq> []" using initialise_ledger [OF assms] False by blast
  ultimately show ?thesis by (auto simp: pool_inv_def)
qed

text \<open>What an initialisation does to the ledgers, from any state of the pool.\<close>

lemma initialise_exact:
  assumes "pool_contract E" "pool_inv p s" "initialise E t n d p (s, sh) = ((r, p'), (s', sh'))"
  shows "pool_inv p' s' \<and> heap_next s \<le> heap_next s'
    \<and> (delta s s' k = pool_ledger p' k - pool_ledger p k
       \<or> r = AllocationFailed \<and> (\<exists>a z. k = RMapping a z) \<and> delta s s' k = pool_ledger p' k - pool_ledger p k - 1)"
proof (cases "gp_block_count p = 0 \<or> gp_block_count p > 0xFFFFFFFF \<or> n = 0")
  case True
  with assms show ?thesis by (auto simp: initialise_def)
next
  case valid: False
  show ?thesis
  proof (cases "idle p")
    case True
    then have z: "pool_ledger p k = 0" "\<And>q. idle q \<Longrightarrow> pool_ledger q k = 0"
      by (simp_all add: idle_def pool_ledger_def)
    from initialise_ledger [OF assms(1) True assms(3), of k] initialise_idle_inv [OF assms(1) True assms(3)] z
    show ?thesis by auto
  next
    case False
    obtain p1 s1 sh1 where d: "destroy_blocks E t p (s, sh) = (p1, (s1, sh1))" by (metis surj_pair)
    note di = destroy_blocks_inv [OF assms(1,2) d, of k]
    have "gp_initialised p \<or> gp_blocks p \<noteq> []" using False assms(2) by (auto simp: pool_inv_def)
    then have "initialise E t n d p (s, sh) = initialise E t n d p1 (s1, sh1)"
      using initialise_after_destroy [of p E t "(s, sh)" n d] d di valid by simp
    then have i: "initialise E t n d p1 (s1, sh1) = ((r, p'), (s', sh'))" using assms(3) by simp
    have z: "\<And>q. idle q \<Longrightarrow> pool_ledger q k = 0" by (simp add: idle_def pool_ledger_def)
    show ?thesis
      using initialise_ledger [OF assms(1) _ i, of k] initialise_idle_inv [OF assms(1) _ i] di z delta_trans [of s s' k s1]
      by auto
  qed
qed

lemma initialise_Allocated_blocks:
  assumes "pool_contract E" "pool_inv p s" "initialise E t n d p (s, sh) = ((Allocated, p'), (s', sh'))"
  shows "length (gp_blocks p') = unat (gp_block_count p) \<and> 0 < length (gp_blocks p')
    \<and> length (gp_blocks p') < 2 ^ 32 \<and> distinct (map gb_block_id (gp_blocks p'))
    \<and> (\<forall>b\<in>set (gp_blocks p'). fresh_block (gp_publisher_pid p) (heap_next s) sh' b \<and> backed b \<and> gb_ready_event b \<noteq> None)
    \<and> gp_publisher_pid p' = gp_publisher_pid p \<and> gp_byte_size p' = n \<and> gp_device_index p' = d
    \<and> gp_next_block p' = 0 \<and> gp_initialised p'"
proof (cases "idle p")
  case True
  from initialise_blocks [OF assms(1) True assms(3)] initialise_ledger [OF assms(1) True assms(3)] show ?thesis by blast
next
  case False
  have valid: "\<not> (gp_block_count p = 0 \<or> gp_block_count p > 0xFFFFFFFF \<or> n = 0)"
    using assms(3) by (auto simp: initialise_def)
  obtain p1 s1 sh1 where d: "destroy_blocks E t p (s, sh) = (p1, (s1, sh1))" by (metis surj_pair)
  note di = destroy_blocks_inv [OF assms(1,2) d]
  have "gp_initialised p \<or> gp_blocks p \<noteq> []" using False assms(2) by (auto simp: pool_inv_def)
  then have "initialise E t n d p (s, sh) = initialise E t n d p1 (s1, sh1)"
    using initialise_after_destroy [of p E t "(s, sh)" n d] d di valid by simp
  then have i: "initialise E t n d p1 (s1, sh1) = ((Allocated, p'), (s', sh'))" using assms(3) by simp
  have "idle p1" "heap_next s1 = heap_next s" "gp_block_count p1 = gp_block_count p"
    "gp_publisher_pid p1 = gp_publisher_pid p" using di by blast+
  moreover have "0 < unat (gp_block_count p)" using valid by (simp add: unat_gt_0)
  ultimately show ?thesis
    using initialise_blocks [OF assms(1) _ i] initialise_ledger [OF assms(1) _ i] by simp
qed

text \<open>A mapping made before an initialisation is none of the new pool's.\<close>

lemma stale_not_owned:
  assumes "\<forall>b\<in>set (gp_blocks p). fresh_block pid h sh b" "rv_mapping rv = Some mp" "mp_this mp < h"
  shows "\<not> owns p rv"
proof
  assume o: "owns p rv"
  then obtain b where b: "resources p (rv_pool_index rv) = Some b"
    "map_option mp_this (gb_shared_metadata b) = map_option mp_this (rv_mapping rv)"
    by (auto simp: owns_def split: option.splits if_splits)
  then have "b \<in> set (gp_blocks p)" by (auto simp: resources_def split: if_splits)
  with assms(1) have "fresh_block pid h sh b" by blast
  with b(2) assms(2,3) show False by (auto simp: fresh_block_def split: option.splits)
qed

lemma not_owned_refused:
  assumes "\<not> owns p rv"
  shows "fst (device_ptr_of E p rv s) = 0 \<and> fst (record_ready E t p rv q s) = Inl CUDA_ERROR_INVALID_HANDLE
    \<and> fst (try_build_descriptor E p rv s) = None
    \<and> fst (pool_commit E p rv w) = False \<and> snd (snd (pool_commit E p rv w)) = snd w"
  using assms
  by (auto simp: device_ptr_of_def record_ready_def try_build_descriptor_def pool_commit_def owned_block_def
      split: prod.splits)

lemma candidate_covers:
  assumes "i < length (gp_blocks p)"
  obtains o' where "o' < length (gp_blocks p)" "candidate p o' = i"
proof -
  let ?n = "length (gp_blocks p)" let ?m = "gp_next_block p mod ?n"
  have m: "?m < ?n" using assms by (intro mod_less_divisor) auto
  have e: "candidate p o' = (?m + o') mod ?n" for o' by (simp add: candidate_def mod_add_left_eq)
  show thesis
  proof (cases "?m \<le> i")
    case True
    then show thesis using that [of "i - ?m"] assms by (simp add: e)
  next
    case False
    then have "?m + (?n + i - ?m) = ?n + i" using m by simp
    then have "candidate p (?n + i - ?m) = i" using assms by (simp add: e)
    then show thesis using that [of "?n + i - ?m"] False m by simp
  qed
qed

lemma reserved_owned:
  assumes "gp_initialised p" "length (gp_blocks p) < 2 ^ 32" "chosen < length (gp_blocks p)"
    "gb_shared_metadata (gp_blocks p ! candidate p chosen) = Some mp" "rv_mapping rv = Some mp"
    "rv_block_id rv = gb_block_id (gp_blocks p ! candidate p chosen)" "rv_publisher_pid rv = gp_publisher_pid p"
    "rv_pool_index rv = of_nat (candidate p chosen)"
  shows "owns p rv \<and> owned_block p rv = Some (gp_blocks p ! candidate p chosen)"
proof -
  have c: "candidate p chosen < length (gp_blocks p)"
    using assms(3) by (auto simp: candidate_def intro!: mod_less_divisor)
  then have "unat (of_nat (candidate p chosen) :: u32) = candidate p chosen"
    using assms(2) by (simp add: unat_of_nat)
  then have "resources p (rv_pool_index rv) = Some (gp_blocks p ! candidate p chosen)"
    using c assms(8) by (simp add: resources_def)
  then show ?thesis using assms by (simp add: owns_def owned_block_def)
qed

section \<open>Reading metadata names back\<close>

lemma digit_not_special: "is_digit c \<Longrightarrow> \<not> is_space c \<and> c \<noteq> CHR ''-'' \<and> c \<noteq> CHR ''+''"
  by (auto simp: is_digit_def is_space_def)

lemma scan_unsigned_dec:
  fixes x :: u32
  assumes "rest = [] \<or> \<not> is_digit (hd rest)"
  shows "scan_unsigned (dec (unat x) @ rest) = Some (x, rest)"
proof -
  obtain c cs where c: "dec (unat x) = c # cs" by (cases "dec (unat x)") auto
  have "is_digit c" using dec_digits [of "unat x"] c by simp
  note sp = digit_not_special [OF this]
  have t: "takeWhile is_digit (c # cs @ rest) = dec (unat x)" "dropWhile is_digit (c # cs @ rest) = rest"
    using span_digits [OF dec_digits assms, of "unat x"] c by simp_all
  have "unat x < 2 ^ 32" by (rule unat_bound32)
  then have "\<not> unat x \<ge> 2 ^ 64" by simp
  moreover have "undec (c # cs) = unat x" using undec_dec [of "unat x"] c by simp
  ultimately show ?thesis using c sp t by (simp add: scan_unsigned_def Let_def)
qed

lemma strip_prefix_append [simp]: "strip_prefix p (p @ r) = Some r"
  by (simp add: strip_prefix_def)

lemma scan_shm_name:
  "shm_name_for_block pid bid = CHR ''/'' # name \<Longrightarrow> scan_metadata_name name = Some (pid, bid)"
proof -
  assume "shm_name_for_block pid bid = CHR ''/'' # name"
  then have n: "name = ''ros2_cuda_ipc_'' @ dec (unat pid) @ ''_'' @ dec (unat bid) @ []"
    by (simp add: shm_name_for_block_def)
  have a: "scan_unsigned (dec (unat pid) @ ''_'' @ dec (unat bid) @ []) = Some (pid, ''_'' @ dec (unat bid) @ [])"
    by (rule scan_unsigned_dec) simp
  have b: "scan_unsigned (dec (unat bid) @ []) = Some (bid, [])" by (rule scan_unsigned_dec) simp
  show ?thesis unfolding n scan_metadata_name_def using a b by (simp del: append_Cons append_Nil append_Nil2)
qed

lemma cleanup_entry_spares:
  assumes "\<forall>h. rc (E h (Kill pid)) \<noteq> ESRCH"
  shows "sh_names (snd (cleanup_entry E name w)) (shm_name_for_block pid bid)
       = sh_names (snd w) (shm_name_for_block pid bid)"
proof (cases "scan_metadata_name name")
  case None
  then show ?thesis by (simp add: cleanup_entry_def)
next
  case (Some q)
  obtain pid' bid' where q: "q = (pid', bid')" by (cases q)
  obtain s sh where w: "w = (s, sh)" by (cases w)
  obtain r s1 where k: "call E (Kill pid') s = (r, s1)" by (cases "call E (Kill pid') s")
  obtain u s2 sh2 where u: "shm_unlink E (CHR ''/'' # name) (s1, sh) = (u, (s2, sh2))" by (metis surj_pair)
  show ?thesis
  proof (cases "pid' = 0 \<or> rc r = 0 \<or> rc r \<noteq> ESRCH")
    case True
    then show ?thesis using Some q w k by (auto simp: cleanup_entry_def)
  next
    case False
    then have "pid' \<noteq> pid" using assms callD [OF k] by auto
    then have "shm_name_for_block pid bid \<noteq> CHR ''/'' # name"
      using scan_shm_name [of pid bid name] Some q by auto
    then show ?thesis using shm_unlink_cases [OF u] Some q w k u False
      by (auto simp: cleanup_entry_def split: if_splits)
  qed
qed

lemma cleanup_entries_spares:
  assumes "\<forall>h. rc (E h (Kill pid)) \<noteq> ESRCH"
  shows "sh_names (snd (cleanup_entries E names w)) (shm_name_for_block pid bid)
       = sh_names (snd w) (shm_name_for_block pid bid)"
  by (induction names arbitrary: w) (simp_all add: cleanup_entry_spares [where E=E and pid=pid, OF assms])

section \<open>Properties\<close>

text \<open>
  C37. Starting a publisher never takes away the metadata of a living one: the clean-up of
  orphaned objects leaves every block name of a process that \<^verbatim>\<open>kill(pid, 0)\<close> does not report
  as gone. This rests on reading a pid back from a block name exactly.
\<close>

theorem cleanup_spares_living_publishers:
  assumes "\<forall>h. rc (E h (Kill pid)) \<noteq> ESRCH"
  shows "sh_names (snd (cleanup_orphaned_metadata_objects E w)) (shm_name_for_block pid bid)
       = sh_names (snd w) (shm_name_for_block pid bid)"
  using cleanup_entries_spares [where E=E and pid=pid, OF assms]
  by (auto simp: cleanup_orphaned_metadata_objects_def split: prod.splits)

theorem cleanup_spares_living_publishers_witness:
  "sh_names (snd (cleanup_orphaned_metadata_objects healthy (initial_sys, empty_shm))) (shm_name_for_block 42 7) = None"
proof -
  have "\<forall>h. rc (healthy h (Kill 42)) \<noteq> ESRCH" by (simp add: healthy_def ESRCH_def)
  from cleanup_spares_living_publishers [where E=healthy and pid=42, OF this] show ?thesis by (simp add: empty_shm_def)
qed


lemma pool_contract_machine:
  "pool_contract healthy"
  "p MutexLock = False \<Longrightarrow> (\<And>c. p (CuCtxPushCurrent c) = False) \<Longrightarrow> 0 < e \<Longrightarrow> pool_contract (failing p e)"
  by (auto simp: pool_contract_def vmm_contract_machine pushes_succeed_def healthy_def failing_def)

definition sample_pool :: gpu_buffer_pool where
  "sample_pool = GpuBufferPool 2 42"

lemma sample_pool_inv: "pool_inv sample_pool s" "idle sample_pool"
  by (simp_all add: pool_inv_def idle_def sample_pool_def GpuBufferPool_def)

lemmas pool_eval = initialise_def cleanup_orphaned_metadata_objects_def retain_primary_def driver_initialize_def
  replace_context_def sample_pool_def GpuBufferPool_def create_or_replace_def create_def shm_open_create_def
  allocate_process_block_id_def make_mapping_def alloc_ptr_def allocate_blocks_def with_guard_def guard_push_def
  guard_pop_def event_create_def destroy_blocks_def pool_lock_def push_current_def device_context_destroy_def

lemma two_copies: "replicate 2 x = [x, x]"
  by (simp add: numeral_2_eq_2)

lemma small_decimals: "dec 0 = ''0''" "dec (Suc 0) = ''1''" "dec 42 = ''42''"
  by code_simp+

lemma sample_initialise:
  "\<exists>p s sh. initialise healthy 1 5000 0 sample_pool (initial_sys, empty_shm) = ((Allocated, p), (s, sh))"
  by (simp add: pool_eval backend_eval fd_of_def empty_shm_def shm_name_for_block_def NAME_MAX_def
      two_copies small_decimals)

lemma owns_next_block [simp]: "owns (p\<lparr>gp_next_block := n\<rparr>) rv = owns p rv"
  by (simp add: owns_def resources_def cong: if_cong option.case_cong)


text \<open>
  Resetting a pool gives back exactly what it records, so that after initialisation and
  reset every ledger is where it was; the pool is idle again and owns no reservation.
\<close>

theorem reset_gives_back_everything:
  assumes "pool_contract E" "pool_inv p s" "reset E thread p (s, sh) = (p', (s', sh'))"
  shows "held k (tr s') = held k (tr s) - pool_ledger p k \<and> idle p' \<and> \<not> owns p' rv"
  using destroy_blocks_inv [OF assms(1,2), of thread sh p' s' sh' k] assms(3)
  by (auto simp: reset_def delta_def owns_def idle_def)

theorem reset_gives_back_everything_witness:
  "\<exists>p s sh p' s' sh'. initialise healthy 1 5000 0 sample_pool (initial_sys, empty_shm) = ((Allocated, p), (s, sh))
     \<and> reset healthy 1 p (s, sh) = (p', (s', sh'))
     \<and> held (RAllocation 0xA0) (tr s') = held (RAllocation 0xA0) (tr s) - pool_ledger p (RAllocation 0xA0)"
proof -
  obtain p s sh where i: "initialise healthy 1 5000 0 sample_pool (initial_sys, empty_shm) = ((Allocated, p), (s, sh))"
    using sample_initialise by blast
  have inv: "pool_inv p s" using initialise_idle_inv [OF pool_contract_machine(1) sample_pool_inv(2) i] .
  obtain p' s' sh' where r: "reset healthy 1 p (s, sh) = (p', (s', sh'))" by (metis surj_pair)
  from reset_gives_back_everything [OF pool_contract_machine(1) inv r, of "RAllocation 0xA0"] i r show ?thesis by blast
qed

text \<open>
  A successful initialisation yields as many blocks as configured, each with its own block
  id, its own new metadata object under its own name (unreserved, never published, of a
  generation that is neither zero nor exhausted), mapped device memory and a ready event.
\<close>

theorem initialise_yields_fresh_blocks:
  assumes "pool_contract E" "pool_inv p s"
    and "initialise E thread byte_size device p (s, sh) = ((Allocated, p'), (s', sh'))"
  shows "length (gp_blocks p') = unat (gp_block_count p) \<and> gp_blocks p' \<noteq> []
    \<and> distinct (map gb_block_id (gp_blocks p')) \<and> matches p' byte_size device
    \<and> (\<forall>b\<in>set (gp_blocks p'). gb_device_ptr b \<noteq> 0 \<and> gb_ready_event b \<noteq> None
        \<and> fresh_block (gp_publisher_pid p) (heap_next s) sh' b)"
proof -
  note f = initialise_Allocated_blocks [OF assms]
  have "\<forall>b\<in>set (gp_blocks p'). gb_device_ptr b \<noteq> 0"
    using f by (auto simp: backed_def split: option.splits)
  with f show ?thesis by (simp add: matches_def)
qed

theorem initialise_yields_fresh_blocks_witness:
  "\<exists>p s sh. initialise healthy 1 5000 0 sample_pool (initial_sys, empty_shm) = ((Allocated, p), (s, sh))
     \<and> length (gp_blocks p) = 2 \<and> distinct (map gb_block_id (gp_blocks p))"
proof -
  obtain p s sh where i: "initialise healthy 1 5000 0 sample_pool (initial_sys, empty_shm) = ((Allocated, p), (s, sh))"
    using sample_initialise by blast
  from initialise_yields_fresh_blocks [OF pool_contract_machine(1) sample_pool_inv(1) i] i show ?thesis
    by (auto simp: sample_pool_def GpuBufferPool_def)
qed

text \<open>
  Reservation is a fair round robin over the blocks and exclusive: the block handed out is
  the first one, counted from where the last search stopped, whose cell does not refuse; its
  cell moves from reference count 0 to 1 and to the next generation, nothing else in shared
  memory changes, and the pool recognises the reservation as its own. Without a block every
  cell refused and nothing changed.
\<close>

theorem reservation_is_round_robin:
  assumes "gp_initialised p" "length (gp_blocks p) < 2 ^ 32"
    and "pool_reserve_for_publish E p (s, sh) = ((r, p'), (s', sh'))"
  shows "case r of
      None \<Rightarrow> sh' = sh \<and> p' = p \<and> (fst (pool_lock E s) \<longrightarrow> (\<forall>b\<in>set (gp_blocks p). refuses sh b))
    | Some rv \<Rightarrow>
        \<exists>chosen mp. chosen < length (gp_blocks p)
          \<and> (\<forall>earlier<chosen. refuses sh (gp_blocks p ! candidate p earlier))
          \<and> gb_shared_metadata (gp_blocks p ! candidate p chosen) = Some mp
          \<and> rv_mapping rv = Some mp \<and> rv_uid rv = bm_uid (load_meta sh (mp_addr mp)) + 1
          \<and> bm_refcount (load_meta sh (mp_addr mp)) = 0
          \<and> sh' = store_meta (mp_addr mp) \<lparr>bm_uid = rv_uid rv, bm_refcount = 1, bm_timestamp = 0\<rparr> sh
          \<and> gp_next_block p' = (candidate p chosen + 1) mod length (gp_blocks p) \<and> owns p' rv"
proof -
  obtain l s1 where l: "pool_lock E s = (l, s1)" by (cases "pool_lock E s")
  show ?thesis
  proof (cases "l \<and> gp_blocks p \<noteq> []")
    case False
    with assms(1,3) l show ?thesis by (auto simp: pool_reserve_for_publish_def split: if_splits)
  next
    case True
    with assms(1,3) l have "reserve_from E p 0 (s1, sh) = ((r, p'), (s', sh'))"
      by (simp add: pool_reserve_for_publish_def)
    from reserve_from_cases [OF this] show ?thesis
    proof
      assume n: "r = None \<and> p' = p \<and> sh' = sh
        \<and> (\<forall>o'\<ge>0. o' < length (gp_blocks p) \<longrightarrow> refuses sh (gp_blocks p ! candidate p o'))"
      have "refuses sh b" if "b \<in> set (gp_blocks p)" for b
        using that n candidate_covers by (metis in_set_conv_nth zero_le)
      with n show ?thesis by simp
    next
      assume "\<exists>rv chosen mp. r = Some rv \<and> 0 \<le> chosen \<and> chosen < length (gp_blocks p)
        \<and> (\<forall>o'. 0 \<le> o' \<and> o' < chosen \<longrightarrow> refuses sh (gp_blocks p ! candidate p o'))
        \<and> gb_shared_metadata (gp_blocks p ! candidate p chosen) = Some mp
        \<and> bm_refcount (load_meta sh (mp_addr mp)) = 0
        \<and> rv = \<lparr>rv_mapping = Some mp, rv_block_id = gb_block_id (gp_blocks p ! candidate p chosen),
              rv_uid = bm_uid (load_meta sh (mp_addr mp)) + 1, rv_publisher_pid = gp_publisher_pid p,
              rv_pool_index = of_nat (candidate p chosen)\<rparr>
        \<and> p' = p\<lparr>gp_next_block := (candidate p chosen + 1) mod length (gp_blocks p)\<rparr>
        \<and> sh' = store_meta (mp_addr mp) \<lparr>bm_uid = rv_uid rv, bm_refcount = 1, bm_timestamp = 0\<rparr> sh"
      then obtain rv chosen mp where c: "r = Some rv" "chosen < length (gp_blocks p)"
        "\<forall>o'<chosen. refuses sh (gp_blocks p ! candidate p o')"
        "gb_shared_metadata (gp_blocks p ! candidate p chosen) = Some mp" "bm_refcount (load_meta sh (mp_addr mp)) = 0"
        "rv = \<lparr>rv_mapping = Some mp, rv_block_id = gb_block_id (gp_blocks p ! candidate p chosen),
              rv_uid = bm_uid (load_meta sh (mp_addr mp)) + 1, rv_publisher_pid = gp_publisher_pid p,
              rv_pool_index = of_nat (candidate p chosen)\<rparr>"
        "p' = p\<lparr>gp_next_block := (candidate p chosen + 1) mod length (gp_blocks p)\<rparr>"
        "sh' = store_meta (mp_addr mp) \<lparr>bm_uid = rv_uid rv, bm_refcount = 1, bm_timestamp = 0\<rparr> sh" by auto
      have "owns p rv" using reserved_owned [OF assms(1,2) c(2,4), of rv] c(6) by simp
      then have "owns p' rv" using c(7) by simp
      with c show ?thesis by auto
    qed
  qed
qed

definition ready_mapping :: "nat \<Rightarrow> mapping" where
  "ready_mapping i = \<lparr>mp_this = i, mp_name = [], mp_size = 24, mp_addr = i\<rparr>"

definition ready_pool :: gpu_buffer_pool where
  "ready_pool = (GpuBufferPool 2 42)\<lparr>gp_initialised := True, gp_next_block := 1,
     gp_blocks := map (\<lambda>i. GpuBufferBlock\<lparr>gb_block_id := of_nat i, gb_shared_metadata := Some (ready_mapping i)\<rparr>) [0, 1]\<rparr>"

definition busy_first :: shm where
  "busy_first = store_meta 1 \<lparr>bm_uid = 9, bm_refcount = 3, bm_timestamp = 0\<rparr>
     (store_meta 0 \<lparr>bm_uid = 5, bm_refcount = 0, bm_timestamp = 0\<rparr> empty_shm)"

lemmas ready_eval = ready_pool_def busy_first_def GpuBufferPool_def GpuBufferBlock_def ready_mapping_def
  pool_reserve_for_publish_def reserve_from.simps pool_lock_def reserve_for_publish_def block_def
  reserve_cell_def in_grace_def

lemma sample_reservation:
  "\<exists>rv p' s' sh'. pool_reserve_for_publish healthy ready_pool (initial_sys, busy_first) = ((Some rv, p'), (s', sh'))
     \<and> rv_uid rv = 6 \<and> rv_mapping rv = Some (ready_mapping 0) \<and> rv_block_id rv = 0"
  by (simp add: ready_eval machine_defs initial_sys_def)

theorem reservation_is_round_robin_witness:
  "\<exists>rv p' s' sh'. pool_reserve_for_publish healthy ready_pool (initial_sys, busy_first) = ((Some rv, p'), (s', sh'))
     \<and> owns p' rv \<and> rv_uid rv = 6"
proof -
  obtain rv p' s' sh' where r: "pool_reserve_for_publish healthy ready_pool (initial_sys, busy_first)
      = ((Some rv, p'), (s', sh'))" "rv_uid rv = 6" using sample_reservation by blast
  have "gp_initialised ready_pool" "length (gp_blocks ready_pool) < 2 ^ 32"
    by (simp_all add: ready_pool_def)
  from reservation_is_round_robin [OF this r(1)] r show ?thesis by auto
qed



end
