(* ===== verification/Gpu_Buffer_Manager.thy ===== *)
theory Gpu_Buffer_Manager
  imports Gpu_Buffer_Pool
begin

text \<open>
  \<^verbatim>\<open>publisher/gpu_buffer_manager.hpp\<close> and \<^verbatim>\<open>publisher/gpu_buffer_manager.cpp\<close>: the manager
  that owns a pool, and \<^verbatim>\<open>PublishBlock\<close>, the move-only handle of one publish attempt. The
  owner pointer is a flag: null or the manager the block came from, which the callers pass.
\<close>

section \<open>The manager\<close>

record gpu_buffer_manager =
  gm_block_count :: u64
  gm_byte_size :: u64
  gm_device_index :: i32
  gm_pool :: gpu_buffer_pool

definition GpuBufferManager :: "u64 \<Rightarrow> u64 \<Rightarrow> i32 \<Rightarrow> u32 \<Rightarrow> gpu_buffer_manager" where
  "GpuBufferManager block_count byte_size device_index pid =
     \<lparr>gm_block_count = block_count, gm_byte_size = byte_size, gm_device_index = device_index,
      gm_pool = GpuBufferPool block_count pid\<rparr>"

definition manager_reset :: "env \<Rightarrow> nat \<Rightarrow> gpu_buffer_manager \<Rightarrow> world \<Rightarrow> gpu_buffer_manager \<times> world" where
  "manager_reset E thread m w =
     (let (p, w') = reset E thread (gm_pool m) w in (m\<lparr>gm_pool := p\<rparr>, w'))"

definition manager_initialise ::
    "env \<Rightarrow> nat \<Rightarrow> gpu_buffer_manager \<Rightarrow> world \<Rightarrow> (alloc_result \<times> gpu_buffer_manager) \<times> world" where
  "manager_initialise E thread m w =
     (let (m1, w1) = manager_reset E thread m w;
          ((r, p), w2) = initialise E thread (gm_byte_size m1) (gm_device_index m1) (gm_pool m1) w1
      in ((r, m1\<lparr>gm_pool := p\<rparr>), w2))"

section \<open>Publish blocks\<close>

record publish_block =
  pb_owned :: bool
  pb_reservation :: block_reservation

definition pb_valid :: "publish_block \<Rightarrow> bool" where
  "pb_valid pb = pb_owned pb"

definition acquire_for_publish ::
    "env \<Rightarrow> gpu_buffer_manager \<Rightarrow> world \<Rightarrow> (publish_block option \<times> gpu_buffer_manager) \<times> world" where
  "acquire_for_publish E m w =
     (if \<not> gp_initialised (gm_pool m) then ((None, m), w)
      else case pool_reserve_for_publish E (gm_pool m) w of
             ((None, p), w1) \<Rightarrow> ((None, m\<lparr>gm_pool := p\<rparr>), w1)
           | ((Some rv, p), w1) \<Rightarrow>
               ((Some \<lparr>pb_owned = True, pb_reservation = rv\<rparr>, m\<lparr>gm_pool := p\<rparr>), w1))"

definition quarantine :: "publish_block \<Rightarrow> publish_block" where
  "quarantine pb = pb\<lparr>pb_owned := False\<rparr>"

definition pb_device_ptr :: "env \<Rightarrow> gpu_buffer_manager \<Rightarrow> publish_block \<Rightarrow> sys \<Rightarrow> u64 \<times> sys" where
  "pb_device_ptr E m pb s =
     (if pb_valid pb then device_ptr_of E (gm_pool m) (pb_reservation pb) s else (0, s))"

definition prepare_publish ::
    "env \<Rightarrow> nat \<Rightarrow> gpu_buffer_manager \<Rightarrow> u64 \<Rightarrow> publish_block \<Rightarrow> world
     \<Rightarrow> (buffer_descriptor cuda_result \<times> publish_block) \<times> world" where
  "prepare_publish E thread m stream pb w =
     (if \<not> pb_owned pb then ((Inl CUDA_ERROR_INVALID_HANDLE, pb), w)
      else case record_ready E thread (gm_pool m) (pb_reservation pb) stream (fst w) of
             (Inl e, s1) \<Rightarrow> ((Inl e, quarantine pb), (s1, snd w))
           | (Inr _, s1) \<Rightarrow>
               (case try_build_descriptor E (gm_pool m) (pb_reservation pb) s1 of
                  (None, s2) \<Rightarrow> ((Inl CUDA_ERROR_INVALID_HANDLE, quarantine pb), (s2, snd w))
                | (Some descriptor, s2) \<Rightarrow>
                    (case pool_commit E (gm_pool m) (pb_reservation pb) (s2, snd w) of
                       (False, w3) \<Rightarrow> ((Inl CUDA_ERROR_INVALID_HANDLE, quarantine pb), w3)
                     | (True, w3) \<Rightarrow> ((Inr descriptor, pb\<lparr>pb_owned := False\<rparr>), w3))))"

definition pb_cancel :: "gpu_buffer_manager \<Rightarrow> publish_block \<Rightarrow> shm \<Rightarrow> publish_block \<times> shm" where
  "pb_cancel m pb sh =
     (if pb_owned pb
      then (case pool_cancel (gm_pool m) (pb_reservation pb) sh of
              (True, sh') \<Rightarrow> (pb\<lparr>pb_owned := False\<rparr>, sh')
            | (False, sh') \<Rightarrow> (quarantine pb, sh'))
      else (pb, sh))"

text \<open>\<^verbatim>\<open>move_from\<close>: the new handle and the emptied source, whose mapping pointer moved away.\<close>

definition pb_move_from :: "publish_block \<Rightarrow> publish_block \<times> publish_block" where
  "pb_move_from other =
     (other, \<lparr>pb_owned = False, pb_reservation = (pb_reservation other)\<lparr>rv_mapping := None\<rparr>\<rparr>)"

text \<open>Move assignment from a distinct object.\<close>

definition pb_move_assign ::
    "gpu_buffer_manager \<Rightarrow> publish_block \<Rightarrow> publish_block \<Rightarrow> shm \<Rightarrow> (publish_block \<times> publish_block) \<times> shm" where
  "pb_move_assign m this other sh =
     (let (_, sh') = pb_cancel m this sh in (pb_move_from other, sh'))"

text \<open>The destructor cancels.\<close>

definition pb_destroy :: "gpu_buffer_manager \<Rightarrow> publish_block \<Rightarrow> shm \<Rightarrow> shm" where
  "pb_destroy m pb sh = snd (pb_cancel m pb sh)"

section \<open>Facts\<close>

lemma with_guard_traced:
  assumes "with_guard E t c f body s = (x, s')" "\<And>e. f e \<noteq> x"
  obtains s1 s2 pre post where "body s1 = (x, s2)" "tr s1 = pre @ tr s" "tr s' = post @ tr s2"
proof -
  obtain r s1 where g: "guard_push E t c s = (r, s1)" by (cases "guard_push E t c s")
  obtain gd where r: "r = Inr gd" using assms g by (cases r) (auto simp: with_guard_def)
  obtain s2 where b: "body s1 = (x, s2)" "s' = snd (guard_pop E t gd s2)"
    using assms(1) g r by (auto simp: with_guard_def split: prod.splits)
  have "\<exists>pre. tr s1 = pre @ tr s"
    using g r by (auto simp: guard_push_def driver_initialize_def Let_def
        split: option.splits if_splits prod.splits dest!: callT)
  moreover have "\<exists>post. tr s' = post @ tr s2" by (auto simp: b(2) guard_pop_def)
  ultimately show thesis using that b(1) by blast
qed

lemma event_record_traced:
  assumes "event_record E t ev stream s = (Inr u, s')"
  obtains during r where "tr s' = during @ tr s" "(CuEventRecord (ie_event ev) stream, r) \<in> set during" "rc r = 0"
proof -
  from assms obtain dc where dc: "ie_context ev = Some dc" "ie_event ev \<noteq> 0"
    by (cases "ie_context ev"; cases "ie_event ev = 0") (simp_all add: event_record_def)
  have w: "with_guard E t (dc_context dc) Inl
            (\<lambda>s1. let (r, s2) = call E (CuEventRecord (ie_event ev) stream) s1
             in (if rc r \<noteq> CUDA_SUCCESS then Inl (rc r) else Inr (), s2)) s = (Inr u, s')"
    using assms dc by (simp add: event_record_def)
  obtain s1 s2 pre post where b: "(let (r, s2) = call E (CuEventRecord (ie_event ev) stream) s1
             in (if rc r \<noteq> CUDA_SUCCESS then Inl (rc r) else Inr (), s2)) = (Inr u, s2)"
    and t: "tr s1 = pre @ tr s" "tr s' = post @ tr s2"
    by (rule with_guard_traced [OF w]) auto
  obtain r where r: "call E (CuEventRecord (ie_event ev) stream) s1 = (r, s2)" "rc r = 0"
    using b by (auto simp: CUDA_SUCCESS_def split: prod.splits if_splits)
  show thesis
    by (rule that [of "post @ [(CuEventRecord (ie_event ev) stream, r)] @ pre" r])
      (use t r callT [OF r(1)] in auto)
qed

lemma pool_lock_traced: "pool_lock E s = (b, s') \<Longrightarrow> \<exists>r. tr s' = (MutexLock, r) # tr s"
  by (auto simp: pool_lock_def split: prod.splits dest!: callT)

lemma commit_publish_block:
  "commit_publish now (Some mp) u sh =
     (let c = load_meta sh (mp_addr mp)
      in if bm_uid c \<noteq> u then (False, sh)
      else if bm_refcount c = 0 then (False, store_meta (mp_addr mp) (c\<lparr>bm_timestamp := now, bm_refcount := 0\<rparr>) sh)
      else (True, store_meta (mp_addr mp) (c\<lparr>bm_timestamp := now, bm_refcount := bm_refcount c - 1\<rparr>) sh))"
  by (auto simp: commit_publish_def release_publisher_reservation_def block_def release_reservation_cell_def Let_def)

lemma cancel_publish_block:
  "bm_uid (load_meta sh (mp_addr mp)) = u \<Longrightarrow> bm_refcount (load_meta sh (mp_addr mp)) \<noteq> 0 \<Longrightarrow>
   cancel_publish (Some mp) u sh = (True, store_meta (mp_addr mp)
      ((load_meta sh (mp_addr mp))\<lparr>bm_refcount := bm_refcount (load_meta sh (mp_addr mp)) - 1\<rparr>) sh)"
  by (auto simp: cancel_publish_def release_publisher_reservation_def block_def release_reservation_cell_def Let_def)

text \<open>A reservation that really is held: its generation is current and its cell counted.\<close>

definition holds_reservation :: "block_reservation \<Rightarrow> mapping \<Rightarrow> shm \<Rightarrow> bool" where
  "holds_reservation rv mp sh \<longleftrightarrow> rv_mapping rv = Some mp
     \<and> bm_uid (load_meta sh (mp_addr mp)) = rv_uid rv \<and> bm_refcount (load_meta sh (mp_addr mp)) \<noteq> 0"

lemma commit_reservation_held:
  assumes "holds_reservation rv mp sh"
  shows "\<exists>t. commit_reservation E rv (s, sh) = (True, (snd (call E SteadyClockNow s),
      store_meta (mp_addr mp) ((load_meta sh (mp_addr mp))\<lparr>bm_timestamp := out t,
        bm_refcount := bm_refcount (load_meta sh (mp_addr mp)) - 1\<rparr>) sh))
    \<and> t = fst (call E SteadyClockNow s)"
  using assms
  by (auto simp: commit_reservation_def current_uid_def block_def holds_reservation_def commit_publish_block Let_def
      split: prod.splits)

lemma pool_commit_True:
  assumes "pool_commit E p rv (s, sh) = (True, (s', sh'))"
  obtains mp t l where "holds_reservation rv mp sh" "owns p rv" "tr s' = (SteadyClockNow, t) # (MutexLock, l) # tr s"
    "sh' = store_meta (mp_addr mp) ((load_meta sh (mp_addr mp))\<lparr>bm_timestamp := out t,
        bm_refcount := bm_refcount (load_meta sh (mp_addr mp)) - 1\<rparr>) sh"
proof -
  obtain b s1 where l: "pool_lock E s = (b, s1)" by (cases "pool_lock E s")
  obtain lk where lk: "tr s1 = (MutexLock, lk) # tr s" using pool_lock_traced [OF l] by blast
  have c: "owns p rv" "commit_reservation E rv (s1, sh) = (True, (s', sh'))"
    using assms l by (auto simp: pool_commit_def split: if_splits)
  then obtain mp where mp: "rv_mapping rv = Some mp" by (auto simp: owns_def split: if_splits)
  obtain t s2 where t: "call E SteadyClockNow s1 = (t, s2)" by (cases "call E SteadyClockNow s1")
  have h: "holds_reservation rv mp sh"
    using c(2) mp by (auto simp: commit_reservation_def holds_reservation_def current_uid_def block_def
        commit_publish_block Let_def split: prod.splits if_splits)
  from commit_reservation_held [OF h, of E s1] c(2) t
  have "s' = s2" "sh' = store_meta (mp_addr mp) ((load_meta sh (mp_addr mp))\<lparr>bm_timestamp := out t,
        bm_refcount := bm_refcount (load_meta sh (mp_addr mp)) - 1\<rparr>) sh" by auto
  then show thesis using that [OF h c(1)] callT [OF t] lk by simp
qed

lemma pool_commit_False:
  assumes "pool_commit E p rv (s, sh) = (False, (s', sh'))" "holds_reservation rv mp sh"
  shows "sh' = sh"
  using assms commit_reservation_held [OF assms(2)]
  by (auto simp: pool_commit_def split: prod.splits if_splits)

lemma prepare_publish_InrE:
  assumes "prepare_publish E thread m stream pb (s, sh) = ((Inr d, pb'), (s', sh'))"
  obtains s1 s2 where "pb_owned pb" "\<not> pb_owned pb'"
    "record_ready E thread (gm_pool m) (pb_reservation pb) stream s = (Inr (), s1)"
    "try_build_descriptor E (gm_pool m) (pb_reservation pb) s1 = (Some d, s2)"
    "pool_commit E (gm_pool m) (pb_reservation pb) (s2, sh) = (True, (s', sh'))"
  using assms
  by (auto simp: prepare_publish_def quarantine_def split: if_splits sum.splits option.splits prod.splits bool.splits)


lemma record_ready_Inr:
  assumes "record_ready E t p rv stream s = (Inr u, s')"
  obtains b ev during r where "owned_block p rv = Some b" "gb_ready_event b = Some ev"
    "tr s' = during @ tr s" "(CuEventRecord (ie_event ev) stream, r) \<in> set during" "rc r = 0"
proof -
  obtain l s1 where l: "pool_lock E s = (l, s1)" by (cases "pool_lock E s")
  obtain lk where lk: "tr s1 = (MutexLock, lk) # tr s" using pool_lock_traced [OF l] by blast
  from assms l obtain b ev where b: "owned_block p rv = Some b" "gb_ready_event b = Some ev"
    "event_record E t ev stream s1 = (Inr u, s')"
    by (auto simp: record_ready_def split: if_splits option.splits)
  from event_record_traced [OF b(3)] obtain during r where
    "tr s' = during @ tr s1" "(CuEventRecord (ie_event ev) stream, r) \<in> set during" "rc r = 0" .
  with that [OF b(1,2), of "during @ [(MutexLock, lk)]" r] lk show thesis by auto
qed

lemma try_build_descriptor_Some:
  assumes "try_build_descriptor E p rv s = (Some d, s')"
  obtains b ev r where "owned_block p rv = Some b" "gb_ready_event b = Some ev" "tr s' = (MutexLock, r) # tr s"
    "d = \<lparr>bd_publisher_pid = rv_publisher_pid rv, bd_block_id = gb_block_id b,
         bd_uid = rv_uid rv, bd_device_id = gp_device_index p,
         bd_byte_size = gp_byte_size p, bd_vmm_socket_path = gb_vmm_socket_path b,
         bd_ready_event_handle = ie_handle ev\<rparr>"
proof -
  obtain l s1 where l: "pool_lock E s = (l, s1)" by (cases "pool_lock E s")
  obtain r where "tr s1 = (MutexLock, r) # tr s" using pool_lock_traced [OF l] by blast
  with assms l that show thesis
    by (auto simp: try_build_descriptor_def split: if_splits option.splits)
qed

section \<open>Properties\<close>

text \<open>
  C15. A successful \<^verbatim>\<open>prepare_publish\<close> recorded the block's ready event on the given stream
  before it read the clock for the commit; it lowered the reference count of exactly the
  reserved generation and stamped it with that clock value; and the descriptor it returns
  names that block, generation, size, device, socket path and event of the manager's pool. The
  handle is spent.
\<close>

theorem prepare_publish_success:
  assumes "prepare_publish E thread m stream pb (s, sh) = ((Inr d, pb'), (s', sh'))"
  shows "\<not> pb_owned pb' \<and>
    (\<exists>b ev mp t before r. owned_block (gm_pool m) (pb_reservation pb) = Some b \<and> gb_ready_event b = Some ev
      \<and> d = \<lparr>bd_publisher_pid = gp_publisher_pid (gm_pool m), bd_block_id = gb_block_id b,
           bd_uid = rv_uid (pb_reservation pb), bd_device_id = gp_device_index (gm_pool m),
           bd_byte_size = gp_byte_size (gm_pool m), bd_vmm_socket_path = gb_vmm_socket_path b,
           bd_ready_event_handle = ie_handle ev\<rparr>
      \<and> tr s' = (SteadyClockNow, t) # before @ tr s
      \<and> (CuEventRecord (ie_event ev) stream, r) \<in> set before \<and> rc r = 0
      \<and> holds_reservation (pb_reservation pb) mp sh
      \<and> sh' = store_meta (mp_addr mp) ((load_meta sh (mp_addr mp))\<lparr>bm_timestamp := out t,
          bm_refcount := bm_refcount (load_meta sh (mp_addr mp)) - 1\<rparr>) sh)"
proof -
  let ?rv = "pb_reservation pb" let ?p = "gm_pool m"
  from prepare_publish_InrE [OF assms] obtain s1 s2 where pb: "\<not> pb_owned pb'"
    and r: "record_ready E thread ?p ?rv stream s = (Inr (), s1)"
    and d: "try_build_descriptor E ?p ?rv s1 = (Some d, s2)"
    and c: "pool_commit E ?p ?rv (s2, sh) = (True, (s', sh'))" by metis
  obtain b ev during q where b: "owned_block ?p ?rv = Some b" "gb_ready_event b = Some ev"
    "tr s1 = during @ tr s" "(CuEventRecord (ie_event ev) stream, q) \<in> set during" "rc q = 0"
    using record_ready_Inr [OF r] by metis
  obtain lk where d': "tr s2 = (MutexLock, lk) # tr s1"
    "d = \<lparr>bd_publisher_pid = rv_publisher_pid ?rv, bd_block_id = gb_block_id b,
         bd_uid = rv_uid ?rv, bd_device_id = gp_device_index ?p,
         bd_byte_size = gp_byte_size ?p, bd_vmm_socket_path = gb_vmm_socket_path b,
         bd_ready_event_handle = ie_handle ev\<rparr>"
    using try_build_descriptor_Some [OF d] b(1,2) by (metis option.inject)
  obtain mp t l where c': "holds_reservation ?rv mp sh" "owns ?p ?rv" "tr s' = (SteadyClockNow, t) # (MutexLock, l) # tr s2"
    "sh' = store_meta (mp_addr mp) ((load_meta sh (mp_addr mp))\<lparr>bm_timestamp := out t,
        bm_refcount := bm_refcount (load_meta sh (mp_addr mp)) - 1\<rparr>) sh"
    using pool_commit_True [OF c] by metis
  have "rv_publisher_pid ?rv = gp_publisher_pid ?p" using c'(2) by (auto simp: owns_def split: if_splits)
  then show ?thesis
    using pb b d' c' by (intro conjI exI [of _ b] exI [of _ ev] exI [of _ mp] exI [of _ t]
      exI [of _ "(MutexLock, l) # (MutexLock, lk) # during"] exI [of _ q]) auto
qed

definition sample_manager :: gpu_buffer_manager where
  "sample_manager = \<lparr>gm_block_count = 2, gm_byte_size = 5000, gm_device_index = 0,
     gm_pool = ready_pool\<lparr>gp_byte_size := 5000, gp_device_index := 0,
       gp_blocks := map (\<lambda>b. b\<lparr>gb_ready_event := Some \<lparr>ie_context = Some \<lparr>dc_device_id = 0, dc_device = 0, dc_context = 7\<rparr>,
         ie_event = 0xE0, ie_handle = replicate 64 3\<rparr>\<rparr>) (gp_blocks ready_pool)\<rparr>\<rparr>"

lemmas manager_eval = sample_manager_def acquire_for_publish_def prepare_publish_def record_ready_def
  owned_block_def owns_def resources_def event_record_def with_guard_def guard_push_def guard_pop_def
  driver_initialize_def try_build_descriptor_def pool_commit_def commit_reservation_def current_uid_def
  commit_publish_block cuda_code_defs quarantine_def

lemma sample_acquire:
  "\<exists>pb m s sh. acquire_for_publish healthy sample_manager (initial_sys, busy_first) = ((Some pb, m), (s, sh))
     \<and> (\<exists>d pb' s' sh'. prepare_publish healthy 1 m 11 pb (s, sh) = ((Inr d, pb'), (s', sh')) \<and> bd_uid d = 6)"
  by (simp add: manager_eval ready_eval machine_defs initial_sys_def)

theorem prepare_publish_success_witness:
  "\<exists>pb m s sh d pb' w. acquire_for_publish healthy sample_manager (initial_sys, busy_first) = ((Some pb, m), (s, sh))
     \<and> prepare_publish healthy 1 m 11 pb (s, sh) = ((Inr d, pb'), w) \<and> \<not> pb_owned pb' \<and> bd_uid d = 6"
proof -
  obtain pb m s sh d pb' s' sh' where a: "acquire_for_publish healthy sample_manager (initial_sys, busy_first) = ((Some pb, m), (s, sh))"
    and p: "prepare_publish healthy 1 m 11 pb (s, sh) = ((Inr d, pb'), (s', sh'))" "bd_uid d = 6"
    using sample_acquire by blast
  from prepare_publish_success [OF p(1)] a p show ?thesis by blast
qed

text \<open>
  C16. A preparation that fails quarantines its block: shared memory is untouched, the handle is
  spent and its destruction changes nothing, so the block's cell keeps the reservation's count
  and refuses every later reservation.
\<close>

theorem prepare_publish_failure_quarantines:
  assumes "prepare_publish E thread m stream pb (s, sh) = ((Inl e, pb'), (s', sh'))"
    and "holds_reservation (pb_reservation pb) mp sh"
  shows "sh' = sh \<and> (pb_owned pb \<longrightarrow> \<not> pb_owned pb' \<and> pb_destroy m pb' sh' = sh')
    \<and> fst (Buffer_Ref.reserve_for_publish now (Some mp) sh') = None"
proof -
  have "sh' = sh" and "pb_owned pb \<Longrightarrow> \<not> pb_owned pb'"
    using assms(1) pool_commit_False [OF _ assms(2)]
    by (auto simp: prepare_publish_def quarantine_def split: if_splits sum.splits option.splits prod.splits bool.splits)
  moreover have "fst (Buffer_Ref.reserve_for_publish now (Some mp) sh) = None"
    using assms(2) by (auto simp: reserve_for_publish_def block_def holds_reservation_def reserve_cell_def split: prod.splits option.splits)
  ultimately show ?thesis by (auto simp: pb_destroy_def pb_cancel_def)
qed

theorem prepare_publish_failure_quarantines_witness:
  "\<exists>pb m s sh e pb' s' sh'. acquire_for_publish healthy sample_manager (initial_sys, busy_first) = ((Some pb, m), (s, sh))
     \<and> prepare_publish (failing (\<lambda>c. c = CuEventRecord 0xE0 11) 700) 1 m 11 pb (s, sh) = ((Inl e, pb'), (s', sh'))
     \<and> fst (Buffer_Ref.reserve_for_publish 999999999 (Some (ready_mapping 0)) sh') = None"
proof -
  let ?E = "failing (\<lambda>c. c = CuEventRecord 0xE0 11) 700"
  have "\<exists>pb m s sh. acquire_for_publish healthy sample_manager (initial_sys, busy_first) = ((Some pb, m), (s, sh))
     \<and> (\<exists>e pb' s' sh'. prepare_publish ?E 1 m 11 pb (s, sh) = ((Inl e, pb'), (s', sh')))
     \<and> holds_reservation (pb_reservation pb) (ready_mapping 0) sh"
    by (simp add: manager_eval ready_eval machine_defs initial_sys_def holds_reservation_def)
  then obtain pb m s sh e pb' s' sh' where
    a: "acquire_for_publish healthy sample_manager (initial_sys, busy_first) = ((Some pb, m), (s, sh))"
    and p: "prepare_publish ?E 1 m 11 pb (s, sh) = ((Inl e, pb'), (s', sh'))"
    and h: "holds_reservation (pb_reservation pb) (ready_mapping 0) sh" by blast
  from prepare_publish_failure_quarantines [OF p h] a p show ?thesis by blast
qed

text \<open>
  A publish attempt that is given up costs nothing but its generation: acquiring a block and
  destroying the handle without preparing it leaves the cell unreserved, unstamped and at the
  next generation, reservable again at once, and a moved-from handle releases nothing.
\<close>

theorem abandoned_block_is_free_again:
  assumes "acquire_for_publish E m (s, sh) = ((Some pb, m'), (s', sh1))"
  shows "\<exists>mp. rv_mapping (pb_reservation pb) = Some mp
    \<and> pb_destroy m' pb sh1 = store_meta (mp_addr mp)
        \<lparr>bm_uid = bm_uid (load_meta sh (mp_addr mp)) + 1, bm_refcount = 0, bm_timestamp = 0\<rparr> sh
    \<and> (rv_uid (pb_reservation pb) = u64_max
       \<or> fst (Buffer_Ref.reserve_for_publish now (Some mp) (pb_destroy m' pb sh1)) \<noteq> None)
    \<and> pb_destroy m' (snd (pb_move_from pb)) sh1 = sh1
    \<and> pb_destroy m' (fst (pb_move_from pb)) sh1 = pb_destroy m' pb sh1"
proof -
  obtain rv p where r: "pool_reserve_for_publish E (gm_pool m) (s, sh) = ((Some rv, p), (s', sh1))"
    and pb: "pb = \<lparr>pb_owned = True, pb_reservation = rv\<rparr>" and m': "m' = m\<lparr>gm_pool := p\<rparr>"
    using assms by (auto simp: acquire_for_publish_def split: if_splits prod.splits option.splits)
  obtain s0 where "reserve_from E (gm_pool m) 0 (s0, sh) = ((Some rv, p), (s', sh1))"
    using r by (auto simp: pool_reserve_for_publish_def split: prod.splits if_splits)
  from reserve_from_cases [OF this] obtain chosen mp where c:
    "rv = \<lparr>rv_mapping = Some mp, rv_block_id = gb_block_id (gp_blocks (gm_pool m) ! candidate (gm_pool m) chosen),
        rv_uid = bm_uid (load_meta sh (mp_addr mp)) + 1, rv_publisher_pid = gp_publisher_pid (gm_pool m),
        rv_pool_index = of_nat (candidate (gm_pool m) chosen)\<rparr>"
    "p = (gm_pool m)\<lparr>gp_next_block := (candidate (gm_pool m) chosen + 1) mod length (gp_blocks (gm_pool m))\<rparr>"
    "sh1 = store_meta (mp_addr mp) \<lparr>bm_uid = rv_uid rv, bm_refcount = 1, bm_timestamp = 0\<rparr> sh" by blast
  have d: "pb_destroy m' pb sh1 = store_meta (mp_addr mp)
        \<lparr>bm_uid = bm_uid (load_meta sh (mp_addr mp)) + 1, bm_refcount = 0, bm_timestamp = 0\<rparr> sh"
    using c pb m' by (simp add: pb_destroy_def pb_cancel_def pool_cancel_def cancel_publish_block)
  have "rv_uid rv = u64_max \<or> fst (Buffer_Ref.reserve_for_publish now (Some mp) (pb_destroy m' pb sh1)) \<noteq> None"
    unfolding d using c(1) by (auto simp: reserve_for_publish_def block_def reserve_cell_def in_grace_def Let_def)
  with d c(1) pb show ?thesis
    by (auto simp: pb_move_from_def) (auto simp: pb_destroy_def pb_cancel_def)
qed

theorem abandoned_block_is_free_again_witness:
  "\<exists>pb m s sh. acquire_for_publish healthy sample_manager (initial_sys, busy_first) = ((Some pb, m), (s, sh))
     \<and> pb_destroy m (snd (pb_move_from pb)) sh = sh"
proof -
  obtain pb m s sh where a: "acquire_for_publish healthy sample_manager (initial_sys, busy_first) = ((Some pb, m), (s, sh))"
    using sample_acquire by blast
  from abandoned_block_is_free_again [OF a] a show ?thesis by blast
qed

end
