(* ===== verification/Shared_Resources.thy ===== *)
theory Shared_Resources
  imports Memory_Importer Buffer_Ref
begin

text \<open>
  The state of a subscriber process: the environment history, shared memory, the reference
  counted imported resources its \<^verbatim>\<open>shared_ptr\<close>s share, its caches and its deferred-release
  queue. A \<^verbatim>\<open>shared_ptr<const ImportedResources>\<close> is the number of a resource; the count is the
  control block's. Each import retains a context object of its own, which the resource and the
  completion events made for it share, so its count is kept with the resource.
\<close>

record shared_resource =
  sr_imported :: imported_resources
  sr_uses :: nat
  sr_context_uses :: nat

record ipc_handle_key =
  hk_publisher_pid :: u32
  hk_block_id :: u32
  hk_device_id :: u32
  hk_vmm_socket_path :: string
  hk_event :: "u8 list"

text \<open>A completion event shares the context of resource \<open>ce_context\<close>.\<close>

record completion_event =
  ce_context :: "nat option"
  ce_event :: u64

record deferred_item =
  di_completion :: "completion_event option"
  di_resource :: "nat option"
  di_buffer_ref :: "buffer_ref option"

record subscriber =
  sb_sys :: sys
  sb_shm :: shm
  sb_resources :: "nat \<Rightarrow> shared_resource option"
  sb_next_resource :: nat
  sb_handles :: "ipc_handle_key \<Rightarrow> nat option"
  sb_mappings :: "u32 \<times> u32 \<Rightarrow> mapping option"
  sb_items :: "deferred_item list"
  sb_failed :: "deferred_item list"

definition initial_subscriber :: "sys \<Rightarrow> shm \<Rightarrow> subscriber" where
  "initial_subscriber s sh = \<lparr>sb_sys = s, sb_shm = sh, sb_resources = (\<lambda>_. None), sb_next_resource = 0,
     sb_handles = (\<lambda>_. None), sb_mappings = (\<lambda>_. None), sb_items = [], sb_failed = []\<rparr>"

section \<open>Reference counts\<close>

definition imported_of :: "subscriber \<Rightarrow> nat \<Rightarrow> imported_resources option" where
  "imported_of sb r = map_option sr_imported (sb_resources sb r)"

definition update_resource :: "nat \<Rightarrow> (shared_resource \<Rightarrow> shared_resource) \<Rightarrow> subscriber \<Rightarrow> subscriber" where
  "update_resource r f sb = sb\<lparr>sb_resources := (sb_resources sb)(r := map_option f (sb_resources sb r))\<rparr>"

definition copy_resource :: "nat \<Rightarrow> subscriber \<Rightarrow> subscriber" where
  "copy_resource r = update_resource r (\<lambda>c. c\<lparr>sr_uses := sr_uses c + 1\<rparr>)"

definition copy_context :: "nat \<Rightarrow> subscriber \<Rightarrow> subscriber" where
  "copy_context r = update_resource r (\<lambda>c. c\<lparr>sr_context_uses := sr_context_uses c + 1\<rparr>)"

text \<open>One reference to the context object of \<open>r\<close> goes away; with the last one its destructor runs.\<close>

definition drop_context :: "env \<Rightarrow> nat \<Rightarrow> subscriber \<Rightarrow> subscriber" where
  "drop_context E r sb =
     (case sb_resources sb r of
        None \<Rightarrow> sb
      | Some c \<Rightarrow>
          let sb1 = update_resource r (\<lambda>c. c\<lparr>sr_context_uses := sr_context_uses c - 1\<rparr>) sb
          in if sr_context_uses c > 1 then sb1
             else (case im_context (sr_imported c) of
                     None \<Rightarrow> sb1
                   | Some dc \<Rightarrow> sb1\<lparr>sb_sys := device_context_destroy E dc (sb_sys sb1)\<rparr>))"

text \<open>
  One reference to resource \<open>r\<close> goes away. The last one runs the deleter of the shared pointer:
  the release function, whose result it ignores, then the object's destructor, which drops its
  context reference.
\<close>

definition drop_resource :: "env \<Rightarrow> nat \<Rightarrow> nat \<Rightarrow> subscriber \<Rightarrow> subscriber" where
  "drop_resource E thread r sb =
     (case sb_resources sb r of
        None \<Rightarrow> sb
      | Some c \<Rightarrow>
          let sb1 = update_resource r (\<lambda>c. c\<lparr>sr_uses := sr_uses c - 1\<rparr>) sb
          in if sr_uses c > 1 then sb1
             else let (_, s1) = release_imported_resources E thread (sr_imported c) (sb_sys sb1);
                      sb2 = sb1\<lparr>sb_sys := s1\<rparr>
                  in (case im_context (sr_imported c) of
                        None \<Rightarrow> sb2
                      | Some _ \<Rightarrow> drop_context E r sb2))"

definition drop_resource_option :: "env \<Rightarrow> nat \<Rightarrow> nat option \<Rightarrow> subscriber \<Rightarrow> subscriber" where
  "drop_resource_option E thread r sb = (case r of None \<Rightarrow> sb | Some r \<Rightarrow> drop_resource E thread r sb)"

text \<open>The destructor of a \<^verbatim>\<open>unique_ptr<BufferRef>\<close>.\<close>

definition drop_buffer_ref :: "buffer_ref option \<Rightarrow> subscriber \<Rightarrow> subscriber" where
  "drop_buffer_ref b sb =
     (case b of None \<Rightarrow> sb | Some r \<Rightarrow> sb\<lparr>sb_shm := snd (br_release r (sb_shm sb))\<rparr>)"

text \<open>A new control block with one reference, as \<^verbatim>\<open>Entry(resource.get(), deleter)\<close> makes.\<close>

definition new_resource :: "imported_resources \<Rightarrow> subscriber \<Rightarrow> nat \<times> subscriber" where
  "new_resource im sb =
     (let r = sb_next_resource sb
      in (r, sb\<lparr>sb_next_resource := Suc r,
              sb_resources := (sb_resources sb)(r \<mapsto>
                \<lparr>sr_imported = im, sr_uses = 1, sr_context_uses = (if im_context im = None then 0 else 1)\<rparr>)\<rparr>))"

section \<open>Frame facts\<close>

text \<open>Everything but the environment and the resources' counts stays as it is.\<close>

definition same_client_state :: "subscriber \<Rightarrow> subscriber \<Rightarrow> bool" where
  "same_client_state sb sb' \<longleftrightarrow> sb_shm sb' = sb_shm sb \<and> sb_handles sb' = sb_handles sb
     \<and> sb_mappings sb' = sb_mappings sb \<and> sb_items sb' = sb_items sb \<and> sb_failed sb' = sb_failed sb
     \<and> (\<forall>r im. imported_of sb r = Some im \<longrightarrow> imported_of sb' r = Some im)"

lemma same_client_state_refl [simp]: "same_client_state sb sb"
  by (simp add: same_client_state_def)

lemma same_client_state_trans [trans]:
  "same_client_state a b \<Longrightarrow> same_client_state b c \<Longrightarrow> same_client_state a c"
  by (auto simp: same_client_state_def)

lemma same_client_state_sys [simp]: "same_client_state sb (sb\<lparr>sb_sys := s\<rparr>)"
  by (simp add: same_client_state_def imported_of_def)

lemma update_resource_imported [simp]:
  assumes "\<And>c. sr_imported (f c) = sr_imported c"
  shows "imported_of (update_resource r f sb) r' = imported_of sb r'"
  using assms by (auto simp: update_resource_def imported_of_def option.map_comp comp_def)

lemma update_resource_same [simp]:
  assumes "\<And>c. sr_imported (f c) = sr_imported c"
  shows "same_client_state sb (update_resource r f sb)"
  using update_resource_imported [OF assms] by (simp add: same_client_state_def) (simp add: update_resource_def)

lemma copies_same [simp]: "same_client_state sb (copy_resource r sb)" "same_client_state sb (copy_context r sb)"
  by (simp_all add: copy_resource_def copy_context_def)

lemma copies_imported [simp]:
  "imported_of (copy_resource r sb) q = imported_of sb q" "imported_of (copy_context r sb) q = imported_of sb q"
  by (simp_all add: copy_resource_def copy_context_def)

lemma drop_context_same [simp]: "same_client_state sb (drop_context E r sb)"
proof -
  have "same_client_state sb ((update_resource r (\<lambda>c. c\<lparr>sr_context_uses := sr_context_uses c - 1\<rparr>) sb)\<lparr>sb_sys := s\<rparr>)" for s
    by (rule same_client_state_trans [OF update_resource_same same_client_state_sys]) simp
  then show ?thesis unfolding drop_context_def by (auto simp: Let_def split: option.split)
qed

lemma drop_resource_same [simp]: "same_client_state sb (drop_resource E t r sb)"
proof (cases "sb_resources sb r")
  case None then show ?thesis by (simp add: drop_resource_def)
next
  case (Some c)
  let ?sb1 = "update_resource r (\<lambda>c. c\<lparr>sr_uses := sr_uses c - 1\<rparr>) sb"
  have u: "same_client_state sb ?sb1" by simp
  show ?thesis
  proof (cases "sr_uses c > 1")
    case True
    with Some u show ?thesis by (simp add: drop_resource_def)
  next
    case False
    obtain ok s1 where r: "release_imported_resources E t (sr_imported c) (sb_sys ?sb1) = (ok, s1)" by fastforce
    have v: "same_client_state sb (?sb1\<lparr>sb_sys := s1\<rparr>)" using same_client_state_trans [OF u] by simp
    have "drop_resource E t r sb = ?sb1\<lparr>sb_sys := s1\<rparr>
      \<or> drop_resource E t r sb = drop_context E r (?sb1\<lparr>sb_sys := s1\<rparr>)"
      using Some False r by (auto simp: drop_resource_def Let_def split: option.split)
    then show ?thesis using v same_client_state_trans [OF v drop_context_same] by auto
  qed
qed

lemma drop_resource_option_same [simp]: "same_client_state sb (drop_resource_option E t r sb)"
  by (auto simp: drop_resource_option_def split: option.split)

lemma same_client_stateD:
  assumes "same_client_state sb sb'"
  shows "sb_shm sb' = sb_shm sb" "sb_handles sb' = sb_handles sb" "sb_mappings sb' = sb_mappings sb"
    "sb_items sb' = sb_items sb" "sb_failed sb' = sb_failed sb"
  using assms by (simp_all add: same_client_state_def)

lemmas drop_same = drop_resource_option_same [THEN same_client_stateD(1)] drop_resource_same [THEN same_client_stateD(1)]
  drop_context_same [THEN same_client_stateD(1)] copies_same [THEN same_client_stateD(1)]

declare drop_same [simp]

lemma drop_buffer_ref_fields [simp]:
  "sb_sys (drop_buffer_ref b sb) = sb_sys sb" "sb_resources (drop_buffer_ref b sb) = sb_resources sb"
  "sb_handles (drop_buffer_ref b sb) = sb_handles sb" "sb_mappings (drop_buffer_ref b sb) = sb_mappings sb"
  "sb_items (drop_buffer_ref b sb) = sb_items sb" "sb_failed (drop_buffer_ref b sb) = sb_failed sb"
  "sb_next_resource (drop_buffer_ref b sb) = sb_next_resource sb"
  by (auto simp: drop_buffer_ref_def split: option.split)

text \<open>A reference acquired and dropped leaves its cell as it was.\<close>

lemma acquire_drop:
  assumes "acquire m u sh = (r, sh1)"
  shows "snd (br_release r sh1) = sh \<and> (\<not> br_valid r \<longrightarrow> sh1 = sh)"
proof (cases m)
  case None
  with assms show ?thesis by (auto simp: acquire_def block_def br_release_def BufferRef_null_def)
next
  case (Some mp)
  obtain ok c where a: "acquire_cell u (load_meta sh (mp_addr mp)) = (ok, c)" by fastforce
  show ?thesis
  proof (cases ok)
    case False
    then have "c = load_meta sh (mp_addr mp)" using a by (auto simp: acquire_cell_eq split: if_splits)
    with False assms Some a show ?thesis
      by (auto simp: acquire_def block_def br_release_def BufferRef_null_def br_valid_def)
  next
    case True
    then have c: "c = (load_meta sh (mp_addr mp))\<lparr>bm_refcount := bm_refcount (load_meta sh (mp_addr mp)) + 1\<rparr>"
      "bm_refcount (load_meta sh (mp_addr mp)) \<noteq> u32_max"
      using a by (auto simp: acquire_cell_eq split: if_splits)
    then have "bm_refcount c \<noteq> 0" by (simp add: eq_neg_iff_add_eq_0)
    with c have "release_cell c = load_meta sh (mp_addr mp)" by (simp add: release_cell_held)
    with True assms Some a show ?thesis
      by (auto simp: acquire_def block_def br_release_def br_valid_def)
  qed
qed

lemma acquire_valid:
  assumes "acquire m u sh = (r, sh1)" "br_valid r"
  obtains mp where "m = Some mp" "r = \<lparr>br_mapping = m, br_block = Some (mp_addr mp), br_uid = u\<rparr>"
    "bm_uid (load_meta sh (mp_addr mp)) = u" "bm_refcount (load_meta sh (mp_addr mp)) \<noteq> u32_max"
    "sh1 = store_meta (mp_addr mp) ((load_meta sh (mp_addr mp))\<lparr>bm_refcount := bm_refcount (load_meta sh (mp_addr mp)) + 1\<rparr>) sh"
proof -
  from assms obtain mp where m: "m = Some mp"
    by (cases m) (auto simp: acquire_def block_def br_valid_def BufferRef_null_def)
  obtain ok c where a: "acquire_cell u (load_meta sh (mp_addr mp)) = (ok, c)" by fastforce
  with assms m have "ok" by (cases ok) (auto simp: acquire_def block_def br_valid_def BufferRef_null_def)
  with a assms m that [of mp] show thesis
    by (auto simp: acquire_def block_def acquire_cell_eq split: if_splits)
qed

end
