(* ===== verification/Ipc_Handle_Cache.thy ===== *)
theory Ipc_Handle_Cache
  imports Shared_Resources
begin

text \<open>
  \<^verbatim>\<open>subscriber/ipc_handle_cache.hpp\<close> and \<^verbatim>\<open>subscriber/ipc_handle_cache.cpp\<close>: the process-wide
  cache of imported resources, with the default release function. Each operation takes the
  cache's mutex once, so an operation is one step; resources are released outside of it.
\<close>

section \<open>Hashing\<close>

definition hash_step :: "u64 \<Rightarrow> u64 \<Rightarrow> u64" where
  "hash_step hash byte = hash * 131 + byte"

definition le_bytes32 :: "u32 \<Rightarrow> u64 list" where
  "le_bytes32 w = map (\<lambda>shift. ucast (and (drop_bit shift w) 0xff)) [0, 8, 16, 24]"

definition IpcHandleKeyHash :: "ipc_handle_key \<Rightarrow> u64" where
  "IpcHandleKeyHash key =
     (let h1 = foldl hash_step 0 (le_bytes32 (hk_device_id key));
          h2 = foldl hash_step h1 (le_bytes32 (hk_publisher_pid key));
          h3 = foldl hash_step h2 (le_bytes32 (hk_block_id key));
          h4 = foldl hash_step h3 (map (\<lambda>c. of_nat (of_char c)) (hk_vmm_socket_path key))
      in foldl hash_step h4 (map ucast (hk_event key)))"

section \<open>Operations\<close>

definition find_handle :: "ipc_handle_key \<Rightarrow> subscriber \<Rightarrow> nat option \<times> subscriber" where
  "find_handle key sb =
     (case sb_handles sb key of
        None \<Rightarrow> (None, sb)
      | Some r \<Rightarrow> (Some r, copy_resource r sb))"

text \<open>
  The candidate is one reference; the cache's entry and the result are copies. A duplicate
  candidate dies on return, a cached one leaves its copies behind. Allocation failure in here
  is not modelled.
\<close>

definition insert_or_discard_duplicate ::
    "env \<Rightarrow> nat \<Rightarrow> ipc_handle_key \<Rightarrow> imported_resources \<Rightarrow> subscriber \<Rightarrow> nat \<times> subscriber" where
  "insert_or_discard_duplicate E thread key imported sb =
     (let (candidate, sb1) = new_resource imported sb;
          sb2 = (case sb_handles sb1 key of
                   None \<Rightarrow> (copy_resource candidate sb1)\<lparr>sb_handles := (sb_handles sb1)(key \<mapsto> candidate)\<rparr>
                 | Some _ \<Rightarrow> sb1);
          entry = the (sb_handles sb2 key);
          sb3 = copy_resource entry sb2
      in (entry, drop_resource E thread candidate sb3))"

text \<open>
  \<^verbatim>\<open>clear\<close> swaps the entries out and destroys them; the order of an unordered map is whatever
  the list of its keys says.
\<close>

fun drop_entries :: "env \<Rightarrow> nat \<Rightarrow> ipc_handle_key list \<Rightarrow> (ipc_handle_key \<Rightarrow> nat option) \<Rightarrow> subscriber \<Rightarrow> subscriber" where
  "drop_entries E thread [] table sb = sb"
| "drop_entries E thread (k # ks) table sb =
     drop_entries E thread ks table (drop_resource_option E thread (table k) sb)"

definition clear_handles :: "env \<Rightarrow> nat \<Rightarrow> ipc_handle_key list \<Rightarrow> subscriber \<Rightarrow> subscriber" where
  "clear_handles E thread keys sb =
     drop_entries E thread keys (sb_handles sb) (sb\<lparr>sb_handles := (\<lambda>_. None)\<rparr>)"

section \<open>The cache contract\<close>

text \<open>
  What the mapper relies on: a lookup answers from the table, the first insertion under a key
  decides what the key stands for, and no operation changes what an existing entry holds.
  \<open>who\<close> is the calling thread.
\<close>

locale shared_cache =
  fixes lookup :: "'k \<Rightarrow> 's \<Rightarrow> 'r option"
    and content :: "'r \<Rightarrow> 's \<Rightarrow> 'v option"
    and find_op :: "'k \<Rightarrow> 's \<Rightarrow> 'r option \<times> 's"
    and insert_op :: "'t \<Rightarrow> 'k \<Rightarrow> 'v \<Rightarrow> 's \<Rightarrow> 'r \<times> 's"
    and inv :: "'s \<Rightarrow> bool"
  assumes find_law: "inv s \<Longrightarrow> find_op k s = (q, s') \<Longrightarrow>
      q = lookup k s \<and> inv s' \<and> (\<forall>k'. lookup k' s' = lookup k' s)
      \<and> (\<forall>r v. content r s = Some v \<longrightarrow> content r s' = Some v)"
    and insert_law: "inv s \<Longrightarrow> insert_op who k v s = (r, s') \<Longrightarrow>
      inv s' \<and> (\<forall>k'. lookup k' s' = (if k' = k then Some r else lookup k' s))
      \<and> (case lookup k s of Some r0 \<Rightarrow> r = r0 | None \<Rightarrow> content r s' = Some v)
      \<and> (\<forall>q w. content q s = Some w \<longrightarrow> content q s' = Some w)"
begin

definition lookup_or_make :: "'t \<Rightarrow> 'k \<Rightarrow> ('s \<Rightarrow> 'v option \<times> 's) \<Rightarrow> 's \<Rightarrow> 'r option \<times> 's" where
  "lookup_or_make who k build s =
     (case find_op k s of
        (Some r, s1) \<Rightarrow> (Some r, s1)
      | (None, s1) \<Rightarrow>
          (case build s1 of
             (None, s2) \<Rightarrow> (None, s2)
           | (Some v, s2) \<Rightarrow> (case insert_op who k v s2 of (r, s3) \<Rightarrow> (Some r, s3))))"

text \<open>What was found or made stays the entry of the key.\<close>

lemma lookup_or_make_caches:
  assumes "inv s" "lookup_or_make who k build s = (Some r, s')"
    and "\<And>s v s'. inv s \<Longrightarrow> build s = (v, s') \<Longrightarrow> inv s'"
  shows "inv s' \<and> lookup k s' = Some r"
proof -
  obtain q s1 where f: "find_op k s = (q, s1)" by fastforce
  note l = find_law [OF assms(1) f]
  show ?thesis
  proof (cases q)
    case (Some p)
    with l have "lookup k s = Some p" by simp
    with f l assms(2) show ?thesis by (simp add: lookup_or_make_def)
  next
    case None
    with f assms(2) obtain v s2 where m: "build s1 = (Some v, s2)" and i: "insert_op who k v s2 = (r, s')"
      by (auto simp: lookup_or_make_def split: prod.splits option.splits)
    have "inv s2" using assms(3) l m by blast
    from insert_law [OF this i] show ?thesis by simp
  qed
qed

text \<open>A hit never makes anything.\<close>

lemma lookup_or_make_hit:
  assumes "inv s" "lookup k s = Some r"
  shows "\<exists>s'. find_op k s = (Some r, s') \<and> lookup_or_make who k build s = (Some r, s')"
proof -
  obtain q s' where f: "find_op k s = (q, s')" by fastforce
  with find_law [OF assms(1) f] assms(2) show ?thesis by (simp add: lookup_or_make_def)
qed

lemma kept_by_find:
  assumes "inv s" "lookup k s = Some r" "content r s = Some v" "find_op k' s = (q, s')"
  shows "inv s' \<and> lookup k s' = Some r \<and> content r s' = Some v \<and> (k' = k \<longrightarrow> q = Some r)"
  using find_law [OF assms(1,4)] assms(2,3) by auto

lemma kept_by_insert:
  assumes "inv s" "lookup k s = Some r" "content r s = Some v" "insert_op who k' v' s = (q, s')"
  shows "inv s' \<and> lookup k s' = Some r \<and> content r s' = Some v \<and> (k' = k \<longrightarrow> q = r)"
  using insert_law [OF assms(1,4)] assms(2,3) by (auto split: option.splits)

end

section \<open>The model's cache\<close>

text \<open>Resource numbers are handed out once, and the table names existing resources.\<close>

definition handles_wf :: "subscriber \<Rightarrow> bool" where
  "handles_wf sb \<longleftrightarrow> (\<forall>r. sb_next_resource sb \<le> r \<longrightarrow> sb_resources sb r = None)
     \<and> (\<forall>k r. sb_handles sb k = Some r \<longrightarrow> sb_resources sb r \<noteq> None)"

lemma handles_wf_initial: "handles_wf (initial_subscriber s sh)"
  by (simp add: handles_wf_def initial_subscriber_def)

lemma handles_wf_update [simp]: "handles_wf (update_resource r f sb) \<longleftrightarrow> handles_wf sb"
  by (auto simp: handles_wf_def update_resource_def)

lemma handles_wf_sys [simp]: "handles_wf (sb\<lparr>sb_sys := s\<rparr>) \<longleftrightarrow> handles_wf sb"
  by (simp add: handles_wf_def)

lemma update_resource_fields [simp]:
  "sb_sys (update_resource r f sb) = sb_sys sb" "sb_shm (update_resource r f sb) = sb_shm sb"
  "sb_next_resource (update_resource r f sb) = sb_next_resource sb"
  "sb_handles (update_resource r f sb) = sb_handles sb" "sb_mappings (update_resource r f sb) = sb_mappings sb"
  "sb_items (update_resource r f sb) = sb_items sb" "sb_failed (update_resource r f sb) = sb_failed sb"
  by (simp_all add: update_resource_def)

lemma copy_fields [simp]:
  "sb_sys (copy_resource r sb) = sb_sys sb" "sb_shm (copy_resource r sb) = sb_shm sb"
  "sb_next_resource (copy_resource r sb) = sb_next_resource sb"
  "sb_handles (copy_resource r sb) = sb_handles sb" "sb_mappings (copy_resource r sb) = sb_mappings sb"
  "sb_items (copy_resource r sb) = sb_items sb" "sb_failed (copy_resource r sb) = sb_failed sb"
  by (simp_all add: copy_resource_def)

lemma handles_wf_enter:
  assumes "handles_wf sb" "imported_of sb r \<noteq> None" "sb_handles sb0 = sb_handles sb"
  shows "handles_wf (sb\<lparr>sb_handles := (sb_handles sb0)(k \<mapsto> r)\<rparr>)"
  using assms by (auto simp: handles_wf_def imported_of_def)

lemma imported_of_enter [simp]: "imported_of (sb\<lparr>sb_handles := h\<rparr>) = imported_of sb"
  by (simp add: imported_of_def fun_eq_iff)

lemma handles_wf_copy [simp]: "handles_wf (copy_resource r sb) \<longleftrightarrow> handles_wf sb"
  by (simp add: copy_resource_def)

lemma drop_context_shape:
  obtains s f where "drop_context E r sb = (update_resource r f sb)\<lparr>sb_sys := s\<rparr>"
    "\<And>c. sr_imported (f c) = sr_imported c"
proof (cases "sb_resources sb r")
  case None
  then have "drop_context E r sb = (update_resource r (\<lambda>c. c) sb)\<lparr>sb_sys := sb_sys sb\<rparr>"
    by (simp add: drop_context_def update_resource_def fun_upd_idem)
  then show ?thesis by (rule that) simp
next
  case (Some c)
  let ?f = "\<lambda>c. c\<lparr>sr_context_uses := sr_context_uses c - 1\<rparr> :: shared_resource"
  have "\<exists>s. drop_context E r sb = (update_resource r ?f sb)\<lparr>sb_sys := s\<rparr>"
    using Some by (auto simp: drop_context_def Let_def update_resource_def intro: exI [of _ "sb_sys sb"] split: option.split)
  then show ?thesis using that [where f = ?f] by auto
qed

lemma drop_context_wf [simp]: "handles_wf (drop_context E r sb) \<longleftrightarrow> handles_wf sb"
  by (rule drop_context_shape [of E r sb]) simp

lemma drop_resource_wf [simp]: "handles_wf (drop_resource E t r sb) \<longleftrightarrow> handles_wf sb"
  by (auto simp: drop_resource_def Let_def split: option.split prod.split)

lemma new_resource_wf:
  assumes "handles_wf sb" "new_resource im sb = (r, sb')"
  shows "handles_wf sb' \<and> sb_resources sb r = None \<and> imported_of sb' r = Some im
    \<and> sb_handles sb' = sb_handles sb \<and> (\<forall>q. q \<noteq> r \<longrightarrow> sb_resources sb' q = sb_resources sb q)"
  using assms by (auto simp: new_resource_def handles_wf_def Let_def imported_of_def)

lemma insert_cases:
  assumes "handles_wf sb" "insert_or_discard_duplicate E t k im sb = (r, sb')"
  obtains (fresh) sb1 where "sb_handles sb k = None" "new_resource im sb = (r, sb1)"
      "sb' = drop_resource E t r (copy_resource r ((copy_resource r sb1)\<lparr>sb_handles := (sb_handles sb)(k \<mapsto> r)\<rparr>))"
  | (duplicate) sb1 c where "sb_handles sb k = Some r" "new_resource im sb = (c, sb1)" "c \<noteq> r"
      "sb' = drop_resource E t c (copy_resource r sb1)"
proof -
  obtain c sb1 where n: "new_resource im sb = (c, sb1)" by fastforce
  note w = new_resource_wf [OF assms(1) n]
  show thesis
  proof (cases "sb_handles sb k")
    case None
    then show thesis using n w assms(2) by (intro fresh) (auto simp: insert_or_discard_duplicate_def Let_def)
  next
    case (Some q)
    then have "sb_resources sb q \<noteq> None" using assms(1) by (auto simp: handles_wf_def)
    with w have "c \<noteq> q" by auto
    with Some n w assms(2) show thesis by (intro duplicate) (auto simp: insert_or_discard_duplicate_def Let_def)
  qed
qed

lemma insert_handles:
  assumes "handles_wf sb" "insert_or_discard_duplicate E t k im sb = (r, sb')"
  shows "handles_wf sb' \<and> sb_handles sb' = (sb_handles sb)(k \<mapsto> r)
    \<and> (sb_handles sb k = None \<longrightarrow> imported_of sb' r = Some im)
    \<and> (sb_handles sb k \<noteq> None \<longrightarrow> sb_handles sb k = Some r)
    \<and> (\<forall>q v. imported_of sb q = Some v \<longrightarrow> imported_of sb' q = Some v)"
  using assms
proof (cases rule: insert_cases)
  case (fresh sb1)
  note w = new_resource_wf [OF assms(1) fresh(2)]
  let ?m = "copy_resource r ((copy_resource r sb1)\<lparr>sb_handles := (sb_handles sb)(k \<mapsto> r)\<rparr>)"
  have keep: "same_client_state ?m sb'" using fresh(3) by simp
  have im: "imported_of ?m q = imported_of sb1 q" for q by simp
  have wf: "handles_wf ?m" using w by (simp add: handles_wf_enter)
  have old: "imported_of sb1 q = Some v" if "imported_of sb q = Some v" for q v
    using w that by (cases "q = r") (auto simp: imported_of_def)
  show ?thesis using keep im wf w fresh old by (auto simp: same_client_state_def)
next
  case (duplicate sb1 c)
  note w = new_resource_wf [OF assms(1) duplicate(2)]
  have keep: "same_client_state (copy_resource r sb1) sb'" using duplicate(4) by simp
  have wf: "handles_wf sb'" using w duplicate(4) by simp
  have old: "imported_of sb1 q = Some v" if "imported_of sb q = Some v" for q v
    using w that by (cases "q = c") (auto simp: imported_of_def)
  show ?thesis using keep wf w duplicate old
    by (auto simp: same_client_state_def fun_upd_idem)
qed

interpretation ipc: shared_cache "\<lambda>k sb. sb_handles sb k" "\<lambda>r sb. imported_of sb r" find_handle
    "insert_or_discard_duplicate E" handles_wf
proof
  fix s s' k q
  assume "handles_wf s" "find_handle k s = (q, s')"
  then show "q = sb_handles s k \<and> handles_wf s' \<and> (\<forall>k'. sb_handles s' k' = sb_handles s k')
      \<and> (\<forall>r v. imported_of s r = Some v \<longrightarrow> imported_of s' r = Some v)"
    by (auto simp: find_handle_def split: option.splits)
next
  fix s s' who k v r
  assume "handles_wf s" "insert_or_discard_duplicate E who k v s = (r, s')"
  from insert_handles [OF this] show "handles_wf s' \<and> (\<forall>k'. sb_handles s' k' = (if k' = k then Some r else sb_handles s k'))
      \<and> (case sb_handles s k of Some r0 \<Rightarrow> r = r0 | None \<Rightarrow> imported_of s' r = Some v)
      \<and> (\<forall>q w. imported_of s q = Some w \<longrightarrow> imported_of s' q = Some w)"
    by (auto split: option.split)
qed

section \<open>Sequences of operations\<close>

datatype (plugins only: code) cache_op = Find ipc_handle_key | Insert nat ipc_handle_key imported_resources

primrec cache_op_step :: "env \<Rightarrow> cache_op \<Rightarrow> subscriber \<Rightarrow> nat option \<times> subscriber" where
  "cache_op_step E (Find k) sb = find_handle k sb"
| "cache_op_step E (Insert t k im) sb =
     (case insert_or_discard_duplicate E t k im sb of (r, sb') \<Rightarrow> (Some r, sb'))"

primrec op_key :: "cache_op \<Rightarrow> ipc_handle_key" where
  "op_key (Find k) = k"
| "op_key (Insert t k im) = k"

fun cache_run :: "env \<Rightarrow> cache_op list \<Rightarrow> subscriber \<Rightarrow> (ipc_handle_key \<times> nat option) list \<times> subscriber" where
  "cache_run E [] sb = ([], sb)"
| "cache_run E (op # ops) sb =
     (case cache_op_step E op sb of
        (r, sb1) \<Rightarrow> (case cache_run E ops sb1 of (rs, sb2) \<Rightarrow> ((op_key op, r) # rs, sb2)))"

lemma cache_run_keeps:
  assumes "handles_wf sb" "sb_handles sb k = Some r" "imported_of sb r = Some im"
    "cache_run E ops sb = (rs, sb')"
  shows "handles_wf sb' \<and> sb_handles sb' k = Some r \<and> imported_of sb' r = Some im
    \<and> (\<forall>q. (k, q) \<in> set rs \<longrightarrow> q = Some r)"
  using assms
proof (induction ops arbitrary: sb rs)
  case Nil then show ?case by simp
next
  case (Cons op ops)
  obtain q sb1 where s: "cache_op_step E op sb = (q, sb1)" by fastforce
  obtain rs1 where c: "cache_run E ops sb1 = (rs1, sb')" and rs: "rs = (op_key op, q) # rs1"
    using Cons.prems(4) s by (auto split: prod.splits)
  have k: "handles_wf sb1 \<and> sb_handles sb1 k = Some r \<and> imported_of sb1 r = Some im \<and> (op_key op = k \<longrightarrow> q = Some r)"
  proof (cases op)
    case (Find k')
    with s ipc.kept_by_find [OF Cons.prems(1-3), of k'] show ?thesis by simp
  next
    case (Insert t k' im')
    with s obtain p where "insert_or_discard_duplicate E t k' im' sb = (p, sb1)" "q = Some p"
      by (auto split: prod.splits)
    with ipc.kept_by_insert [OF Cons.prems(1-3)] Insert show ?thesis by auto
  qed
  with Cons.IH [of sb1 rs1] c rs show ?case by auto
qed

section \<open>Properties\<close>

text \<open>
  The first import cached under a key is the one everybody gets: whatever lookups and
  insertions any threads make afterwards, under this key or others, every answer for the key is
  the same shared resource, and it still holds the first import. A mapper that lost the race to
  import uses the winner's resource.
\<close>

theorem first_import_wins:
  assumes "handles_wf sb" "sb_handles sb k = None"
    and "cache_op_step E (Insert thread k im) sb = (q, sb1)"
    and "cache_run E ops sb1 = (rs, sb2)"
  shows "\<exists>r. q = Some r \<and> imported_of sb2 r = Some im \<and> (\<forall>p. (k, p) \<in> set rs \<longrightarrow> p = Some r)"
proof -
  obtain r where i: "insert_or_discard_duplicate E thread k im sb = (r, sb1)" "q = Some r"
    using assms(3) by (auto split: prod.splits)
  from insert_handles [OF assms(1) i(1)] assms(2)
  have "handles_wf sb1" "sb_handles sb1 k = Some r" "imported_of sb1 r = Some im" by auto
  from cache_run_keeps [OF this assms(4)] i(2) show ?thesis by blast
qed

definition sample_key :: ipc_handle_key where
  "sample_key = \<lparr>hk_publisher_pid = 7, hk_block_id = 1, hk_device_id = 0, hk_vmm_socket_path = ''/tmp/p.sock'',
     hk_event = [1, 2]\<rparr>"

theorem first_import_wins_witness:
  "fst (cache_run healthy [Insert 2 sample_key (ImportedResources\<lparr>im_dev_ptr := 9\<rparr>), Find sample_key]
      (snd (cache_op_step healthy (Insert 1 sample_key ImportedResources) (initial_subscriber initial_sys empty_shm))))
   = [(sample_key, Some 0), (sample_key, Some 0)]"
proof -
  let ?sb = "initial_subscriber initial_sys empty_shm"
  let ?ops = "[Insert 2 sample_key (ImportedResources\<lparr>im_dev_ptr := 9\<rparr>), Find sample_key]"
  have n: "sb_handles ?sb sample_key = None" by (simp add: initial_subscriber_def)
  obtain q sb1 where o: "cache_op_step healthy (Insert 1 sample_key ImportedResources) ?sb = (q, sb1)" by fastforce
  have q: "q = Some 0"
    using o by (auto simp: insert_or_discard_duplicate_def new_resource_def initial_subscriber_def Let_def split: prod.splits)
  obtain rs sb2 where c: "cache_run healthy ?ops sb1 = (rs, sb2)" by fastforce
  then obtain a b where rs: "rs = [(sample_key, a), (sample_key, b)]" by (auto split: prod.splits)
  from first_import_wins [OF handles_wf_initial n o c] q rs have "a = Some 0 \<and> b = Some 0" by auto
  with o c rs show ?thesis by simp
qed

end
