(* ===== verification/Buffer_Metadata_Cache.thy ===== *)
theory Buffer_Metadata_Cache
  imports Shared_Resources
begin

text \<open>
  \<^verbatim>\<open>detail/buffer_metadata_cache.hpp\<close> and \<^verbatim>\<open>detail/buffer_metadata_cache.cpp\<close>: a mapper's cache
  of attached metadata, keyed by process id and block id. A cached mapping is only trusted for
  the generation the descriptor names. The two critical sections are separate definitions.
\<close>

type_synonym metadata_key = "u32 \<times> u32"

definition trusted :: "mapping \<Rightarrow> u64 \<Rightarrow> shm \<Rightarrow> bool" where
  "trusted m expected_uid sh \<longleftrightarrow> current_uid (Some m) sh = Some expected_uid"

text \<open>First section: the cached mapping, or the entry is dropped.\<close>

definition cached_mapping :: "metadata_key \<Rightarrow> u64 \<Rightarrow> subscriber \<Rightarrow> mapping option \<times> subscriber" where
  "cached_mapping key expected_uid sb =
     (case sb_mappings sb key of
        None \<Rightarrow> (None, sb)
      | Some m \<Rightarrow>
          if trusted m expected_uid (sb_shm sb) then (Some m, sb)
          else (None, sb\<lparr>sb_mappings := (sb_mappings sb)(key := None)\<rparr>))"

text \<open>Second section: an entry another thread added meanwhile wins if it is current.\<close>

definition publish_mapping :: "metadata_key \<Rightarrow> u64 \<Rightarrow> mapping \<Rightarrow> subscriber \<Rightarrow> mapping option \<times> subscriber" where
  "publish_mapping key expected_uid candidate sb =
     (case sb_mappings sb key of
        Some m \<Rightarrow>
          if trusted m expected_uid (sb_shm sb) then (Some m, sb)
          else (Some candidate, sb\<lparr>sb_mappings := (sb_mappings sb)(key \<mapsto> candidate)\<rparr>)
      | None \<Rightarrow> (Some candidate, sb\<lparr>sb_mappings := (sb_mappings sb)(key \<mapsto> candidate)\<rparr>))"

text \<open>The default attach function.\<close>

definition attach_block :: "env \<Rightarrow> metadata_key \<Rightarrow> subscriber \<Rightarrow> mapping option \<times> subscriber" where
  "attach_block E key sb =
     (let (m, (s, sh)) = attach E (shm_name_for_block (fst key) (snd key)) (sb_sys sb, sb_shm sb)
      in (m, sb\<lparr>sb_sys := s, sb_shm := sh\<rparr>))"

definition get_or_attach :: "env \<Rightarrow> u32 \<Rightarrow> u32 \<Rightarrow> u64 \<Rightarrow> subscriber \<Rightarrow> mapping option \<times> subscriber" where
  "get_or_attach E publisher_pid block_id expected_uid sb =
     (let key = (publisher_pid, block_id)
      in case cached_mapping key expected_uid sb of
           (Some m, sb1) \<Rightarrow> (Some m, sb1)
         | (None, sb1) \<Rightarrow>
             (case attach_block E key sb1 of
                (None, sb2) \<Rightarrow> (None, sb2)
              | (Some candidate, sb2) \<Rightarrow>
                  if \<not> trusted candidate expected_uid (sb_shm sb2) then (None, sb2)
                  else publish_mapping key expected_uid candidate sb2))"

definition clear_mappings :: "subscriber \<Rightarrow> subscriber" where
  "clear_mappings sb = sb\<lparr>sb_mappings := (\<lambda>_. None)\<rparr>"

section \<open>What a lookup returns\<close>

lemma attach_shm: "attach E name (s, sh) = (m, (s', sh')) \<Longrightarrow> sh' = sh"
  by (auto simp: attach_def shm_open_def Let_def split: prod.splits if_splits)

lemma attach_block_fields:
  "attach_block E key sb = (m, sb') \<Longrightarrow> sb_shm sb' = sb_shm sb \<and> sb_mappings sb' = sb_mappings sb"
  by (auto simp: attach_block_def dest: attach_shm split: prod.splits)

text \<open>
  C31. The cache never hands out a mapping of another generation than the descriptor's: what it
  returns reads the expected generation and becomes the entry of its block, no other entry
  and no cell changes. A current cached mapping is returned without any call; a block whose
  publisher was restarted is attached again; when nothing current can be attached a stale entry
  is dropped and the lookup fails.
\<close>

theorem metadata_cache_is_current:
  assumes "get_or_attach E p i u sb = (x, sb')"
  shows "sb_shm sb' = sb_shm sb
    \<and> (case x of
        Some m \<Rightarrow> current_uid (Some m) (sb_shm sb) = Some u \<and> sb_mappings sb' = (sb_mappings sb)((p, i) \<mapsto> m)
      | None \<Rightarrow> sb_mappings sb' = (sb_mappings sb)((p, i) := None))
    \<and> (\<forall>m. sb_mappings sb (p, i) = Some m \<longrightarrow> trusted m u (sb_shm sb) \<longrightarrow> x = Some m \<and> sb' = sb)"
proof (cases "sb_mappings sb (p, i)")
  case None
  obtain y sb1 where a: "attach_block E (p, i) sb = (y, sb1)" by fastforce
  with attach_block_fields [OF a] None assms show ?thesis
    by (auto simp: get_or_attach_def cached_mapping_def publish_mapping_def trusted_def fun_upd_idem
        split: option.splits if_splits)
next
  case (Some m0)
  show ?thesis
  proof (cases "trusted m0 u (sb_shm sb)")
    case True
    then have "x = Some m0" "sb' = sb" using Some assms by (simp_all add: get_or_attach_def cached_mapping_def)
    with Some True show ?thesis by (simp add: trusted_def fun_upd_idem)
  next
    case False
    let ?sb = "sb\<lparr>sb_mappings := (sb_mappings sb)((p, i) := None)\<rparr>"
    obtain y sb1 where a: "attach_block E (p, i) ?sb = (y, sb1)" by fastforce
    with attach_block_fields [OF a] False Some assms show ?thesis
      by (auto simp: get_or_attach_def cached_mapping_def publish_mapping_def trusted_def
          split: option.splits if_splits)
  qed
qed

definition sample_shm :: shm where
  "sample_shm = \<lparr>sh_names = [shm_name_for_block 7 1 \<mapsto> 0],
     sh_objs = (\<lambda>_. empty_object)(0 := \<lparr>so_size = kMetadataSize, so_meta = \<lparr>bm_uid = 5, bm_refcount = 0, bm_timestamp = 9\<rparr>\<rparr>), sh_next = 1\<rparr>"

lemmas attach_eval = empty_object_def BlockMetadata_def get_or_attach_def cached_mapping_def attach_block_def attach_def shm_open_def make_mapping_def
  alloc_ptr_def trusted_def current_uid_def block_def publish_mapping_def load_meta_def sample_shm_def
  initial_subscriber_def initial_sys_def machine_defs

theorem metadata_cache_is_current_witness:
  "\<exists>m sb'. get_or_attach healthy 7 1 5 ((initial_subscriber initial_sys sample_shm)\<lparr>sb_mappings :=
        [(7, 1) \<mapsto> \<lparr>mp_this = 3, mp_name = [], mp_size = kMetadataSize, mp_addr = 8\<rparr>]\<rparr>) = (Some m, sb')
     \<and> current_uid (Some m) sample_shm = Some 5 \<and> sb_mappings sb' = [(7, 1) \<mapsto> m]"
proof -
  let ?sb = "(initial_subscriber initial_sys sample_shm)\<lparr>sb_mappings :=
        [(7, 1) \<mapsto> \<lparr>mp_this = 3, mp_name = [], mp_size = kMetadataSize, mp_addr = 8\<rparr>]\<rparr>"
  obtain m sb' where g: "get_or_attach healthy 7 1 5 ?sb = (Some m, sb')"
    by (simp add: attach_eval)
  from metadata_cache_is_current [OF g] g show ?thesis by (auto simp: initial_subscriber_def)
qed

end
