(* ===== verification/Read_Handle.thy ===== *)
theory Read_Handle
  imports Shared_Resources
begin

text \<open>
  \<^verbatim>\<open>subscriber/read_handle.hpp\<close>, \<^verbatim>\<open>detail/mapped_publication.hpp\<close>,
  \<^verbatim>\<open>detail/read_handle_factory.hpp\<close> and \<^verbatim>\<open>subscriber/read_handle.cpp\<close>: a mapped publication,
  its binding to a consumer stream, and the release of a read, which is deferred until the
  consumer's work has completed. One iteration of the release worker is one step. Allocation
  failure and exceptions of the queue's container are not modelled.
\<close>

section \<open>Completion events\<close>

definition context_of :: "subscriber \<Rightarrow> nat \<Rightarrow> device_context option" where
  "context_of sb r = Option.bind (imported_of sb r) im_context"

text \<open>
  \<^verbatim>\<open>~CompletionEvent\<close>; the shared context reference goes away after the body, whether the
  event could be destroyed or not.
\<close>

definition destroy_completion :: "env \<Rightarrow> nat \<Rightarrow> completion_event \<Rightarrow> subscriber \<Rightarrow> subscriber" where
  "destroy_completion E thread ce sb =
     (case ce_context ce of
        None \<Rightarrow> sb
      | Some r \<Rightarrow>
          let sb1 = (if ce_event ce = 0 then sb
                     else case context_of sb r of
                            None \<Rightarrow> sb
                          | Some dc \<Rightarrow>
                              sb\<lparr>sb_sys := snd (with_guard E thread (dc_context dc) (\<lambda>_. ())
                                 (\<lambda>s. ((), exec E (CuEventDestroy (ce_event ce)) s)) (sb_sys sb))\<rparr>)
          in drop_context E r sb1)"

definition drop_completion :: "env \<Rightarrow> nat \<Rightarrow> completion_event option \<Rightarrow> subscriber \<Rightarrow> subscriber" where
  "drop_completion E thread ce sb = (case ce of None \<Rightarrow> sb | Some c \<Rightarrow> destroy_completion E thread c sb)"

definition create_completion_event ::
    "env \<Rightarrow> nat \<Rightarrow> nat \<Rightarrow> subscriber \<Rightarrow> completion_event option \<times> subscriber" where
  "create_completion_event E thread r sb =
     (case context_of sb r of
        None \<Rightarrow> (None, sb)
      | Some dc \<Rightarrow>
          let (e, s1) = with_guard E thread (dc_context dc) (\<lambda>_. None)
                (\<lambda>s. let (q, s') = call E (CuEventCreate False) s
                      in (if rc q \<noteq> CUDA_SUCCESS then None else Some (out q), s')) (sb_sys sb);
              sb1 = sb\<lparr>sb_sys := s1\<rparr>
          in case e of
               None \<Rightarrow> (None, sb1)
             | Some event \<Rightarrow> (Some \<lparr>ce_context = Some r, ce_event = event\<rparr>, copy_context r sb1))"

section \<open>Streams\<close>

definition CU_STREAM_LEGACY :: u64 where "CU_STREAM_LEGACY = 1"
definition CU_STREAM_PER_THREAD :: u64 where "CU_STREAM_PER_THREAD = 2"

definition current_device_is :: "env \<Rightarrow> i32 \<Rightarrow> sys \<Rightarrow> bool \<times> sys" where
  "current_device_is E expected s =
     (let (d, s') = call E CuCtxGetDevice s in (rc d = CUDA_SUCCESS \<and> ucast (out d) = expected, s'))"

definition validate_stream :: "env \<Rightarrow> nat \<Rightarrow> nat option \<Rightarrow> u64 \<Rightarrow> subscriber \<Rightarrow> bool \<times> subscriber" where
  "validate_stream E thread resource stream sb =
     (case Option.bind resource (context_of sb) of
        None \<Rightarrow> (True, sb)
      | Some dc \<Rightarrow>
          let (ok, s') =
            (if stream = CU_STREAM_LEGACY \<or> stream = CU_STREAM_PER_THREAD
             then with_guard E thread (dc_context dc) (\<lambda>_. False) (current_device_is E (dc_device_id dc)) (sb_sys sb)
             else let (c, s1) = call E (CuStreamGetCtx stream) (sb_sys sb)
                  in if rc c \<noteq> CUDA_SUCCESS then (False, s1)
                     else with_guard E thread (out c) (\<lambda>_. False) (current_device_is E (dc_device_id dc)) s1)
          in (ok, sb\<lparr>sb_sys := s'\<rparr>))"

text \<open>The guard's scope ends before the wait is enqueued, as in the source.\<close>

definition enqueue_ready_event :: "env \<Rightarrow> nat \<Rightarrow> nat option \<Rightarrow> u64 \<Rightarrow> subscriber \<Rightarrow> bool \<times> subscriber" where
  "enqueue_ready_event E thread resource stream sb =
     (let (valid, sb1) = validate_stream E thread resource stream sb
      in if \<not> valid then (False, sb1)
      else let event = (case Option.bind resource (imported_of sb1) of None \<Rightarrow> 0 | Some im \<Rightarrow> im_event im)
      in if event = 0 then (True, sb1)
      else let (pushed, s2) =
                 (case Option.bind resource (context_of sb1) of
                    None \<Rightarrow> (True, sb_sys sb1)
                  | Some dc \<Rightarrow> with_guard E thread (dc_context dc) (\<lambda>_. False) (\<lambda>s. (True, s)) (sb_sys sb1))
      in if \<not> pushed then (False, sb1\<lparr>sb_sys := s2\<rparr>)
      else let (w, s3) = call E (CuStreamWaitEvent stream event) s2
      in (rc w = CUDA_SUCCESS, sb1\<lparr>sb_sys := s3\<rparr>))"

section \<open>Mapped publications\<close>

record mapped_publication =
  mu_resource :: "nat option"
  mu_buffer_ref :: "buffer_ref option"
  mu_byte_size :: u64
  mu_device_id :: i32

definition has_device_memory :: "subscriber \<Rightarrow> nat option \<Rightarrow> bool" where
  "has_device_memory sb resource \<longleftrightarrow>
     (case Option.bind resource (imported_of sb) of None \<Rightarrow> False | Some im \<Rightarrow> im_dev_ptr im \<noteq> 0)"

definition mu_valid :: "subscriber \<Rightarrow> mapped_publication \<Rightarrow> bool" where
  "mu_valid sb p \<longleftrightarrow> has_device_memory sb (mu_resource p) \<and> mu_buffer_ref p \<noteq> None"

definition mu_device_ptr :: "subscriber \<Rightarrow> mapped_publication \<Rightarrow> u64" where
  "mu_device_ptr sb p = (case Option.bind (mu_resource p) (imported_of sb) of None \<Rightarrow> 0 | Some im \<Rightarrow> im_dev_ptr im)"

text \<open>The defaulted destructor: the buffer reference, declared last, goes first.\<close>

definition mu_destroy :: "env \<Rightarrow> nat \<Rightarrow> mapped_publication \<Rightarrow> subscriber \<Rightarrow> subscriber" where
  "mu_destroy E thread p sb =
     drop_resource_option E thread (mu_resource p) (drop_buffer_ref (mu_buffer_ref p) sb)"

text \<open>The defaulted move assignment: member by member, in order of declaration.\<close>

definition mu_move_assign ::
    "env \<Rightarrow> nat \<Rightarrow> mapped_publication \<Rightarrow> mapped_publication \<Rightarrow> subscriber
     \<Rightarrow> (mapped_publication \<times> mapped_publication) \<times> subscriber" where
  "mu_move_assign E thread this other sb =
     ((other, other\<lparr>mu_resource := None, mu_buffer_ref := None\<rparr>),
      drop_buffer_ref (mu_buffer_ref this) (drop_resource_option E thread (mu_resource this) sb))"

definition make_publication ::
    "env \<Rightarrow> nat \<Rightarrow> nat option \<Rightarrow> buffer_ref option \<Rightarrow> u64 \<Rightarrow> i32 \<Rightarrow> subscriber
     \<Rightarrow> mapped_publication option \<times> subscriber" where
  "make_publication E thread resource buffer_ref byte_size device_id sb =
     (let p = \<lparr>mu_resource = resource, mu_buffer_ref = buffer_ref, mu_byte_size = byte_size, mu_device_id = device_id\<rparr>
      in if resource = None \<or> buffer_ref = None \<or> \<not> has_device_memory sb resource
         then (None, mu_destroy E thread p sb) else (Some p, sb))"

section \<open>Read handles\<close>

record read_impl =
  ri_resource :: "nat option"
  ri_buffer_ref :: "buffer_ref option"
  ri_deferred_item :: "deferred_item option"
  ri_byte_size :: u64
  ri_device_id :: i32
  ri_consumer_stream :: u64
  ri_completion :: "completion_event option"

definition DeferredItem :: deferred_item where
  "DeferredItem = \<lparr>di_completion = None, di_resource = None, di_buffer_ref = None\<rparr>"

text \<open>The destructor of a deferred item: members in reverse order.\<close>

definition delete_item :: "env \<Rightarrow> nat \<Rightarrow> deferred_item \<Rightarrow> subscriber \<Rightarrow> subscriber" where
  "delete_item E thread item sb =
     drop_completion E thread (di_completion item)
       (drop_resource_option E thread (di_resource item) (drop_buffer_ref (di_buffer_ref item) sb))"

definition make_bound ::
    "env \<Rightarrow> nat \<Rightarrow> mapped_publication \<Rightarrow> u64 \<Rightarrow> subscriber
     \<Rightarrow> (read_impl option \<times> mapped_publication) \<times> subscriber" where
  "make_bound E thread p stream sb =
     (if \<not> mu_valid sb p then ((None, p), sb)
      else let (valid, sb1) = validate_stream E thread (mu_resource p) stream sb
      in if \<not> valid then ((None, p), sb1)
      else let r = the (mu_resource p);
               (completion, sb2) = create_completion_event E thread r sb1
      in if context_of sb1 r \<noteq> None \<and> completion = None then ((None, p), sb2)
      else let (enqueued, sb3) = enqueue_ready_event E thread (mu_resource p) stream sb2
      in if \<not> enqueued then ((None, p), drop_completion E thread completion sb3)
      else ((Some \<lparr>ri_resource = mu_resource p, ri_buffer_ref = mu_buffer_ref p,
                   ri_deferred_item = Some DeferredItem, ri_byte_size = mu_byte_size p,
                   ri_device_id = mu_device_id p, ri_consumer_stream = stream, ri_completion = completion\<rparr>,
             p\<lparr>mu_resource := None, mu_buffer_ref := None\<rparr>), sb3))"

text \<open>\<^verbatim>\<open>Impl::release\<close>, which the destructor of the implementation runs.\<close>

definition ri_release :: "env \<Rightarrow> nat \<Rightarrow> read_impl \<Rightarrow> subscriber \<Rightarrow> read_impl \<times> subscriber" where
  "ri_release E thread impl sb =
     (case ri_buffer_ref impl of
        None \<Rightarrow> (impl, sb)
      | Some b \<Rightarrow>
          let released = impl\<lparr>ri_resource := None, ri_buffer_ref := None, ri_deferred_item := None, ri_completion := None\<rparr>
          in case Option.bind (ri_completion impl)
                    (\<lambda>c. if ce_event c = 0 then None else Option.bind (ce_context c) (\<lambda>r. map_option (Pair c) (context_of sb r))) of
               None \<Rightarrow>
                 (released, drop_buffer_ref (ri_buffer_ref impl) (drop_resource_option E thread (ri_resource impl)
                    (drop_completion E thread (ri_completion impl) sb)))
             | Some (c, dc) \<Rightarrow>
                 let item = \<lparr>di_completion = ri_completion impl, di_resource = ri_resource impl, di_buffer_ref = ri_buffer_ref impl\<rparr>;
                     (recorded, s1) =
                       with_guard E thread (dc_context dc) (\<lambda>_. False)
                         (\<lambda>s. let (q, s') = call E (CuEventRecord (ce_event c) (ri_consumer_stream impl)) s
                              in (rc q = CUDA_SUCCESS, s')) (sb_sys sb);
                     sb1 = sb\<lparr>sb_sys := s1\<rparr>
                 in (released\<lparr>ri_consumer_stream := 0\<rparr>,
                     if recorded then sb1\<lparr>sb_items := sb_items sb1 @ [item]\<rparr>
                     else sb1\<lparr>sb_failed := sb_failed sb1 @ [item]\<rparr>))"

text \<open>A \<^verbatim>\<open>ReadHandle\<close> is a pointer to such an implementation.\<close>

type_synonym read_handle = "read_impl option"

text \<open>The destructor: \<^verbatim>\<open>release\<close>, then the members that are left, in reverse order.\<close>

definition rh_destroy :: "env \<Rightarrow> nat \<Rightarrow> read_handle \<Rightarrow> subscriber \<Rightarrow> subscriber" where
  "rh_destroy E thread h sb =
     (case h of
        None \<Rightarrow> sb
      | Some impl \<Rightarrow>
          let (impl', sb1) = ri_release E thread impl sb;
              sb2 = drop_completion E thread (ri_completion impl') sb1;
              sb3 = (case ri_deferred_item impl' of None \<Rightarrow> sb2 | Some item \<Rightarrow> delete_item E thread item sb2)
          in drop_resource_option E thread (ri_resource impl') (drop_buffer_ref (ri_buffer_ref impl') sb3))"

definition rh_move_assign ::
    "env \<Rightarrow> nat \<Rightarrow> read_handle \<Rightarrow> read_handle \<Rightarrow> subscriber \<Rightarrow> (read_handle \<times> read_handle) \<times> subscriber" where
  "rh_move_assign E thread this other sb = ((other, None), rh_destroy E thread this sb)"

definition rh_valid :: "subscriber \<Rightarrow> read_handle \<Rightarrow> bool" where
  "rh_valid sb h \<longleftrightarrow>
     (case h of None \<Rightarrow> False | Some i \<Rightarrow> has_device_memory sb (ri_resource i) \<and> ri_buffer_ref i \<noteq> None)"

definition rh_device_ptr :: "subscriber \<Rightarrow> read_handle \<Rightarrow> u64" where
  "rh_device_ptr sb h =
     (case h of None \<Rightarrow> 0
      | Some i \<Rightarrow> (case Option.bind (ri_resource i) (imported_of sb) of None \<Rightarrow> 0 | Some im \<Rightarrow> im_dev_ptr im))"

definition rh_byte_size :: "read_handle \<Rightarrow> u64" where
  "rh_byte_size h = (case h of None \<Rightarrow> 0 | Some i \<Rightarrow> ri_byte_size i)"

definition rh_device_id :: "read_handle \<Rightarrow> i32" where
  "rh_device_id h = (case h of None \<Rightarrow> - 1 | Some i \<Rightarrow> ri_device_id i)"

section \<open>The release worker\<close>

text \<open>
  One iteration of \<^verbatim>\<open>run\<close>, on the worker's own thread; with an empty queue it waits. The guard
  stays alive until the end of the iteration.
\<close>

definition worker_step :: "env \<Rightarrow> nat \<Rightarrow> subscriber \<Rightarrow> subscriber" where
  "worker_step E thread sb =
     (case sb_items sb of
        [] \<Rightarrow> sb
      | item # rest \<Rightarrow>
          let sb0 = sb\<lparr>sb_items := rest\<rparr>
          in case Option.bind (di_completion item)
                    (\<lambda>c. if ce_event c = 0 then None else Option.bind (ce_context c) (\<lambda>r. map_option (Pair c) (context_of sb0 r))) of
               None \<Rightarrow> delete_item E thread item sb0
             | Some (c, dc) \<Rightarrow>
                 (case push_current E thread dc (sb_sys sb0) of
                    (Inl _, s1) \<Rightarrow> sb0\<lparr>sb_sys := s1, sb_failed := sb_failed sb0 @ [item]\<rparr>
                  | (Inr g, s1) \<Rightarrow>
                      let (q, s2) = call E (CuEventSynchronize (ce_event c)) s1; sb2 = sb0\<lparr>sb_sys := s2\<rparr>;
                          sb3 = (if rc q \<noteq> CUDA_SUCCESS then sb2\<lparr>sb_failed := sb_failed sb2 @ [item]\<rparr>
                                 else drop_buffer_ref (di_buffer_ref item) (drop_resource_option E thread (di_resource item)
                                        (drop_completion E thread (di_completion item) sb2)))
                      in sb3\<lparr>sb_sys := snd (guard_pop E thread g (sb_sys sb3))\<rparr>))"

end
