(* ===== verification/Buffer_Mapper.thy ===== *)
theory Buffer_Mapper
  imports Ipc_Handle_Cache Buffer_Metadata_Cache Read_Handle
begin

text \<open>
  \<^verbatim>\<open>subscriber/buffer_mapper.hpp\<close> and \<^verbatim>\<open>subscriber/buffer_mapper.cpp\<close>: from a message to a
  stream-bound read handle. The locals of the C++ functions that own something are released
  where their scopes end.
\<close>

definition to_cuda_event_handle :: "buffer_core \<Rightarrow> u8 list" where
  "to_cuda_event_handle msg = bc_event_handle msg"

definition key_of_message :: "buffer_core \<Rightarrow> ipc_handle_key" where
  "key_of_message msg =
     \<lparr>hk_publisher_pid = bc_publisher_pid msg, hk_block_id = bc_block_id msg, hk_device_id = bc_device_id msg,
      hk_vmm_socket_path = bc_vmm_socket_path msg, hk_event = bc_event_handle msg\<rparr>"

text \<open>The lookup of the imported resource, importing it on a miss.\<close>

definition find_or_import ::
    "env \<Rightarrow> nat \<Rightarrow> buffer_core \<Rightarrow> subscriber \<Rightarrow> nat option \<times> subscriber" where
  "find_or_import E thread msg sb =
     (case find_handle (key_of_message msg) sb of
        (Some r, sb1) \<Rightarrow> (Some r, sb1)
      | (None, sb1) \<Rightarrow>
          (case import_vmm E thread msg (to_cuda_event_handle msg) (sb_sys sb1) of
             (None, s2) \<Rightarrow> (None, sb1\<lparr>sb_sys := s2\<rparr>)
           | (Some opened, s2) \<Rightarrow>
               (case insert_or_discard_duplicate E thread (key_of_message msg) opened (sb1\<lparr>sb_sys := s2\<rparr>) of
                  (r, sb3) \<Rightarrow> (Some r, sb3))))"

definition map_descriptor ::
    "env \<Rightarrow> nat \<Rightarrow> buffer_core \<Rightarrow> subscriber \<Rightarrow> mapped_publication option \<times> subscriber" where
  "map_descriptor E thread msg sb =
     (if bc_publisher_pid msg = 0 then (None, sb)
      else let (m, sb1) = get_or_attach E (bc_publisher_pid msg) (bc_block_id msg) (bc_uid msg) sb;
               (b, sh2) = acquire m (bc_uid msg) (sb_shm sb1); sb2 = sb1\<lparr>sb_shm := sh2\<rparr>
      in if \<not> br_valid b then (None, sb2)
      else case find_or_import E thread msg sb2 of
             (None, sb3) \<Rightarrow> (None, drop_buffer_ref (Some b) sb3)
           | (Some r, sb3) \<Rightarrow>
               make_publication E thread (Some r) (Some b) (bc_byte_size msg) (ucast (bc_device_id msg)) sb3)"

definition acquire_publication ::
    "env \<Rightarrow> nat \<Rightarrow> buffer_core \<Rightarrow> subscriber \<Rightarrow> mapped_publication option \<times> subscriber" where
  "acquire_publication E thread msg sb = map_descriptor E thread msg sb"

definition map_message ::
    "env \<Rightarrow> nat \<Rightarrow> buffer_core \<Rightarrow> u64 \<Rightarrow> subscriber \<Rightarrow> read_handle \<times> subscriber" where
  "map_message E thread msg consumer_stream sb =
     (case acquire_publication E thread msg sb of
        (None, sb1) \<Rightarrow> (None, sb1)
      | (Some p, sb1) \<Rightarrow>
          (case make_bound E thread p consumer_stream sb1 of
             ((read, p'), sb2) \<Rightarrow> (read, mu_destroy E thread p' sb2)))"

end
