(* ===== verification/Subscriber_Ownership.thy ===== *)
theory Subscriber_Ownership
  imports Buffer_Mapper "HOL-Library.Multiset"
begin

text \<open>
  Who owns what in a subscriber process. Every reference to an imported resource, every
  completion event and every counted metadata cell has one owner: the handle cache, an item of
  the release queue, or somebody outside of the recorded state (a live handle, a local of a
  running call), given as the multisets \<open>L\<close>, \<open>C\<close> and \<open>B\<close>. \<open>sound base sb L C B\<close> says that the
  reference counts are exactly the owners, that the cells count at least the owners, and that
  the process holds, beyond \<open>base\<close>, exactly the driver resources of the imports and contexts
  that still have an owner and of the completion events.
\<close>

section \<open>Owners\<close>

definition some_of :: "'a option \<Rightarrow> 'a multiset" where
  "some_of x = (case x of None \<Rightarrow> {#} | Some a \<Rightarrow> {#a#})"

lemma some_of_simps [simp]: "some_of None = {#}" "some_of (Some a) = {#a#}"
  by (simp_all add: some_of_def)

primrec gather :: "('b \<Rightarrow> 'a option) \<Rightarrow> 'b list \<Rightarrow> 'a multiset" where
  "gather f [] = {#}"
| "gather f (x # xs) = some_of (f x) + gather f xs"

lemma gather_append [simp]: "gather f (xs @ ys) = gather f xs + gather f ys"
  by (induction xs) simp_all

definition cell_of :: "buffer_ref option \<Rightarrow> nat option" where
  "cell_of b = Option.bind b br_block"

definition queued :: "subscriber \<Rightarrow> deferred_item list" where
  "queued sb = sb_items sb @ sb_failed sb"

definition resource_refs :: "subscriber \<Rightarrow> nat multiset \<Rightarrow> nat \<Rightarrow> nat" where
  "resource_refs sb L r = card {k. sb_handles sb k = Some r} + count (gather di_resource (queued sb) + L) r"

definition completions :: "subscriber \<Rightarrow> completion_event multiset \<Rightarrow> completion_event multiset" where
  "completions sb C = gather di_completion (queued sb) + C"

definition context_refs :: "subscriber \<Rightarrow> completion_event multiset \<Rightarrow> nat \<Rightarrow> nat" where
  "context_refs sb C r = count (image_mset ce_context (completions sb C)) (Some r)"

definition cells :: "subscriber \<Rightarrow> nat multiset \<Rightarrow> nat multiset" where
  "cells sb B = gather (\<lambda>i. cell_of (di_buffer_ref i)) (queued sb) + B"

lemmas owner_defs = queued_def resource_refs_def completions_def context_refs_def cells_def

section \<open>The books\<close>

definition import_ok :: "imported_resources \<Rightarrow> bool" where
  "import_ok im \<longleftrightarrow> im_context im \<noteq> None \<and> dc_context (the (im_context im)) \<noteq> 0 \<and> im_vmm_address im \<noteq> 0
     \<and> im_vmm_allocation im \<noteq> 0 \<and> im_event im \<noteq> 0 \<and> im_allocation_size im \<noteq> 0 \<and> im_dev_ptr im = im_vmm_address im"

definition context_ledger :: "imported_resources \<Rightarrow> resource \<Rightarrow> int" where
  "context_ledger im k = one (RPrimaryCtx (dc_device (the (im_context im)))) k"

definition slot :: "shared_resource option \<Rightarrow> resource \<Rightarrow> int" where
  "slot x k = (case x of None \<Rightarrow> 0
     | Some c \<Rightarrow> (if sr_uses c = 0 then 0 else imported_ledger (sr_imported c) k)
               + (if sr_context_uses c = 0 then 0 else context_ledger (sr_imported c) k))"

definition resource_ledger :: "subscriber \<Rightarrow> resource \<Rightarrow> int" where
  "resource_ledger sb k = (\<Sum>r \<in> {..<sb_next_resource sb}. slot (sb_resources sb r) k)"

definition event_ledger :: "completion_event multiset \<Rightarrow> resource \<Rightarrow> int" where
  "event_ledger M k = (\<Sum>ce\<in>#M. one (REvent (ce_event ce)) k)"

definition slot_ok :: "shared_resource option \<Rightarrow> nat \<Rightarrow> nat \<Rightarrow> bool" where
  "slot_ok x refs contexts \<longleftrightarrow>
     (case x of
        None \<Rightarrow> refs = 0 \<and> contexts = 0
      | Some c \<Rightarrow> import_ok (sr_imported c) \<and> sr_uses c = refs
          \<and> sr_context_uses c = (if sr_uses c = 0 then 0 else 1) + contexts)"

definition counted :: "subscriber \<Rightarrow> nat multiset \<Rightarrow> completion_event multiset \<Rightarrow> bool" where
  "counted sb L C \<longleftrightarrow> (\<forall>r. slot_ok (sb_resources sb r) (resource_refs sb L r) (context_refs sb C r))"

definition events_ok :: "completion_event multiset \<Rightarrow> bool" where
  "events_ok M \<longleftrightarrow> (\<forall>ce \<in># M. ce_event ce \<noteq> 0 \<and> ce_context ce \<noteq> None)"

definition cells_ok :: "subscriber \<Rightarrow> nat multiset \<Rightarrow> bool" where
  "cells_ok sb B \<longleftrightarrow> (\<forall>a. count (cells sb B) a \<le> unat (bm_refcount (load_meta (sb_shm sb) a)))"

definition fresh_ok :: "subscriber \<Rightarrow> bool" where
  "fresh_ok sb \<longleftrightarrow> finite (dom (sb_handles sb)) \<and> (\<forall>r. sb_next_resource sb \<le> r \<longrightarrow> sb_resources sb r = None)
     \<and> (\<forall>r. sb_resources sb r \<noteq> None \<longrightarrow> driver_once (sb_sys sb) = Some 0)"

definition books :: "(resource \<Rightarrow> int) \<Rightarrow> subscriber \<Rightarrow> completion_event multiset \<Rightarrow> bool" where
  "books base sb C \<longleftrightarrow> (\<forall>k. held k (tr (sb_sys sb)) =
     base k + resource_ledger sb k + event_ledger (completions sb C) k)"

definition sound :: "(resource \<Rightarrow> int) \<Rightarrow> subscriber \<Rightarrow> nat multiset \<Rightarrow> completion_event multiset
     \<Rightarrow> nat multiset \<Rightarrow> bool" where
  "sound base sb L C B \<longleftrightarrow> fresh_ok sb \<and> counted sb L C \<and> events_ok (completions sb C) \<and> cells_ok sb B
     \<and> books base sb C"

lemma soundI:
  "fresh_ok sb \<Longrightarrow> counted sb L C \<Longrightarrow> events_ok (completions sb C) \<Longrightarrow> cells_ok sb B \<Longrightarrow> books base sb C
   \<Longrightarrow> sound base sb L C B"
  by (simp add: sound_def)

lemma soundD:
  assumes "sound base sb L C B"
  shows "fresh_ok sb" "counted sb L C" "events_ok (completions sb C)" "cells_ok sb B" "books base sb C"
  using assms by (simp_all add: sound_def)

lemma sound_initial:
  "sound (\<lambda>k. held k (tr s)) (initial_subscriber s sh) {#} {#} {#}"
  by (simp add: sound_def fresh_ok_def counted_def slot_ok_def events_ok_def cells_ok_def books_def initial_subscriber_def
      owner_defs resource_ledger_def event_ledger_def)

lemma events_ok_simps [simp]:
  "events_ok {#}" "events_ok (M + N) \<longleftrightarrow> events_ok M \<and> events_ok N"
  "events_ok (add_mset ce M) \<longleftrightarrow> ce_event ce \<noteq> 0 \<and> ce_context ce \<noteq> None \<and> events_ok M"
  by (auto simp: events_ok_def)

lemma event_ledger_simps [simp]:
  "event_ledger {#} k = 0" "event_ledger (M + N) k = event_ledger M k + event_ledger N k"
  "event_ledger (add_mset ce M) k = one (REvent (ce_event ce)) k + event_ledger M k"
  by (simp_all add: event_ledger_def)

section \<open>One resource changes\<close>

lemma resource_ledger_update:
  assumes "fresh_ok sb" "sb_resources sb r = Some c"
  shows "(\<Sum>q \<in> {..<sb_next_resource sb}. slot (((sb_resources sb)(r := x)) q) k)
     = resource_ledger sb k - slot (Some c) k + slot x k"
proof -
  have r: "r < sb_next_resource sb" using assms by (auto simp: fresh_ok_def not_le [symmetric])
  let ?A = "{..<sb_next_resource sb}"
  have "(\<Sum>q\<in>?A. slot (((sb_resources sb)(r := x)) q) k)
      = slot x k + (\<Sum>q\<in>?A - {r}. slot (((sb_resources sb)(r := x)) q) k)"
    using r by (subst sum.remove [of _ r]) auto
  moreover have "(\<Sum>q\<in>?A - {r}. slot (((sb_resources sb)(r := x)) q) k) = (\<Sum>q\<in>?A - {r}. slot (sb_resources sb q) k)"
    by (rule sum.cong) auto
  moreover have "resource_ledger sb k = slot (Some c) k + (\<Sum>q\<in>?A - {r}. slot (sb_resources sb q) k)"
    using r assms(2) by (simp add: resource_ledger_def sum.remove [of ?A r])
  ultimately show ?thesis by simp
qed

lemma countedD:
  assumes "counted sb L C" "sb_resources sb r = Some c"
  shows "import_ok (sr_imported c)" "sr_uses c = resource_refs sb L r"
    "sr_context_uses c = (if sr_uses c = 0 then 0 else 1) + context_refs sb C r"
  using assms by (auto simp: counted_def slot_ok_def dest!: spec [of _ r])

lemma counted_some:
  assumes "counted sb L C" "resource_refs sb L r \<noteq> 0 \<or> context_refs sb C r \<noteq> 0"
  obtains c where "sb_resources sb r = Some c"
  using assms by (cases "sb_resources sb r") (auto simp: counted_def slot_ok_def dest!: spec [of _ r])

text \<open>
  The general step: the counts of one resource change together with its owners, and the
  environment with what the change of its slot and of the events says.
\<close>

lemma sound_step:
  assumes s: "sound base sb L C B" and c: "sb_resources sb r = Some c"
    and i: "sr_imported c' = sr_imported c"
    and q: "sb' = sb\<lparr>sb_sys := s', sb_resources := (sb_resources sb)(r \<mapsto> c')\<rparr>"
    and o: "driver_once s' = Some 0"
    and L: "\<And>p. count L' p = (if p = r then (count L p + sr_uses c') - sr_uses c else count L p)"
      "sr_uses c \<le> count L r + sr_uses c'"
    and C: "context_refs sb' C' r = sr_context_uses c' - (if sr_uses c' = 0 then 0 else 1)"
      "(if sr_uses c' = 0 then 0 else 1) \<le> sr_context_uses c'"
      "\<And>p. p \<noteq> r \<Longrightarrow> context_refs sb' C' p = context_refs sb C p"
      "events_ok (completions sb' C')"
    and d: "\<And>k. delta (sb_sys sb) s' k = slot (Some c') k - slot (Some c) k
      + event_ledger (completions sb' C') k - event_ledger (completions sb C) k + base' k - base k"
  shows "sound base' sb' L' C' B"
proof (rule soundI)
  note D = soundD [OF s]
  show "fresh_ok sb'" using D(1) c o by (auto simp: fresh_ok_def q)
  show "events_ok (completions sb' C')" by (rule C)
  show "cells_ok sb' B" using D(4) by (simp add: cells_ok_def cells_def queued_def q)
  have refs: "resource_refs sb' L' p = (if p = r then sr_uses c' else resource_refs sb L p)" for p
    using countedD(2) [OF D(2) c] L by (simp add: resource_refs_def queued_def q)
  show "counted sb' L' C'"
    unfolding counted_def
  proof
    fix p
    show "slot_ok (sb_resources sb' p) (resource_refs sb' L' p) (context_refs sb' C' p)"
    proof (cases "p = r")
      case True
      then show ?thesis using refs [of r] C(1,2) countedD(1) [OF D(2) c] i by (simp add: q slot_ok_def)
    next
      case False
      then have "sb_resources sb' p = sb_resources sb p" by (simp add: q)
      with refs [of p] C(3) [OF False] False D(2) show ?thesis by (simp add: counted_def)
    qed
  qed
  show "books base' sb' C'"
  proof (unfold books_def, intro allI)
    fix k
    have "resource_ledger sb' k = resource_ledger sb k - slot (Some c) k + slot (Some c') k"
      using resource_ledger_update [OF D(1) c, of "Some c'" k] by (simp add: resource_ledger_def q)
    with D(5) d [of k] show "held k (tr (sb_sys sb')) = base' k + resource_ledger sb' k + event_ledger (completions sb' C') k"
      by (simp add: books_def delta_def q)
  qed
qed

section \<open>References to resources\<close>

lemma update_resource_eq:
  "sb_resources sb r = Some c \<Longrightarrow> (update_resource r f sb)\<lparr>sb_sys := s\<rparr>
     = sb\<lparr>sb_sys := s, sb_resources := (sb_resources sb)(r \<mapsto> f c)\<rparr>"
  "sb_resources sb r = Some c \<Longrightarrow> update_resource r f sb
     = sb\<lparr>sb_sys := sb_sys sb, sb_resources := (sb_resources sb)(r \<mapsto> f c)\<rparr>"
  by (simp_all add: update_resource_def)

lemma delta_self [simp]: "delta s s k = 0"
  by simp

lemma once_of:
  "sound base sb L C B \<Longrightarrow> sb_resources sb r = Some c \<Longrightarrow> driver_once (sb_sys sb) = Some 0"
  by (auto simp: sound_def fresh_ok_def)

lemma completions_frame:
  assumes "sb_items sb' = sb_items sb" "sb_failed sb' = sb_failed sb"
  shows "completions sb' C = completions sb C" "context_refs sb' C = context_refs sb C" "cells sb' B = cells sb B"
  using assms by (simp_all add: owner_defs fun_eq_iff)

text \<open>A copy of a shared pointer needs a reference to copy.\<close>

lemma copy_resource_sound:
  assumes s: "sound base sb L C B" and c: "sb_resources sb r = Some c" "sr_uses c \<noteq> 0"
  shows "sound base (copy_resource r sb) (add_mset r L) C B"
proof (rule sound_step [OF s c(1), where c' = "c\<lparr>sr_uses := sr_uses c + 1\<rparr>"])
  note D = soundD [OF s]
  note cd = countedD [OF D(2) c(1)]
  show "copy_resource r sb = sb\<lparr>sb_sys := sb_sys sb, sb_resources := (sb_resources sb)(r \<mapsto> c\<lparr>sr_uses := sr_uses c + 1\<rparr>)\<rparr>"
    unfolding copy_resource_def by (rule update_resource_eq(2) [OF c(1)])
  have f: "completions (copy_resource r sb) C = completions sb C"
    "context_refs (copy_resource r sb) C = context_refs sb C" by (rule completions_frame; simp)+
  show "driver_once (sb_sys sb) = Some 0" by (rule once_of [OF s c(1)])
  show "events_ok (completions (copy_resource r sb) C)" using D(3) f by simp
  show "context_refs (copy_resource r sb) C r = sr_context_uses (c\<lparr>sr_uses := sr_uses c + 1\<rparr>)
      - (if sr_uses (c\<lparr>sr_uses := sr_uses c + 1\<rparr>) = 0 then 0 else 1)" using cd(3) c(2) f by simp
  show "(if sr_uses (c\<lparr>sr_uses := sr_uses c + 1\<rparr>) = 0 then 0 else 1)
      \<le> sr_context_uses (c\<lparr>sr_uses := sr_uses c + 1\<rparr>)" using cd(3) c(2) by simp
  fix k
  show "delta (sb_sys sb) (sb_sys sb) k = slot (Some (c\<lparr>sr_uses := sr_uses c + 1\<rparr>)) k - slot (Some c) k
      + event_ledger (completions (copy_resource r sb) C) k - event_ledger (completions sb C) k + base k - base k"
    using c(2) f by (simp add: slot_def)
next
  show "context_refs (copy_resource r sb) C p = context_refs sb C p" for p
    by (rule completions_frame(2) [THEN fun_cong]) simp_all
qed auto

lemma drop_resource_last:
  assumes "sb_resources sb r = Some c" "sr_uses c = 1" "im_context (sr_imported c) = Some dc"
    and r: "release_imported_resources E t (sr_imported c) (sb_sys sb) = (ok, s1)"
    and s2: "s2 = (if sr_context_uses c > 1 then s1 else device_context_destroy E dc s1)"
  shows "drop_resource E t r sb = sb\<lparr>sb_sys := s2, sb_resources := (sb_resources sb)(r \<mapsto>
           c\<lparr>sr_uses := 0, sr_context_uses := sr_context_uses c - 1\<rparr>)\<rparr>"
  using assms by (simp add: drop_resource_def drop_context_def update_resource_def Let_def)

lemma drop_resource_sound:
  assumes p: "pushes_succeed E" and s: "sound base sb (add_mset r L) C B"
  shows "sound base (drop_resource E t r sb) L C B"
proof -
  note D = soundD [OF s]
  obtain c where c: "sb_resources sb r = Some c"
    using counted_some [OF D(2), of r] by (auto simp: resource_refs_def)
  note cd = countedD [OF D(2) c]
  have u: "sr_uses c \<noteq> 0" using cd(2) by (simp add: resource_refs_def)
  have once: "driver_once (sb_sys sb) = Some 0" by (rule once_of [OF s c])
  show ?thesis
  proof (cases "sr_uses c = 1")
    case False
    let ?c = "c\<lparr>sr_uses := sr_uses c - 1\<rparr>"
    have e: "drop_resource E t r sb = sb\<lparr>sb_sys := sb_sys sb, sb_resources := (sb_resources sb)(r \<mapsto> ?c)\<rparr>"
      using c u False by (simp add: drop_resource_def update_resource_def Let_def)
    have f: "completions (drop_resource E t r sb) C = completions sb C" "context_refs (drop_resource E t r sb) C = context_refs sb C"
      by (rule completions_frame; simp add: e)+
    show ?thesis
      by (rule sound_step [OF s c _ e once]) (use D(3) cd u False f in \<open>auto simp: slot_def\<close>)
  next
    case True
    obtain dc where dc: "im_context (sr_imported c) = Some dc" "dc_context dc \<noteq> 0"
      using cd(1) by (auto simp: import_ok_def)
    obtain ok s1 where r: "release_imported_resources E t (sr_imported c) (sb_sys sb) = (ok, s1)" by fastforce
    note rl = release_imported_ledger [OF p once dc _ _ _ _ r]
    have d1: "delta (sb_sys sb) s1 k = - imported_ledger (sr_imported c) k" "driver_once s1 = Some 0" for k
      using rl [of k] cd(1) by (auto simp: import_ok_def)
    let ?s2 = "if sr_context_uses c > 1 then s1 else device_context_destroy E dc s1"
    let ?c = "c\<lparr>sr_uses := 0, sr_context_uses := sr_context_uses c - 1\<rparr>"
    have e: "drop_resource E t r sb = sb\<lparr>sb_sys := ?s2, sb_resources := (sb_resources sb)(r \<mapsto> ?c)\<rparr>"
      by (rule drop_resource_last [OF c True dc(1) r refl])
    have f: "completions (drop_resource E t r sb) C = completions sb C" "context_refs (drop_resource E t r sb) C = context_refs sb C"
      by (rule completions_frame; simp add: e)+
    have o2: "driver_once ?s2 = Some 0" using d1 by (simp add: device_context_destroy_def)
    have "delta (sb_sys sb) ?s2 k = slot (Some ?c) k - slot (Some c) k" for k
      using d1(1) [of k] True cd(3) dc
      by (auto simp: slot_def delta_def device_context_destroy_def context_ledger_def)
    then show ?thesis
      by (intro sound_step [OF s c _ e o2]) (use D(3) cd True f in auto)
  qed
qed

lemma drop_resource_option_sound:
  assumes "pushes_succeed E" "sound base sb (some_of r + L) C B"
  shows "sound base (drop_resource_option E t r sb) L C B"
  using assms by (cases r) (auto simp: drop_resource_option_def intro: drop_resource_sound)

section \<open>Environment, cells and events\<close>

lemma sound_sys:
  assumes s: "sound base sb L C B"
    and o: "driver_once (sb_sys sb) = Some 0 \<Longrightarrow> driver_once s' = Some 0"
    and d: "\<And>k. delta (sb_sys sb) s' k = base' k - base k"
  shows "sound base' (sb\<lparr>sb_sys := s'\<rparr>) L C B"
proof (rule soundI)
  note D = soundD [OF s]
  have q: "queued (sb\<lparr>sb_sys := s'\<rparr>) = queued sb" by (simp add: queued_def)
  show "fresh_ok (sb\<lparr>sb_sys := s'\<rparr>)" using D(1) o by (auto simp: fresh_ok_def)
  show "counted (sb\<lparr>sb_sys := s'\<rparr>) L C"
    using D(2) by (simp add: counted_def resource_refs_def context_refs_def completions_def q)
  show "events_ok (completions (sb\<lparr>sb_sys := s'\<rparr>) C)" using D(3) by (simp add: completions_def q)
  show "cells_ok (sb\<lparr>sb_sys := s'\<rparr>) B" using D(4) by (simp add: cells_ok_def cells_def q)
  show "books base' (sb\<lparr>sb_sys := s'\<rparr>) C"
    unfolding books_def
  proof
    fix k
    show "held k (tr (sb_sys (sb\<lparr>sb_sys := s'\<rparr>))) = base' k + resource_ledger (sb\<lparr>sb_sys := s'\<rparr>) k
        + event_ledger (completions (sb\<lparr>sb_sys := s'\<rparr>) C) k"
      using D(5) d [of k] by (simp add: books_def delta_def completions_def q resource_ledger_def)
  qed
qed

lemma sound_sys_same:
  assumes "sound base sb L C B" "driver_once (sb_sys sb) = Some 0 \<Longrightarrow> driver_once s' = Some 0"
    and "\<And>k. delta (sb_sys sb) s' k = 0"
  shows "sound base (sb\<lparr>sb_sys := s'\<rparr>) L C B"
  by (rule sound_sys [OF assms(1,2)]) (simp_all add: assms(3))

lemma owners_shm [simp]: "cells (sb\<lparr>sb_shm := sh\<rparr>) B = cells sb B"
  by (rule completions_frame) simp_all

lemma sound_shm:
  assumes s: "sound base sb L C B" and c: "cells_ok (sb\<lparr>sb_shm := sh\<rparr>) B'"
  shows "sound base (sb\<lparr>sb_shm := sh\<rparr>) L C B'"
proof -
  have q: "queued (sb\<lparr>sb_shm := sh\<rparr>) = queued sb" by (simp add: queued_def)
  show ?thesis using s c
    by (simp add: sound_def fresh_ok_def counted_def books_def resource_refs_def context_refs_def completions_def
        resource_ledger_def q)
qed

lemma drop_buffer_ref_sound:
  assumes s: "sound base sb L C (some_of (cell_of b) + B)"
  shows "sound base (drop_buffer_ref b sb) L C B"
proof (cases "cell_of b")
  case None
  then have "drop_buffer_ref b sb = sb"
    by (auto simp: drop_buffer_ref_def br_release_def cell_of_def split: option.splits bind_splits)
  then show ?thesis using s None by simp
next
  case (Some a)
  then obtain ref where b: "b = Some ref" "br_block ref = Some a" by (auto simp: cell_of_def bind_eq_Some_conv)
  let ?m = "load_meta (sb_shm sb) a"
  have le: "count (cells sb B) x \<le> unat (bm_refcount (load_meta (sb_shm sb) x))" for x
    using spec [OF soundD(4) [OF s, unfolded cells_ok_def], of x] by (simp add: cells_def)
  have n: "count (cells sb B) a < unat (bm_refcount ?m)"
    using soundD(4) [OF s] Some by (auto simp: cells_ok_def cells_def dest!: spec [of _ a])
  then have nz: "bm_refcount ?m \<noteq> 0" by auto
  have "drop_buffer_ref b sb = sb\<lparr>sb_shm := store_meta a (?m\<lparr>bm_refcount := bm_refcount ?m - 1\<rparr>) (sb_shm sb)\<rparr>"
    using b nz by (simp add: drop_buffer_ref_def br_release_def release_cell_held)
  moreover have "cells_ok (sb\<lparr>sb_shm := store_meta a (?m\<lparr>bm_refcount := bm_refcount ?m - 1\<rparr>) (sb_shm sb)\<rparr>) B"
    using le n nz by (auto simp: cells_ok_def)
  ultimately show ?thesis using sound_shm [OF s] by simp
qed

lemma acquire_sound:
  assumes s: "sound base sb L C B" and a: "acquire m u (sb_shm sb) = (b, sh)"
  shows "sound base (sb\<lparr>sb_shm := sh\<rparr>) L C (some_of (cell_of (Some b)) + B)"
proof (cases "br_valid b")
  case False
  then have "sh = sb_shm sb" using acquire_drop [OF a] by simp
  moreover have "cell_of (Some b) = None" using False by (simp add: cell_of_def br_valid_def)
  ultimately show ?thesis using s by simp
next
  case True
  obtain mp where m: "m = Some mp" "b = \<lparr>br_mapping = m, br_block = Some (mp_addr mp), br_uid = u\<rparr>"
    "bm_uid (load_meta (sb_shm sb) (mp_addr mp)) = u" "bm_refcount (load_meta (sb_shm sb) (mp_addr mp)) \<noteq> u32_max"
    "sh = store_meta (mp_addr mp) ((load_meta (sb_shm sb) (mp_addr mp))\<lparr>bm_refcount := bm_refcount (load_meta (sb_shm sb) (mp_addr mp)) + 1\<rparr>) (sb_shm sb)"
    by (rule acquire_valid [OF a True])
  have "cells_ok (sb\<lparr>sb_shm := sh\<rparr>) (some_of (cell_of (Some b)) + B)"
    using soundD(4) [OF s] m by (auto simp: cells_ok_def cells_def queued_def cell_of_def)
  then show ?thesis by (rule sound_shm [OF s])
qed

section \<open>Completion events\<close>

definition events_nonnull :: "env \<Rightarrow> bool" where
  "events_nonnull E \<longleftrightarrow> (\<forall>h b. rc (E h (CuEventCreate b)) = 0 \<longrightarrow> out (E h (CuEventCreate b)) \<noteq> 0)"

lemma context_of_some:
  assumes "sound base sb L C B" "sb_resources sb r = Some c"
  obtains dc where "context_of sb r = Some dc" "im_context (sr_imported c) = Some dc" "dc_context dc \<noteq> 0"
proof -
  have "import_ok (sr_imported c)" using countedD(1) [OF soundD(2) [OF assms(1)] assms(2)] .
  then show thesis using assms(2) that by (auto simp: import_ok_def context_of_def imported_of_def)
qed

lemma destroy_completion_sound:
  assumes p: "pushes_succeed E" and s: "sound base sb L (add_mset ce C) B"
  shows "sound base (destroy_completion E t ce sb) L C B"
proof -
  note D = soundD [OF s]
  obtain r where ce: "ce_event ce \<noteq> 0" "ce_context ce = Some r"
    using D(3) by (auto simp: completions_def)
  have n: "context_refs sb (add_mset ce C) r \<noteq> 0" using ce by (simp add: context_refs_def completions_def)
  then obtain c where c: "sb_resources sb r = Some c" using counted_some [OF D(2)] by blast
  note cd = countedD [OF D(2) c]
  obtain dc where dc: "context_of sb r = Some dc" "im_context (sr_imported c) = Some dc" "dc_context dc \<noteq> 0"
    by (rule context_of_some [OF s c])
  have once: "driver_once (sb_sys sb) = Some 0" by (rule once_of [OF s c])
  let ?W = "with_guard E t (dc_context dc) (\<lambda>_. ()) (\<lambda>s. ((), exec E (CuEventDestroy (ce_event ce)) s)) (sb_sys sb)"
  obtain s1 where w: "?W = ((), s1)" by (rule that [of "snd ?W"]) (simp add: prod_eq_iff)
  have d1: "delta (sb_sys sb) s1 k = - one (REvent (ce_event ce)) k \<and> driver_once s1 = Some 0" for k
    by (rule with_guard_runs [OF p once dc(3) w]) (auto simp: delta_exec)
  let ?s2 = "if sr_context_uses c > 1 then s1 else device_context_destroy E dc s1"
  let ?c = "c\<lparr>sr_context_uses := sr_context_uses c - 1\<rparr>"
  have e: "destroy_completion E t ce sb = sb\<lparr>sb_sys := ?s2, sb_resources := (sb_resources sb)(r \<mapsto> ?c)\<rparr>"
    using ce c dc w by (simp add: destroy_completion_def drop_context_def update_resource_def Let_def)
  have f: "completions (destroy_completion E t ce sb) C = completions sb C"
      "context_refs (destroy_completion E t ce sb) C = context_refs sb C"
    by (rule completions_frame; simp add: e)+
  have g: "completions sb (add_mset ce C) = add_mset ce (completions sb C)" by (simp add: completions_def)
  have h: "context_refs sb (add_mset ce C) q = (if q = r then 1 else 0) + context_refs sb C q" for q
    using ce by (simp add: context_refs_def g)
  have o2: "driver_once ?s2 = Some 0" using d1 by (simp add: device_context_destroy_def)
  have l: "delta (sb_sys sb) ?s2 k = slot (Some ?c) k - slot (Some c) k - one (REvent (ce_event ce)) k" for k
    using d1 [of k] cd(3) dc h [of r]
    by (auto simp: slot_def delta_def device_context_destroy_def context_ledger_def)
  show ?thesis
    by (rule sound_step [OF s c _ e o2]) (use D(3) cd f g h l in auto)
qed

lemma drop_completion_sound:
  assumes "pushes_succeed E" "sound base sb L (some_of ce + C) B"
  shows "sound base (drop_completion E t ce sb) L C B"
  using assms by (cases ce) (auto simp: drop_completion_def intro: destroy_completion_sound)

section \<open>Calls that hold nothing\<close>

definition neutral :: "sys \<Rightarrow> sys \<Rightarrow> bool" where
  "neutral s s' \<longleftrightarrow> (\<forall>k. delta s s' k = 0) \<and> (\<forall>v. driver_once s = Some v \<longrightarrow> driver_once s' = Some v)"

lemma neutral_refl [simp]: "neutral s s"
  by (simp add: neutral_def)

lemma neutral_trans [trans]: "neutral a b \<Longrightarrow> neutral b c \<Longrightarrow> neutral a c"
  by (auto simp: neutral_def delta_def)

lemma neutral_call: "call E c s = (r, s') \<Longrightarrow> \<forall>k. effect c r k = 0 \<Longrightarrow> neutral s s'"
  using delta_call [of E c s r s'] callT [of E c s r s'] by (simp add: neutral_def)

lemma neutral_guard:
  assumes w: "with_guard E t c f body s = (x, s')"
    and b: "\<And>s1 y s2. body s1 = (y, s2) \<Longrightarrow> neutral s1 s2 \<and> driver_once s2 = driver_once s1"
  shows "neutral s s'"
proof -
  have "delta s s' k = 0" for k
    using w by (rule with_guard_cases) (use b in \<open>auto simp: neutral_def\<close>)
  moreover have "driver_once s' = Some v" if "driver_once s = Some v" for v
    using w that by (rule with_guard_once) (use b in blast)
  ultimately show ?thesis by (simp add: neutral_def)
qed

lemma sound_neutral: "sound base sb L C B \<Longrightarrow> neutral (sb_sys sb) s' \<Longrightarrow> sound base (sb\<lparr>sb_sys := s'\<rparr>) L C B"
  by (rule sound_sys_same) (auto simp: neutral_def)

lemma sys_self: "sb = sb\<lparr>sb_sys := sb_sys sb\<rparr>"
  by simp

lemma current_device_neutral:
  "current_device_is E d s = (ok, s') \<Longrightarrow> neutral s s' \<and> driver_once s' = driver_once s"
  by (auto simp: current_device_is_def dest: callT neutral_call split: prod.splits)

lemma device_guard_neutral:
  "with_guard E t c f (current_device_is E d) s = (ok, s') \<Longrightarrow> neutral s s'"
  by (erule neutral_guard) (rule current_device_neutral)

lemma validate_stream_neutral:
  assumes "validate_stream E t res stream sb = (ok, sb')"
  obtains s' where "sb' = sb\<lparr>sb_sys := s'\<rparr>" "neutral (sb_sys sb) s'"
proof (cases "Option.bind res (context_of sb)")
  case None
  with assms have "sb' = sb\<lparr>sb_sys := sb_sys sb\<rparr>" by (simp add: validate_stream_def)
  then show thesis by (rule that) simp
next
  case (Some dc)
  show thesis
  proof (cases "stream = CU_STREAM_LEGACY \<or> stream = CU_STREAM_PER_THREAD")
    case True
    with assms Some obtain s' where "with_guard E t (dc_context dc) (\<lambda>_. False) (current_device_is E (dc_device_id dc)) (sb_sys sb) = (ok, s')"
      "sb' = sb\<lparr>sb_sys := s'\<rparr>" by (auto simp: validate_stream_def split: prod.splits)
    then show thesis using device_guard_neutral that by blast
  next
    case False
    obtain c s1 where c: "call E (CuStreamGetCtx stream) (sb_sys sb) = (c, s1)" by fastforce
    have n: "neutral (sb_sys sb) s1" using neutral_call [OF c] by simp
    show thesis
    proof (cases "rc c = CUDA_SUCCESS")
      case no: False
      with assms Some False c n show thesis by (intro that [of s1]) (auto simp: validate_stream_def)
    next
      case True
      with assms Some False c obtain s' where "with_guard E t (out c) (\<lambda>_. False) (current_device_is E (dc_device_id dc)) s1 = (ok, s')"
        "sb' = sb\<lparr>sb_sys := s'\<rparr>" by (auto simp: validate_stream_def split: prod.splits)
      then show thesis using device_guard_neutral neutral_trans [OF n] that by blast
    qed
  qed
qed

lemma enqueue_ready_event_neutral:
  assumes "enqueue_ready_event E t res stream sb = (ok, sb')"
  obtains s' where "sb' = sb\<lparr>sb_sys := s'\<rparr>" "neutral (sb_sys sb) s'"
proof -
  obtain v sb1 where v: "validate_stream E t res stream sb = (v, sb1)" by fastforce
  obtain s1 where s1: "sb1 = sb\<lparr>sb_sys := s1\<rparr>" "neutral (sb_sys sb) s1" by (rule validate_stream_neutral [OF v])
  let ?event = "case Option.bind res (imported_of sb1) of None \<Rightarrow> 0 | Some im \<Rightarrow> im_event im"
  let ?P = "case Option.bind res (context_of sb1) of None \<Rightarrow> (True, sb_sys sb1)
      | Some dc \<Rightarrow> with_guard E t (dc_context dc) (\<lambda>_. False) (\<lambda>s. (True, s)) (sb_sys sb1)"
  obtain pushed s2 where p: "?P = (pushed, s2)" by fastforce
  have n2: "neutral s1 s2"
    using p s1 neutral_guard [of E t _ _ "\<lambda>s. (True, s)"] by (auto split: option.splits)
  obtain w s3 where w: "call E (CuStreamWaitEvent stream ?event) s2 = (w, s3)" by fastforce
  have n3: "neutral s2 s3" using neutral_call [OF w] by simp
  have "sb' = sb1 \<or> sb' = sb1\<lparr>sb_sys := s2\<rparr> \<or> sb' = sb1\<lparr>sb_sys := s3\<rparr>"
    using assms v p w by (auto simp: enqueue_ready_event_def Let_def split: if_splits)
  then show thesis
    using that [of s1] that [of s2] that [of s3] s1 neutral_trans [OF s1(2) n2]
      neutral_trans [OF neutral_trans [OF s1(2) n2] n3] by auto
qed

lemma attach_neutral:
  assumes "attach E name (s, sh) = (m, (s', sh'))"
  shows "neutral s s' \<and> sh' = sh"
proof -
  have n: "neutral a (log_call (ShmOpen x) r a)" if "rc r \<noteq> 0" for a x r
    using that by (simp add: neutral_def delta_def)
  show ?thesis using assms n
    by (auto simp: attach_def shm_open_def make_mapping_def alloc_ptr_def Let_def neutral_def delta_def
        split: prod.splits if_splits dest!: callT)
qed

lemma attach_block_neutral:
  assumes "attach_block E key sb = (m, sb')"
  obtains s' where "sb' = sb\<lparr>sb_sys := s'\<rparr>" "neutral (sb_sys sb) s'"
  using assms attach_neutral [of E _ "sb_sys sb" "sb_shm sb"]
  by (fastforce simp: attach_block_def split: prod.splits)

section \<open>Moving ownership\<close>

text \<open>A change of the queue that only moves owners between it and the outside.\<close>

lemma sound_queue:
  assumes s: "sound base sb L C B" and q: "sb' = sb\<lparr>sb_items := x, sb_failed := y\<rparr>"
    and g: "gather di_resource (x @ y) + L' = gather di_resource (queued sb) + L"
      "gather di_completion (x @ y) + C' = gather di_completion (queued sb) + C"
      "gather (\<lambda>i. cell_of (di_buffer_ref i)) (x @ y) + B' = gather (\<lambda>i. cell_of (di_buffer_ref i)) (queued sb) + B"
  shows "sound base sb' L' C' B'"
proof -
  have e: "completions sb' C' = completions sb C" "cells sb' B' = cells sb B" "resource_refs sb' L' = resource_refs sb L"
      "context_refs sb' C' = context_refs sb C"
    using g by (simp_all add: q completions_def cells_def resource_refs_def context_refs_def queued_def fun_eq_iff)
  show ?thesis using s e
    by (simp add: sound_def fresh_ok_def counted_def cells_ok_def books_def resource_ledger_def) (simp add: q)
qed

lemma sound_enqueue:
  assumes "sound base sb (some_of (di_resource it) + L) (some_of (di_completion it) + C) (some_of (cell_of (di_buffer_ref it)) + B)"
  shows "sound base (sb\<lparr>sb_items := sb_items sb @ [it]\<rparr>) L C B" "sound base (sb\<lparr>sb_failed := sb_failed sb @ [it]\<rparr>) L C B"
  by (rule sound_queue [OF assms, where x = "sb_items sb @ [it]" and y = "sb_failed sb"]; simp add: queued_def)
    (rule sound_queue [OF assms, where x = "sb_items sb" and y = "sb_failed sb @ [it]"]; simp add: queued_def)

lemma sound_dequeue:
  assumes "sound base sb L C B" "sb_items sb = it # rest"
  shows "sound base (sb\<lparr>sb_items := rest\<rparr>) (some_of (di_resource it) + L) (some_of (di_completion it) + C)
    (some_of (cell_of (di_buffer_ref it)) + B)"
  by (rule sound_queue [OF assms(1), where x = rest and y = "sb_failed sb"]) (simp_all add: queued_def assms(2))

lemma owned_resource:
  assumes "sound base sb (add_mset r L) C B"
  obtains c where "sb_resources sb r = Some c" "sr_uses c \<noteq> 0"
proof -
  have n: "resource_refs sb (add_mset r L) r \<noteq> 0" by (simp add: resource_refs_def)
  then obtain c where "sb_resources sb r = Some c" using counted_some [OF soundD(2) [OF assms]] by blast
  moreover have "sr_uses c \<noteq> 0" using countedD(2) [OF soundD(2) [OF assms] calculation] n by simp
  ultimately show thesis by (rule that)
qed

lemma copy_owned_sound:
  "sound base sb (add_mset r L) C B \<Longrightarrow> sound base (copy_resource r sb) (add_mset r (add_mset r L)) C B"
  by (rule owned_resource) (auto intro: copy_resource_sound)

section \<open>The cache's table\<close>

lemma sound_handles_insert:
  assumes s: "sound base sb (add_mset r L) C B" and k: "sb_handles sb k = None"
  shows "sound base (sb\<lparr>sb_handles := (sb_handles sb)(k \<mapsto> r)\<rparr>) L C B"
proof -
  let ?sb = "sb\<lparr>sb_handles := (sb_handles sb)(k \<mapsto> r)\<rparr>"
  note D = soundD [OF s]
  have fin: "finite {k'. sb_handles sb k' = Some p}" for p
    using D(1) by (auto simp: fresh_ok_def dom_def elim: rev_finite_subset)
  have "{k'. sb_handles ?sb k' = Some p} = (if p = r then insert k {k'. sb_handles sb k' = Some p} else {k'. sb_handles sb k' = Some p})" for p
    using k by auto
  then have c: "resource_refs ?sb L p = resource_refs sb (add_mset r L) p" for p
    using fin [of p] k by (simp add: resource_refs_def queued_def)
  have f: "completions ?sb C = completions sb C" "context_refs ?sb C = context_refs sb C" "cells ?sb B = cells sb B"
    by (rule completions_frame; simp)+
  show ?thesis using D c f by (simp add: sound_def fresh_ok_def counted_def cells_ok_def books_def resource_ledger_def)
qed

lemma gather_count:
  "distinct ks \<Longrightarrow> count (gather h ks) r = card {k \<in> set ks. h k = Some r}"
proof (induction ks)
  case (Cons k ks)
  have "{k' \<in> set (k # ks). h k' = Some r} = (if h k = Some r then insert k {k' \<in> set ks. h k' = Some r} else {k' \<in> set ks. h k' = Some r})"
    by auto
  with Cons show ?case by (cases "h k") auto
qed simp

lemma sound_handles_clear:
  assumes s: "sound base sb L C B" and ks: "distinct ks" "set ks = dom (sb_handles sb)"
  shows "sound base (sb\<lparr>sb_handles := (\<lambda>_. None)\<rparr>) (gather (sb_handles sb) ks + L) C B"
proof -
  let ?sb = "sb\<lparr>sb_handles := (\<lambda>_. None)\<rparr>"
  note D = soundD [OF s]
  have "{k \<in> set ks. sb_handles sb k = Some p} = {k. sb_handles sb k = Some p}" for p
    using ks(2) by auto
  then have c: "resource_refs ?sb (gather (sb_handles sb) ks + L) p = resource_refs sb L p" for p
    using gather_count [OF ks(1), of "sb_handles sb" p] by (simp add: resource_refs_def queued_def)
  have f: "completions ?sb C = completions sb C" "context_refs ?sb C = context_refs sb C" "cells ?sb B = cells sb B"
    by (rule completions_frame; simp)+
  show ?thesis using D c f by (simp add: sound_def fresh_ok_def counted_def cells_ok_def books_def resource_ledger_def)
qed

lemma drop_entries_sound:
  "pushes_succeed E \<Longrightarrow> sound base sb (gather table ks + L) C B \<Longrightarrow> sound base (drop_entries E t ks table sb) L C B"
proof (induction ks arbitrary: sb)
  case (Cons k ks)
  from Cons.prems have "sound base (drop_resource_option E t (table k) sb) (gather table ks + L) C B"
    by (intro drop_resource_option_sound) (simp_all add: add.assoc)
  with Cons show ?case by simp
qed simp

lemma clear_handles_sound:
  assumes "pushes_succeed E" "sound base sb L C B" "distinct ks" "set ks = dom (sb_handles sb)"
  shows "sound base (clear_handles E t ks sb) L C B"
  using drop_entries_sound [OF assms(1) sound_handles_clear [OF assms(2-4)]] by (simp add: clear_handles_def)

lemma sound_mappings: "sound base (sb\<lparr>sb_mappings := m\<rparr>) L C B \<longleftrightarrow> sound base sb L C B"
proof -
  let ?sb = "sb\<lparr>sb_mappings := m\<rparr>"
  have f: "completions ?sb C = completions sb C" "context_refs ?sb C = context_refs sb C" "cells ?sb B = cells sb B"
    by (rule completions_frame; simp)+
  have r: "resource_refs ?sb L = resource_refs sb L" by (simp add: resource_refs_def queued_def fun_eq_iff)
  show ?thesis by (simp add: sound_def fresh_ok_def counted_def cells_ok_def books_def resource_ledger_def f r)
qed

section \<open>New resources\<close>

lemma new_resource_sound:
  assumes s: "sound (\<lambda>k. base k + imported_ledger im k + context_ledger im k) sb L C B"
    and im: "import_ok im" "driver_once (sb_sys sb) = Some 0" and n: "new_resource im sb = (r, sb')"
  shows "sound base sb' (add_mset r L) C B"
proof -
  note D = soundD [OF s]
  let ?c = "\<lparr>sr_imported = im, sr_uses = 1, sr_context_uses = 1\<rparr>"
  have r: "r = sb_next_resource sb" and sb': "sb' = sb\<lparr>sb_next_resource := Suc r, sb_resources := (sb_resources sb)(r \<mapsto> ?c)\<rparr>"
    using n im(1) by (auto simp: new_resource_def Let_def import_ok_def)
  have none: "sb_resources sb r = None" using D(1) r by (simp add: fresh_ok_def)
  have zero: "resource_refs sb L r = 0" "context_refs sb C r = 0"
    using spec [OF D(2) [unfolded counted_def], of r] none by (simp_all add: slot_ok_def)
  have f: "completions sb' C = completions sb C" "context_refs sb' C = context_refs sb C" "cells sb' B = cells sb B"
    by (rule completions_frame; simp add: sb')+
  have refs: "resource_refs sb' (add_mset r L) p = (if p = r then 1 else 0) + resource_refs sb L p" for p
    by (simp add: resource_refs_def queued_def sb')
  have "fresh_ok sb'" using D(1) im(2) by (auto simp: fresh_ok_def sb' r)
  moreover have "counted sb' (add_mset r L) C"
    using D(2) refs zero im(1) by (auto simp: counted_def f) (auto simp: sb' slot_ok_def)
  moreover have "resource_ledger sb' k = resource_ledger sb k + imported_ledger im k + context_ledger im k" for k
  proof -
    have "(\<Sum>q\<in>{..<r}. slot (((sb_resources sb)(r \<mapsto> ?c)) q) k) = (\<Sum>q\<in>{..<r}. slot (sb_resources sb q) k)"
      by (rule sum.cong) auto
    then show ?thesis by (simp add: resource_ledger_def sb' r [symmetric] slot_def)
  qed
  ultimately show ?thesis using D by (simp add: sound_def f cells_ok_def books_def) (simp add: sb')
qed

lemma insert_sound:
  assumes p: "pushes_succeed E"
    and s: "sound (\<lambda>k. base k + imported_ledger im k + context_ledger im k) sb L C B"
    and im: "import_ok im" "driver_once (sb_sys sb) = Some 0"
    and i: "insert_or_discard_duplicate E t key im sb = (r, sb')"
  shows "sound base sb' (add_mset r L) C B"
proof -
  obtain c sb1 where n: "new_resource im sb = (c, sb1)" by fastforce
  note s1 = new_resource_sound [OF s im n]
  have h: "sb_handles sb1 = sb_handles sb" using n by (auto simp: new_resource_def Let_def)
  show ?thesis
  proof (cases "sb_handles sb key")
    case None
    let ?sb2 = "(copy_resource c sb1)\<lparr>sb_handles := (sb_handles (copy_resource c sb1))(key \<mapsto> c)\<rparr>"
    have "sound base (copy_resource c sb1) (add_mset c (add_mset c L)) C B" by (rule copy_owned_sound [OF s1])
    then have "sound base ?sb2 (add_mset c L) C B" by (rule sound_handles_insert) (simp add: h None)
    then have "sound base (drop_resource E t c (copy_resource c ?sb2)) (add_mset c L) C B"
      by (intro drop_resource_sound p copy_owned_sound)
    with i n h None show ?thesis by (auto simp: insert_or_discard_duplicate_def)
  next
    case (Some q)
    have fin: "finite {k. sb_handles sb k = Some q}"
      using soundD(1) [OF s] by (auto simp: fresh_ok_def dom_def elim: rev_finite_subset)
    then have "resource_refs sb1 (add_mset c L) q \<noteq> 0" using Some by (auto simp: resource_refs_def h card_eq_0_iff)
    then obtain cc where cc: "sb_resources sb1 q = Some cc" using counted_some [OF soundD(2) [OF s1]] by blast
    have "sr_uses cc \<noteq> 0" using countedD(2) [OF soundD(2) [OF s1] cc] \<open>resource_refs sb1 _ q \<noteq> 0\<close> by simp
    then have "sound base (copy_resource q sb1) (add_mset c (add_mset q L)) C B"
      using copy_resource_sound [OF s1 cc] by (simp add: add_mset_commute)
    then have "sound base (drop_resource E t c (copy_resource q sb1)) (add_mset q L) C B"
      by (rule drop_resource_sound [OF p])
    with i n h Some show ?thesis by (auto simp: insert_or_discard_duplicate_def)
  qed
qed

section \<open>The documented driver\<close>

text \<open>
  What the driver documents: activating a live context of an initialised driver succeeds, and
  handles, addresses and granularities it returns with success are not zero.
\<close>

definition driver_documented :: "env \<Rightarrow> bool" where
  "driver_documented E \<longleftrightarrow> pushes_succeed E \<and> events_nonnull E
     \<and> (\<forall>h x. rc (E h (CuIpcOpenEventHandle x)) = 0 \<longrightarrow> out (E h (CuIpcOpenEventHandle x)) \<noteq> 0)
     \<and> (\<forall>h n. rc (E h (CuMemAddressReserve n)) = 0 \<longrightarrow> out (E h (CuMemAddressReserve n)) \<noteq> 0)
     \<and> (\<forall>h fd. rc (E h (CuMemImportFromShareableHandle fd)) = 0 \<longrightarrow> out (E h (CuMemImportFromShareableHandle fd)) \<noteq> 0)
     \<and> (\<forall>h d. rc (E h (CuMemGetAllocationGranularity d)) = 0 \<longrightarrow> out (E h (CuMemGetAllocationGranularity d)) \<noteq> 0)"

lemma documented_pushes [simp, intro]: "driver_documented E \<Longrightarrow> pushes_succeed E"
  by (simp add: driver_documented_def)

lemma documented_call:
  assumes "driver_documented E" "call E c s = (r, s')" "rc r = 0"
  shows "case c of CuIpcOpenEventHandle _ \<Rightarrow> out r \<noteq> 0 | CuMemAddressReserve _ \<Rightarrow> out r \<noteq> 0
    | CuMemImportFromShareableHandle _ \<Rightarrow> out r \<noteq> 0 | CuMemGetAllocationGranularity _ \<Rightarrow> out r \<noteq> 0
    | CuEventCreate _ \<Rightarrow> out r \<noteq> 0 | _ \<Rightarrow> True"
  using assms by (auto simp: driver_documented_def events_nonnull_def dest!: callD split: syscall.split)

lemma import_mapped_ok:
  assumes d: "driver_documented E" and i: "import_mapped E dc msg eh fd s = (Some im, s')" and "dc_context dc \<noteq> 0"
  shows "import_ok im \<and> im_context im = Some dc"
proof -
  note n = documented_call [OF d]
  obtain a s1 g s3 v s4 m s5 p s6 e s7 where
    c: "call E (CuMemImportFromShareableHandle fd) s = (a, s1)" "rc a = 0"
      "call E (CuMemGetAllocationGranularity (ucast (bc_device_id msg))) (exec E (Close fd) s1) = (g, s3)" "rc g = 0"
      "call E (CuMemAddressReserve (im_allocation_size im)) s3 = (v, s4)" "rc v = 0"
      "call E (CuIpcOpenEventHandle eh) s6 = (e, s7)" "rc e = 0"
    and im: "im_vmm_allocation im = out a" "im_vmm_address im = out v" "im_event im = out e" "im_dev_ptr im = out v"
      "im_context im = Some dc"
      "im_allocation_size im = (if align_up_size (bc_byte_size msg) (out g) = 0 then out g else align_up_size (bc_byte_size msg) (out g))"
    using i by (auto simp: import_mapped_def Let_def CUDA_SUCCESS_def split: prod.splits if_splits)
  show ?thesis
    using im n [OF c(1,2)] n [OF c(3,4)] n [OF c(5,6)] n [OF c(7,8)] assms(3)
    by (simp add: import_ok_def split: if_splits)
qed

lemma import_vmm_ok:
  assumes d: "driver_documented E" and i: "import_vmm E t msg eh s = (Some im, s')"
  shows "import_ok im \<and> driver_once s' = Some 0 \<and> (\<forall>k. delta s s' k = imported_ledger im k + context_ledger im k)"
proof -
  obtain dc where l: "im_context im = Some dc" "dc_context dc \<noteq> 0" "driver_once s' = Some 0" by (rule import_vmm_live [OF i])
  obtain dc' fd s1 s2 where m: "import_mapped E dc' msg eh fd s1 = (Some im, s2)" by (rule import_vmm_mapped [OF i])
  have "dc' = dc" using import_mapped_Some [OF m] l by simp
  then have "import_ok im" using import_mapped_ok [OF d m] l by simp
  moreover obtain dc'' where "im_context im = Some dc''"
      "\<forall>k. delta s s' k = imported_ledger im k + one (RPrimaryCtx (dc_device dc'')) k"
    using import_vmm_Some [OF i] by metis
  ultimately show ?thesis using l by (simp add: context_ledger_def)
qed

lemma request_fd_once:
  "request_fd_from_publisher E p s = (q, s') \<Longrightarrow> driver_once s' = driver_once s"
  by (auto simp: request_fd_from_publisher_def open_unix_socket_def Let_def
      split: prod.splits if_splits option.splits dest!: callT)

lemma retain_primary_keeps_once:
  "retain_primary E d s = (q, s') \<Longrightarrow> driver_once s = Some v \<Longrightarrow> driver_once s' = Some v"
  by (auto simp: retain_primary_def driver_initialize_def Let_def split: prod.splits if_splits dest!: callT)

lemma import_vmm_once:
  assumes i: "import_vmm E t msg eh s = (x, s')" and v: "driver_once s = Some v"
  shows "driver_once s' = Some v"
proof (cases "length (bc_vmm_socket_path msg) \<ge> sun_path_size")
  case True with i v show ?thesis by (simp add: import_vmm_def)
next
  case short: False
  obtain q s1 where q: "request_fd_from_publisher E (bc_vmm_socket_path msg) s = (q, s1)" by fastforce
  obtain c s2 where c: "retain_primary E (ucast (bc_device_id msg)) s1 = (c, s2)" by fastforce
  have v1: "driver_once s1 = Some v" "driver_once s2 = Some v"
    using request_fd_once [OF q] retain_primary_keeps_once [OF c] v by simp_all
  show ?thesis
  proof (cases "q = None \<or> isl c")
    case True
    with i q c short v1 show ?thesis by (cases q; cases c) (auto simp: import_vmm_def)
  next
    case False
    then obtain fd dc where fd: "q = Some fd" "c = Inr dc" by (cases q; cases c) auto
    obtain g s3 where g: "push_current E t dc s2 = (g, s3)" by fastforce
    have v3: "driver_once s3 = Some v" using guard_push_once [OF g [unfolded push_current_def]] v1 by simp
    show ?thesis
    proof (cases g)
      case (Inl e)
      with i q c fd g short v3 show ?thesis by (auto simp: import_vmm_def device_context_destroy_def)
    next
      case (Inr gd)
      obtain m s4 where m: "import_mapped E dc msg eh fd s3 = (m, s4)" by fastforce
      have "s' = snd (guard_pop E t gd s4) \<or> s' = device_context_destroy E dc (snd (guard_pop E t gd s4))"
        using i q c fd g Inr m short by (auto simp: import_vmm_def split: option.splits)
      then show ?thesis using import_mapped_once [OF m] v3 by (auto simp: guard_pop_ledger device_context_destroy_def)
    qed
  qed
qed

lemma import_vmm_failed:
  assumes "import_vmm E t msg eh s = (None, s')"
  shows "neutral s s'"
  using import_vmm_None [OF assms] import_vmm_once [OF assms] by (simp add: neutral_def)

section \<open>Mapping a message\<close>

lemma find_handle_sound:
  assumes s: "sound base sb L C B" and f: "find_handle k sb = (x, sb')"
  shows "sound base sb' (some_of x + L) C B"
proof (cases "sb_handles sb k")
  case None
  with f s show ?thesis by (simp add: find_handle_def)
next
  case (Some r)
  have "finite {k. sb_handles sb k = Some r}"
    using soundD(1) [OF s] by (auto simp: fresh_ok_def dom_def elim: rev_finite_subset)
  then have n: "resource_refs sb L r \<noteq> 0" using Some by (auto simp: resource_refs_def card_eq_0_iff)
  then obtain c where c: "sb_resources sb r = Some c" using counted_some [OF soundD(2) [OF s]] by blast
  have "sr_uses c \<noteq> 0" using countedD(2) [OF soundD(2) [OF s] c] n by simp
  have "x = Some r" "sb' = copy_resource r sb" using f Some by (simp_all add: find_handle_def)
  with copy_resource_sound [OF s c] \<open>sr_uses c \<noteq> 0\<close> Some show ?thesis by simp
qed

lemma find_or_import_sound:
  assumes d: "driver_documented E" and s: "sound base sb L C B" and f: "find_or_import E t msg sb = (x, sb')"
  shows "sound base sb' (some_of x + L) C B"
proof -
  obtain q sb1 where q: "find_handle (key_of_message msg) sb = (q, sb1)" by fastforce
  note s1 = find_handle_sound [OF s q]
  show ?thesis
  proof (cases q)
    case (Some r)
    then have "x = Some r" "sb' = sb1" using f q by (simp_all add: find_or_import_def)
    with s1 Some show ?thesis by simp
  next
    case None
    obtain o' s2 where o: "import_vmm E t msg (to_cuda_event_handle msg) (sb_sys sb1) = (o', s2)" by fastforce
    show ?thesis
    proof (cases o')
      case failed: None
      have "neutral (sb_sys sb1) s2" using import_vmm_failed o failed by blast
      with s1 None sound_neutral [of base sb1 L C B s2] f q o failed show ?thesis by (auto simp: find_or_import_def)
    next
      case (Some im)
      with o have o: "import_vmm E t msg (to_cuda_event_handle msg) (sb_sys sb1) = (Some im, s2)" by simp
      note im = import_vmm_ok [OF d o]
      have "sound (\<lambda>k. base k + imported_ledger im k + context_ledger im k) (sb1\<lparr>sb_sys := s2\<rparr>) L C B"
        by (rule sound_sys [of base]) (use s1 None im in auto)
      moreover obtain r sb3 where i: "insert_or_discard_duplicate E t (key_of_message msg) im (sb1\<lparr>sb_sys := s2\<rparr>) = (r, sb3)"
        by fastforce
      ultimately have "sound base sb3 (add_mset r L) C B"
        using insert_sound [OF documented_pushes [OF d] _ _ _ i] im by simp
      with f q o None i show ?thesis by (auto simp: find_or_import_def)
    qed
  qed
qed

lemma get_or_attach_frame:
  assumes "get_or_attach E p i u sb = (m, sb')"
  shows "sb' = sb\<lparr>sb_sys := sb_sys sb', sb_mappings := sb_mappings sb'\<rparr> \<and> neutral (sb_sys sb) (sb_sys sb')"
proof -
  obtain c sb1 where c: "cached_mapping (p, i) u sb = (c, sb1)" by fastforce
  have sb1: "sb1 = sb\<lparr>sb_sys := sb_sys sb, sb_mappings := sb_mappings sb1\<rparr>"
    using c by (auto simp: cached_mapping_def split: option.splits if_splits)
  obtain a sb2 where a: "attach_block E (p, i) sb1 = (a, sb2)" by fastforce
  obtain s2 where s2: "sb2 = sb1\<lparr>sb_sys := s2\<rparr>" "neutral (sb_sys sb1) s2" by (rule attach_block_neutral [OF a])
  have e: "sb' = sb1 \<or> (\<exists>mm'. sb' = sb2\<lparr>sb_mappings := mm'\<rparr>) \<or> sb' = sb2"
    using assms c a by (auto simp: get_or_attach_def publish_mapping_def Let_def split: option.splits if_splits prod.splits)
  have y: "sb_sys sb1 = sb_sys sb" using c by (auto simp: cached_mapping_def split: option.splits if_splits)
  show ?thesis using e sb1 s2 y by (cases sb; cases sb1) auto
qed

lemma get_or_attach_sound:
  assumes "sound base sb L C B" "get_or_attach E p i u sb = (m, sb')"
  shows "sound base sb' L C B"
proof -
  note g = get_or_attach_frame [OF assms(2)]
  have "sound base ((sb\<lparr>sb_sys := sb_sys sb'\<rparr>)\<lparr>sb_mappings := sb_mappings sb'\<rparr>) L C B"
    unfolding sound_mappings by (rule sound_neutral [OF assms(1) conjunct2 [OF g]])
  then show ?thesis by (subst conjunct1 [OF g])
qed

lemma mu_destroy_sound:
  assumes "pushes_succeed E" "sound base sb (some_of (mu_resource p) + L) C (some_of (cell_of (mu_buffer_ref p)) + B)"
  shows "sound base (mu_destroy E t p sb) L C B"
  unfolding mu_destroy_def by (intro drop_resource_option_sound drop_buffer_ref_sound assms)

lemma map_descriptor_sound:
  assumes d: "driver_documented E" and s: "sound base sb L C B" and m: "map_descriptor E t msg sb = (x, sb')"
  shows "case x of None \<Rightarrow> sound base sb' L C B
    | Some p \<Rightarrow> sound base sb' (some_of (mu_resource p) + L) C (some_of (cell_of (mu_buffer_ref p)) + B)
        \<and> mu_resource p \<noteq> None \<and> mu_buffer_ref p \<noteq> None"
proof (cases "bc_publisher_pid msg = 0")
  case True with m s show ?thesis by (auto simp: map_descriptor_def)
next
  case pid: False
  obtain mo sb1 where g: "get_or_attach E (bc_publisher_pid msg) (bc_block_id msg) (bc_uid msg) sb = (mo, sb1)" by fastforce
  note s1 = get_or_attach_sound [OF s g]
  obtain b sh2 where a: "acquire mo (bc_uid msg) (sb_shm sb1) = (b, sh2)" by fastforce
  note s2 = acquire_sound [OF s1 a]
  show ?thesis
  proof (cases "br_valid b")
    case False
    then have "cell_of (Some b) = None" by (simp add: br_valid_def cell_of_def)
    with s2 m g a pid False show ?thesis by (simp add: map_descriptor_def)
  next
    case True
    obtain q sb3 where q: "find_or_import E t msg (sb1\<lparr>sb_shm := sh2\<rparr>) = (q, sb3)" by fastforce
    note s3 = find_or_import_sound [OF d s2 q]
    show ?thesis
    proof (cases q)
      case None
      with s3 drop_buffer_ref_sound [of base sb3 L C "Some b" B] m g a pid True q show ?thesis
        by (auto simp: map_descriptor_def)
    next
      case (Some r)
      let ?p = "\<lparr>mu_resource = Some r, mu_buffer_ref = Some b, mu_byte_size = bc_byte_size msg, mu_device_id = ucast (bc_device_id msg)\<rparr>"
      have "x = None \<and> sb' = mu_destroy E t ?p sb3 \<or> x = Some ?p \<and> sb' = sb3"
        using m g a pid True q Some by (auto simp: map_descriptor_def make_publication_def Let_def split: if_splits)
      with s3 Some mu_destroy_sound [OF documented_pushes [OF d], of base sb3 ?p L C B t] show ?thesis by auto
    qed
  qed
qed

section \<open>Binding and releasing a read\<close>

lemma create_completion_sound:
  assumes d: "driver_documented E" and s: "sound base sb (add_mset r L) C B"
    and c: "create_completion_event E t r sb = (x, sb')"
  shows "sound base sb' (add_mset r L) (some_of x + C) B"
proof -
  obtain c0 where c0: "sb_resources sb r = Some c0" "sr_uses c0 \<noteq> 0" by (rule owned_resource [OF s])
  obtain dc where dc: "context_of sb r = Some dc" "dc_context dc \<noteq> 0" by (rule context_of_some [OF s c0(1)])
  let ?body = "\<lambda>s. let (q, s') = call E (CuEventCreate False) s
                      in (if rc q \<noteq> CUDA_SUCCESS then None else Some (out q), s')"
  obtain e s1 where w: "with_guard E t (dc_context dc) (\<lambda>_. None) ?body (sb_sys sb) = (e, s1)" by fastforce
  have once: "driver_once (sb_sys sb) = Some 0" by (rule once_of [OF s c0(1)])
  have o1: "driver_once s1 = Some 0"
    by (rule with_guard_once [OF w once]) (auto split: prod.splits dest!: callT)
  show ?thesis
  proof (cases e)
    case None
    have "neutral (sb_sys sb) s1"
    proof (rule with_guard_cases [OF w])
      fix a b assume b: "?body a = (e, b)" and n: "\<And>k. delta (sb_sys sb) s1 k = delta a b k"
      have "delta a b k = 0" for k
        using b None by (auto simp: CUDA_SUCCESS_def delta_call split: prod.splits if_splits)
      with n o1 once show ?thesis by (simp add: neutral_def)
    qed (use o1 once in \<open>simp add: neutral_def\<close>)
    with sound_neutral [OF s] c None w dc show ?thesis by (auto simp: create_completion_event_def)
  next
    case (Some event)
    let ?ce = "\<lparr>ce_context = Some r, ce_event = event\<rparr>"
    obtain a b where b: "?body a = (Some event, b)" "\<And>k. delta (sb_sys sb) s1 k = delta a b k"
      by (rule with_guard_cases [OF w]) (use Some in auto)
    have d1: "delta (sb_sys sb) s1 k = one (REvent event) k" for k
      using b by (auto simp: CUDA_SUCCESS_def delta_call split: prod.splits if_splits)
    have nz: "event \<noteq> 0" using b(1) documented_call [OF d, of "CuEventCreate False"]
      by (auto simp: CUDA_SUCCESS_def split: prod.splits if_splits)
    let ?c = "c0\<lparr>sr_context_uses := sr_context_uses c0 + 1\<rparr>"
    have e: "x = Some ?ce" "sb' = sb\<lparr>sb_sys := s1, sb_resources := (sb_resources sb)(r \<mapsto> ?c)\<rparr>"
      using c w dc Some c0 by (simp_all add: create_completion_event_def copy_context_def update_resource_def)
    note cd = countedD [OF soundD(2) [OF s] c0(1)]
    have f: "completions sb' (add_mset ?ce C) = add_mset ?ce (completions sb C)"
      by (simp add: completions_def queued_def e)
    have g: "context_refs sb' (add_mset ?ce C) q = (if q = r then 1 else 0) + context_refs sb C q" for q
      by (simp add: context_refs_def f)
    have "sound base sb' (add_mset r L) (add_mset ?ce C) B"
      by (rule sound_step [OF s c0(1) _ e(2) o1]) (use cd c0(2) d1 nz f g soundD(3) [OF s] in \<open>auto simp: slot_def\<close>)
    then show ?thesis by (simp add: e(1))
  qed
qed

definition read_ok :: "read_impl \<Rightarrow> bool" where
  "read_ok i \<longleftrightarrow> ri_resource i \<noteq> None \<and> ri_buffer_ref i \<noteq> None \<and> ri_completion i \<noteq> None
     \<and> ri_deferred_item i = Some DeferredItem"

lemma make_bound_sound:
  assumes d: "driver_documented E" and m: "make_bound E t p stream sb = ((ro, p'), sb')"
    and s: "sound base sb (some_of (mu_resource p) + L) C (some_of (cell_of (mu_buffer_ref p)) + B)"
  shows "case ro of
      None \<Rightarrow> p' = p \<and> sound base sb' (some_of (mu_resource p) + L) C (some_of (cell_of (mu_buffer_ref p)) + B)
    | Some i \<Rightarrow> mu_resource p' = None \<and> mu_buffer_ref p' = None \<and> read_ok i \<and> ri_resource i = mu_resource p
        \<and> sound base sb' (some_of (ri_resource i) + L) (some_of (ri_completion i) + C) (some_of (cell_of (ri_buffer_ref i)) + B)"
proof (cases "mu_valid sb p")
  case False with m s show ?thesis by (auto simp: make_bound_def)
next
  case valid: True
  then obtain r where r: "mu_resource p = Some r" "mu_buffer_ref p \<noteq> None"
    by (cases "mu_resource p") (auto simp: mu_valid_def has_device_memory_def)
  let ?B = "some_of (cell_of (mu_buffer_ref p)) + B"
  obtain v sb1 where v: "validate_stream E t (mu_resource p) stream sb = (v, sb1)" by fastforce
  have s1: "sound base sb1 (add_mset r L) C ?B"
    using validate_stream_neutral [OF v] sound_neutral [OF s] r by (metis add_mset_add_single some_of_simps(2) union_commute)
  obtain e sb2 where e: "create_completion_event E t r sb1 = (e, sb2)" by fastforce
  note s2 = create_completion_sound [OF d s1 e]
  obtain q sb3 where q: "enqueue_ready_event E t (mu_resource p) stream sb2 = (q, sb3)" by fastforce
  have s3: "sound base sb3 (add_mset r L) (some_of e + C) ?B"
    using enqueue_ready_event_neutral [OF q] sound_neutral [OF s2] by metis
  note drop = drop_completion_sound [OF documented_pushes [OF d] s3, of t]
  obtain c1 where "sb_resources sb1 r = Some c1" by (rule owned_resource [OF s1])
  then have ctx: "context_of sb1 r \<noteq> None" using context_of_some [OF s1] by (metis option.distinct(1))
  have "ro = None \<and> p' = p \<and> (sb' = sb1 \<or> sb' = sb2 \<and> e = None \<or> sb' = drop_completion E t e sb3)
      \<or> ro = Some \<lparr>ri_resource = mu_resource p, ri_buffer_ref = mu_buffer_ref p, ri_deferred_item = Some DeferredItem,
           ri_byte_size = mu_byte_size p, ri_device_id = mu_device_id p, ri_consumer_stream = stream, ri_completion = e\<rparr>
        \<and> p' = p\<lparr>mu_resource := None, mu_buffer_ref := None\<rparr> \<and> sb' = sb3 \<and> e \<noteq> None"
    using m valid v e q r ctx by (auto simp: make_bound_def Let_def split: if_splits)
  then show ?thesis using s1 s2 s3 drop r by (auto simp: read_ok_def)
qed

lemma delete_item_sound:
  assumes "pushes_succeed E"
    "sound base sb (some_of (di_resource it) + L) (some_of (di_completion it) + C) (some_of (cell_of (di_buffer_ref it)) + B)"
  shows "sound base (delete_item E t it sb) L C B"
  unfolding delete_item_def
  by (intro drop_completion_sound drop_resource_option_sound drop_buffer_ref_sound assms)

text \<open>The completion a read or an item owns is alive, so the release is always deferred.\<close>

lemma owned_completion_alive:
  assumes s: "sound base sb L (add_mset c C) B"
  obtains r dc where "ce_event c \<noteq> 0" "ce_context c = Some r" "context_of sb r = Some dc" "dc_context dc \<noteq> 0"
proof -
  obtain r where c: "ce_event c \<noteq> 0" "ce_context c = Some r" using soundD(3) [OF s] by (auto simp: completions_def)
  then have "context_refs sb (add_mset c C) r \<noteq> 0" by (simp add: context_refs_def completions_def)
  then obtain x where x: "sb_resources sb r = Some x" using counted_some [OF soundD(2) [OF s]] by blast
  show thesis by (rule context_of_some [OF s x]) (rule that [OF c])
qed

lemma record_neutral:
  assumes "with_guard E t c f (\<lambda>s. let (q, s') = call E (CuEventRecord ev stream) s in (rc q = CUDA_SUCCESS, s')) s = (ok, s')"
  shows "neutral s s'"
proof (rule neutral_guard [OF assms])
  fix s1 y s2
  assume b: "(let (q, s') = call E (CuEventRecord ev stream) s1 in (rc q = CUDA_SUCCESS, s')) = (y, s2)"
  then obtain q where "call E (CuEventRecord ev stream) s1 = (q, s2)" by (auto split: prod.splits)
  then show "neutral s1 s2 \<and> driver_once s2 = driver_once s1" using neutral_call callT by fastforce
qed

lemma record_logged:
  assumes "with_guard E t c f (\<lambda>s. let (q, s') = call E (CuEventRecord ev stream) s in (rc q = CUDA_SUCCESS, s')) s = (True, s')"
    and "\<And>e. \<not> f e"
  shows "\<exists>new q. tr s' = new @ tr s \<and> (CuEventRecord ev stream, q) \<in> set new \<and> rc q = 0"
  using assms
  by (auto simp: with_guard_def guard_push_def driver_initialize_def guard_pop_def Let_def CUDA_SUCCESS_def
      split: prod.splits sum.splits option.splits if_splits dest!: callT)

text \<open>
  Destroying a bound read defers its release: its event is recorded on the consumer's stream and
  the item with all its owners is queued; when recording fails the item is kept for good.
\<close>

lemma rh_destroy_deferred:
  assumes i: "read_ok i" and s: "sound base sb L (some_of (ri_completion i) + C) B"
  obtains c s1 it where "ri_completion i = Some c"
    "it = \<lparr>di_completion = ri_completion i, di_resource = ri_resource i, di_buffer_ref = ri_buffer_ref i\<rparr>"
    "neutral (sb_sys sb) s1"
    "rh_destroy E t (Some i) sb = sb\<lparr>sb_sys := s1, sb_items := sb_items sb @ [it]\<rparr>
        \<and> (\<exists>new q. tr s1 = new @ tr (sb_sys sb) \<and> (CuEventRecord (ce_event c) (ri_consumer_stream i), q) \<in> set new \<and> rc q = 0)
      \<or> rh_destroy E t (Some i) sb = sb\<lparr>sb_sys := s1, sb_failed := sb_failed sb @ [it]\<rparr>"
proof -
  obtain b c where b: "ri_buffer_ref i = Some b" and c: "ri_completion i = Some c" using i by (auto simp: read_ok_def)
  from s c have s': "sound base sb L (add_mset c C) B" by simp
  obtain r dc where dc: "ce_event c \<noteq> 0" "ce_context c = Some r" "context_of sb r = Some dc"
    by (rule owned_completion_alive [OF s'])
  let ?W = "with_guard E t (dc_context dc) (\<lambda>_. False) (\<lambda>s. let (q, s') = call E (CuEventRecord (ce_event c) (ri_consumer_stream i)) s
                              in (rc q = CUDA_SUCCESS, s')) (sb_sys sb)"
  let ?it = "\<lparr>di_completion = ri_completion i, di_resource = ri_resource i, di_buffer_ref = ri_buffer_ref i\<rparr>"
  obtain ok s1 where w: "?W = (ok, s1)" by fastforce
  have e: "rh_destroy E t (Some i) sb = (if ok then sb\<lparr>sb_sys := s1, sb_items := sb_items sb @ [?it]\<rparr>
      else sb\<lparr>sb_sys := s1, sb_failed := sb_failed sb @ [?it]\<rparr>)"
    using b c dc w by (simp add: rh_destroy_def ri_release_def drop_completion_def drop_resource_option_def drop_buffer_ref_def Let_def)
  show thesis
  proof (rule that [OF c refl record_neutral [OF w]], cases ok)
    case True
    have "\<exists>new q. tr s1 = new @ tr (sb_sys sb)
        \<and> (CuEventRecord (ce_event c) (ri_consumer_stream i), q) \<in> set new \<and> rc q = 0"
      by (rule record_logged [where f = "\<lambda>_. False"], use w True in simp) simp
    with e True show "rh_destroy E t (Some i) sb = sb\<lparr>sb_sys := s1, sb_items := sb_items sb @ [?it]\<rparr>
        \<and> (\<exists>new q. tr s1 = new @ tr (sb_sys sb) \<and> (CuEventRecord (ce_event c) (ri_consumer_stream i), q) \<in> set new \<and> rc q = 0)
      \<or> rh_destroy E t (Some i) sb = sb\<lparr>sb_sys := s1, sb_failed := sb_failed sb @ [?it]\<rparr>" by simp
  qed (use e in simp)
qed

lemma rh_destroy_sound:
  assumes i: "read_ok i"
    and s: "sound base sb (some_of (ri_resource i) + L) (some_of (ri_completion i) + C) (some_of (cell_of (ri_buffer_ref i)) + B)"
  shows "sound base (rh_destroy E t (Some i) sb) L C B"
proof -
  obtain c s1 it where it: "it = \<lparr>di_completion = ri_completion i, di_resource = ri_resource i, di_buffer_ref = ri_buffer_ref i\<rparr>"
    and n: "neutral (sb_sys sb) s1"
    and q: "rh_destroy E t (Some i) sb = sb\<lparr>sb_sys := s1, sb_items := sb_items sb @ [it]\<rparr>
      \<or> rh_destroy E t (Some i) sb = sb\<lparr>sb_sys := s1, sb_failed := sb_failed sb @ [it]\<rparr>"
    by (rule rh_destroy_deferred [OF i s, of E t]) blast
  show ?thesis
    using sound_enqueue [of base "sb\<lparr>sb_sys := s1\<rparr>" it L C B] sound_neutral [OF s n] q by (auto simp: it)
qed

section \<open>The worker\<close>

lemma sound_pop:
  "sound (\<lambda>k. base k + one RPushedCtx k) sb L C B \<Longrightarrow>
   sound base (sb\<lparr>sb_sys := snd (guard_pop E t \<lparr>cg_context = c, cg_owner_thread = t, cg_active = True\<rparr> (sb_sys sb))\<rparr>) L C B"
  by (rule sound_sys) (simp_all add: guard_pop_ledger algebra_simps)

lemma worker_finish_sound:
  assumes p: "pushes_succeed E"
    and s: "sound base sb (some_of (di_resource it) + L) (some_of (di_completion it) + C) (some_of (cell_of (di_buffer_ref it)) + B)"
  shows "sound base (if failed then sb\<lparr>sb_failed := sb_failed sb @ [it]\<rparr>
      else drop_buffer_ref (di_buffer_ref it) (drop_resource_option E t (di_resource it) (drop_completion E t (di_completion it) sb))) L C B"
proof (cases failed)
  case False
  have "sound base (drop_buffer_ref (di_buffer_ref it) (drop_resource_option E t (di_resource it) (drop_completion E t (di_completion it) sb))) L C B"
    by (intro drop_buffer_ref_sound drop_resource_option_sound drop_completion_sound p s)
  with False show ?thesis by simp
qed (use sound_enqueue(2) [OF s] in simp)

lemma worker_step_sound:
  assumes d: "driver_documented E" and s: "sound base sb L C B"
  shows "sound base (worker_step E t sb) L C B"
proof (cases "sb_items sb")
  case Nil with s show ?thesis by (simp add: worker_step_def)
next
  case (Cons it rest)
  note p = documented_pushes [OF d]
  let ?sb = "sb\<lparr>sb_items := rest\<rparr>"
  let ?L = "some_of (di_resource it) + L" and ?B = "some_of (cell_of (di_buffer_ref it)) + B"
  note s0 = sound_dequeue [OF s Cons]
  show ?thesis
  proof (cases "di_completion it")
    case None
    then have "worker_step E t sb = delete_item E t it ?sb" using Cons by (simp add: worker_step_def Let_def)
    with delete_item_sound [OF p s0] show ?thesis by simp
  next
    case (Some c)
    have s0': "sound base ?sb ?L (add_mset c C) ?B" using s0 Some by simp
    obtain r dc where c: "ce_event c \<noteq> 0" "ce_context c = Some r" "context_of ?sb r = Some dc"
      by (rule owned_completion_alive [OF s0'])
    obtain g s1 where g: "push_current E t dc (sb_sys ?sb) = (g, s1)" by fastforce
    note once = guard_push_once [OF g [unfolded push_current_def]]
    show ?thesis
    proof (cases g)
      case (Inl e)
      have "neutral (sb_sys ?sb) s1"
        using guard_push_Inl [of E t _ _ e s1] g Inl once by (auto simp: neutral_def push_current_def)
      from sound_enqueue(2) [of base "?sb\<lparr>sb_sys := s1\<rparr>" it L C B] sound_neutral [OF s0 this]
      have "sound base (?sb\<lparr>sb_sys := s1, sb_failed := sb_failed sb @ [it]\<rparr>) L C B" by simp
      with Cons Some c g Inl show ?thesis by (simp add: worker_step_def Let_def)
    next
      case (Inr gd)
      let ?base = "\<lambda>k. base k + one RPushedCtx k"
      have gd: "gd = \<lparr>cg_context = dc_context dc, cg_owner_thread = t, cg_active = True\<rparr>"
        and dl: "\<And>k. delta (sb_sys ?sb) s1 k = one RPushedCtx k"
        using guard_push_Inr [of E t _ _ gd s1] g Inr by (simp_all add: push_current_def)
      have s1: "sound ?base (?sb\<lparr>sb_sys := s1\<rparr>) ?L (add_mset c C) ?B"
        by (rule sound_sys [OF s0']) (use once dl in simp_all)
      obtain q s2 where q: "call E (CuEventSynchronize (ce_event c)) s1 = (q, s2)" by fastforce
      let ?sb2 = "?sb\<lparr>sb_sys := s2\<rparr>"
      have "neutral s1 s2" using neutral_call [OF q] by simp
      then have s2: "sound ?base ?sb2 ?L (some_of (di_completion it) + C) ?B"
        using sound_neutral [OF s1, of s2] Some by simp
      let ?sb3 = "if rc q \<noteq> CUDA_SUCCESS then ?sb2\<lparr>sb_failed := sb_failed ?sb2 @ [it]\<rparr>
          else drop_buffer_ref (di_buffer_ref it) (drop_resource_option E t (di_resource it) (drop_completion E t (di_completion it) ?sb2))"
      have "sound ?base ?sb3 L C B"
        using worker_finish_sound [OF p s2, of "rc q \<noteq> CUDA_SUCCESS" t] by simp
      then have "sound base (?sb3\<lparr>sb_sys := snd (guard_pop E t gd (sb_sys ?sb3))\<rparr>) L C B"
        unfolding gd by (rule sound_pop)
      moreover have "worker_step E t sb = ?sb3\<lparr>sb_sys := snd (guard_pop E t gd (sb_sys ?sb3))\<rparr>"
        using Cons Some c g Inr q by (simp add: worker_step_def Let_def)
      ultimately show ?thesis by simp
    qed
  qed
qed

section \<open>What mapping leaves alone\<close>

definition same_shared :: "subscriber \<Rightarrow> subscriber \<Rightarrow> bool" where
  "same_shared sb sb' \<longleftrightarrow> sb_shm sb' = sb_shm sb \<and> sb_items sb' = sb_items sb \<and> sb_failed sb' = sb_failed sb"

lemma same_shared_refl [simp]: "same_shared sb sb"
  by (simp add: same_shared_def)

lemma same_shared_trans [trans]: "same_shared a b \<Longrightarrow> same_shared b c \<Longrightarrow> same_shared a c"
  by (simp add: same_shared_def)

lemma same_client_shared: "same_client_state sb sb' \<Longrightarrow> same_shared sb sb'"
  by (simp add: same_client_state_def same_shared_def)

lemma same_shared_fields [simp]:
  "same_shared sb (sb\<lparr>sb_sys := s\<rparr>)" "same_shared sb (sb\<lparr>sb_handles := h\<rparr>)" "same_shared sb (sb\<lparr>sb_mappings := m\<rparr>)"
  by (simp_all add: same_shared_def)

lemma same_shared_drops [simp]:
  "same_shared sb (drop_resource E t r sb)" "same_shared sb (drop_resource_option E t x sb)"
  "same_shared sb (copy_resource r sb)" "same_shared sb (copy_context r sb)" "same_shared sb (drop_context E r sb)"
  by (rule same_client_shared, simp)+

lemma destroy_completion_shared [simp]: "same_shared sb (destroy_completion E t ce sb)"
proof -
  have "same_shared sb (drop_context E r (sb\<lparr>sb_sys := s\<rparr>))" for r s
    by (rule same_shared_trans [OF same_shared_fields(1) same_shared_drops(5)])
  then show ?thesis by (auto simp: destroy_completion_def Let_def split: option.split)
qed

lemma drop_completion_shared [simp]: "same_shared sb (drop_completion E t ce sb)"
  by (simp add: drop_completion_def split: option.split)

lemma insert_shared: "insert_or_discard_duplicate E t k im sb = (r, sb') \<Longrightarrow> same_shared sb sb'"
  using same_client_stateD [OF drop_resource_same]
  by (auto simp: insert_or_discard_duplicate_def new_resource_def Let_def same_shared_def split: option.splits)

lemma find_or_import_shared:
  assumes "find_or_import E t msg sb = (x, sb')"
  shows "same_shared sb sb'"
proof -
  obtain q sb1 where q: "find_handle (key_of_message msg) sb = (q, sb1)" by fastforce
  have s1: "same_shared sb sb1" using q by (auto simp: find_handle_def split: option.splits)
  show ?thesis
  proof (cases q)
    case None
    obtain o' s2 where o: "import_vmm E t msg (to_cuda_event_handle msg) (sb_sys sb1) = (o', s2)" by fastforce
    have s2: "same_shared sb (sb1\<lparr>sb_sys := s2\<rparr>)" using same_shared_trans [OF s1] by simp
    then show ?thesis using assms q None o
      by (auto simp: find_or_import_def split: option.splits prod.splits intro: same_shared_trans insert_shared)
  qed (use assms q s1 in \<open>auto simp: find_or_import_def\<close>)
qed

lemma get_or_attach_shared: "get_or_attach E p i u sb = (m, sb') \<Longrightarrow> same_shared sb sb'"
proof -
  assume "get_or_attach E p i u sb = (m, sb')"
  note e = conjunct1 [OF get_or_attach_frame [OF this]]
  show ?thesis using arg_cong [OF e, of sb_shm] arg_cong [OF e, of sb_items] arg_cong [OF e, of sb_failed]
    by (simp add: same_shared_def)
qed

lemma create_completion_shared: "create_completion_event E t r sb = (x, sb') \<Longrightarrow> same_shared sb sb'"
  by (auto simp: create_completion_event_def Let_def split: option.splits prod.splits
      intro: same_shared_trans [OF same_shared_fields(1) same_shared_drops(4)])

text \<open>Binding is all or nothing: a failure leaves the publication as it was.\<close>

lemma make_bound_cases:
  assumes "make_bound E t p stream sb = ((ro, p'), sb')"
  shows "same_shared sb sb' \<and> (case ro of
      None \<Rightarrow> p' = p
    | Some i \<Rightarrow> p' = p\<lparr>mu_resource := None, mu_buffer_ref := None\<rparr> \<and> mu_valid sb p
        \<and> (\<exists>e. i = \<lparr>ri_resource = mu_resource p, ri_buffer_ref = mu_buffer_ref p, ri_deferred_item = Some DeferredItem,
           ri_byte_size = mu_byte_size p, ri_device_id = mu_device_id p, ri_consumer_stream = stream, ri_completion = e\<rparr>))"
proof (cases "mu_valid sb p")
  case False with assms show ?thesis by (auto simp: make_bound_def)
next
  case valid: True
  obtain v sb1 where v: "validate_stream E t (mu_resource p) stream sb = (v, sb1)" by fastforce
  obtain e sb2 where e: "create_completion_event E t (the (mu_resource p)) sb1 = (e, sb2)" by fastforce
  obtain q sb3 where q: "enqueue_ready_event E t (mu_resource p) stream sb2 = (q, sb3)" by fastforce
  have s: "same_shared sb sb1" using validate_stream_neutral [OF v] by (metis same_shared_fields(1))
  have s2: "same_shared sb sb2" by (rule same_shared_trans [OF s create_completion_shared [OF e]])
  have "same_shared sb2 sb3" using enqueue_ready_event_neutral [OF q] by (metis same_shared_fields(1))
  then have s3: "same_shared sb sb3" using s2 same_shared_trans by blast
  show ?thesis using assms valid v e q s s2 s3 same_shared_trans [OF s3 drop_completion_shared]
    by (auto simp: make_bound_def Let_def split: if_splits)
qed

lemma drop_completion_queue [simp]:
  "sb_items (drop_completion E t ce sb) = sb_items sb" "sb_failed (drop_completion E t ce sb) = sb_failed sb"
  "sb_shm (drop_completion E t ce sb) = sb_shm sb"
  using drop_completion_shared [of sb E t ce] by (simp_all add: same_shared_def)

lemmas drop_queue [simp] = same_client_stateD(4,5) [OF drop_resource_option_same]

lemma delete_item_queue [simp]:
  "sb_items (delete_item E t it sb) = sb_items sb" "sb_failed (delete_item E t it sb) = sb_failed sb"
  by (simp_all add: delete_item_def)

text \<open>The queue only shrinks by one item a step, which is released or kept for good.\<close>

lemma worker_step_queue:
  "sb_items (worker_step E t sb) = tl (sb_items sb)"
  "sb_failed (worker_step E t sb) = sb_failed sb
   \<or> sb_items sb \<noteq> [] \<and> sb_failed (worker_step E t sb) = sb_failed sb @ [hd (sb_items sb)]"
  by (auto simp: worker_step_def Let_def split: list.split option.split sum.split prod.split)

end
