(* ===== verification/Subscriber_Process.thy ===== *)
theory Subscriber_Process
  imports Subscriber_Ownership
begin

text \<open>
  A subscriber process as a state machine: its recorded state, the read handles the
  application keeps, and the references other processes hold on the shared cells. A step is one
  whole operation of some thread of the process or one operation of another process on a cell;
  the interleaving of single atomic accesses to a cell is the subject of Lease_Protocol.
\<close>

record process_state =
  ps_sub :: subscriber
  ps_reads :: "read_impl list"
  ps_others :: "nat multiset"

definition initial_process :: "sys \<Rightarrow> shm \<Rightarrow> process_state" where
  "initial_process s sh = \<lparr>ps_sub = initial_subscriber s sh, ps_reads = [], ps_others = {#}\<rparr>"

definition reads_after :: "read_impl list \<Rightarrow> read_handle \<Rightarrow> read_impl list" where
  "reads_after xs h = (case h of None \<Rightarrow> xs | Some i \<Rightarrow> xs @ [i])"

text \<open>What another process does to shared memory, and which reference it has afterwards.\<close>

inductive other_step :: "shm \<Rightarrow> nat multiset \<Rightarrow> shm \<Rightarrow> nat multiset \<Rightarrow> bool" where
  reserve: "reserve_cell now (load_meta sh a) = (Some u, c) \<Longrightarrow> other_step sh X (store_meta a c sh) (add_mset a X)"
| finish: "release_reservation_cell now u published (load_meta sh a) = (True, c) \<Longrightarrow>
      other_step sh (add_mset a X) (store_meta a c sh) X"
| acquire: "acquire_cell u (load_meta sh a) = (True, c) \<Longrightarrow> other_step sh X (store_meta a c sh) (add_mset a X)"
| release: "other_step sh (add_mset a X) (store_meta a (release_cell (load_meta sh a)) sh) X"
| names: "(\<forall>a. load_meta sh' a = load_meta sh a
            \<or> bm_refcount (load_meta sh a) = 0 \<and> bm_refcount (load_meta sh' a) = 0) \<Longrightarrow> other_step sh X sh' X"

inductive subscriber_step :: "env \<Rightarrow> process_state \<Rightarrow> process_state \<Rightarrow> bool" for E where
  read: "map_message E t msg stream (ps_sub p) = (h, sb) \<Longrightarrow>
      subscriber_step E p (p\<lparr>ps_sub := sb, ps_reads := reads_after (ps_reads p) h\<rparr>)"
| destroy: "ps_reads p = xs @ i # ys \<Longrightarrow>
      subscriber_step E p (p\<lparr>ps_sub := rh_destroy E t (Some i) (ps_sub p), ps_reads := xs @ ys\<rparr>)"
| worker: "subscriber_step E p (p\<lparr>ps_sub := worker_step E t (ps_sub p)\<rparr>)"
| clear: "distinct ks \<Longrightarrow> set ks = dom (sb_handles (ps_sub p)) \<Longrightarrow>
      subscriber_step E p (p\<lparr>ps_sub := clear_handles E t ks (ps_sub p)\<rparr>)"
| forget: "subscriber_step E p (p\<lparr>ps_sub := clear_mappings (ps_sub p)\<rparr>)"
| other: "other_step (sb_shm (ps_sub p)) (ps_others p) sh X \<Longrightarrow>
      subscriber_step E p (p\<lparr>ps_sub := (ps_sub p)\<lparr>sb_shm := sh\<rparr>, ps_others := X\<rparr>)"

inductive process_reachable :: "env \<Rightarrow> sys \<Rightarrow> shm \<Rightarrow> process_state \<Rightarrow> bool" for E s sh where
  start: "process_reachable E s sh (initial_process s sh)"
| step: "process_reachable E s sh p \<Longrightarrow> subscriber_step E p q \<Longrightarrow> process_reachable E s sh q"

section \<open>The invariant\<close>

definition read_cells :: "read_impl list \<Rightarrow> nat multiset" where
  "read_cells = gather (\<lambda>i. cell_of (ri_buffer_ref i))"

definition process_ok :: "(resource \<Rightarrow> int) \<Rightarrow> process_state \<Rightarrow> bool" where
  "process_ok base p \<longleftrightarrow>
     sound base (ps_sub p) (gather ri_resource (ps_reads p)) (gather ri_completion (ps_reads p))
       (read_cells (ps_reads p) + ps_others p)
     \<and> (\<forall>i \<in> set (ps_reads p). read_ok i) \<and> (\<forall>it \<in> set (queued (ps_sub p)). di_completion it \<noteq> None)"

lemma map_message_sound:
  assumes d: "driver_documented E" and s: "sound base sb L C B" and m: "map_message E t msg stream sb = (h, sb')"
  shows "case h of None \<Rightarrow> sound base sb' L C B
    | Some i \<Rightarrow> read_ok i \<and> sound base sb' (some_of (ri_resource i) + L) (some_of (ri_completion i) + C)
        (some_of (cell_of (ri_buffer_ref i)) + B)"
proof -
  obtain x sb1 where x: "map_descriptor E t msg sb = (x, sb1)" by fastforce
  note s1 = map_descriptor_sound [OF d s x]
  show ?thesis
  proof (cases x)
    case None with m x s1 show ?thesis by (auto simp: map_message_def acquire_publication_def)
  next
    case (Some p)
    obtain ro p' sb2 where b: "make_bound E t p stream sb1 = ((ro, p'), sb2)" by (metis surj_pair)
    have h: "h = ro" "sb' = mu_destroy E t p' sb2"
      using m x Some b by (simp_all add: map_message_def acquire_publication_def)
    have s2: "sound base sb1 (some_of (mu_resource p) + L) C (some_of (cell_of (mu_buffer_ref p)) + B)"
      using s1 Some by simp
    note s3 = make_bound_sound [OF d b s2]
    show ?thesis
    proof (cases ro)
      case None
      with s3 mu_destroy_sound [OF documented_pushes [OF d], of base sb2 p L C B t] h show ?thesis by simp
    next
      case (Some i)
      with s3 have "mu_destroy E t p' sb2 = sb2"
        by (simp add: mu_destroy_def drop_resource_option_def drop_buffer_ref_def)
      with s3 Some h show ?thesis by auto
    qed
  qed
qed

text \<open>
  What a mapping does to shared memory: nothing when it fails, whatever had been acquired by
  then; one more reader on the cell of the message's generation when it succeeds.
\<close>

lemma map_descriptor_shared:
  assumes "map_descriptor E t msg sb = (x, sb')"
  shows "sb_items sb' = sb_items sb \<and> sb_failed sb' = sb_failed sb
    \<and> (case x of
        None \<Rightarrow> sb_shm sb' = sb_shm sb
      | Some p \<Rightarrow> bc_publisher_pid msg \<noteq> 0 \<and> mu_byte_size p = bc_byte_size msg \<and> mu_device_id p = ucast (bc_device_id msg)
          \<and> (\<exists>m b. acquire m (bc_uid msg) (sb_shm sb) = (b, sb_shm sb') \<and> br_valid b \<and> mu_buffer_ref p = Some b))"
proof (cases "bc_publisher_pid msg = 0")
  case True with assms show ?thesis by (auto simp: map_descriptor_def)
next
  case pid: False
  obtain mo sb1 where g: "get_or_attach E (bc_publisher_pid msg) (bc_block_id msg) (bc_uid msg) sb = (mo, sb1)" by fastforce
  note s1 = get_or_attach_shared [OF g, unfolded same_shared_def]
  obtain b sh2 where a: "acquire mo (bc_uid msg) (sb_shm sb1) = (b, sh2)" by fastforce
  note ad = acquire_drop [OF a]
  show ?thesis
  proof (cases "br_valid b")
    case False
    with assms g a pid ad s1 show ?thesis by (auto simp: map_descriptor_def)
  next
    case True
    obtain q sb3 where q: "find_or_import E t msg (sb1\<lparr>sb_shm := sh2\<rparr>) = (q, sb3)" by fastforce
    note s3 = find_or_import_shared [OF q, unfolded same_shared_def]
    show ?thesis
    proof (cases q)
      case None
      with assms g a pid True q s1 s3 ad show ?thesis by (auto simp: map_descriptor_def drop_buffer_ref_def)
    next
      case (Some r)
      let ?p = "\<lparr>mu_resource = Some r, mu_buffer_ref = Some b, mu_byte_size = bc_byte_size msg, mu_device_id = ucast (bc_device_id msg)\<rparr>"
      have d: "same_shared (drop_buffer_ref (Some b) sb3) (mu_destroy E t ?p sb3)" by (simp add: mu_destroy_def)
      have "x = None \<and> sb' = mu_destroy E t ?p sb3 \<or> x = Some ?p \<and> sb' = sb3"
        using assms g a pid True q Some by (auto simp: map_descriptor_def make_publication_def Let_def split: if_splits)
      then show ?thesis using s1 s3 ad a True pid d by (auto simp: same_shared_def drop_buffer_ref_def)
    qed
  qed
qed

lemma map_message_shared:
  assumes "map_message E t msg stream sb = (h, sb')"
  shows "sb_items sb' = sb_items sb \<and> sb_failed sb' = sb_failed sb
    \<and> (case h of
        None \<Rightarrow> sb_shm sb' = sb_shm sb
      | Some i \<Rightarrow> bc_publisher_pid msg \<noteq> 0 \<and> ri_byte_size i = bc_byte_size msg
          \<and> ri_device_id i = ucast (bc_device_id msg) \<and> ri_consumer_stream i = stream
          \<and> (\<exists>m b. acquire m (bc_uid msg) (sb_shm sb) = (b, sb_shm sb') \<and> br_valid b \<and> ri_buffer_ref i = Some b))"
proof -
  obtain x sb1 where x: "map_descriptor E t msg sb = (x, sb1)" by fastforce
  note s1 = map_descriptor_shared [OF x]
  show ?thesis
  proof (cases x)
    case None with assms x s1 show ?thesis by (auto simp: map_message_def acquire_publication_def)
  next
    case (Some p)
    obtain ro p' sb2 where b: "make_bound E t p stream sb1 = ((ro, p'), sb2)" by (metis surj_pair)
    have h: "h = ro" "sb' = mu_destroy E t p' sb2"
      using assms x Some b by (simp_all add: map_message_def acquire_publication_def)
    note s2 = make_bound_cases [OF b]
    have d: "same_shared (drop_buffer_ref (mu_buffer_ref p') sb2) (mu_destroy E t p' sb2)" by (simp add: mu_destroy_def)
    obtain m br where a: "acquire m (bc_uid msg) (sb_shm sb) = (br, sb_shm sb1)" "mu_buffer_ref p = Some br"
      using s1 Some by auto
    show ?thesis
    proof (cases ro)
      case None
      with s1 s2 Some d h acquire_drop [OF a(1)] a(2) show ?thesis by (auto simp: same_shared_def drop_buffer_ref_def)
    next
      case (Some i)
      with s1 s2 \<open>x = Some p\<close> d h show ?thesis by (auto simp: same_shared_def drop_buffer_ref_def)
    qed
  qed
qed

lemma reserve_count: "reserve_cell now m = (Some u, c) \<Longrightarrow> unat (bm_refcount c) = Suc (unat (bm_refcount m))"
  by (drule reserve_cell_SomeD) simp

lemma acquire_count: "acquire_cell u m = (True, c) \<Longrightarrow> unat (bm_refcount c) = Suc (unat (bm_refcount m))"
  by (auto simp: acquire_cell_eq split: if_splits)

lemma finish_count:
  "release_reservation_cell now u pub m = (True, c) \<Longrightarrow> unat (bm_refcount c) = unat (bm_refcount m) - 1"
  by (auto simp: release_reservation_cell_def Let_def split: if_splits)

lemma release_count: "unat (bm_refcount (release_cell m)) = unat (bm_refcount m) - 1"
  by (auto simp: release_cell_def Let_def)

lemma other_step_cells:
  assumes "other_step sh X sh' X'" "\<forall>a. count (Q + X) a \<le> unat (bm_refcount (load_meta sh a))"
  shows "\<forall>a. count (Q + X') a \<le> unat (bm_refcount (load_meta sh' a))"
  using assms
proof (induction rule: other_step.induct)
  case (names sh' sh X)
  show ?case
  proof
    fix a show "count (Q + X) a \<le> unat (bm_refcount (load_meta sh' a))"
      using spec [OF names(1), of a] spec [OF names(2), of a] by auto
  qed
next
  case (finish now u published sh a c X)
  note f = finish_count [OF finish(1)] spec [OF finish(2), of a]
  have "count (Q + X) b \<le> unat (bm_refcount (load_meta (store_meta a c sh) b))" for b
    using f spec [OF finish(2), of b] by (cases "b = a") auto
  then show ?case by blast
next
  case (release sh a X)
  have "count (Q + X) b \<le> unat (bm_refcount (load_meta (store_meta a (release_cell (load_meta sh a)) sh) b))" for b
    using release_count [of "load_meta sh a"] spec [OF release, of a] spec [OF release, of b] by (cases "b = a") auto
  then show ?case by blast
qed (auto simp: reserve_count acquire_count)

section \<open>Every step keeps it\<close>

lemma process_ok_initial: "process_ok (\<lambda>k. held k (tr s)) (initial_process s sh)"
  using sound_initial by (simp add: process_ok_def initial_process_def read_cells_def queued_def initial_subscriber_def)

lemma gather_middle: "gather f (xs @ x # ys) = some_of (f x) + gather f (xs @ ys)"
  by (simp add: ac_simps)

lemma process_okD:
  assumes "process_ok base p"
  shows "sound base (ps_sub p) (gather ri_resource (ps_reads p)) (gather ri_completion (ps_reads p))
       (read_cells (ps_reads p) + ps_others p)" "\<forall>i \<in> set (ps_reads p). read_ok i"
    "\<forall>it \<in> set (queued (ps_sub p)). di_completion it \<noteq> None"
  using assms by (simp_all add: process_ok_def)

lemma read_steps_ok:
  assumes "driver_documented E" "process_ok base p" "map_message E t msg stream (ps_sub p) = (h, sb)"
  shows "process_ok base (p\<lparr>ps_sub := sb, ps_reads := reads_after (ps_reads p) h\<rparr>)"
  using map_message_sound [OF assms(1) process_okD(1) [OF assms(2)] assms(3)] process_okD(2,3) [OF assms(2)]
    map_message_shared [OF assms(3)]
  by (cases h) (auto simp: process_ok_def reads_after_def read_cells_def queued_def ac_simps)

lemma destroy_steps_ok:
  assumes "driver_documented E" "process_ok base p" "ps_reads p = xs @ i # ys"
  shows "process_ok base (p\<lparr>ps_sub := rh_destroy E t (Some i) (ps_sub p), ps_reads := xs @ ys\<rparr>)"
proof -
  have i: "read_ok i" using process_okD(2) [OF assms(2)] assms(3) by simp
  have s: "sound base (ps_sub p) (some_of (ri_resource i) + gather ri_resource (xs @ ys))
      (some_of (ri_completion i) + gather ri_completion (xs @ ys)) (some_of (cell_of (ri_buffer_ref i)) + (read_cells (xs @ ys) + ps_others p))"
    using process_okD(1) [OF assms(2)] by (simp only: assms(3) gather_middle read_cells_def ac_simps)
  obtain c s1 it where "ri_completion i = Some c" "it = \<lparr>di_completion = ri_completion i, di_resource = ri_resource i, di_buffer_ref = ri_buffer_ref i\<rparr>"
    and "rh_destroy E t (Some i) (ps_sub p) = (ps_sub p)\<lparr>sb_sys := s1, sb_items := sb_items (ps_sub p) @ [it]\<rparr>
      \<or> rh_destroy E t (Some i) (ps_sub p) = (ps_sub p)\<lparr>sb_sys := s1, sb_failed := sb_failed (ps_sub p) @ [it]\<rparr>"
    by (rule rh_destroy_deferred [OF i s, of E t]) blast
  then have "\<forall>it \<in> set (queued (rh_destroy E t (Some i) (ps_sub p))). di_completion it \<noteq> None"
    using process_okD(3) [OF assms(2)] by (auto simp: queued_def)
  with rh_destroy_sound [OF i s] process_okD(2) [OF assms(2)] assms(3) show ?thesis by (simp add: process_ok_def)
qed

lemma worker_queue: "set (queued (worker_step E t sb)) \<subseteq> set (queued sb)"
  using worker_step_queue [of E t sb] by (cases "sb_items sb") (auto simp: queued_def)

lemma process_ok_step:
  assumes d: "driver_documented E" and st: "subscriber_step E p q" and ok: "process_ok base p"
  shows "process_ok base q"
  using st
proof cases
  note O = process_okD [OF ok] and p = documented_pushes [OF d]
  {
    case (read t msg stream h sb)
    with read_steps_ok [OF d ok] show ?thesis by simp
  next
    case (destroy xs i ys t)
    with destroy_steps_ok [OF d ok] show ?thesis by simp
  next
    case (worker t)
    with worker_step_sound [OF d O(1)] O(2,3) worker_queue [of E t "ps_sub p"] show ?thesis by (auto simp: process_ok_def)
  next
    case (clear ks t)
    have "drop_entries E t ks tab sb = sb' \<Longrightarrow> queued sb' = queued sb" for tab sb sb'
      by (induction ks arbitrary: sb) (use same_shared_drops(2) in \<open>auto simp: queued_def same_shared_def\<close>)
    then have "queued (clear_handles E t ks (ps_sub p)) = queued (ps_sub p)" by (simp add: clear_handles_def queued_def)
    with clear clear_handles_sound [OF p O(1)] O show ?thesis by (simp add: process_ok_def)
  next
    case forget
    with O show ?thesis by (simp add: process_ok_def clear_mappings_def sound_mappings queued_def)
  next
    case (other sh X)
    have "cells_ok ((ps_sub p)\<lparr>sb_shm := sh\<rparr>) (read_cells (ps_reads p) + X)"
      using other_step_cells [OF other(2), of "gather (\<lambda>i. cell_of (di_buffer_ref i)) (queued (ps_sub p)) + read_cells (ps_reads p)"]
        soundD(4) [OF O(1)] by (simp add: cells_ok_def) (simp add: cells_def add.assoc queued_def)
    with sound_shm [OF O(1)] O(2,3) show ?thesis by (simp add: process_ok_def other queued_def)
  }
qed

lemma process_reachable_ok:
  assumes "driver_documented E" "process_reachable E s sh p"
  shows "process_ok (\<lambda>k. held k (tr s)) p"
  using assms(2) by induction (auto intro: process_ok_initial process_ok_step [OF assms(1)])

section \<open>A concrete run\<close>

definition sample_message :: buffer_core where
  "sample_message = sample_core\<lparr>bc_publisher_pid := 7, bc_block_id := 1, bc_uid := 5\<rparr>"

lemmas map_eval = map_message_def acquire_publication_def map_descriptor_def get_or_attach_def cached_mapping_def
  attach_block_def attach_def shm_open_def make_mapping_def alloc_ptr_def trusted_def current_uid_def block_def
  publish_mapping_def acquire_def acquire_cell_def find_or_import_def find_handle_def insert_or_discard_duplicate_def
  new_resource_def copy_resource_def copy_context_def update_resource_def drop_resource_def make_publication_def
  has_device_memory_def imported_of_def context_of_def make_bound_def mu_valid_def validate_stream_def
  current_device_is_def create_completion_event_def enqueue_ready_event_def with_guard_def mu_destroy_def
  drop_resource_option_def drop_buffer_ref_def br_valid_def load_meta_def BufferRef_null_def to_cuda_event_handle_def
  CU_STREAM_LEGACY_def CU_STREAM_PER_THREAD_def initial_subscriber_def sample_shm_def sample_message_def

lemma sample_map:
  "\<exists>i sb. map_message healthy 1 sample_message 3 (initial_subscriber initial_sys sample_shm) = (Some i, sb)
     \<and> ri_buffer_ref i = Some \<lparr>br_mapping = Some \<lparr>mp_this = 1, mp_name = shm_name_for_block 7 1, mp_size = kMetadataSize, mp_addr = 0\<rparr>,
         br_block = Some 0, br_uid = 5\<rparr>"
  by (simp add: map_eval import_eval)

lemma healthy_documented: "driver_documented healthy"
  by (simp add: driver_documented_def pushes_succeed_def events_nonnull_def healthy_def)

lemma sample_process:
  obtains p i where "process_reachable healthy initial_sys sample_shm p" "ps_reads p = [i]"
    "ri_buffer_ref i = Some \<lparr>br_mapping = Some \<lparr>mp_this = 1, mp_name = shm_name_for_block 7 1, mp_size = kMetadataSize, mp_addr = 0\<rparr>,
       br_block = Some 0, br_uid = 5\<rparr>"
proof -
  obtain i sb where m: "map_message healthy 1 sample_message 3 (initial_subscriber initial_sys sample_shm) = (Some i, sb)"
    and b: "ri_buffer_ref i = Some \<lparr>br_mapping = Some \<lparr>mp_this = 1, mp_name = shm_name_for_block 7 1, mp_size = kMetadataSize, mp_addr = 0\<rparr>,
         br_block = Some 0, br_uid = 5\<rparr>" using sample_map by blast
  have "map_message healthy 1 sample_message 3 (ps_sub (initial_process initial_sys sample_shm)) = (Some i, sb)"
    using m by (simp add: initial_process_def)
  from process_reachable.step [OF process_reachable.start subscriber_step.read [OF this]] b
  show thesis by (intro that) (auto simp: initial_process_def reads_after_def)
qed

section \<open>Facts for the properties\<close>

lemma count_gather: "count (gather f xs) r = length (filter (\<lambda>x. f x = Some r) xs)"
  by (induction xs) (auto simp: some_of_def split: option.split)

lemma one_nonneg [simp]: "0 \<le> one a k"
  by (simp add: one_def)

lemma imported_ledger_nonneg [simp]: "0 \<le> imported_ledger im k"
  by (simp add: imported_ledger_def)

lemma slot_nonneg [simp]: "0 \<le> slot x k"
  by (simp add: slot_def context_ledger_def split: option.split)

lemma event_ledger_nonneg [simp]: "0 \<le> event_ledger M k"
  by (induction M) simp_all

lemma resource_ledger_ge:
  assumes "fresh_ok sb" "sb_resources sb r = Some c"
  shows "slot (Some c) k \<le> resource_ledger sb k"
proof -
  have "r < sb_next_resource sb" using assms by (auto simp: fresh_ok_def not_le [symmetric])
  then have "resource_ledger sb k = slot (Some c) k + (\<Sum>q \<in> {..<sb_next_resource sb} - {r}. slot (sb_resources sb q) k)"
    using assms(2) by (simp add: resource_ledger_def sum.remove [of "{..<sb_next_resource sb}" r])
  moreover have "0 \<le> (\<Sum>q \<in> {..<sb_next_resource sb} - {r}. slot (sb_resources sb q) k)" by (rule sum_nonneg) simp
  ultimately show ?thesis by simp
qed

text \<open>A live handle's resource has owners, so it has not been released.\<close>

lemma live_resource:
  assumes "process_ok base p" "i \<in> set (ps_reads p)"
  obtains r c where "ri_resource i = Some r" "sb_resources (ps_sub p) r = Some c" "sr_uses c \<noteq> 0" "import_ok (sr_imported c)"
proof -
  note s = process_okD(1) [OF assms(1)]
  obtain r where r: "ri_resource i = Some r" using process_okD(2) [OF assms(1)] assms(2) by (auto simp: read_ok_def)
  have n: "resource_refs (ps_sub p) (gather ri_resource (ps_reads p)) r \<noteq> 0"
    using assms(2) r by (auto simp: resource_refs_def count_gather filter_empty_conv)
  then obtain c where c: "sb_resources (ps_sub p) r = Some c" using counted_some [OF soundD(2) [OF s]] by blast
  note cd = countedD [OF soundD(2) [OF s] c]
  show thesis by (rule that [OF r c]) (use cd n in auto)
qed

section \<open>Properties\<close>

text \<open>
  C10. In every reachable state of a subscriber process, whatever the driver answers, the
  reference count of each imported resource is the number of its owners: cache entries, items
  of the release queue that wait or were given up, and live read handles; and its context has
  the completion events and the resource itself as its only owners.
\<close>

theorem reference_counts_are_exact:
  assumes "driver_documented E" "process_reachable E s sh p" "sb_resources (ps_sub p) r = Some c"
  shows "sr_uses c = card {k. sb_handles (ps_sub p) k = Some r}
           + length (filter (\<lambda>i. di_resource i = Some r) (sb_items (ps_sub p) @ sb_failed (ps_sub p)))
           + length (filter (\<lambda>i. ri_resource i = Some r) (ps_reads p))
       \<and> (sr_context_uses c = 0 \<longrightarrow> sr_uses c = 0)"
proof -
  note s = process_okD(1) [OF process_reachable_ok [OF assms(1,2)]]
  show ?thesis using countedD(2,3) [OF soundD(2) [OF s] assms(3)]
    by (simp add: resource_refs_def count_gather queued_def)
qed

text \<open>
  C8. As long as a read handle lives it is valid, and the device memory it points to is still
  mapped in the process: nothing another thread, the release worker, the clearing of the cache
  or another process does releases it.
\<close>

theorem live_reads_stay_mapped:
  assumes "driver_documented E" "process_reachable E s sh p" "i \<in> set (ps_reads p)"
  shows "rh_valid (ps_sub p) (Some i) \<and>
    (\<exists>n. n \<noteq> 0 \<and> held (RMapping (rh_device_ptr (ps_sub p) (Some i)) n) (tr (sb_sys (ps_sub p)))
         > held (RMapping (rh_device_ptr (ps_sub p) (Some i)) n) (tr s))"
proof -
  note ok = process_reachable_ok [OF assms(1,2)]
  note D = soundD [OF process_okD(1) [OF ok]]
  obtain r c where r: "ri_resource i = Some r" "sb_resources (ps_sub p) r = Some c" "sr_uses c \<noteq> 0"
    and im: "import_ok (sr_imported c)" by (rule live_resource [OF ok assms(3)])
  let ?im = "sr_imported c"
  let ?k = "RMapping (im_vmm_address ?im) (im_allocation_size ?im)"
  have ptr: "rh_device_ptr (ps_sub p) (Some i) = im_vmm_address ?im" "im_vmm_address ?im \<noteq> 0"
    using r im by (simp_all add: rh_device_ptr_def imported_of_def import_ok_def)
  have "ri_buffer_ref i \<noteq> None" using process_okD(2) [OF ok] assms(3) by (simp add: read_ok_def)
  then have v: "rh_valid (ps_sub p) (Some i)"
    using r im by (simp add: rh_valid_def has_device_memory_def imported_of_def import_ok_def)
  have "1 \<le> slot (Some c) ?k" using r(3) by (simp add: slot_def imported_ledger_def one_def context_ledger_def)
  also have "\<dots> \<le> resource_ledger (ps_sub p) ?k" by (rule resource_ledger_ge [OF D(1) r(2)])
  finally have "held ?k (tr s) < held ?k (tr (sb_sys (ps_sub p)))"
    using D(5) by (auto simp: books_def intro!: add_pos_nonneg)
  with v ptr im show ?thesis by (auto simp: import_ok_def)
qed



lemmas release_eval = rh_destroy_def ri_release_def DeferredItem_def worker_step_def drop_completion_def
  destroy_completion_def drop_context_def br_release_def release_cell_def delete_item_def key_of_message_def

lemma sample_destroyed:
  "\<exists>i sb. map_message healthy 1 sample_message 3 (initial_subscriber initial_sys sample_shm) = (Some i, sb)
     \<and> length (sb_items (rh_destroy healthy 1 (Some i) sb)) = 1"
  by (simp add: map_eval import_eval release_eval)

lemma sample_drained:
  "\<exists>i sb sb1 sb2. map_message healthy 1 sample_message 3 (initial_subscriber initial_sys sample_shm) = (Some i, sb)
     \<and> rh_destroy healthy 1 (Some i) sb = sb1 \<and> worker_step healthy 2 sb1 = sb2
     \<and> sb_items sb2 = [] \<and> sb_failed sb2 = [] \<and> (\<forall>k. (sb_handles sb2 k \<noteq> None) = (k = key_of_message sample_message))"
  by (simp add: map_eval import_eval release_eval)

theorem reference_counts_are_exact_witness:
  "\<exists>p r c. process_reachable healthy initial_sys sample_shm p \<and> sb_resources (ps_sub p) r = Some c \<and> 1 \<le> sr_uses c"
proof -
  obtain p i where p: "process_reachable healthy initial_sys sample_shm p" "ps_reads p = [i]" by (rule sample_process)
  obtain r c where r: "ri_resource i = Some r" "sb_resources (ps_sub p) r = Some c"
    by (rule live_resource [OF process_reachable_ok [OF healthy_documented p(1)]]) (use p(2) in auto)
  have "1 \<le> sr_uses c" using reference_counts_are_exact [OF healthy_documented p(1) r(2)] p(2) r(1) by auto
  with p r show ?thesis by blast
qed

theorem live_reads_stay_mapped_witness:
  "\<exists>p i n. process_reachable healthy initial_sys sample_shm p \<and> i \<in> set (ps_reads p) \<and> rh_valid (ps_sub p) (Some i)
     \<and> 0 < held (RMapping (rh_device_ptr (ps_sub p) (Some i)) n) (tr (sb_sys (ps_sub p)))"
proof -
  obtain p i where p: "process_reachable healthy initial_sys sample_shm p" "ps_reads p = [i]" by (rule sample_process)
  then have "i \<in> set (ps_reads p)" by simp
  from live_reads_stay_mapped [OF healthy_documented p(1) this] p show ?thesis by (force simp: initial_sys_def)
qed




section \<open>The worker makes progress\<close>

definition syncs_succeed :: "env \<Rightarrow> bool" where
  "syncs_succeed E \<longleftrightarrow> (\<forall>h e. rc (E h (CuEventSynchronize e)) = 0)"

lemma push_succeeds:
  assumes "pushes_succeed E" "driver_once s = Some 0" "c \<noteq> 0"
  shows "\<exists>g s'. guard_push E t c s = (Inr g, s')"
  using assms
  by (auto simp: pushes_succeed_def guard_push_def driver_initialize_def CUDA_SUCCESS_def call_def Let_def)

lemma worker_step_gives_nothing_up:
  assumes d: "driver_documented E" "syncs_succeed E" and s: "sound base sb L C B"
  shows "sb_failed (worker_step E t sb) = sb_failed sb"
proof (cases "sb_items sb")
  case (Cons it rest)
  let ?sb = "sb\<lparr>sb_items := rest\<rparr>"
  note s0 = sound_dequeue [OF s Cons]
  show ?thesis
  proof (cases "di_completion it")
    case None with Cons show ?thesis by (simp add: worker_step_def Let_def)
  next
    case (Some c)
    with s0 have s1: "sound base ?sb (some_of (di_resource it) + L) (add_mset c C) (some_of (cell_of (di_buffer_ref it)) + B)" by simp
    obtain r dc where c: "ce_event c \<noteq> 0" "ce_context c = Some r" "context_of ?sb r = Some dc" "dc_context dc \<noteq> 0"
      by (rule owned_completion_alive [OF s1])
    then obtain x where "sb_resources ?sb r = Some x" by (auto simp: context_of_def imported_of_def bind_eq_Some_conv)
    then have "driver_once (sb_sys ?sb) = Some 0" by (rule once_of [OF s1])
    then obtain g s' where g: "push_current E t dc (sb_sys ?sb) = (Inr g, s')"
      using push_succeeds [OF documented_pushes [OF d(1)] _ c(4)] unfolding push_current_def by blast
    obtain q s2 where q: "call E (CuEventSynchronize (ce_event c)) s' = (q, s2)" by fastforce
    then have "rc q = CUDA_SUCCESS" using d(2) by (auto simp: syncs_succeed_def CUDA_SUCCESS_def dest: callD)
    with Cons Some c g q show ?thesis by (simp add: worker_step_def Let_def)
  qed
qed (simp add: worker_step_def)

text \<open>
  The release worker makes progress: after as many iterations as there are queued items the
  queue is empty, every intermediate state being one the process reaches. When the waits for the
  consumers' work succeed none of the items is given up, so by the exact counts all their
  references have been dropped.
\<close>

theorem worker_drains_queue:
  assumes "driver_documented E" "syncs_succeed E" "process_reachable E s sh p"
    and "sb = ((worker_step E t) ^^ length (sb_items (ps_sub p))) (ps_sub p)"
  shows "sb_items sb = [] \<and> sb_failed sb = sb_failed (ps_sub p) \<and> process_reachable E s sh (p\<lparr>ps_sub := sb\<rparr>)"
proof -
  have "sb_items (((worker_step E t) ^^ n) (ps_sub p)) = drop n (sb_items (ps_sub p))
      \<and> sb_failed (((worker_step E t) ^^ n) (ps_sub p)) = sb_failed (ps_sub p)
      \<and> process_reachable E s sh (p\<lparr>ps_sub := ((worker_step E t) ^^ n) (ps_sub p)\<rparr>)" for n
  proof (induction n)
    case 0 with assms(3) show ?case by simp
  next
    case (Suc n)
    let ?sb = "((worker_step E t) ^^ n) (ps_sub p)"
    let ?q = "p\<lparr>ps_sub := ?sb\<rparr>"
    have q: "process_reachable E s sh ?q" using Suc by simp
    have "process_reachable E s sh (?q\<lparr>ps_sub := worker_step E t (ps_sub ?q)\<rparr>)"
      by (rule process_reachable.step [OF q subscriber_step.worker])
    moreover have "sb_failed (worker_step E t ?sb) = sb_failed ?sb"
      using worker_step_gives_nothing_up [OF assms(1,2)] process_okD(1) [OF process_reachable_ok [OF assms(1) q]] by simp
    ultimately show ?case using Suc by (simp add: worker_step_queue(1) drop_Suc tl_drop)
  qed
  then show ?thesis using assms(4) by simp
qed

section \<open>Histories\<close>

definition extends :: "sys \<Rightarrow> sys \<Rightarrow> bool" where
  "extends s s' \<longleftrightarrow> (\<exists>new. tr s' = new @ tr s)"

lemma extends_refl [simp]: "extends s s"
  by (simp add: extends_def)

lemma extends_trans [trans]: "extends a b \<Longrightarrow> extends b c \<Longrightarrow> extends a c"
  by (auto simp: extends_def)

lemma extends_call: "call E c s = (r, s') \<Longrightarrow> extends s s'"
  by (auto simp: extends_def dest: callT)

lemma extends_exec [simp]: "extends s (exec E c s)"
  by (simp add: extends_def)

lemma extends_pop [simp]: "extends s (snd (guard_pop E t g s))"
  by (simp add: guard_pop_def)

lemma extends_push: "guard_push E t c s = (r, s') \<Longrightarrow> extends s s'"
  by (auto simp: extends_def guard_push_def driver_initialize_def Let_def
      split: option.splits if_splits prod.splits sum.splits dest!: callT)

lemma extends_guard:
  assumes w: "with_guard E t c f body s = (x, s')" and b: "\<And>s1 y s2. body s1 = (y, s2) \<Longrightarrow> extends s1 s2"
  shows "extends s s'"
proof -
  obtain r s1 where p: "guard_push E t c s = (r, s1)" by fastforce
  show ?thesis
  proof (cases r)
    case (Inl e) with w p extends_push [OF p] show ?thesis by (simp add: with_guard_def)
  next
    case (Inr g)
    obtain y s2 where y: "body s1 = (y, s2)" by fastforce
    have "extends s (snd (guard_pop E t g s2))"
      using extends_trans [OF extends_trans [OF extends_push [OF p] b [OF y]] extends_pop] .
    with w p Inr y show ?thesis by (simp add: with_guard_def)
  qed
qed

lemma extends_release: "release_imported_resources E t im s = (ok, s') \<Longrightarrow> extends s s'"
proof (cases "im_context im")
  case (Some dc)
  assume r: "release_imported_resources E t im s = (ok, s')"
  show ?thesis
    by (rule extends_guard [OF r [unfolded release_imported_resources_def Some option.case]])
      (auto simp: Let_def extends_def split: if_splits prod.splits dest!: callT)
qed (simp add: release_imported_resources_def)

lemma extends_drop_context [simp]: "extends (sb_sys sb) (sb_sys (drop_context E r sb))"
  by (auto simp: drop_context_def Let_def device_context_destroy_def split: option.split)

lemma extends_drop_resource [simp]: "extends (sb_sys sb) (sb_sys (drop_resource E t r sb))"
proof (cases "sb_resources sb r")
  case (Some c)
  let ?sb1 = "update_resource r (\<lambda>c. c\<lparr>sr_uses := sr_uses c - 1\<rparr>) sb"
  obtain ok s1 where r: "release_imported_resources E t (sr_imported c) (sb_sys ?sb1) = (ok, s1)" by fastforce
  have e: "extends (sb_sys sb) s1" using extends_release [OF r] by simp
  have "extends (sb_sys sb) (sb_sys (drop_context E r (?sb1\<lparr>sb_sys := s1\<rparr>)))"
    using extends_trans [OF e extends_drop_context [of "?sb1\<lparr>sb_sys := s1\<rparr>" E r, simplified]] by simp
  with Some r e show ?thesis by (auto simp: drop_resource_def Let_def split: option.split)
qed (simp add: drop_resource_def)

lemma extends_drop_option [simp]: "extends (sb_sys sb) (sb_sys (drop_resource_option E t r sb))"
  by (simp add: drop_resource_option_def split: option.split)

lemma extends_destroy_completion [simp]: "extends (sb_sys sb) (sb_sys (destroy_completion E t ce sb))"
proof -
  have "extends (sb_sys sb) (sb_sys (drop_context E r (sb\<lparr>sb_sys := s\<rparr>)))" if "extends (sb_sys sb) s" for r s
    using extends_trans [OF that extends_drop_context [of "sb\<lparr>sb_sys := s\<rparr>" E r, simplified]] .
  moreover have "extends s (snd (with_guard E t c (\<lambda>_. ()) (\<lambda>s. ((), exec E (CuEventDestroy e) s)) s))" for c e s
    by (rule extends_guard [of E t c "\<lambda>_. ()" "\<lambda>s. ((), exec E (CuEventDestroy e) s)" s "()"]) (auto simp: prod_eq_iff)
  ultimately show ?thesis by (auto simp: destroy_completion_def Let_def split: option.split)
qed

lemma extends_drop_completion [simp]: "extends (sb_sys sb) (sb_sys (drop_completion E t ce sb))"
  by (simp add: drop_completion_def split: option.split)

text \<open>A worker step that touches shared memory has waited for the item's event first.\<close>

lemma worker_step_waits:
  assumes it: "sb_items sb = it # rest" "di_completion it = Some c"
    and alive: "ce_event c \<noteq> 0" "ce_context c = Some r" "context_of (sb\<lparr>sb_items := rest\<rparr>) r = Some dc"
    and changed: "sb_shm (worker_step E t sb) \<noteq> sb_shm sb"
  shows "\<exists>new q. tr (sb_sys (worker_step E t sb)) = new @ tr (sb_sys sb)
    \<and> (CuEventSynchronize (ce_event c), q) \<in> set new \<and> rc q = 0"
proof -
  let ?sb = "sb\<lparr>sb_items := rest\<rparr>"
  obtain g s1 where g: "push_current E t dc (sb_sys ?sb) = (g, s1)" by fastforce
  then obtain gd where gd: "g = Inr gd"
    using changed it alive by (cases g) (auto simp: worker_step_def Let_def)
  obtain q s2 where q: "call E (CuEventSynchronize (ce_event c)) s1 = (q, s2)" by fastforce
  have ok: "rc q = CUDA_SUCCESS"
    using changed it alive g gd q by (auto simp: worker_step_def Let_def split: if_splits)
  let ?sb3 = "drop_buffer_ref (di_buffer_ref it) (drop_resource_option E t (di_resource it) (drop_completion E t (di_completion it) (?sb\<lparr>sb_sys := s2\<rparr>)))"
  have w: "sb_sys (worker_step E t sb) = snd (guard_pop E t gd (sb_sys ?sb3))"
    using it alive g gd q ok by (simp add: worker_step_def Let_def)
  have "extends s2 (sb_sys ?sb3)"
    using extends_trans [OF extends_drop_completion [of "?sb\<lparr>sb_sys := s2\<rparr>" E t "di_completion it"] extends_drop_option] by simp
  then have "extends s2 (sb_sys (worker_step E t sb))" unfolding w by (rule extends_trans) simp
  then obtain n1 where n1: "tr (sb_sys (worker_step E t sb)) = n1 @ tr s2" by (auto simp: extends_def)
  obtain n0 where "tr s1 = n0 @ tr (sb_sys sb)" using extends_push [OF g [unfolded push_current_def]] by (auto simp: extends_def)
  with n1 callT [OF q] ok show ?thesis
    by (intro exI [of _ "n1 @ (CuEventSynchronize (ce_event c), q) # n0"] exI [of _ q]) (simp add: CUDA_SUCCESS_def)
qed

section \<open>Properties of single operations\<close>

text \<open>
  A mapping that fails, at whichever of its steps, leaves every metadata cell as it was. One
  that succeeds changes exactly one cell: the reader count of the generation the message names
  goes up by one, and the handle carries that reference, the message's size and device and the
  consumer's stream.
\<close>

theorem mapping_counts_one_reader:
  assumes "map_message E t msg stream sb = (h, sb')"
  shows "case h of
      None \<Rightarrow> sb_shm sb' = sb_shm sb
    | Some i \<Rightarrow> (\<exists>a. let c = load_meta (sb_shm sb) a in
          bm_uid c = bc_uid msg \<and> bm_refcount c \<noteq> u32_max
          \<and> sb_shm sb' = store_meta a (c\<lparr>bm_refcount := bm_refcount c + 1\<rparr>) (sb_shm sb)
          \<and> cell_of (ri_buffer_ref i) = Some a)
        \<and> ri_byte_size i = bc_byte_size msg \<and> ri_device_id i = ucast (bc_device_id msg) \<and> ri_consumer_stream i = stream"
proof (cases h)
  case None
  with map_message_shared [OF assms] show ?thesis by simp
next
  case (Some i)
  note m = map_message_shared [OF assms, unfolded Some option.case]
  obtain mo b where a: "acquire mo (bc_uid msg) (sb_shm sb) = (b, sb_shm sb')" "br_valid b" "ri_buffer_ref i = Some b"
    using m by blast
  show ?thesis by (rule acquire_valid [OF a(1,2)]) (use m a(3) Some in \<open>auto simp: Let_def cell_of_def\<close>)
qed


lemma create_completion_context:
  assumes "create_completion_event E t r sb = (x, sb')"
  shows "delta (sb_sys sb) (sb_sys sb') RPushedCtx = 0"
proof (cases "context_of sb r")
  case (Some dc)
  let ?body = "\<lambda>s. let (q, s') = call E (CuEventCreate False) s
                      in (if rc q \<noteq> CUDA_SUCCESS then None else Some (out q), s')"
  obtain e s1 where w: "with_guard E t (dc_context dc) (\<lambda>_. None) ?body (sb_sys sb) = (e, s1)" by fastforce
  have "delta (sb_sys sb) s1 RPushedCtx = 0"
    by (rule with_guard_cases [OF w]) (auto simp: delta_call one_def split: prod.splits)
  moreover have "sb_sys sb' = s1"
    using assms w Some by (auto simp: create_completion_event_def copy_context_def Let_def split: option.splits)
  ultimately show ?thesis by simp
qed (use assms in \<open>simp add: create_completion_event_def\<close>)

text \<open>The wait is the last call, made after the guard has popped.\<close>

lemma enqueue_ready_event_waits:
  assumes e: "enqueue_ready_event E t (Some r) stream sb = (True, sb')"
    and im: "imported_of sb' r = Some im" "im_event im \<noteq> 0"
  shows "\<exists>q h. tr (sb_sys sb') = (CuStreamWaitEvent stream (im_event im), q) # h \<and> rc q = 0
    \<and> held RPushedCtx h = held RPushedCtx (tr (sb_sys sb))"
proof -
  obtain v sb1 where v: "validate_stream E t (Some r) stream sb = (v, sb1)" by fastforce
  obtain s1 where s1: "sb1 = sb\<lparr>sb_sys := s1\<rparr>" "neutral (sb_sys sb) s1" by (rule validate_stream_neutral [OF v])
  obtain s' where s': "sb' = sb\<lparr>sb_sys := s'\<rparr>" by (rule enqueue_ready_event_neutral [OF e])
  have i1: "imported_of sb1 r = Some im" using im(1) by (simp add: imported_of_def s' s1)
  let ?P = "case context_of sb1 r of None \<Rightarrow> (True, sb_sys sb1)
      | Some dc \<Rightarrow> with_guard E t (dc_context dc) (\<lambda>_. False) (\<lambda>s. (True, s)) (sb_sys sb1)"
  obtain pushed s2 where p: "?P = (pushed, s2)" by fastforce
  have n2: "neutral s1 s2"
    using p s1 neutral_guard [of E t _ _ "\<lambda>s. (True, s)"] by (auto split: option.splits)
  obtain w s3 where w: "call E (CuStreamWaitEvent stream (im_event im)) s2 = (w, s3)" by fastforce
  have "rc w = CUDA_SUCCESS \<and> sb_sys sb' = s3"
    using e v i1 im(2) p w by (auto simp: enqueue_ready_event_def Let_def split: if_splits)
  with callT [OF w] neutral_trans [OF s1(2) n2] show ?thesis by (auto simp: CUDA_SUCCESS_def neutral_def delta_def)
qed

text \<open>
  C30. A read handle exists only after the wait for the publisher's ready event was enqueued
  on the consumer's stream and accepted: it is the last call before the handle is made. That
  call is made with the context stack the caller came with; the import's context, which the
  function activates to check that it can, has been popped again. For the two special stream
  handles, which the driver resolves in the current context, this is the caller's context and
  not the one the read was imported in.
\<close>

theorem bound_read_waits_for_ready_event:
  assumes "make_bound E t p stream sb = ((Some i, p'), sb')"
    and "mu_resource p = Some r" "imported_of sb' r = Some im" "im_event im \<noteq> 0"
  shows "\<exists>q h. tr (sb_sys sb') = (CuStreamWaitEvent stream (im_event im), q) # h \<and> rc q = 0
    \<and> held RPushedCtx h = held RPushedCtx (tr (sb_sys sb))"
proof -
  obtain v sb1 where v: "validate_stream E t (Some r) stream sb = (v, sb1)" by fastforce
  obtain s1 where s1: "sb1 = sb\<lparr>sb_sys := s1\<rparr>" "neutral (sb_sys sb) s1" by (rule validate_stream_neutral [OF v])
  obtain e sb2 where e: "create_completion_event E t r sb1 = (e, sb2)" by fastforce
  have "enqueue_ready_event E t (Some r) stream sb2 = (True, sb')"
    using assms(1,2) v e by (auto simp: make_bound_def Let_def split: if_splits prod.splits)
  from enqueue_ready_event_waits [OF this assms(3,4)] show ?thesis
    using create_completion_context [OF e] s1 by (simp add: delta_def neutral_def)
qed

theorem bound_read_waits_for_ready_event_witness:
  "\<exists>i p' sb' q h. make_bound healthy 1 \<lparr>mu_resource = Some 0, mu_buffer_ref = Some BufferRef_null, mu_byte_size = 8, mu_device_id = 0\<rparr>
        CU_STREAM_LEGACY (snd (find_or_import healthy 1 sample_message (initial_subscriber initial_sys sample_shm))) = ((Some i, p'), sb')
     \<and> tr (sb_sys sb') = (CuStreamWaitEvent CU_STREAM_LEGACY 0xE1, q) # h \<and> held RPushedCtx h = 0"
proof -
  let ?p = "\<lparr>mu_resource = Some 0, mu_buffer_ref = Some BufferRef_null, mu_byte_size = 8, mu_device_id = 0\<rparr> :: mapped_publication"
  let ?sb = "snd (find_or_import healthy 1 sample_message (initial_subscriber initial_sys sample_shm))"
  have z: "held RPushedCtx (tr (sb_sys ?sb)) = 0" by (simp add: map_eval import_eval one_def)
  obtain i p' sb' im where b: "make_bound healthy 1 ?p CU_STREAM_LEGACY ?sb = ((Some i, p'), sb')"
    and im: "imported_of sb' 0 = Some im" "im_event im = 0xE1"
    by (simp add: map_eval import_eval)
  show ?thesis using bound_read_waits_for_ready_event [OF b] im b z by fastforce
qed

theorem mapping_counts_one_reader_witness:
  "\<exists>i sb'. map_message healthy 1 sample_message 3 (initial_subscriber initial_sys sample_shm) = (Some i, sb')
     \<and> ri_consumer_stream i = 3 \<and> bm_refcount (load_meta (sb_shm sb') 0) = 1"
proof -
  obtain i sb' where m: "map_message healthy 1 sample_message 3 (initial_subscriber initial_sys sample_shm) = (Some i, sb')"
    and c: "cell_of (ri_buffer_ref i) = Some 0"
    using sample_map by (auto simp: cell_of_def)
  from mapping_counts_one_reader [OF m] c
  have "ri_consumer_stream i = 3 \<and> bm_refcount (load_meta (sb_shm sb') 0) = bm_refcount (load_meta sample_shm 0) + 1"
    by (auto simp: Let_def initial_subscriber_def)
  with m show ?thesis by (auto simp: sample_shm_def load_meta_def)
qed


theorem worker_drains_queue_witness:
  "\<exists>p sb. process_reachable healthy initial_sys sample_shm p \<and> length (sb_items (ps_sub p)) = 1
     \<and> sb = ((worker_step healthy 2) ^^ 1) (ps_sub p) \<and> sb_items sb = [] \<and> sb_failed sb = sb_failed (ps_sub p)"
proof -
  obtain i sb where m: "map_message healthy 1 sample_message 3 (initial_subscriber initial_sys sample_shm) = (Some i, sb)"
    and l: "length (sb_items (rh_destroy healthy 1 (Some i) sb)) = 1"
    using sample_destroyed by blast
  let ?p0 = "initial_process initial_sys sample_shm"
  let ?p1 = "?p0\<lparr>ps_sub := sb, ps_reads := [i]\<rparr>"
  let ?p2 = "?p1\<lparr>ps_sub := rh_destroy healthy 1 (Some i) sb, ps_reads := []\<rparr>"
  note R = process_reachable.step [where E = healthy and s = initial_sys and sh = sample_shm]
  have "process_reachable healthy initial_sys sample_shm ?p1"
    by (rule R [OF process_reachable.start])
      (use subscriber_step.read [of healthy 1 sample_message 3 ?p0 "Some i" sb] m in \<open>simp add: initial_process_def reads_after_def\<close>)
  then have r: "process_reachable healthy initial_sys sample_shm ?p2"
    by (rule R) (use subscriber_step.destroy [of ?p1 "[]" i "[]" healthy 1] in simp)
  have "syncs_succeed healthy" by (simp add: syncs_succeed_def healthy_def)
  from worker_drains_queue [OF healthy_documented this r refl, of 2] r l show ?thesis
    by (intro exI [of _ ?p2]) simp
qed

end
