(* ===== verification/Typed_Reader.thy ===== *)
theory Typed_Reader
  imports Subscriber_Process
begin

text \<open>
  The contract that \<^verbatim>\<open>ImageReader\<close> and \<^verbatim>\<open>PointCloud2Reader\<close> share: a message is mapped for the
  consumer's stream, a typed handle is built that owns the read, and a handle whose layout check
  fails is destroyed together with its read. What follows for the subscriber process is proved
  once, from the contract.
\<close>

definition owned_read :: "('h \<Rightarrow> read_handle) \<Rightarrow> 'h option \<Rightarrow> read_impl list" where
  "owned_read read_of h = (case Option.bind h read_of of None \<Rightarrow> [] | Some i \<Rightarrow> [i])"

locale typed_reader =
  fixes core :: "'m \<Rightarrow> buffer_core"
    and build :: "'m \<Rightarrow> read_handle \<Rightarrow> 'h"
    and check :: "subscriber \<Rightarrow> 'h \<Rightarrow> bool"
    and read_of :: "'h \<Rightarrow> read_handle"
    and reader :: "env \<Rightarrow> nat \<Rightarrow> 'm \<Rightarrow> u64 \<Rightarrow> subscriber \<Rightarrow> 'h option \<times> subscriber"
  assumes read_of_build: "read_of (build m r) = r"
    and reader_None: "map_message E t (core m) stream sb = (None, sb1) \<Longrightarrow> reader E t m stream sb = (None, sb1)"
    and reader_Some: "map_message E t (core m) stream sb = (Some i, sb1) \<Longrightarrow> reader E t m stream sb =
      (if check sb1 (build m (Some i)) then (Some (build m (Some i)), sb1) else (None, rh_destroy E t (Some i) sb1))"
begin

lemma reader_cases:
  obtains (unmapped) sb1 where "map_message E t (core m) stream sb = (None, sb1)" "reader E t m stream sb = (None, sb1)"
  | (refused) i sb1 where "map_message E t (core m) stream sb = (Some i, sb1)" "\<not> check sb1 (build m (Some i))"
      "reader E t m stream sb = (None, rh_destroy E t (Some i) sb1)"
  | (accepted) i sb1 where "map_message E t (core m) stream sb = (Some i, sb1)" "check sb1 (build m (Some i))"
      "reader E t m stream sb = (Some (build m (Some i)), sb1)"
proof -
  obtain r sb1 where r: "map_message E t (core m) stream sb = (r, sb1)" by fastforce
  show thesis
  proof (cases r)
    case None
    with r show thesis by (intro unmapped) (auto intro: reader_None)
  next
    case (Some i)
    with r have m: "map_message E t (core m) stream sb = (Some i, sb1)" by simp
    show thesis by (cases "check sb1 (build m (Some i))") (auto intro: refused [OF m] accepted [OF m] simp: reader_Some [OF m])
  qed
qed

text \<open>A reader only takes steps of the process, and keeps at most the read of its handle.\<close>

lemma reader_runs:
  assumes "process_reachable E s sh p"
  shows "process_reachable E s sh (p\<lparr>ps_sub := snd (reader E t m stream (ps_sub p)),
      ps_reads := ps_reads p @ owned_read read_of (fst (reader E t m stream (ps_sub p)))\<rparr>)"
proof (cases rule: reader_cases [of E t m stream "ps_sub p"])
  case (unmapped sb1)
  from process_reachable.step [OF assms subscriber_step.read [OF unmapped(1)]] unmapped(2)
  show ?thesis by (simp add: reads_after_def owned_read_def)
next
  case (refused i sb1)
  let ?q = "p\<lparr>ps_sub := sb1, ps_reads := ps_reads p @ [i]\<rparr>"
  have "process_reachable E s sh ?q"
    using process_reachable.step [OF assms subscriber_step.read [OF refused(1)]] by (simp add: reads_after_def)
  moreover have "ps_reads ?q = ps_reads p @ i # []" by simp
  ultimately have "process_reachable E s sh (?q\<lparr>ps_sub := rh_destroy E t (Some i) (ps_sub ?q), ps_reads := ps_reads p @ []\<rparr>)"
    by (rule process_reachable.step [OF _ subscriber_step.destroy])
  with refused(3) show ?thesis by (simp add: owned_read_def)
next
  case (accepted i sb1)
  from process_reachable.step [OF assms subscriber_step.read [OF accepted(1)]] accepted(3)
  show ?thesis by (simp add: reads_after_def owned_read_def read_of_build)
qed

text \<open>An accepted handle was checked in the state it is returned in, and names the message's size and device.\<close>

lemma accepted_handle:
  assumes "reader E t m stream sb = (Some h, sb')"
  shows "check sb' h" "h = build m (read_of h)" "rh_byte_size (read_of h) = bc_byte_size (core m)"
    "rh_device_id (read_of h) = ucast (bc_device_id (core m))" "bc_publisher_pid (core m) \<noteq> 0"
proof -
  obtain i where i: "map_message E t (core m) stream sb = (Some i, sb')" "check sb' (build m (Some i))" "h = build m (Some i)"
  proof (cases rule: reader_cases [of E t m stream sb])
    case (unmapped sb1)
    with assms have "Some h = None" by (metis fst_conv)
    then show thesis by simp
  next
    case (refused i sb1)
    with assms have "Some h = None" by (metis fst_conv)
    then show thesis by simp
  next
    case (accepted i sb1)
    with assms have "Some h = Some (build m (Some i)) \<and> sb' = sb1" by (metis prod.inject)
    then show thesis using accepted(1,2) that [of i] by simp
  qed
  note sh = map_message_shared [OF i(1)]
  have r: "read_of h = Some i" using i(3) by (simp add: read_of_build)
  show "check sb' h" using i(2,3) by simp
  show "h = build m (read_of h)" using i(3) unfolding r .
  show "rh_byte_size (read_of h) = bc_byte_size (core m)" "rh_device_id (read_of h) = ucast (bc_device_id (core m))"
    "bc_publisher_pid (core m) \<noteq> 0"
    using sh by (simp_all add: r rh_byte_size_def rh_device_id_def)
qed

end

end
