(* ===== verification/Gpu_Image.thy ===== *)
theory Gpu_Image
  imports Typed_Reader
begin

text \<open>
  \<^verbatim>\<open>ros2_cuda_ipc_image\<close>: the image message (\<^verbatim>\<open>ros2_cuda_ipc_msgs/msg/GpuImage.msg\<close>), the typed
  read handle with its layout check (\<^verbatim>\<open>image_read_handle.hpp\<close>, \<^verbatim>\<open>image_read_handle.cpp\<close>), the
  reader (\<^verbatim>\<open>image_reader.cpp\<close>) and the publisher's fill function (\<^verbatim>\<open>message_utils.hpp\<close>). An
  image handle owns a read handle, whose validity depends on the subscriber's state.
\<close>

section \<open>Data\<close>

type_synonym 'a three = "'a \<times> 'a \<times> 'a"

text \<open>
  \<^verbatim>\<open>enum class DType : uint8_t\<close>: the named values, and the values without a name that
  \<^verbatim>\<open>static_cast\<close> from a byte can produce.
\<close>

datatype (plugins only: code) dtype = U8 | U16 | F16 | F32 | F64 | S16 | S32 | U32 | Unnamed u8

definition dtype_of_byte :: "u8 \<Rightarrow> dtype" where
  "dtype_of_byte b =
     (if b = 0 then U8 else if b = 1 then U16 else if b = 2 then F16 else if b = 3 then F32
      else if b = 4 then F64 else if b = 5 then S16 else if b = 6 then S32 else if b = 7 then U32
      else Unnamed b)"

primrec byte_of_dtype :: "dtype \<Rightarrow> u8" where
  "byte_of_dtype U8 = 0"
| "byte_of_dtype U16 = 1"
| "byte_of_dtype F16 = 2"
| "byte_of_dtype F32 = 3"
| "byte_of_dtype F64 = 4"
| "byte_of_dtype S16 = 5"
| "byte_of_dtype S32 = 6"
| "byte_of_dtype U32 = 7"
| "byte_of_dtype (Unnamed b) = b"

primrec elem_size_bytes :: "dtype \<Rightarrow> u32" where
  "elem_size_bytes U8 = 1"
| "elem_size_bytes U16 = 2"
| "elem_size_bytes F16 = 2"
| "elem_size_bytes S16 = 2"
| "elem_size_bytes F32 = 4"
| "elem_size_bytes S32 = 4"
| "elem_size_bytes U32 = 4"
| "elem_size_bytes F64 = 8"
| "elem_size_bytes (Unnamed b) = 0"

text \<open>\<^verbatim>\<open>std_msgs/Header\<close>.\<close>

record ros_header =
  rh_sec :: i32
  rh_nanosec :: u32
  rh_frame_id :: string

definition Header :: ros_header where
  "Header = \<lparr>rh_sec = 0, rh_nanosec = 0, rh_frame_id = []\<rparr>"

record gpu_image =
  gi_header :: ros_header
  gi_dtype :: u8
  gi_shape :: "u32 three"
  gi_strides :: "u64 three"
  gi_core :: buffer_core
  gi_encoding :: string

definition GpuImage :: gpu_image where
  "GpuImage = \<lparr>gi_header = Header, gi_dtype = 0, gi_shape = (0, 0, 0), gi_strides = (0, 0, 0),
     gi_core = BufferCore, gi_encoding = []\<rparr>"

record image_read_handle =
  ih_header :: ros_header
  ih_read :: read_handle
  ih_shape :: "u32 three"
  ih_strides :: "u64 three"
  ih_dtype :: dtype
  ih_encoding :: string

section \<open>Operations\<close>

definition image_valid :: "subscriber \<Rightarrow> image_read_handle \<Rightarrow> bool" where
  "image_valid sb h \<longleftrightarrow>
     (case ih_shape h of (rows, cols, channels) \<Rightarrow> rh_valid sb (ih_read h) \<and> rows > 0 \<and> cols > 0 \<and> channels > 0)"

text \<open>The extent of the last element, computed in 128 bits.\<close>

definition needed_bytes :: "u32 three \<Rightarrow> u64 three \<Rightarrow> u32 \<Rightarrow> u128" where
  "needed_bytes shape strides elem =
     (case (shape, strides) of ((rows, cols, channels), (sh, sw, sc)) \<Rightarrow>
        ucast (rows - 1) * ucast sh + ucast (cols - 1) * ucast sw + ucast (channels - 1) * ucast sc + ucast elem)"

definition sanity_check :: "subscriber \<Rightarrow> image_read_handle \<Rightarrow> bool" where
  "sanity_check sb h \<longleftrightarrow>
     (if \<not> image_valid sb h \<or> elem_size_bytes (ih_dtype h) = 0 then False
      else let needed = needed_bytes (ih_shape h) (ih_strides h) (elem_size_bytes (ih_dtype h))
      in needed \<le> ucast u64_max \<and> needed \<le> ucast (rh_byte_size (ih_read h)))"

text \<open>A rejected result is destroyed with the read it took over.\<close>

definition image_from_message ::
    "env \<Rightarrow> nat \<Rightarrow> gpu_image \<Rightarrow> read_handle \<Rightarrow> subscriber \<Rightarrow> image_read_handle option \<times> subscriber" where
  "image_from_message E thread message read sb =
     (let result = \<lparr>ih_header = gi_header message, ih_read = read, ih_shape = gi_shape message,
                    ih_strides = gi_strides message, ih_dtype = dtype_of_byte (gi_dtype message),
                    ih_encoding = gi_encoding message\<rparr>
      in if \<not> sanity_check sb result then (None, rh_destroy E thread read sb) else (Some result, sb))"

definition image_reader_read ::
    "env \<Rightarrow> nat \<Rightarrow> gpu_image \<Rightarrow> u64 \<Rightarrow> subscriber \<Rightarrow> image_read_handle option \<times> subscriber" where
  "image_reader_read E thread message consumer_stream sb =
     (case map_message E thread (gi_core message) consumer_stream sb of
        (None, sb1) \<Rightarrow> (None, sb1)
      | (Some read, sb1) \<Rightarrow> image_from_message E thread message (Some read) sb1)"

definition fill_gpu_image_message :: "buffer_descriptor \<Rightarrow> image_read_handle \<Rightarrow> gpu_image \<Rightarrow> gpu_image" where
  "fill_gpu_image_message descriptor metadata message =
     message\<lparr>gi_core := fill_buffer_core_message descriptor (gi_core message),
       gi_header := ih_header metadata, gi_dtype := byte_of_dtype (ih_dtype metadata),
       gi_shape := ih_shape metadata, gi_strides := ih_strides metadata, gi_encoding := ih_encoding metadata\<rparr>"

record image_device_view =
  iv_data :: u64
  iv_height :: i32
  iv_width :: i32
  iv_channels :: i32
  iv_strideH :: u64
  iv_strideW :: u64
  iv_strideC :: u64
  iv_dtype :: u8

definition as_device_view :: "subscriber \<Rightarrow> image_read_handle \<Rightarrow> image_device_view" where
  "as_device_view sb h =
     (case (ih_shape h, ih_strides h) of ((rows, cols, channels), (sh, sw, sc)) \<Rightarrow>
        \<lparr>iv_data = rh_device_ptr sb (ih_read h), iv_height = ucast rows, iv_width = ucast cols,
         iv_channels = ucast channels, iv_strideH = sh, iv_strideW = sw, iv_strideC = sc,
         iv_dtype = byte_of_dtype (ih_dtype h)\<rparr>)"

section \<open>Facts\<close>

lemma byte_of_dtype_of_byte [simp]: "byte_of_dtype (dtype_of_byte b) = b"
  by (auto simp: dtype_of_byte_def)

text \<open>Where element (row, column, channel) starts, as the consumers compute it.\<close>

definition element_offset :: "u64 three \<Rightarrow> nat three \<Rightarrow> nat" where
  "element_offset strides i =
     (case (strides, i) of ((sh, sw, sc), (r, c, k)) \<Rightarrow> r * unat sh + c * unat sw + k * unat sc)"

definition in_shape :: "u32 three \<Rightarrow> nat three \<Rightarrow> bool" where
  "in_shape shape i \<longleftrightarrow>
     (case (shape, i) of ((rows, cols, channels), (r, c, k)) \<Rightarrow> r < unat rows \<and> c < unat cols \<and> k < unat channels)"

definition last_element :: "u32 three \<Rightarrow> nat three" where
  "last_element shape = (case shape of (rows, cols, channels) \<Rightarrow> (unat rows - 1, unat cols - 1, unat channels - 1))"

lemma small32: "unat (x :: u32) < 2 ^ 96"
  using unat_bound32 [of x] by simp

lemma needed_bytes_exact:
  assumes "rows \<noteq> 0" "cols \<noteq> 0" "channels \<noteq> 0"
  shows "unat (needed_bytes (rows, cols, channels) strides elem)
    = element_offset strides (last_element (rows, cols, channels)) + unat elem"
proof -
  obtain sh sw sc where s: "strides = (sh, sw, sc)" by (cases strides)
  have b: "unat (ucast (n :: u32) * ucast (st :: u64) :: u128) < 2 ^ 96" for n st
    using wide_prod_bound [of n st] by simp
  have e: "unat (ucast elem :: u128) < 2 ^ 96" using small32 [of elem] by simp
  show ?thesis
    using wide_sum4 [OF b b b e, of "rows - 1" sh "cols - 1" sw "channels - 1" sc] assms
    by (simp add: s needed_bytes_def element_offset_def last_element_def)
qed

lemma element_offset_mono:
  "in_shape shape i \<Longrightarrow> element_offset strides i \<le> element_offset strides (last_element shape)"
  by (cases shape; cases strides; cases i)
    (auto simp: in_shape_def last_element_def element_offset_def intro!: add_mono mult_le_mono1)

lemma last_in_shape: "rows \<noteq> 0 \<Longrightarrow> cols \<noteq> 0 \<Longrightarrow> channels \<noteq> 0 \<Longrightarrow> in_shape (rows, cols, channels) (last_element (rows, cols, channels))"
  by (simp add: in_shape_def last_element_def unat_gt_0)

text \<open>The last element bounds them all.\<close>

lemma needed_bytes_all:
  assumes "rows \<noteq> 0" "cols \<noteq> 0" "channels \<noteq> 0"
  shows "unat (needed_bytes (rows, cols, channels) strides elem) \<le> n
    \<longleftrightarrow> (\<forall>i. in_shape (rows, cols, channels) i \<longrightarrow> element_offset strides i + unat elem \<le> n)"
  using needed_bytes_exact [OF assms, of strides elem] last_in_shape [OF assms] element_offset_mono [of "(rows, cols, channels)" _ strides]
  by fastforce

text \<open>The image reader keeps the readers' contract.\<close>

definition image_of_message :: "gpu_image \<Rightarrow> read_handle \<Rightarrow> image_read_handle" where
  "image_of_message m r = \<lparr>ih_header = gi_header m, ih_read = r, ih_shape = gi_shape m, ih_strides = gi_strides m,
     ih_dtype = dtype_of_byte (gi_dtype m), ih_encoding = gi_encoding m\<rparr>"

interpretation image: typed_reader gi_core image_of_message sanity_check ih_read image_reader_read
  by unfold_locales (auto simp: image_of_message_def image_reader_read_def image_from_message_def)

lemma layout_check_exact:
  "sanity_check sb h \<longleftrightarrow> image_valid sb h \<and> elem_size_bytes (ih_dtype h) \<noteq> 0
    \<and> (\<forall>i. in_shape (ih_shape h) i \<longrightarrow>
        element_offset (ih_strides h) i + unat (elem_size_bytes (ih_dtype h)) \<le> unat (rh_byte_size (ih_read h)))"
proof -
  obtain rows cols channels where s: "ih_shape h = (rows, cols, channels)" by (cases "ih_shape h")
  have le: "(x :: u128) \<le> ucast (n :: u64) \<longleftrightarrow> unat x \<le> unat n" for x n by (simp add: word_le_nat_alt)
  have m: "unat (rh_byte_size (ih_read h)) \<le> unat u64_max" by (simp add: word_le_nat_alt [symmetric])
  show ?thesis
  proof (cases "image_valid sb h")
    case True
    then have "rows \<noteq> 0" "cols \<noteq> 0" "channels \<noteq> 0" by (simp_all add: image_valid_def s word_gt_0)
    note n = needed_bytes_all [OF this, of "ih_strides h" "elem_size_bytes (ih_dtype h)"]
    show ?thesis using True m n [of "unat (rh_byte_size (ih_read h))"] by (auto simp: sanity_check_def le s Let_def)
  qed (simp add: sanity_check_def)
qed

section \<open>Properties\<close>

text \<open>
  C34. The layout check accepts an image exactly when its handle is valid, its element type is
  known and every element of every row, column and channel lies inside the mapped buffer, in
  exact arithmetic: no combination of 32 bit dimensions and 64 bit strides makes the check
  wrap around.
\<close>

theorem sanity_check_is_exact:
  "sanity_check sb h \<longleftrightarrow> image_valid sb h \<and> elem_size_bytes (ih_dtype h) \<noteq> 0
    \<and> (\<forall>i. in_shape (ih_shape h) i \<longrightarrow>
        element_offset (ih_strides h) i + unat (elem_size_bytes (ih_dtype h)) \<le> unat (rh_byte_size (ih_read h)))"
  by (rule layout_check_exact)

definition sample_image :: "u64 \<Rightarrow> image_read_handle" where
  "sample_image bytes = \<lparr>ih_header = Header, ih_read = Some \<lparr>ri_resource = Some 0, ri_buffer_ref = Some BufferRef_null,
       ri_deferred_item = None, ri_byte_size = bytes, ri_device_id = 0, ri_consumer_stream = 3, ri_completion = None\<rparr>,
     ih_shape = (2, 3, 4), ih_strides = (12, 4, 1), ih_dtype = U8, ih_encoding = []\<rparr>"

definition sample_resources :: subscriber where
  "sample_resources = snd (new_resource (ImportedResources\<lparr>im_dev_ptr := 0x1000\<rparr>) (initial_subscriber initial_sys empty_shm))"

lemma sample_image_valid: "image_valid sample_resources (sample_image n)"
  by (simp add: image_valid_def sample_image_def sample_resources_def rh_valid_def has_device_memory_def imported_of_def
      new_resource_def initial_subscriber_def)

lemma sample_image_checked: "sanity_check sample_resources (sample_image 24)"
proof -
  have "\<forall>i. in_shape (2, 3, 4) i \<longrightarrow> element_offset (12, 4, 1) i + 1 \<le> 24"
    by (auto simp: in_shape_def element_offset_def)
  then show ?thesis
    unfolding layout_check_exact using sample_image_valid by (simp add: sample_image_def rh_byte_size_def)
qed

theorem sanity_check_is_exact_witness:
  "sanity_check sample_resources (sample_image 24) \<and> \<not> sanity_check sample_resources (sample_image 23)"
proof
  have "\<forall>i. in_shape (2, 3, 4) i \<longrightarrow> element_offset (12, 4, 1) i + 1 \<le> 24"
    by (auto simp: in_shape_def element_offset_def)
  then show "sanity_check sample_resources (sample_image 24)"
    unfolding sanity_check_is_exact using sample_image_valid by (simp add: sample_image_def rh_byte_size_def)
  have "in_shape (2, 3, 4) (1, 2, 3) \<and> \<not> element_offset (12, 4, 1) (1, 2, 3) + 1 \<le> 23"
    by (simp add: in_shape_def element_offset_def)
  then show "\<not> sanity_check sample_resources (sample_image 23)"
    unfolding sanity_check_is_exact by (auto simp: sample_image_def rh_byte_size_def)
qed

end
