(* ===== verification/Point_Cloud2.thy ===== *)
theory Point_Cloud2
  imports Gpu_Image
begin

text \<open>
  \<^verbatim>\<open>ros2_cuda_ipc_pointcloud2\<close>: the point cloud message, its read handle with the layout check
  (\<^verbatim>\<open>pointcloud2_read_handle.hpp\<close>, \<^verbatim>\<open>pointcloud2_read_handle.cpp\<close>), the reader
  (\<^verbatim>\<open>pointcloud2_reader.cpp\<close>) and the publisher's fill function (\<^verbatim>\<open>message_utils.hpp\<close>).
\<close>

section \<open>Data\<close>

text \<open>\<^verbatim>\<open>sensor_msgs/PointField\<close> and \<^verbatim>\<open>PointCloud2ReadHandle::Field\<close> have the same members.\<close>

record point_field =
  pf_name :: string
  pf_offset :: u32
  pf_datatype :: u8
  pf_count :: u32

record gpu_point_cloud2 =
  gp_header :: ros_header
  gp_height :: u32
  gp_width :: u32
  gp_fields :: "point_field list"
  gp_point_step :: u32
  gp_row_step :: u32
  gp_core :: buffer_core
  gp_is_dense :: bool

record point_cloud_handle =
  ph_header :: ros_header
  ph_read :: read_handle
  ph_height :: u32
  ph_width :: u32
  ph_point_step :: u32
  ph_row_step :: u32
  ph_is_dense :: bool
  ph_fields :: "point_field list"

section \<open>Operations\<close>

definition num_points :: "point_cloud_handle \<Rightarrow> u64" where
  "num_points h = ucast (ph_width h) * ucast (ph_height h)"

definition cloud_valid :: "subscriber \<Rightarrow> point_cloud_handle \<Rightarrow> bool" where
  "cloud_valid sb h \<longleftrightarrow> rh_valid sb (ph_read h) \<and> ph_point_step h > 0"

text \<open>The sizes of \<^verbatim>\<open>PointField\<close>'s data types, INT8 = 1 up to FLOAT64 = 8; any other is refused.\<close>

definition field_element_size :: "u8 \<Rightarrow> u32 option" where
  "field_element_size t =
     (if t = 1 \<or> t = 2 then Some 1
      else if t = 3 \<or> t = 4 then Some 2
      else if t = 5 \<or> t = 6 \<or> t = 7 then Some 4
      else if t = 8 then Some 8
      else None)"

definition check_field :: "u32 \<Rightarrow> point_field \<Rightarrow> bool" where
  "check_field point_step f =
     (case field_element_size (pf_datatype f) of
        None \<Rightarrow> False
      | Some element_size \<Rightarrow>
          let field_bytes = ucast element_size * ucast (pf_count f) :: u64
          in \<not> (pf_count f = 0 \<or> pf_offset f \<ge> point_step \<or> field_bytes > ucast (point_step - pf_offset f)))"

fun check_fields :: "u32 \<Rightarrow> point_field list \<Rightarrow> bool" where
  "check_fields point_step [] = True"
| "check_fields point_step (f # fs) = (if \<not> check_field point_step f then False else check_fields point_step fs)"

definition check_cloud :: "subscriber \<Rightarrow> point_cloud_handle \<Rightarrow> bool" where
  "check_cloud sb h \<longleftrightarrow>
     (if \<not> cloud_valid sb h \<or> ph_height h = 0
         \<or> ucast (ph_row_step h) < (ucast (ph_point_step h) * ucast (ph_width h) :: u64)
      then False
      else let needed = ucast (ph_row_step h) * ucast (ph_height h - 1)
                        + ucast (ph_point_step h) * ucast (ph_width h) :: u128
      in if needed > ucast u64_max \<or> needed > ucast (rh_byte_size (ph_read h)) then False
      else check_fields (ph_point_step h) (ph_fields h))"

definition cloud_from_message ::
    "env \<Rightarrow> nat \<Rightarrow> gpu_point_cloud2 \<Rightarrow> read_handle \<Rightarrow> subscriber \<Rightarrow> point_cloud_handle option \<times> subscriber" where
  "cloud_from_message E thread message read sb =
     (let result = \<lparr>ph_header = gp_header message, ph_read = read, ph_height = gp_height message,
                    ph_width = gp_width message, ph_point_step = gp_point_step message,
                    ph_row_step = gp_row_step message, ph_is_dense = gp_is_dense message,
                    ph_fields = gp_fields message\<rparr>
      in if \<not> check_cloud sb result then (None, rh_destroy E thread read sb) else (Some result, sb))"

definition cloud_reader_read ::
    "env \<Rightarrow> nat \<Rightarrow> gpu_point_cloud2 \<Rightarrow> u64 \<Rightarrow> subscriber \<Rightarrow> point_cloud_handle option \<times> subscriber" where
  "cloud_reader_read E thread message consumer_stream sb =
     (case map_message E thread (gp_core message) consumer_stream sb of
        (None, sb1) \<Rightarrow> (None, sb1)
      | (Some read, sb1) \<Rightarrow> cloud_from_message E thread message (Some read) sb1)"

definition fill_gpu_pointcloud2_message ::
    "buffer_descriptor \<Rightarrow> point_cloud_handle \<Rightarrow> gpu_point_cloud2 \<Rightarrow> gpu_point_cloud2" where
  "fill_gpu_pointcloud2_message descriptor metadata message =
     message\<lparr>gp_core := fill_buffer_core_message descriptor (gp_core message),
       gp_header := ph_header metadata, gp_height := ph_height metadata, gp_width := ph_width metadata,
       gp_point_step := ph_point_step metadata, gp_row_step := ph_row_step metadata,
       gp_is_dense := ph_is_dense metadata, gp_fields := ph_fields metadata\<rparr>"

text \<open>The description that is passed to kernels, with the caller's array of fields.\<close>

record cloud_device_view =
  cv_data :: u64
  cv_width :: i32
  cv_height :: i32
  cv_point_step :: u64
  cv_row_step :: u64
  cv_is_dense :: bool
  cv_fields :: u64
  cv_num_fields :: i32

definition cloud_as_device_view :: "subscriber \<Rightarrow> point_cloud_handle \<Rightarrow> u64 \<Rightarrow> i32 \<Rightarrow> cloud_device_view" where
  "cloud_as_device_view sb h device_fields n =
     \<lparr>cv_data = rh_device_ptr sb (ph_read h), cv_width = ucast (ph_width h), cv_height = ucast (ph_height h),
      cv_point_step = ucast (ph_point_step h), cv_row_step = ucast (ph_row_step h), cv_is_dense = ph_is_dense h,
      cv_fields = device_fields, cv_num_fields = n\<rparr>"

section \<open>Facts\<close>

lemma wide_prod32: "unat (ucast (a :: u32) * ucast (b :: u32) :: u64) = unat a * unat b"
proof -
  have "unat a * unat b \<le> (2 ^ 32 - 1) * (2 ^ 32 - 1)"
    using unat_bound32 [of a] unat_bound32 [of b] by (intro mult_le_mono) simp_all
  then have "unat a * unat b < 2 ^ 64" by simp
  then show ?thesis by (simp add: unat_word_ariths)
qed

lemma wide_prod32_128: "unat (ucast (a :: u32) * ucast (b :: u32) :: u128) = unat a * unat b"
proof -
  have "unat a * unat b \<le> (2 ^ 32 - 1) * (2 ^ 32 - 1)"
    using unat_bound32 [of a] unat_bound32 [of b] by (intro mult_le_mono) simp_all
  then have "unat a * unat b < 2 ^ 128" by simp
  then show ?thesis by (simp add: unat_word_ariths)
qed

lemma cloud_needed:
  "unat (ucast (a :: u32) * ucast (b :: u32) + ucast (c :: u32) * ucast (d :: u32) :: u128) = unat a * unat b + unat c * unat d"
proof -
  have m: "unat x * unat y < 2 ^ 64" for x y :: u32
  proof -
    have "unat x * unat y \<le> (2 ^ 32 - 1) * (2 ^ 32 - 1)"
      using unat_bound32 [of x] unat_bound32 [of y] by (intro mult_le_mono) simp_all
    then show ?thesis by simp
  qed
  have b: "unat (ucast x * ucast y :: u128) < 2 ^ 64" for x y :: u32
    using m [of x y] by (simp add: wide_prod32_128)
  show ?thesis using wide_add(1) [OF b b, of a b c d] by (simp add: wide_prod32_128)
qed

lemma check_fields_all: "check_fields step fs \<longleftrightarrow> (\<forall>f \<in> set fs. check_field step f)"
  by (induction fs) auto

text \<open>What a field's check means in exact arithmetic.\<close>

lemma check_field_exact:
  "check_field step f \<longleftrightarrow> (\<exists>size. field_element_size (pf_datatype f) = Some size \<and> pf_count f \<noteq> 0
     \<and> pf_offset f < step \<and> unat (pf_offset f) + unat size * unat (pf_count f) \<le> unat step)"
proof (cases "field_element_size (pf_datatype f)")
  case (Some size)
  have "unat (step - pf_offset f) = unat step - unat (pf_offset f)" if "pf_offset f < step"
    using that by (simp add: unat_sub)
  then show ?thesis using Some
    by (auto simp: check_field_def Let_def word_le_nat_alt word_less_nat_alt wide_prod32 not_le not_less)
qed (simp add: check_field_def)

text \<open>The point cloud reader keeps the readers' contract.\<close>

definition cloud_of_message :: "gpu_point_cloud2 \<Rightarrow> read_handle \<Rightarrow> point_cloud_handle" where
  "cloud_of_message m r = \<lparr>ph_header = gp_header m, ph_read = r, ph_height = gp_height m, ph_width = gp_width m,
     ph_point_step = gp_point_step m, ph_row_step = gp_row_step m, ph_is_dense = gp_is_dense m, ph_fields = gp_fields m\<rparr>"

interpretation cloud: typed_reader gp_core cloud_of_message check_cloud ph_read cloud_reader_read
  by unfold_locales (auto simp: cloud_of_message_def cloud_reader_read_def cloud_from_message_def)

section \<open>Properties\<close>

text \<open>
  C35. The layout check accepts a point cloud exactly when its handle is valid, it has rows and a
  positive point size, no row of points runs into the next one, every point of every row lies
  inside the mapped buffer, and every field has a known type, at least one element and lies
  inside its point; all in exact arithmetic.
\<close>

theorem cloud_check_is_exact:
  "check_cloud sb h \<longleftrightarrow> cloud_valid sb h \<and> ph_height h \<noteq> 0
    \<and> unat (ph_point_step h) * unat (ph_width h) \<le> unat (ph_row_step h)
    \<and> (\<forall>row < unat (ph_height h). row * unat (ph_row_step h) + unat (ph_point_step h) * unat (ph_width h)
          \<le> unat (rh_byte_size (ph_read h)))
    \<and> (\<forall>f \<in> set (ph_fields h). \<exists>size. field_element_size (pf_datatype f) = Some size \<and> pf_count f \<noteq> 0
          \<and> pf_offset f < ph_point_step h
          \<and> unat (pf_offset f) + unat size * unat (pf_count f) \<le> unat (ph_point_step h))"
proof (cases "cloud_valid sb h \<and> ph_height h \<noteq> 0")
  case True
  let ?w = "unat (ph_point_step h) * unat (ph_width h)" and ?n = "unat (rh_byte_size (ph_read h))"
  have last: "unat (ph_height h - 1) = unat (ph_height h) - 1" using True by simp
  have pos: "0 < unat (ph_height h)" using True by (simp add: unat_gt_0)
  have rows: "(\<forall>row < unat (ph_height h). row * unat (ph_row_step h) + ?w \<le> ?n)
      \<longleftrightarrow> (unat (ph_height h) - 1) * unat (ph_row_step h) + ?w \<le> ?n"
  proof
    assume l: "(unat (ph_height h) - 1) * unat (ph_row_step h) + ?w \<le> ?n"
    show "\<forall>row < unat (ph_height h). row * unat (ph_row_step h) + ?w \<le> ?n"
    proof (intro allI impI)
      fix row assume "row < unat (ph_height h)"
      then have "row * unat (ph_row_step h) \<le> (unat (ph_height h) - 1) * unat (ph_row_step h)"
        by (intro mult_le_mono1) simp
      with l show "row * unat (ph_row_step h) + ?w \<le> ?n" by linarith
    qed
  qed (use pos in simp)
  have bound: "?n \<le> unat u64_max" by (simp add: word_le_nat_alt [symmetric])
  show ?thesis
    unfolding rows using True bound
    by (auto simp: check_cloud_def Let_def word_le_nat_alt word_less_nat_alt cloud_needed wide_prod32 last
        check_fields_all check_field_exact not_le not_less mult.commute)
qed (auto simp: check_cloud_def)

definition sample_cloud :: "u64 \<Rightarrow> point_field list \<Rightarrow> point_cloud_handle" where
  "sample_cloud bytes fs = \<lparr>ph_header = Header, ph_read = ih_read (sample_image bytes), ph_height = 2, ph_width = 3,
     ph_point_step = 12, ph_row_step = 40, ph_is_dense = True, ph_fields = fs\<rparr>"

definition sample_field :: "u32 \<Rightarrow> point_field" where
  "sample_field offset = \<lparr>pf_name = ''x'', pf_offset = offset, pf_datatype = 7, pf_count = 1\<rparr>"

lemma sample_cloud_valid: "cloud_valid sample_resources (sample_cloud n fs)"
  using sample_image_valid [of n] by (simp add: cloud_valid_def image_valid_def sample_cloud_def sample_image_def)

theorem cloud_check_is_exact_witness:
  "check_cloud sample_resources (sample_cloud 76 [sample_field 0, sample_field 8])
   \<and> \<not> check_cloud sample_resources (sample_cloud 75 [sample_field 0])
   \<and> \<not> check_cloud sample_resources (sample_cloud 76 [sample_field 9])"
proof (intro conjI)
  show "check_cloud sample_resources (sample_cloud 76 [sample_field 0, sample_field 8])"
    unfolding cloud_check_is_exact using sample_cloud_valid
    by (simp add: sample_cloud_def sample_field_def sample_image_def rh_byte_size_def field_element_size_def)
  show "\<not> check_cloud sample_resources (sample_cloud 75 [sample_field 0])"
    unfolding cloud_check_is_exact
    by (auto simp: sample_cloud_def sample_image_def rh_byte_size_def intro!: exI [of _ "1 :: nat"])
  show "\<not> check_cloud sample_resources (sample_cloud 76 [sample_field 9])"
    unfolding cloud_check_is_exact by (simp add: sample_cloud_def sample_field_def field_element_size_def)
qed

end
