(* ===== verification/Tensor_Descriptor.thy ===== *)
theory Tensor_Descriptor
  imports Gpu_Image
begin

text \<open>
  \<^verbatim>\<open>ros2_cuda_ipc_py/dlpack/image_tensor_descriptor.hpp\<close>: the projection of an image's metadata
  into a DLPack tensor, whose strides count elements instead of bytes. The types of
  \<^verbatim>\<open>dlpack.h\<close> are not part of the repository: \<^verbatim>\<open>DLDataType\<close> is kept as the record of the three
  members the sources fill in, and its type codes as the three names they use.
\<close>

section \<open>Data\<close>

datatype (plugins only: code) dl_type_code = kDLInt | kDLUInt | kDLFloat

record dl_data_type =
  dl_code :: dl_type_code
  dl_bits :: u8
  dl_lanes :: "16 word"

type_synonym i64 = "64 word"

record image_tensor =
  it_data :: u64
  it_device_id :: i32
  it_allocation_size :: u64
  it_byte_offset :: u64
  it_rank :: i32
  it_shape :: "i64 list"
  it_element_strides :: "i64 list"
  it_dl_dtype :: dl_data_type

text \<open>One constructor for each \<^verbatim>\<open>std::invalid_argument\<close> the header throws.\<close>

datatype (plugins only: code) tensor_error = NullAllocation | UnsupportedDType | ZeroSizedElements
  | DimensionNotPositive | StrideNotDivisible | StrideOverlaps | StrideExceedsInt64
  | ExceedsAllocation | PointerOverflow

abbreviation i64_max :: u64 where "i64_max \<equiv> 0x7FFFFFFFFFFFFFFF"

section \<open>Operations\<close>

primrec tensor_dl_dtype :: "dtype \<Rightarrow> tensor_error + dl_data_type" where
  "tensor_dl_dtype U8 = Inr \<lparr>dl_code = kDLUInt, dl_bits = 8, dl_lanes = 1\<rparr>"
| "tensor_dl_dtype U16 = Inr \<lparr>dl_code = kDLUInt, dl_bits = 16, dl_lanes = 1\<rparr>"
| "tensor_dl_dtype F16 = Inr \<lparr>dl_code = kDLFloat, dl_bits = 16, dl_lanes = 1\<rparr>"
| "tensor_dl_dtype F32 = Inr \<lparr>dl_code = kDLFloat, dl_bits = 32, dl_lanes = 1\<rparr>"
| "tensor_dl_dtype F64 = Inr \<lparr>dl_code = kDLFloat, dl_bits = 64, dl_lanes = 1\<rparr>"
| "tensor_dl_dtype S16 = Inr \<lparr>dl_code = kDLInt, dl_bits = 16, dl_lanes = 1\<rparr>"
| "tensor_dl_dtype S32 = Inr \<lparr>dl_code = kDLInt, dl_bits = 32, dl_lanes = 1\<rparr>"
| "tensor_dl_dtype U32 = Inr \<lparr>dl_code = kDLUInt, dl_bits = 32, dl_lanes = 1\<rparr>"
| "tensor_dl_dtype (Unnamed b) = Inl UnsupportedDType"

definition tensor_element_size :: "dl_data_type \<Rightarrow> u64" where
  "tensor_element_size t = ucast (dl_bits t div 8) * ucast (dl_lanes t)"

text \<open>One iteration of the loop over the dimensions: shape, element stride and byte span.\<close>

definition project_dimension :: "u64 \<Rightarrow> u32 \<Rightarrow> u64 \<Rightarrow> tensor_error + (i64 \<times> i64 \<times> u128)" where
  "project_dimension element_size n stride =
     (if n = 0 then Inl DimensionNotPositive
      else if stride mod element_size \<noteq> 0 then Inl StrideNotDivisible
      else if n > 1 \<and> stride < element_size then Inl StrideOverlaps
      else let element_stride = stride div element_size
      in if element_stride > i64_max then Inl StrideExceedsInt64
      else Inr (ucast n, element_stride, ucast (n - 1) * ucast stride))"

fun project_dimensions ::
    "u64 \<Rightarrow> (u32 \<times> u64) list \<Rightarrow> u128 \<Rightarrow> tensor_error + (i64 list \<times> i64 list \<times> u128)" where
  "project_dimensions element_size [] last_byte = Inr ([], [], last_byte)"
| "project_dimensions element_size ((n, stride) # dims) last_byte =
     (case project_dimension element_size n stride of
        Inl e \<Rightarrow> Inl e
      | Inr (extent, element_stride, span) \<Rightarrow>
          (case project_dimensions element_size dims (last_byte + span) of
             Inl e \<Rightarrow> Inl e
           | Inr (shape, strides, last') \<Rightarrow> Inr (extent # shape, element_stride # strides, last')))"

definition dimensions :: "u32 three \<Rightarrow> u64 three \<Rightarrow> (u32 \<times> u64) list" where
  "dimensions shape strides =
     (case (shape, strides) of ((rows, cols, channels), (sh, sw, sc)) \<Rightarrow> [(rows, sh), (cols, sw), (channels, sc)])"

definition project_to_tensor ::
    "dtype \<Rightarrow> u32 three \<Rightarrow> u64 three \<Rightarrow> u64 \<Rightarrow> u64 \<Rightarrow> i32 \<Rightarrow> tensor_error + image_tensor" where
  "project_to_tensor dtype shape strides data allocation_size device_id =
     (if data = 0 then Inl NullAllocation
      else case tensor_dl_dtype dtype of
        Inl e \<Rightarrow> Inl e
      | Inr dl \<Rightarrow>
          let element_size = tensor_element_size dl
          in if element_size = 0 then Inl ZeroSizedElements
          else case project_dimensions element_size (dimensions shape strides) 0 of
            Inl e \<Rightarrow> Inl e
          | Inr (sizes, element_strides, spans) \<Rightarrow>
              let last_byte = spans + ucast element_size
              in if last_byte > ucast u64_max \<or> last_byte > ucast allocation_size then Inl ExceedsAllocation
              else if allocation_size > u64_max - data \<or> last_byte > ucast (u64_max - data) then Inl PointerOverflow
              else Inr \<lparr>it_data = data, it_device_id = device_id, it_allocation_size = allocation_size,
                        it_byte_offset = 0, it_rank = 3, it_shape = sizes,
                        it_element_strides = element_strides, it_dl_dtype = dl\<rparr>)"

section \<open>Element sizes\<close>

lemma tensor_dl_dtype_size:
  "tensor_dl_dtype dtype = Inr dl \<Longrightarrow> tensor_element_size dl = ucast (elem_size_bytes dtype) \<and> tensor_element_size dl \<noteq> 0"
  by (cases dtype) (auto simp: tensor_element_size_def)

lemma tensor_dl_dtype_iff: "(\<exists>dl. tensor_dl_dtype dtype = Inr dl) \<longleftrightarrow> elem_size_bytes dtype \<noteq> 0"
  by (cases dtype) simp_all

lemma tensor_dl_dtype_bits: "tensor_dl_dtype dtype = Inr dl \<Longrightarrow> ucast (dl_bits dl div 8) = elem_size_bytes dtype"
  by (cases dtype) auto

lemma tensor_dl_dtype_Inl: "tensor_dl_dtype dtype = Inl e \<Longrightarrow> elem_size_bytes dtype = 0"
  by (cases dtype) auto

section \<open>One dimension\<close>

definition dimension_ok :: "u32 \<Rightarrow> u32 \<Rightarrow> u64 \<Rightarrow> bool" where
  "dimension_ok elem n stride \<longleftrightarrow> n \<noteq> 0 \<and> unat elem dvd unat stride \<and> (n > 1 \<longrightarrow> stride \<noteq> 0)
     \<and> unat stride div unat elem < 2 ^ 63"

lemma i64_max_iff: "(x :: u64) > i64_max \<longleftrightarrow> \<not> unat x < 2 ^ 63"
  by (auto simp: word_less_nat_alt)

lemma mod_zero_iff: "(s :: u64) mod e = 0 \<longleftrightarrow> unat e dvd unat s"
proof -
  have "s mod e = 0 \<longleftrightarrow> unat (s mod e) = 0" by (simp only: unat_eq_zero)
  also have "\<dots> \<longleftrightarrow> unat e dvd unat s" by (simp only: unat_mod dvd_eq_mod_eq_0)
  finally show ?thesis .
qed

primrec dimensions_ok :: "u32 \<Rightarrow> (u32 \<times> u64) list \<Rightarrow> bool" where
  "dimensions_ok elem [] \<longleftrightarrow> True"
| "dimensions_ok elem (d # dims) \<longleftrightarrow> dimension_ok elem (fst d) (snd d) \<and> dimensions_ok elem dims"

lemma project_dimension_exact:
  assumes "elem \<noteq> 0"
  shows "project_dimension (ucast elem) n stride = Inr r \<longleftrightarrow>
    dimension_ok elem n stride \<and> r = (ucast n, stride div ucast elem, ucast (n - 1) * ucast stride)"
proof -
  have small: "stride < ucast elem \<longleftrightarrow> stride = 0" if "unat elem dvd unat stride"
  proof
    assume "stride < ucast elem"
    then have "unat stride < unat elem" by (simp add: word_less_nat_alt)
    with that have "unat stride = 0" using nat_dvd_not_less by blast
    then show "stride = 0" by (simp add: unat_eq_zero)
  qed (use assms in \<open>simp add: word_less_nat_alt unat_gt_0\<close>)
  show ?thesis
    using small by (auto simp: project_dimension_def dimension_ok_def Let_def mod_zero_iff i64_max_iff unat_div)
qed

lemma project_dimensions_exact:
  assumes "elem \<noteq> 0"
  shows "project_dimensions (ucast elem) dims acc = Inr (sizes, strides, spans) \<longleftrightarrow>
     dimensions_ok elem dims \<and> sizes = map (\<lambda>(n, s). ucast n) dims
     \<and> strides = map (\<lambda>(n, s). s div ucast elem) dims
     \<and> spans = acc + (\<Sum>(n, s) \<leftarrow> dims. ucast (n - 1) * ucast s)"
proof (induction dims arbitrary: acc sizes strides spans)
  case (Cons d dims)
  obtain n s where d: "d = (n, s)" by (cases d)
  note one = project_dimension_exact [OF assms, of n s]
  show ?case
  proof (cases "project_dimension (ucast elem) n s")
    case (Inl e)
    then have "\<not> dimension_ok elem n s" using one by (metis sum.distinct(1))
    with Inl show ?thesis by (simp add: d)
  next
    case (Inr r)
    then have ok: "dimension_ok elem n s" "r = (ucast n, s div ucast elem, ucast (n - 1) * ucast s)"
      using one by simp_all
    show ?thesis
      by (cases "project_dimensions (ucast elem) dims (acc + ucast (n - 1) * ucast s)")
        (use Inr ok Cons.IH [of "acc + ucast (n - 1) * ucast s"] in \<open>auto simp: d add.assoc\<close>)
  qed
qed auto


section \<open>The whole projection\<close>

lemma projected_span:
  "unat ((\<Sum>(n, s) \<leftarrow> dimensions (rows, cols, channels) strides. ucast (n - 1) * ucast s) + ucast elem :: u128)
     = unat (needed_bytes (rows, cols, channels) strides elem)"
  by (cases strides) (simp add: dimensions_def needed_bytes_def add.assoc)

lemma dimensions_nonzero:
  assumes "dimensions_ok elem (dimensions (rows, cols, channels) strides)"
  shows "rows \<noteq> 0" "cols \<noteq> 0" "channels \<noteq> 0"
  using assms by (cases strides; simp add: dimensions_def dimension_ok_def)+

lemma room_iff:
  "unat (bytes :: u64) \<le> unat (u64_max - data) \<longleftrightarrow> unat data + unat bytes < 2 ^ 64"
proof -
  have "unat (u64_max - data) = 2 ^ 64 - 1 - unat data"
    by (subst unat_sub) (simp_all add: u64_max_unat)
  then show ?thesis using unat_bound64 [of data] by simp linarith
qed

text \<open>The result and the conditions for it, in one equation.\<close>

lemma project_to_tensor_Inr:
  "project_to_tensor dtype shape strides data bytes device = Inr t \<longleftrightarrow>
     (data \<noteq> 0 \<and> elem_size_bytes dtype \<noteq> 0
      \<and> dimensions_ok (elem_size_bytes dtype) (dimensions shape strides)
      \<and> (\<forall>i. in_shape shape i \<longrightarrow> element_offset strides i + unat (elem_size_bytes dtype) \<le> unat bytes)
      \<and> unat data + unat bytes < 2 ^ 64)
     \<and> (\<exists>dl. tensor_dl_dtype dtype = Inr dl
        \<and> t = \<lparr>it_data = data, it_device_id = device, it_allocation_size = bytes, it_byte_offset = 0, it_rank = 3,
               it_shape = map (\<lambda>(n, s). ucast n) (dimensions shape strides),
               it_element_strides = map (\<lambda>(n, s). s div ucast (elem_size_bytes dtype)) (dimensions shape strides),
               it_dl_dtype = dl\<rparr>)"
proof (cases "tensor_dl_dtype dtype")
  case (Inl e)
  then show ?thesis by (simp add: project_to_tensor_def)
next
  case (Inr dl)
  obtain rows cols channels where sh: "shape = (rows, cols, channels)" by (cases shape)
  define elem where "elem = elem_size_bytes dtype"
  have e: "tensor_element_size dl = ucast elem" "tensor_element_size dl \<noteq> 0" "elem \<noteq> 0"
    using tensor_dl_dtype_size [OF Inr] by (auto simp: elem_def)
  note dims = project_dimensions_exact [OF e(3), of "dimensions shape strides" 0]
  show ?thesis
  proof (cases "data \<noteq> 0 \<and> dimensions_ok elem (dimensions shape strides)")
    case False
    then show ?thesis
      by (cases "project_dimensions (ucast elem) (dimensions shape strides) 0")
        (use dims in \<open>auto simp: project_to_tensor_def Inr e elem_def [symmetric] Let_def\<close>)
  next
    case True
    define last where "last = (\<Sum>(n, s) \<leftarrow> dimensions shape strides. ucast (n - 1) * ucast s) + (ucast elem :: u128)"
    have p: "project_dimensions (ucast elem) (dimensions shape strides) 0 = Inr
        (map (\<lambda>(n, s). ucast n) (dimensions shape strides), map (\<lambda>(n, s). s div ucast elem) (dimensions shape strides),
         \<Sum>(n, s) \<leftarrow> dimensions shape strides. ucast (n - 1) * ucast s)"
      using dims True by simp
    note nz = dimensions_nonzero [OF conjunct2 [OF True, unfolded sh]]
    have wide: "ucast (ucast elem :: u64) = (ucast elem :: u128)" by (simp add: word_unat_eq_iff)
    have fits: "(unat last \<le> unat bytes) \<longleftrightarrow>
        (\<forall>i. in_shape shape i \<longrightarrow> element_offset strides i + unat elem \<le> unat bytes)"
      using needed_bytes_all [OF nz] by (simp add: last_def sh projected_span)
    have room: "unat last \<le> unat (u64_max - data)" if "unat last \<le> unat bytes" "unat bytes \<le> unat (u64_max - data)"
      using that by simp
    have nonzero: "(ucast elem :: u64) \<noteq> 0" using e by metis
    have m: "unat bytes \<le> unat u64_max" by (simp add: word_le_nat_alt [symmetric])
    show ?thesis
      using True fits room m nonzero room_iff [of bytes data]
      by (auto simp: project_to_tensor_def Inr e(1,3) p Let_def wide last_def [symmetric] elem_def [symmetric]
          word_less_nat_alt not_less)
  qed
qed

section \<open>Properties\<close>

text \<open>Where the tensor's consumer finds an element, counted in elements.\<close>

definition tensor_offset :: "image_tensor \<Rightarrow> nat three \<Rightarrow> int" where
  "tensor_offset t i =
     (case i of (r, c, k) \<Rightarrow> int r * sint (it_element_strides t ! 0) + int c * sint (it_element_strides t ! 1)
        + int k * sint (it_element_strides t ! 2))"

lemma sint_small: "unat (x :: u64) < 2 ^ 63 \<Longrightarrow> sint x = int (unat x)"
  by (rule sint_nonnegative) simp

lemma element_stride_exact:
  assumes "dimension_ok elem n s" "elem \<noteq> 0"
  shows "int (unat elem) * sint (s div ucast elem) = int (unat s)"
proof -
  have d: "unat (s div ucast elem) = unat s div unat elem" by (simp add: unat_div)
  have m: "unat elem * (unat s div unat elem) = unat s" "unat s div unat elem < 2 ^ 63"
    using assms by (simp_all add: dimension_ok_def)
  have "sint (s div ucast elem) = int (unat s div unat elem)"
    using sint_small [of "s div ucast elem"] m(2) by (simp only: d)
  then have "int (unat elem) * sint (s div ucast elem) = int (unat elem * (unat s div unat elem))"
    by (simp only: of_nat_mult)
  then show ?thesis by (simp only: m(1))
qed

text \<open>
  The projection produces a tensor exactly when the allocation is not null, the element
  type is known, every dimension is positive, every byte stride is a whole number of elements
  that DLPack's signed strides can hold and is not zero where the dimension has more than one
  element, every element lies in the allocation, and the allocation does not wrap around the
  address space.
\<close>

theorem tensor_projection_is_exact:
  "(\<exists>t. project_to_tensor dtype shape strides data bytes device = Inr t) \<longleftrightarrow>
     data \<noteq> 0 \<and> elem_size_bytes dtype \<noteq> 0
     \<and> dimensions_ok (elem_size_bytes dtype) (dimensions shape strides)
     \<and> (\<forall>i. in_shape shape i \<longrightarrow> element_offset strides i + unat (elem_size_bytes dtype) \<le> unat bytes)
     \<and> unat data + unat bytes < 2 ^ 64"
  using tensor_dl_dtype_iff [of dtype] by (auto simp: project_to_tensor_Inr)

theorem tensor_projection_is_exact_witness:
  "(\<exists>t. project_to_tensor U8 (2, 3, 4) (12, 4, 1) 0x1000 24 0 = Inr t)
   \<and> \<not> (\<exists>t. project_to_tensor U16 (2, 3, 4) (12, 4, 1) 0x1000 48 0 = Inr t)"
proof
  have "\<forall>i. in_shape (2, 3, 4) i \<longrightarrow> element_offset (12, 4, 1) i + 1 \<le> 24"
    by (auto simp: in_shape_def element_offset_def)
  then show "\<exists>t. project_to_tensor U8 (2, 3, 4) (12, 4, 1) 0x1000 24 0 = Inr t"
    unfolding tensor_projection_is_exact by (simp add: dimensions_def dimension_ok_def)
  show "\<not> (\<exists>t. project_to_tensor U16 (2, 3, 4) (12, 4, 1) 0x1000 48 0 = Inr t)"
    unfolding tensor_projection_is_exact by (simp add: dimensions_def dimension_ok_def)
qed

text \<open>
  C33. A projected tensor is the image: it has the image's allocation and device, rank three and
  the image's dimensions, and counting in elements with its signed strides leads to the same
  byte as counting in bytes with the image's; every element's bytes lie inside the allocation,
  without wrap-around.
\<close>

theorem tensor_addresses_the_image:
  assumes "project_to_tensor dtype (rows, cols, channels) strides data bytes device = Inr t"
  shows "it_data t = data \<and> it_device_id t = device \<and> it_allocation_size t = bytes \<and> it_byte_offset t = 0
    \<and> it_rank t = 3 \<and> tensor_dl_dtype dtype = Inr (it_dl_dtype t)
    \<and> map sint (it_shape t) = [int (unat rows), int (unat cols), int (unat channels)]
    \<and> length (it_element_strides t) = 3
    \<and> (\<forall>i. in_shape (rows, cols, channels) i \<longrightarrow>
         int (unat (elem_size_bytes dtype)) * tensor_offset t i = int (element_offset strides i)
         \<and> unat data + element_offset strides i + unat (elem_size_bytes dtype) \<le> unat data + unat bytes)
    \<and> unat data + unat bytes < 2 ^ 64"
proof -
  let ?e = "elem_size_bytes dtype"
  obtain sh sw sc where s: "strides = (sh, sw, sc)" by (cases strides)
  note p = assms [unfolded project_to_tensor_Inr]
  have d: "dimension_ok ?e rows sh" "dimension_ok ?e cols sw" "dimension_ok ?e channels sc" "?e \<noteq> 0"
    using p by (simp_all add: dimensions_def s)
  have same: "int (unat ?e) * tensor_offset t i = int (element_offset strides i)" for i
  proof -
    obtain r c k where i: "i = (r, c, k)" by (cases i)
    have "int (unat ?e) * tensor_offset t i = int r * (int (unat ?e) * sint (sh div ucast ?e))
        + int c * (int (unat ?e) * sint (sw div ucast ?e)) + int k * (int (unat ?e) * sint (sc div ucast ?e))"
      using p by (auto simp: i tensor_offset_def s dimensions_def algebra_simps)
    also have "\<dots> = int (element_offset strides i)"
      by (simp only: element_stride_exact [OF d(1,4)] element_stride_exact [OF d(2,4)] element_stride_exact [OF d(3,4)])
        (simp add: i s element_offset_def)
    finally show ?thesis .
  qed
  have sh: "sint (ucast (n :: u32) :: u64) = int (unat n)" for n
    using unat_bound32 [of n] by (subst sint_small) simp_all
  show ?thesis using p same by (auto simp: dimensions_def s sh)
qed

theorem tensor_addresses_the_image_witness:
  "\<exists>t. project_to_tensor F32 (2, 3, 4) (64, 16, 4) 0x1000 112 0 = Inr t
     \<and> map sint (it_shape t) = [2, 3, 4] \<and> 4 * tensor_offset t (1, 2, 3) = 108"
proof -
  have "project_to_tensor F32 (2, 3, 4) (64, 16, 4) 0x1000 112 0 = Inr
      \<lparr>it_data = 0x1000, it_device_id = 0, it_allocation_size = 112, it_byte_offset = 0, it_rank = 3,
       it_shape = [2, 3, 4], it_element_strides = [16, 4, 1],
       it_dl_dtype = \<lparr>dl_code = kDLFloat, dl_bits = 32, dl_lanes = 1\<rparr>\<rparr>" (is "_ = Inr ?t")
    unfolding project_to_tensor_Inr
    by (auto simp: dimensions_def dimension_ok_def in_shape_def element_offset_def)
  note a = tensor_addresses_the_image [OF this]
  have i: "in_shape (2, 3, 4) (1, 2, 3)" by (simp add: in_shape_def)
  from a i have "int (unat (elem_size_bytes F32)) * tensor_offset ?t (1, 2, 3) = int (element_offset (64, 16, 4) (1, 2, 3))"
    by blast
  with a show ?thesis
    using \<open>project_to_tensor F32 _ _ _ _ _ = _\<close> by (intro exI [of _ ?t]) (simp add: element_offset_def)
qed

end
