(* ===== verification/Python_Descriptor.thy ===== *)
theory Python_Descriptor
  imports Tensor_Descriptor
begin

text \<open>
  The descriptor half of \<^verbatim>\<open>ros2_cuda_ipc_py/src/native_module.cpp\<close>: Python dictionaries are read
  into messages and their layout is checked before anything is mapped. A value is what the
  CPython calls of this file distinguish; a text is its code points, an object with an
  \<^verbatim>\<open>__index__\<close> method its integer, and a user-defined sequence its length and items, either of
  which may raise.
\<close>

section \<open>Python values and exceptions\<close>

datatype (plugins only: code) py_value =
    PyInt int
  | PyIndexed int
  | PyText "nat list"
  | PyBytes "u8 list"
  | PyItems "py_value list"
  | PySequence "nat option" "py_value option list"
  | PyDict "(string \<times> py_value) list"
  | PyOther

type_synonym py_dict = "(string \<times> py_value) list"

text \<open>The exceptions of the module. \<^verbatim>\<open>ErrorAlreadySet\<close> forwards one that Python raised.\<close>

datatype (plugins only: code) py_error =
    KeyError string | TypeError string | ValueError string | BufferError tensor_error
  | MappingError string | CastError | ErrorAlreadySet | LogicError string

definition py_number_index :: "py_value \<Rightarrow> int option" where
  "py_number_index v = (case v of PyInt i \<Rightarrow> Some i | PyIndexed i \<Rightarrow> Some i | _ \<Rightarrow> None)"

definition py_sequence_check :: "py_value \<Rightarrow> bool" where
  "py_sequence_check v =
     (case v of PyText cs \<Rightarrow> True | PyBytes bs \<Rightarrow> True | PyItems vs \<Rightarrow> True | PySequence n vs \<Rightarrow> True | _ \<Rightarrow> False)"

definition py_sequence_size :: "py_value \<Rightarrow> nat option" where
  "py_sequence_size v =
     (case v of PyText cs \<Rightarrow> Some (length cs) | PyBytes bs \<Rightarrow> Some (length bs) | PyItems vs \<Rightarrow> Some (length vs)
      | PySequence n vs \<Rightarrow> n | _ \<Rightarrow> None)"

definition py_sequence_get_item :: "py_value \<Rightarrow> nat \<Rightarrow> py_value option" where
  "py_sequence_get_item v i =
     (case v of
        PyText cs \<Rightarrow> if i < length cs then Some (PyText [cs ! i]) else None
      | PyBytes bs \<Rightarrow> if i < length bs then Some (PyInt (int (unat (bs ! i)))) else None
      | PyItems vs \<Rightarrow> if i < length vs then Some (vs ! i) else None
      | PySequence n vs \<Rightarrow> if i < length vs then vs ! i else None
      | _ \<Rightarrow> None)"

text \<open>The conversion to \<^verbatim>\<open>std::string\<close>, UTF-8; surrogates have no encoding.\<close>

definition utf8_char :: "nat \<Rightarrow> string option" where
  "utf8_char c =
     (if c < 0x80 then Some [char_of c]
      else if c < 0x800 then Some [char_of (0xC0 + c div 64), char_of (0x80 + c mod 64)]
      else if 0xD800 \<le> c \<and> c < 0xE000 then None
      else if c < 0x10000 then
        Some [char_of (0xE0 + c div 4096), char_of (0x80 + c div 64 mod 64), char_of (0x80 + c mod 64)]
      else if c < 0x110000 then
        Some [char_of (0xF0 + c div 262144), char_of (0x80 + c div 4096 mod 64),
              char_of (0x80 + c div 64 mod 64), char_of (0x80 + c mod 64)]
      else None)"

fun utf8 :: "nat list \<Rightarrow> string option" where
  "utf8 [] = Some []"
| "utf8 (c # cs) = (case (utf8_char c, utf8 cs) of (Some b, Some bs) \<Rightarrow> Some (b @ bs) | _ \<Rightarrow> None)"

section \<open>Fields\<close>

definition required :: "py_dict \<Rightarrow> string \<Rightarrow> py_error + py_value" where
  "required descriptor key =
     (case map_of descriptor key of
        None \<Rightarrow> Inl (KeyError (''descriptor is missing field '' @ CHR 0x27 # key @ [CHR 0x27]))
      | Some v \<Rightarrow> Inr v)"

definition required_dict :: "py_dict \<Rightarrow> string \<Rightarrow> py_error + py_dict" where
  "required_dict descriptor key =
     and_then (required descriptor key)
       (\<lambda>v. case v of PyDict d \<Rightarrow> Inr d
            | _ \<Rightarrow> Inl (TypeError (''descriptor field '' @ CHR 0x27 # key @ CHR 0x27 # '' must be a dictionary'')))"

text \<open>The template's integer type is the word type of the result.\<close>

definition unsigned_integer :: "py_value \<Rightarrow> string \<Rightarrow> py_error + 'a::len word" where
  "unsigned_integer v path =
     (case py_number_index v of
        None \<Rightarrow> Inl (TypeError (path @ '' must be a non-negative integer''))
      | Some index \<Rightarrow>
          if index < 0 \<or> index \<ge> 2 ^ 64 then Inl (ValueError (path @ '' is outside the supported unsigned range''))
          else let parsed = word_of_int index :: u64
          in if parsed > ucast (- 1 :: 'a word) then Inl (ValueError (path @ '' is outside the supported unsigned range''))
          else Inr (ucast parsed))"

definition signed_int32 :: "py_value \<Rightarrow> string \<Rightarrow> py_error + i32" where
  "signed_int32 v path =
     (case py_number_index v of
        None \<Rightarrow> Inl (TypeError (path @ '' must be an integer''))
      | Some index \<Rightarrow>
          if (index < - (2 ^ 63) \<or> index \<ge> 2 ^ 63) \<or> index < - (2 ^ 31) \<or> index > 2 ^ 31 - 1
          then Inl (ValueError (path @ '' is outside the int32 range''))
          else Inr (word_of_int index))"

definition string_value :: "py_value \<Rightarrow> string \<Rightarrow> py_error + string" where
  "string_value v path =
     (case v of
        PyText cs \<Rightarrow> (case utf8 cs of None \<Rightarrow> Inl CastError | Some s \<Rightarrow> Inr s)
      | _ \<Rightarrow> Inl (TypeError (path @ '' must be a string'')))"

text \<open>The loop of \<^verbatim>\<open>fixed_sequence\<close> from an index on.\<close>

fun sequence_items :: "py_value \<Rightarrow> string \<Rightarrow> nat \<Rightarrow> nat \<Rightarrow> py_error + 'a::len word list" where
  "sequence_items v path index 0 = Inr []"
| "sequence_items v path index (Suc left) =
     (case py_sequence_get_item v index of
        None \<Rightarrow> Inl ErrorAlreadySet
      | Some item \<Rightarrow>
          and_then (unsigned_integer item (path @ ''['' @ dec index @ '']''))
            (\<lambda>x. and_then (sequence_items v path (index + 1) left) (\<lambda>xs. Inr (x # xs))))"

definition fixed_sequence :: "nat \<Rightarrow> py_value \<Rightarrow> string \<Rightarrow> py_error + 'a::len word list" where
  "fixed_sequence n v path =
     (if \<not> py_sequence_check v then Inl (TypeError (path @ '' must be a sequence''))
      else case py_sequence_size v of
        None \<Rightarrow> Inl ErrorAlreadySet
      | Some len \<Rightarrow>
          if len \<noteq> n then Inl (ValueError (path @ '' must contain exactly '' @ dec n @ '' elements''))
          else sequence_items v path 0 n)"

section \<open>Messages\<close>

text \<open>A required field, converted under its own name.\<close>

definition field :: "py_dict \<Rightarrow> string \<Rightarrow> (py_value \<Rightarrow> string \<Rightarrow> py_error + 'a) \<Rightarrow> py_error + 'a" where
  "field descriptor key convert = and_then (required descriptor key) (\<lambda>v. convert v key)"

definition buffer_core_from_descriptor :: "py_dict \<Rightarrow> py_error + buffer_core" where
  "buffer_core_from_descriptor d =
     and_then (field d ''vmm_socket_path'' string_value) (\<lambda>path.
     and_then (field d ''event_handle'' (fixed_sequence 64)) (\<lambda>event.
     and_then (field d ''publisher_pid'' unsigned_integer) (\<lambda>pid.
     and_then (field d ''device_id'' unsigned_integer) (\<lambda>device.
     and_then (field d ''block_id'' unsigned_integer) (\<lambda>block.
     and_then (field d ''uid'' unsigned_integer) (\<lambda>uid.
     and_then (field d ''byte_size'' unsigned_integer) (\<lambda>bytes.
       Inr \<lparr>bc_vmm_socket_path = path, bc_event_handle = event, bc_publisher_pid = pid, bc_device_id = device,
            bc_block_id = block, bc_uid = uid, bc_byte_size = bytes\<rparr>)))))))"

definition fill_header :: "py_dict \<Rightarrow> ros_header \<Rightarrow> py_error + ros_header" where
  "fill_header d header =
     (if map_of d ''header'' = None then Inr header
      else and_then (required_dict d ''header'') (\<lambda>h.
        and_then (case map_of h ''frame_id'' of
                    None \<Rightarrow> Inr header
                  | Some v \<Rightarrow> and_then (string_value v ''header.frame_id'') (\<lambda>s. Inr (header\<lparr>rh_frame_id := s\<rparr>)))
          (\<lambda>header1.
            if map_of h ''stamp'' = None then Inr header1
            else and_then (required_dict h ''stamp'') (\<lambda>stamp.
              and_then (and_then (required stamp ''sec'') (\<lambda>v. signed_int32 v ''header.stamp.sec'')) (\<lambda>sec.
              and_then (and_then (required stamp ''nanosec'') (\<lambda>v. unsigned_integer v ''header.stamp.nanosec'')) (\<lambda>nanosec.
                Inr (header1\<lparr>rh_sec := sec, rh_nanosec := nanosec\<rparr>)))))))"

definition three_of :: "'a list \<Rightarrow> 'a three" where
  "three_of xs = (xs ! 0, xs ! 1, xs ! 2)"

definition gpu_image_from_descriptor :: "py_dict \<Rightarrow> py_error + gpu_image" where
  "gpu_image_from_descriptor d =
     and_then (fill_header d Header) (\<lambda>header.
     and_then (field d ''dtype'' unsigned_integer) (\<lambda>dtype.
     and_then (field d ''shape'' (fixed_sequence 3)) (\<lambda>shape.
     and_then (field d ''strides'' (fixed_sequence 3)) (\<lambda>strides.
     and_then (and_then (required_dict d ''core'') buffer_core_from_descriptor) (\<lambda>core.
     and_then (case map_of d ''encoding'' of None \<Rightarrow> Inr [] | Some v \<Rightarrow> string_value v ''encoding'') (\<lambda>encoding.
       Inr \<lparr>gi_header = header, gi_dtype = dtype, gi_shape = three_of shape, gi_strides = three_of strides,
            gi_core = core, gi_encoding = encoding\<rparr>))))))"

definition dtype_size :: "u8 \<Rightarrow> py_error + u32" where
  "dtype_size dtype =
     (case tensor_dl_dtype (dtype_of_byte dtype) of
        Inl e \<Rightarrow> Inl (ValueError (''unsupported ros2_cuda_ipc image dtype '' @ dec (unat dtype)))
      | Inr dl \<Rightarrow> Inr (ucast (dl_bits dl div 8)))"

definition validate_image_descriptor :: "gpu_image \<Rightarrow> py_error + unit" where
  "validate_image_descriptor m =
     and_then (dtype_size (gi_dtype m)) (\<lambda>element_size.
     case (gi_shape m, gi_strides m) of ((n0, n1, n2), (s0, s1, s2)) \<Rightarrow>
       if n0 = 0 \<or> n1 = 0 \<or> n2 = 0 then Inl (ValueError ''GpuImage shape dimensions must all be non-zero'')
       else let needed = ucast (n0 - 1) * ucast s0 + ucast (n1 - 1) * ucast s1 + ucast (n2 - 1) * ucast s2
                         + ucast element_size :: u128
       in if needed > ucast u64_max \<or> needed > ucast (bc_byte_size (gi_core m))
          then Inl (ValueError ''GpuImage shape/strides exceed BufferCore.byte_size'')
       else Inr ())"

section \<open>What an accepted value is\<close>

lemma unsigned_integer_exact:
  assumes "LENGTH('a::len) \<le> 64"
  shows "unsigned_integer v path = Inr (x :: 'a word) \<longleftrightarrow> py_number_index v = Some (uint x)"
proof (cases "py_number_index v")
  case (Some i)
  have p: "(2 :: nat) ^ LENGTH('a) \<le> 2 ^ 64" using assms by (rule power_increasing) simp
  have top: "unat (ucast (- 1 :: 'a word) :: u64) = 2 ^ LENGTH('a) - 1"
  proof -
    have "unat (- 1 :: 'a word) < 2 ^ 64"
      using unsigned_less [of "- 1 :: 'a word", where 'a = nat] p by linarith
    then have "unat (ucast (- 1 :: 'a word) :: u64) = unat (- 1 :: 'a word)"
      by (simp add: unsigned_ucast_eq take_bit_nat_eq_self)
    then show ?thesis by (simp add: unsigned_minus_1_eq_mask mask_eq_exp_minus_1)
  qed
  have "unat x < 2 ^ 64" using unsigned_less [of x, where 'a = nat] p by linarith
  then have "int (unat x) < int (2 ^ 64)" by (rule of_nat_less_iff [THEN iffD2])
  then have range: "0 \<le> uint x \<and> uint x < 2 ^ 64" by simp
  show ?thesis
  proof (cases "0 \<le> i \<and> i < 2 ^ 64")
    case True
    then obtain n where n: "i = int n" by (metis nonneg_int_cases)
    with True have n64: "n < 2 ^ 64" by simp
    have parsed: "unat (word_of_int i :: u64) = n" using n64 by (simp add: n unat_of_nat)
    have over: "(word_of_int i :: u64) > ucast (- 1 :: 'a word) \<longleftrightarrow> \<not> n < 2 ^ LENGTH('a)"
    proof -
      have "0 < (2 :: nat) ^ LENGTH('a)" by simp
      then have "2 ^ LENGTH('a) - 1 < n \<longleftrightarrow> \<not> n < 2 ^ LENGTH('a)" by linarith
      then show ?thesis by (simp only: word_less_nat_alt parsed top)
    qed
    have cut: "ucast (word_of_int i :: u64) = x \<longleftrightarrow> i = uint x" if "n < 2 ^ LENGTH('a)"
    proof -
      have "unat (ucast (word_of_int i :: u64) :: 'a word) = n"
        using that parsed by (simp add: unsigned_ucast_eq take_bit_nat_eq_self)
      then have "ucast (word_of_int i :: u64) = x \<longleftrightarrow> n = unat x" by (simp only: word_unat_eq_iff)
      then show ?thesis by (simp only: n uint_nat of_nat_eq_iff)
    qed
    have small: "n < 2 ^ LENGTH('a)" if "i = uint x"
      using that unsigned_less [of x, where 'a = nat] by (simp only: n uint_nat of_nat_eq_iff)
    show ?thesis using True over cut small by (auto simp: unsigned_integer_def Some Let_def)
  qed (use range in \<open>auto simp: unsigned_integer_def Some\<close>)
qed (simp add: unsigned_integer_def)

lemma signed_int32_exact: "signed_int32 v path = Inr x \<longleftrightarrow> py_number_index v = Some (sint x)"
proof (cases "py_number_index v")
  case (Some i)
  have r: "- (2 ^ 31) \<le> sint x \<and> sint x \<le> 2 ^ 31 - 1"
    using sint_ge [of x] sint_lt [of x] by simp
  have "sint (word_of_int i :: i32) = i" if "- (2 ^ 31) \<le> i" "i \<le> 2 ^ 31 - 1"
    using that by (simp add: sint_uint uint_word_of_int_eq signed_take_bit_take_bit signed_take_bit_int_eq_self)
  then have "word_of_int i = x \<longleftrightarrow> i = sint x" if "- (2 ^ 31) \<le> i" "i \<le> 2 ^ 31 - 1"
    using that by auto
  then show ?thesis using r by (auto simp: signed_int32_def Some)
qed (simp add: signed_int32_def)

definition is_text :: "py_value \<Rightarrow> string \<Rightarrow> bool" where
  "is_text v s \<longleftrightarrow> (case v of PyText cs \<Rightarrow> utf8 cs = Some s | _ \<Rightarrow> False)"

lemma string_value_exact: "string_value v path = Inr s \<longleftrightarrow> is_text v s"
  by (auto simp: string_value_def is_text_def split: py_value.splits option.splits)

definition is_items :: "py_value \<Rightarrow> 'a::len word list \<Rightarrow> bool" where
  "is_items v xs \<longleftrightarrow> py_sequence_check v \<and> py_sequence_size v = Some (length xs)
     \<and> (\<forall>i < length xs. Option.bind (py_sequence_get_item v i) py_number_index = Some (uint (xs ! i)))"

lemma sequence_items_exact:
  assumes "LENGTH('a::len) \<le> 64"
  shows "sequence_items v path k n = Inr (xs :: 'a word list) \<longleftrightarrow> length xs = n
     \<and> (\<forall>i < n. Option.bind (py_sequence_get_item v (k + i)) py_number_index = Some (uint (xs ! i)))"
proof (induction n arbitrary: k xs)
  case (Suc n)
  show ?case
  proof (cases xs)
    case Nil
    then show ?thesis by (auto simp: and_then_Inr split: option.splits)
  next
    case (Cons y ys)
    have all: "(\<forall>i < Suc n. Q i) \<longleftrightarrow> Q 0 \<and> (\<forall>i < n. Q (Suc i))" for Q
      using less_Suc_eq_0_disj by auto
    show ?thesis
      by (cases "py_sequence_get_item v k")
        (auto simp: Cons and_then_Inr all Suc.IH unsigned_integer_exact [OF assms])
  qed
qed auto

lemma fixed_sequence_exact:
  assumes "LENGTH('a::len) \<le> 64"
  shows "fixed_sequence n v path = Inr (xs :: 'a word list) \<longleftrightarrow> length xs = n \<and> is_items v xs"
  by (cases "py_sequence_size v")
    (auto simp: fixed_sequence_def is_items_def sequence_items_exact [OF assms])

definition in_field :: "py_dict \<Rightarrow> string \<Rightarrow> (py_value \<Rightarrow> bool) \<Rightarrow> bool" where
  "in_field d key P \<longleftrightarrow> (case map_of d key of None \<Rightarrow> False | Some v \<Rightarrow> P v)"

abbreviation is_number :: "'a::len word \<Rightarrow> py_value \<Rightarrow> bool" where
  "is_number x v \<equiv> py_number_index v = Some (uint x)"

lemma required_Inr: "required d key = Inr v \<longleftrightarrow> map_of d key = Some v"
  by (cases "map_of d key") (simp_all add: required_def)

lemma required_dict_Inr: "required_dict d key = Inr h \<longleftrightarrow> map_of d key = Some (PyDict h)"
  by (cases "map_of d key") (auto simp: required_dict_def required_def split: py_value.splits)

lemma field_Inr: "field d key convert = Inr x \<longleftrightarrow> in_field d key (\<lambda>v. convert v key = Inr x)"
  by (cases "map_of d key") (auto simp: field_def and_then_Inr required_Inr in_field_def required_def)

lemmas exact_simps = unsigned_integer_exact signed_int32_exact string_value_exact fixed_sequence_exact

section \<open>Whole descriptors\<close>

lemma buffer_core_from_descriptor_Inr:
  "buffer_core_from_descriptor d = Inr c \<longleftrightarrow>
     in_field d ''vmm_socket_path'' (\<lambda>v. is_text v (bc_vmm_socket_path c))
     \<and> length (bc_event_handle c) = 64 \<and> in_field d ''event_handle'' (\<lambda>v. is_items v (bc_event_handle c))
     \<and> in_field d ''publisher_pid'' (is_number (bc_publisher_pid c))
     \<and> in_field d ''device_id'' (is_number (bc_device_id c))
     \<and> in_field d ''block_id'' (is_number (bc_block_id c))
     \<and> in_field d ''uid'' (is_number (bc_uid c))
     \<and> in_field d ''byte_size'' (is_number (bc_byte_size c))"
proof -
  have conj: "in_field d key (\<lambda>v. P \<and> Q v) \<longleftrightarrow> P \<and> in_field d key Q" for key P Q
    by (auto simp: in_field_def split: option.splits)
  show ?thesis
    by (cases c) (simp add: buffer_core_from_descriptor_def and_then_Inr field_Inr exact_simps conj; blast)
qed

lemma three_of_Inr:
  "(\<exists>xs. length xs = 3 \<and> is_items v xs \<and> t = three_of xs) \<longleftrightarrow> is_items v [fst t, fst (snd t), snd (snd t)]"
proof
  assume "\<exists>xs. length xs = 3 \<and> is_items v xs \<and> t = three_of xs"
  then obtain xs where x: "length xs = 3" "is_items v xs" "t = three_of xs" by blast
  then obtain a b c where "xs = [a, b, c]"
    by (metis (no_types, opaque_lifting) length_0_conv length_Suc_conv numeral_3_eq_3)
  with x show "is_items v [fst t, fst (snd t), snd (snd t)]" by (simp add: three_of_def)
next
  assume "is_items v [fst t, fst (snd t), snd (snd t)]"
  then show "\<exists>xs. length xs = 3 \<and> is_items v xs \<and> t = three_of xs"
    by (intro exI [of _ "[fst t, fst (snd t), snd (snd t)]"]) (simp add: three_of_def)
qed

text \<open>The optional header and its optional stamp.\<close>

definition reads_header :: "py_dict \<Rightarrow> ros_header \<Rightarrow> bool" where
  "reads_header d h \<longleftrightarrow>
     (case map_of d ''header'' of
        None \<Rightarrow> h = Header
      | Some (PyDict hdr) \<Rightarrow>
          (case map_of hdr ''frame_id'' of None \<Rightarrow> rh_frame_id h = [] | Some v \<Rightarrow> is_text v (rh_frame_id h))
          \<and> (case map_of hdr ''stamp'' of
               None \<Rightarrow> rh_sec h = 0 \<and> rh_nanosec h = 0
             | Some (PyDict sd) \<Rightarrow> in_field sd ''sec'' (\<lambda>v. py_number_index v = Some (sint (rh_sec h)))
                 \<and> in_field sd ''nanosec'' (is_number (rh_nanosec h))
             | Some _ \<Rightarrow> False)
      | Some _ \<Rightarrow> False)"

lemma fill_header_Inr: "fill_header d Header = Inr h \<longleftrightarrow> reads_header d h"
proof -
  have f: "(\<exists>v. required sd key = Inr v \<and> Q v) \<longleftrightarrow> in_field sd key Q" for sd key Q
    by (cases "map_of sd key") (simp_all add: required_def in_field_def)
  have through: "(\<exists>h0. (\<exists>s. A s \<and> g s = h0) \<and> B h0) \<longleftrightarrow> (\<exists>s. A s \<and> B (g s))"
    for A :: "string \<Rightarrow> bool" and g :: "string \<Rightarrow> ros_header" and B by blast
  have hs: "rh_sec Header = 0" "rh_nanosec Header = 0" "rh_frame_id Header = []" by (simp_all add: Header_def)
  have eq: "h0\<lparr>rh_sec := a, rh_nanosec := b\<rparr> = h \<longleftrightarrow> a = rh_sec h \<and> b = rh_nanosec h \<and> rh_frame_id h0 = rh_frame_id h"
    for h0 a b by (cases h; cases h0) auto
  have fe: "Header\<lparr>rh_frame_id := s\<rparr> = h \<longleftrightarrow> s = rh_frame_id h \<and> rh_sec h = 0 \<and> rh_nanosec h = 0" for s
    by (cases h) (auto simp: Header_def)
  have he: "Header = h \<longleftrightarrow> rh_frame_id h = [] \<and> rh_sec h = 0 \<and> rh_nanosec h = 0"
    by (cases h) (auto simp: Header_def)
  show ?thesis
  proof (cases "map_of d ''header''")
    case None
    then show ?thesis by (auto simp: fill_header_def reads_header_def)
  next
    case (Some v)
    show ?thesis
      by (cases v)
        (auto simp: fill_header_def reads_header_def Some required_dict_Inr and_then_Inr f through eq fe he hs
            exact_simps split: option.splits py_value.splits)
  qed
qed

text \<open>
  \<^verbatim>\<open>ros2_cuda_ipc_py/_descriptor.py\<close> for a generated ROS message: the dictionaries it builds
  from the message's attributes. A message's strings are texts of ASCII characters here, its
  fixed arrays become lists.
\<close>

definition py_text :: "string \<Rightarrow> py_value" where
  "py_text s = PyText (map of_char s)"

definition py_number :: "'a::len word \<Rightarrow> py_value" where
  "py_number x = PyInt (uint x)"

definition header_descriptor :: "ros_header \<Rightarrow> py_dict" where
  "header_descriptor h =
     [(''stamp'', PyDict [(''sec'', PyInt (sint (rh_sec h))), (''nanosec'', py_number (rh_nanosec h))]),
      (''frame_id'', py_text (rh_frame_id h))]"

definition buffer_core_descriptor :: "buffer_core \<Rightarrow> py_dict" where
  "buffer_core_descriptor c =
     [(''vmm_socket_path'', py_text (bc_vmm_socket_path c)),
      (''event_handle'', PyItems (map py_number (bc_event_handle c))),
      (''publisher_pid'', py_number (bc_publisher_pid c)),
      (''device_id'', py_number (bc_device_id c)),
      (''block_id'', py_number (bc_block_id c)),
      (''uid'', py_number (bc_uid c)),
      (''byte_size'', py_number (bc_byte_size c))]"

definition gpu_image_descriptor :: "gpu_image \<Rightarrow> py_dict" where
  "gpu_image_descriptor m =
     (case (gi_shape m, gi_strides m) of ((n0, n1, n2), (s0, s1, s2)) \<Rightarrow>
       [(''header'', PyDict (header_descriptor (gi_header m))),
        (''dtype'', py_number (gi_dtype m)),
        (''shape'', PyItems [py_number n0, py_number n1, py_number n2]),
        (''strides'', PyItems [py_number s0, py_number s1, py_number s2]),
        (''core'', PyDict (buffer_core_descriptor (gi_core m))),
        (''encoding'', py_text (gi_encoding m))])"

definition ascii :: "string \<Rightarrow> bool" where
  "ascii s \<longleftrightarrow> (\<forall>c \<in> set s. of_char c < (128 :: nat))"

lemma is_text_ascii: "ascii s \<Longrightarrow> is_text (py_text s) s"
proof -
  assume "ascii s"
  then have "utf8 (map of_char s) = Some s"
    by (induction s) (simp_all add: ascii_def utf8_char_def)
  then show ?thesis by (simp add: is_text_def py_text_def)
qed

lemma number_of_number [simp]: "py_number_index (py_number x) = Some (uint x)"
  by (simp add: py_number_index_def py_number_def)

lemma is_items_numbers: "is_items (PyItems (map py_number xs)) xs"
  by (simp add: is_items_def py_sequence_check_def py_sequence_size_def py_sequence_get_item_def)

section \<open>Properties\<close>

definition reads_core :: "py_dict \<Rightarrow> buffer_core \<Rightarrow> bool" where
  "reads_core d c \<longleftrightarrow>
     in_field d ''vmm_socket_path'' (\<lambda>v. is_text v (bc_vmm_socket_path c))
     \<and> length (bc_event_handle c) = 64 \<and> in_field d ''event_handle'' (\<lambda>v. is_items v (bc_event_handle c))
     \<and> in_field d ''publisher_pid'' (is_number (bc_publisher_pid c))
     \<and> in_field d ''device_id'' (is_number (bc_device_id c))
     \<and> in_field d ''block_id'' (is_number (bc_block_id c))
     \<and> in_field d ''uid'' (is_number (bc_uid c))
     \<and> in_field d ''byte_size'' (is_number (bc_byte_size c))"

definition reads_three :: "py_dict \<Rightarrow> string \<Rightarrow> 'a::len word three \<Rightarrow> bool" where
  "reads_three d key t \<longleftrightarrow> in_field d key (\<lambda>v. is_items v [fst t, fst (snd t), snd (snd t)])"

definition reads_encoding :: "py_dict \<Rightarrow> string \<Rightarrow> bool" where
  "reads_encoding d s \<longleftrightarrow> (case map_of d ''encoding'' of None \<Rightarrow> s = [] | Some v \<Rightarrow> is_text v s)"

lemma three_Inr:
  assumes "LENGTH('a::len) \<le> 64"
  shows "(\<exists>xs. field d key (fixed_sequence 3) = Inr (xs :: 'a word list) \<and> t = three_of xs) \<longleftrightarrow> reads_three d key t"
proof (cases "map_of d key")
  case (Some v)
  then show ?thesis
    using three_of_Inr [of v t] by (simp add: field_Inr in_field_def reads_three_def fixed_sequence_exact [OF assms])
qed (simp add: field_Inr in_field_def reads_three_def)

lemma encoding_Inr:
  "(case map_of d ''encoding'' of None \<Rightarrow> Inr [] | Some v \<Rightarrow> string_value v ''encoding'') = Inr s \<longleftrightarrow> reads_encoding d s"
  by (auto simp: reads_encoding_def string_value_exact split: option.splits)

lemma reads_core_Inr:
  "(\<exists>v. required_dict d ''core'' = Inr v \<and> buffer_core_from_descriptor v = Inr c)
     \<longleftrightarrow> (\<exists>v. map_of d ''core'' = Some (PyDict v) \<and> reads_core v c)"
  by (simp add: required_dict_Inr buffer_core_from_descriptor_Inr reads_core_def)

lemma gpu_image_from_descriptor_Inr:
  "gpu_image_from_descriptor d = Inr m \<longleftrightarrow>
     reads_header d (gi_header m)
     \<and> in_field d ''dtype'' (is_number (gi_dtype m))
     \<and> reads_three d ''shape'' (gi_shape m) \<and> reads_three d ''strides'' (gi_strides m)
     \<and> (\<exists>core. map_of d ''core'' = Some (PyDict core) \<and> reads_core core (gi_core m))
     \<and> reads_encoding d (gi_encoding m)"
proof -
  obtain h ty sh st c e where m: "m = \<lparr>gi_header = h, gi_dtype = ty, gi_shape = sh, gi_strides = st, gi_core = c, gi_encoding = e\<rparr>"
    by (cases m)
  have "gpu_image_from_descriptor d = Inr m \<longleftrightarrow> fill_header d Header = Inr h
      \<and> field d ''dtype'' unsigned_integer = Inr ty
      \<and> (\<exists>xs. field d ''shape'' (fixed_sequence 3) = Inr xs \<and> sh = three_of xs)
      \<and> (\<exists>xs. field d ''strides'' (fixed_sequence 3) = Inr xs \<and> st = three_of xs)
      \<and> (\<exists>v. required_dict d ''core'' = Inr v \<and> buffer_core_from_descriptor v = Inr c)
      \<and> (case map_of d ''encoding'' of None \<Rightarrow> Inr [] | Some v \<Rightarrow> string_value v ''encoding'') = Inr e"
    unfolding gpu_image_from_descriptor_def m and_then_Inr by (simp add: and_then_Inr) blast
  moreover have "field d ''dtype'' unsigned_integer = Inr ty \<longleftrightarrow> in_field d ''dtype'' (is_number ty)"
    by (simp add: field_Inr unsigned_integer_exact)
  ultimately show ?thesis
    by (simp add: m fill_header_Inr three_Inr reads_core_Inr encoding_Inr)
qed

text \<open>
  C36. A descriptor is accepted as a message exactly when every field of the message is the value
  the dictionary holds under its key: the integers in full, never truncated to their width,
  the fixed arrays with exactly their length, texts as UTF-8; only the header, its parts and the
  encoding may be missing, and then have their default values.
\<close>

theorem descriptor_reading_is_exact:
  "gpu_image_from_descriptor d = Inr m \<longleftrightarrow>
     reads_header d (gi_header m)
     \<and> in_field d ''dtype'' (is_number (gi_dtype m))
     \<and> reads_three d ''shape'' (gi_shape m) \<and> reads_three d ''strides'' (gi_strides m)
     \<and> (\<exists>core. map_of d ''core'' = Some (PyDict core) \<and> reads_core core (gi_core m))
     \<and> reads_encoding d (gi_encoding m)"
  by (rule gpu_image_from_descriptor_Inr)

lemma gpu_image_descriptor_reads_back:
  assumes "ascii (rh_frame_id (gi_header m))" "ascii (bc_vmm_socket_path (gi_core m))" "ascii (gi_encoding m)"
    and "length (bc_event_handle (gi_core m)) = 64"
  shows "gpu_image_from_descriptor (gpu_image_descriptor m) = Inr m"
proof -
  obtain n0 n1 n2 s0 s1 s2 where t: "gi_shape m = (n0, n1, n2)" "gi_strides m = (s0, s1, s2)"
    by (metis surj_pair)
  have core: "reads_core (buffer_core_descriptor (gi_core m)) (gi_core m)"
    using assms by (simp add: reads_core_def in_field_def buffer_core_descriptor_def is_text_ascii is_items_numbers)
  have header: "reads_header (gpu_image_descriptor m) (gi_header m)"
    using assms by (simp add: reads_header_def gpu_image_descriptor_def t header_descriptor_def is_text_ascii in_field_def)
      (simp add: py_number_index_def)
  show ?thesis unfolding gpu_image_from_descriptor_Inr
    using assms header core is_items_numbers [of "[n0, n1, n2]"] is_items_numbers [of "[s0, s1, s2]"]
    by (simp add: gpu_image_descriptor_def t in_field_def reads_three_def reads_encoding_def is_text_ascii)
qed

text \<open>
  The Python side's dictionary of an image message is read back as that message, whatever
  its integers are, negative seconds and event bytes included.
\<close>

theorem descriptor_roundtrip:
  assumes "ascii (rh_frame_id (gi_header m))" "ascii (bc_vmm_socket_path (gi_core m))" "ascii (gi_encoding m)"
    and "length (bc_event_handle (gi_core m)) = 64"
  shows "gpu_image_from_descriptor (gpu_image_descriptor m) = Inr m"
  using assms by (rule gpu_image_descriptor_reads_back)

definition sample_gpu_image :: gpu_image where
  "sample_gpu_image = GpuImage\<lparr>gi_header := \<lparr>rh_sec = - 1, rh_nanosec = 5, rh_frame_id = ''cam''\<rparr>, gi_shape := (2, 3, 4),
     gi_strides := (12, 4, 1), gi_encoding := ''rgba8'',
     gi_core := BufferCore\<lparr>bc_vmm_socket_path := ''/tmp/s'', bc_uid := 18446744073709551615, bc_byte_size := 24\<rparr>\<rparr>"

theorem descriptor_roundtrip_witness:
  "gpu_image_from_descriptor (gpu_image_descriptor sample_gpu_image) = Inr sample_gpu_image"
  by (rule descriptor_roundtrip) (simp_all add: sample_gpu_image_def ascii_def BufferCore_def)

text \<open>
  The two layout checks agree: over a valid read of the size the message names, the image
  layer accepts exactly the messages that the Python module's own check let through.
\<close>

theorem layout_checks_agree:
  assumes "rh_valid sb read" "rh_byte_size read = bc_byte_size (gi_core m)"
  shows "validate_image_descriptor m = Inr () \<longleftrightarrow> fst (image_from_message E thread m read sb) \<noteq> None"
proof -
  obtain n0 n1 n2 s0 s1 s2 where t: "gi_shape m = (n0, n1, n2)" "gi_strides m = (s0, s1, s2)"
    by (metis surj_pair)
  define ty where "ty = dtype_of_byte (gi_dtype m)"
  define needed where "needed = needed_bytes (gi_shape m) (gi_strides m) (elem_size_bytes ty)"
  have "fst (image_from_message E thread m read sb) \<noteq> None \<longleftrightarrow>
      n0 \<noteq> 0 \<and> n1 \<noteq> 0 \<and> n2 \<noteq> 0 \<and> elem_size_bytes ty \<noteq> 0 \<and> needed \<le> ucast u64_max
      \<and> needed \<le> ucast (bc_byte_size (gi_core m))"
    using assms by (auto simp: image_from_message_def sanity_check_def image_valid_def Let_def t ty_def needed_def word_gt_0)
  moreover have "validate_image_descriptor m = Inr () \<longleftrightarrow>
      n0 \<noteq> 0 \<and> n1 \<noteq> 0 \<and> n2 \<noteq> 0 \<and> elem_size_bytes ty \<noteq> 0 \<and> needed \<le> ucast u64_max
      \<and> needed \<le> ucast (bc_byte_size (gi_core m))"
  proof (cases "tensor_dl_dtype ty")
    case (Inl e)
    then show ?thesis using tensor_dl_dtype_Inl by (simp add: validate_image_descriptor_def dtype_size_def ty_def)
  next
    case (Inr dl)
    have "dtype_size (gi_dtype m) = Inr (elem_size_bytes ty)"
      using Inr tensor_dl_dtype_bits [OF Inr] by (simp add: dtype_size_def ty_def)
    moreover have "elem_size_bytes ty \<noteq> 0" using Inr tensor_dl_dtype_iff [of ty] by auto
    ultimately show ?thesis
      by (auto simp: validate_image_descriptor_def t needed_def needed_bytes_def Let_def not_less split: if_splits)
  qed
  ultimately show ?thesis by simp
qed

theorem layout_checks_agree_witness:
  "fst (image_from_message healthy 0 sample_gpu_image (ih_read (sample_image 24)) sample_resources) \<noteq> None"
proof -
  have "rh_valid sample_resources (ih_read (sample_image 24))"
    using sample_image_valid [of 24] by (simp add: image_valid_def sample_image_def)
  moreover have "rh_byte_size (ih_read (sample_image 24)) = bc_byte_size (gi_core sample_gpu_image)"
    by (simp add: sample_image_def rh_byte_size_def sample_gpu_image_def)
  moreover have "validate_image_descriptor sample_gpu_image = Inr ()"
    by (simp add: validate_image_descriptor_def dtype_size_def sample_gpu_image_def GpuImage_def dtype_of_byte_def
        word_less_nat_alt u64_max_unat)
  ultimately show ?thesis using layout_checks_agree [of sample_resources _ sample_gpu_image] by blast
qed

end
