(* ===== verification/Python_Module.thy ===== *)
theory Python_Module
  imports Python_Descriptor
begin

text \<open>
  The objects of \<^verbatim>\<open>ros2_cuda_ipc_py/src/native_module.cpp\<close>: the mappers, the read handles, and
  the late-binding image whose single DLPack export moves the lease into an export context that
  the tensor's consumer, or the capsule's destructor, deletes. The heap objects behind the C
  pointers of the DLPack interface have addresses here, so that a deletion of an object that is
  gone already is visible. Whether \<^verbatim>\<open>PyCapsule_New\<close> succeeds is an argument.
\<close>

section \<open>State\<close>

record export_context =
  ec_tensor :: image_tensor
  ec_owner :: "read_handle option"

text \<open>
  \<^verbatim>\<open>DLManagedTensor\<close> and \<^verbatim>\<open>DLManagedTensorVersioned\<close>, with the members the sources set. The
  shape and the strides are pointers into the arrays of a context.
\<close>

record managed_tensor =
  mt_version :: "(nat \<times> nat) option"
  mt_manager_ctx :: "nat option"
  mt_data :: u64
  mt_device_id :: i32
  mt_ndim :: i32
  mt_dtype :: dl_data_type
  mt_arrays :: nat
  mt_byte_offset :: u64

record capsule =
  cp_name :: "string option"
  cp_pointer :: nat

record python =
  py_sub :: subscriber
  py_contexts :: "nat \<Rightarrow> export_context option"
  py_managed :: "nat \<Rightarrow> managed_tensor option"
  py_next :: nat
  py_deleted_twice :: "nat list"

datatype (plugins only: code) export_state = Available | Consumed | Closed

record dlpack_image =
  pd_publication :: "mapped_publication option"
  pd_state :: export_state
  pd_byte_size :: u64
  pd_device_id :: i32
  pd_shape :: "u32 three"
  pd_strides :: "u64 three"
  pd_dtype :: dtype
  pd_encoding :: string
  pd_frame_id :: string

record py_image =
  pi_view :: "image_read_handle option"
  pi_valid :: bool
  pi_byte_size :: u64
  pi_device_id :: i32
  pi_shape :: "u32 three"
  pi_strides :: "u64 three"
  pi_dtype :: dtype
  pi_encoding :: string
  pi_frame_id :: string

section \<open>Early-bound handles\<close>

definition py_read_close :: "env \<Rightarrow> nat \<Rightarrow> read_handle \<Rightarrow> subscriber \<Rightarrow> read_handle \<times> subscriber" where
  "py_read_close E thread view sb = (case rh_move_assign E thread view None sb of ((view', _), sb') \<Rightarrow> (view', sb'))"

text \<open>\<^verbatim>\<open>release\<close> moves the handle out.\<close>

definition py_read_release :: "read_handle \<Rightarrow> read_handle \<times> read_handle" where
  "py_read_release view = (view, None)"

definition py_buffer_map ::
    "env \<Rightarrow> nat \<Rightarrow> py_dict \<Rightarrow> u64 \<Rightarrow> subscriber \<Rightarrow> (py_error + read_handle) \<times> subscriber" where
  "py_buffer_map E thread descriptor stream sb =
     (case buffer_core_from_descriptor descriptor of
        Inl e \<Rightarrow> (Inl e, sb)
      | Inr message \<Rightarrow>
          (case map_message E thread message stream sb of
             (None, sb') \<Rightarrow> (Inl (MappingError
               ''BufferCore was rejected by the C++ mapper (buffer reference, uid, VMM-FD import failure)''), sb')
           | (Some i, sb') \<Rightarrow> (Inr (Some i), sb')))"

definition py_image_of :: "subscriber \<Rightarrow> image_read_handle \<Rightarrow> py_image" where
  "py_image_of sb view =
     \<lparr>pi_view = Some view, pi_valid = image_valid sb view, pi_byte_size = rh_byte_size (ih_read view),
      pi_device_id = rh_device_id (ih_read view), pi_shape = ih_shape view, pi_strides = ih_strides view,
      pi_dtype = ih_dtype view, pi_encoding = ih_encoding view, pi_frame_id = rh_frame_id (ih_header view)\<rparr>"

text \<open>The second component of the result is what is left in the caller's \<^verbatim>\<open>PyReadHandle\<close>.\<close>

definition py_image_from_message ::
    "env \<Rightarrow> nat \<Rightarrow> py_dict \<Rightarrow> read_handle \<Rightarrow> subscriber \<Rightarrow> ((py_error + py_image) \<times> read_handle) \<times> subscriber" where
  "py_image_from_message E thread descriptor read sb =
     (case and_then (gpu_image_from_descriptor descriptor)
             (\<lambda>m. and_then (validate_image_descriptor m) (\<lambda>_. Inr m)) of
        Inl e \<Rightarrow> ((Inl e, read), sb)
      | Inr message \<Rightarrow>
          (case py_read_release read of
             (released, left) \<Rightarrow>
               (case image_from_message E thread message released sb of
                  (None, sb') \<Rightarrow> ((Inl (MappingError ''GpuImage metadata was rejected after BufferMapper mapping''), left), sb')
                | (Some typed, sb') \<Rightarrow> ((Inr (py_image_of sb' typed), left), sb'))))"

definition dtype_name :: "dtype \<Rightarrow> py_error + string" where
  "dtype_name d =
     (case d of U8 \<Rightarrow> Inr ''uint8'' | U16 \<Rightarrow> Inr ''uint16'' | F16 \<Rightarrow> Inr ''float16'' | F32 \<Rightarrow> Inr ''float32''
      | F64 \<Rightarrow> Inr ''float64'' | S16 \<Rightarrow> Inr ''int16'' | S32 \<Rightarrow> Inr ''int32'' | U32 \<Rightarrow> Inr ''uint32''
      | Unnamed _ \<Rightarrow> Inl (LogicError ''unsupported ros2_cuda_ipc image dtype''))"

definition py_image_close :: "env \<Rightarrow> nat \<Rightarrow> py_image \<Rightarrow> subscriber \<Rightarrow> py_image \<times> subscriber" where
  "py_image_close E thread im sb =
     (im\<lparr>pi_view := None, pi_valid := False\<rparr>,
      case pi_view im of None \<Rightarrow> sb | Some view \<Rightarrow> rh_destroy E thread (ih_read view) sb)"

section \<open>Late-bound images\<close>

text \<open>A constructor that throws destroys the publication it was given.\<close>

definition DLPackImage ::
    "env \<Rightarrow> nat \<Rightarrow> gpu_image \<Rightarrow> mapped_publication option \<Rightarrow> subscriber \<Rightarrow> (py_error + dlpack_image) \<times> subscriber" where
  "DLPackImage E thread m publication sb =
     (case publication of
        None \<Rightarrow> (Inl (MappingError ''GpuImage publication is invalid''), sb)
      | Some p \<Rightarrow>
          if \<not> mu_valid sb p then (Inl (MappingError ''GpuImage publication is invalid''), mu_destroy E thread p sb)
          else (Inr \<lparr>pd_publication = Some p, pd_state = Available, pd_byte_size = mu_byte_size p,
                     pd_device_id = mu_device_id p, pd_shape = gi_shape m, pd_strides = gi_strides m,
                     pd_dtype = dtype_of_byte (gi_dtype m), pd_encoding = gi_encoding m,
                     pd_frame_id = rh_frame_id (gi_header m)\<rparr>, sb))"

definition py_image_map :: "env \<Rightarrow> nat \<Rightarrow> py_dict \<Rightarrow> subscriber \<Rightarrow> (py_error + dlpack_image) \<times> subscriber" where
  "py_image_map E thread descriptor sb =
     (case and_then (gpu_image_from_descriptor descriptor)
             (\<lambda>m. and_then (validate_image_descriptor m) (\<lambda>_. Inr m)) of
        Inl e \<Rightarrow> (Inl e, sb)
      | Inr message \<Rightarrow>
          (case acquire_publication E thread (gi_core message) sb of
             (None, sb') \<Rightarrow> (Inl (MappingError ''GpuImage was rejected while acquiring its publication''), sb')
           | (Some p, sb') \<Rightarrow> DLPackImage E thread message (Some p) sb'))"

definition ensure_available :: "dlpack_image \<Rightarrow> string \<Rightarrow> py_error + unit" where
  "ensure_available im action =
     (case pd_state im of
        Consumed \<Rightarrow> Inl (MappingError (''cannot '' @ action @ '' after DLPack ownership was transferred''))
      | Closed \<Rightarrow> Inl (MappingError (''cannot '' @ action @ '' after close''))
      | Available \<Rightarrow> Inr ())"

definition dlpack_device :: "dlpack_image \<Rightarrow> py_error + i32" where
  "dlpack_device im = and_then (ensure_available im ''query DLPack device'') (\<lambda>_. Inr (pd_device_id im))"

definition reset_publication :: "env \<Rightarrow> nat \<Rightarrow> mapped_publication option \<Rightarrow> subscriber \<Rightarrow> subscriber" where
  "reset_publication E thread p sb = (case p of None \<Rightarrow> sb | Some q \<Rightarrow> mu_destroy E thread q sb)"

definition dlpack_close :: "env \<Rightarrow> nat \<Rightarrow> dlpack_image \<Rightarrow> subscriber \<Rightarrow> ((py_error + unit) \<times> dlpack_image) \<times> subscriber" where
  "dlpack_close E thread im sb =
     (case ensure_available im ''close'' of
        Inl e \<Rightarrow> ((Inl e, im), sb)
      | Inr _ \<Rightarrow> ((Inr (), im\<lparr>pd_publication := None, pd_state := Closed\<rparr>),
                 reset_publication E thread (pd_publication im) sb))"

text \<open>The destructor, when Python drops the last reference.\<close>

definition dlpack_image_destroy :: "env \<Rightarrow> nat \<Rightarrow> dlpack_image \<Rightarrow> subscriber \<Rightarrow> subscriber" where
  "dlpack_image_destroy E thread im sb = reset_publication E thread (pd_publication im) sb"

section \<open>Export contexts and managed tensors\<close>

text \<open>\<^verbatim>\<open>delete context\<close>: the owner, declared last, goes first.\<close>

definition delete_context :: "env \<Rightarrow> nat \<Rightarrow> nat \<Rightarrow> python \<Rightarrow> python" where
  "delete_context E thread a w =
     (case py_contexts w a of
        None \<Rightarrow> w\<lparr>py_deleted_twice := py_deleted_twice w @ [a]\<rparr>
      | Some c \<Rightarrow> w\<lparr>py_contexts := (py_contexts w)(a := None),
          py_sub := (case ec_owner c of None \<Rightarrow> py_sub w | Some h \<Rightarrow> rh_destroy E thread h (py_sub w))\<rparr>)"

definition delete_managed :: "nat \<Rightarrow> python \<Rightarrow> python" where
  "delete_managed m w =
     (case py_managed w m of
        None \<Rightarrow> w\<lparr>py_deleted_twice := py_deleted_twice w @ [m]\<rparr>
      | Some _ \<Rightarrow> w\<lparr>py_managed := (py_managed w)(m := None)\<rparr>)"

text \<open>Both deleters; calling one on a tensor that is gone is itself a use after deletion.\<close>

definition legacy_dlpack_deleter :: "env \<Rightarrow> nat \<Rightarrow> nat option \<Rightarrow> python \<Rightarrow> python" where
  "legacy_dlpack_deleter E thread managed w =
     (case managed of
        None \<Rightarrow> w
      | Some m \<Rightarrow>
          (case py_managed w m of
             None \<Rightarrow> delete_managed m w
           | Some t \<Rightarrow>
               let w1 = w\<lparr>py_managed := (py_managed w)(m \<mapsto> t\<lparr>mt_manager_ctx := None\<rparr>)\<rparr>;
                   w2 = (case mt_manager_ctx t of None \<Rightarrow> w1 | Some a \<Rightarrow> delete_context E thread a w1)
               in delete_managed m w2))"

definition versioned_dlpack_deleter :: "env \<Rightarrow> nat \<Rightarrow> nat option \<Rightarrow> python \<Rightarrow> python" where
  "versioned_dlpack_deleter E thread managed w =
     (case managed of
        None \<Rightarrow> w
      | Some m \<Rightarrow>
          (case py_managed w m of
             None \<Rightarrow> delete_managed m w
           | Some t \<Rightarrow>
               let w1 = w\<lparr>py_managed := (py_managed w)(m \<mapsto> t\<lparr>mt_manager_ctx := None\<rparr>)\<rparr>;
                   w2 = (case mt_manager_ctx t of None \<Rightarrow> w1 | Some a \<Rightarrow> delete_context E thread a w1)
               in delete_managed m w2))"

definition kDLPackName :: string where "kDLPackName = ''dltensor''"
definition kVersionedDLPackName :: string where "kVersionedDLPackName = ''dltensor_versioned''"

definition dlpack_capsule_destructor :: "env \<Rightarrow> nat \<Rightarrow> capsule option \<Rightarrow> python \<Rightarrow> python" where
  "dlpack_capsule_destructor E thread capsule w =
     (case capsule of
        None \<Rightarrow> w
      | Some c \<Rightarrow>
          if cp_name c = None then w
          else if cp_name c = Some kDLPackName then legacy_dlpack_deleter E thread (Some (cp_pointer c)) w
          else if cp_name c = Some kVersionedDLPackName then versioned_dlpack_deleter E thread (Some (cp_pointer c)) w
          else w)"

definition populate_dlpack_tensor :: "nat \<Rightarrow> export_context \<Rightarrow> managed_tensor \<Rightarrow> managed_tensor" where
  "populate_dlpack_tensor a c t =
     t\<lparr>mt_data := it_data (ec_tensor c), mt_device_id := it_device_id (ec_tensor c), mt_ndim := it_rank (ec_tensor c),
       mt_dtype := it_dl_dtype (ec_tensor c), mt_arrays := a, mt_byte_offset := it_byte_offset (ec_tensor c)\<rparr>"

section \<open>The export\<close>

text \<open>The zeroed tensor that \<^verbatim>\<open>std::make_unique\<close> yields; only the versioned one has a version.\<close>

definition new_managed :: "bool \<Rightarrow> managed_tensor" where
  "new_managed versioned =
     \<lparr>mt_version = (if versioned then Some (1, 0) else None), mt_manager_ctx = None, mt_data = 0, mt_device_id = 0,
      mt_ndim = 0, mt_dtype = \<lparr>dl_code = kDLInt, dl_bits = 0, dl_lanes = 0\<rparr>, mt_arrays = 0, mt_byte_offset = 0\<rparr>"

definition dlpack_deleter :: "bool \<Rightarrow> env \<Rightarrow> nat \<Rightarrow> nat option \<Rightarrow> python \<Rightarrow> python" where
  "dlpack_deleter versioned = (if versioned then versioned_dlpack_deleter else legacy_dlpack_deleter)"

text \<open>
  The export context \<open>a\<close> and the managed tensor \<open>m\<close> are allocated first. When the capsule cannot be
  created, the handler calls the tensor's deleter, and then the unwinding destroys
  \<^verbatim>\<open>capsule_context\<close>, which has not given up the context yet. An available image always has a
  publication; the code would dereference a null pointer otherwise.
\<close>

definition dlpack_export ::
    "env \<Rightarrow> nat \<Rightarrow> bool \<Rightarrow> u64 \<Rightarrow> bool \<Rightarrow> image_tensor \<Rightarrow> mapped_publication \<Rightarrow> dlpack_image \<Rightarrow> python
     \<Rightarrow> ((py_error + capsule) \<times> dlpack_image) \<times> python" where
  "dlpack_export E thread capsule_ok stream_ptr versioned tensor p im w =
     (let a = py_next w; m = py_next w + 1;
          w1 = w\<lparr>py_next := py_next w + 2,
                 py_contexts := (py_contexts w)(a \<mapsto> \<lparr>ec_tensor = tensor, ec_owner = None\<rparr>),
                 py_managed := (py_managed w)(m \<mapsto> new_managed versioned)\<rparr>
      in case make_bound E thread p stream_ptr (py_sub w1) of
           ((None, p'), sb) \<Rightarrow>
             ((Inl (MappingError ''failed to bind GpuImage to the DLPack consumer stream''), im\<lparr>pd_publication := Some p'\<rparr>),
              delete_context E thread a (delete_managed m (w1\<lparr>py_sub := sb\<rparr>)))
         | ((Some read, p'), sb) \<Rightarrow>
             let c = \<lparr>ec_tensor = tensor, ec_owner = Some (Some read)\<rparr>;
                 im1 = im\<lparr>pd_publication := None, pd_state := Closed\<rparr>;
                 managed = populate_dlpack_tensor a c ((new_managed versioned)\<lparr>mt_manager_ctx := Some a\<rparr>);
                 w2 = w1\<lparr>py_sub := reset_publication E thread (Some p') sb,
                         py_contexts := (py_contexts w1)(a \<mapsto> c), py_managed := (py_managed w1)(m \<mapsto> managed)\<rparr>
             in if capsule_ok
                then ((Inr \<lparr>cp_name = Some (if versioned then kVersionedDLPackName else kDLPackName), cp_pointer = m\<rparr>,
                       im1\<lparr>pd_state := Consumed\<rparr>), w2)
                else ((Inl ErrorAlreadySet, im1), delete_context E thread a (dlpack_deleter versioned E thread (Some m) w2)))"

definition dlpack ::
    "env \<Rightarrow> nat \<Rightarrow> bool \<Rightarrow> u64 \<Rightarrow> bool \<Rightarrow> bool \<Rightarrow> dlpack_image \<Rightarrow> python
     \<Rightarrow> ((py_error + capsule) \<times> dlpack_image) \<times> python" where
  "dlpack E thread capsule_ok stream_ptr synchronize versioned im w =
     (case ensure_available im ''export through DLPack'' of
        Inl e \<Rightarrow> ((Inl e, im), w)
      | Inr _ \<Rightarrow>
          if \<not> synchronize \<or> stream_ptr = 0
          then ((Inl (ValueError ''DLPack export requires a consumer CUDA stream; stream=-1 is not supported''), im), w)
          else case pd_publication im of
                 None \<Rightarrow> ((Inl ErrorAlreadySet, im), w)
               | Some p \<Rightarrow>
                   (case project_to_tensor (pd_dtype im) (pd_shape im) (pd_strides im) (mu_device_ptr (py_sub w) p)
                           (pd_byte_size im) (pd_device_id im) of
                      Inl e \<Rightarrow> ((Inl (BufferError e), im), w)
                    | Inr tensor \<Rightarrow> dlpack_export E thread capsule_ok stream_ptr versioned tensor p im w))"

section \<open>Facts\<close>

definition heap_fresh :: "python \<Rightarrow> bool" where
  "heap_fresh w \<longleftrightarrow> (\<forall>a \<ge> py_next w. py_contexts w a = None \<and> py_managed w a = None)"

definition image_ok :: "dlpack_image \<Rightarrow> bool" where
  "image_ok im \<longleftrightarrow> (pd_state im = Available) = (pd_publication im \<noteq> None)"

lemma fresh_slots: "heap_fresh w \<Longrightarrow> py_contexts w (py_next w) = None \<and> py_managed w (Suc (py_next w)) = None"
  by (simp add: heap_fresh_def)

lemma deleters_agree: "legacy_dlpack_deleter = versioned_dlpack_deleter"
  by (simp add: fun_eq_iff legacy_dlpack_deleter_def versioned_dlpack_deleter_def)

text \<open>The capsule's destructor, while the capsule has its name, is the deleter of its tensor.\<close>

lemma destructor_deletes:
  "dlpack_capsule_destructor E t (Some \<lparr>cp_name = Some (if v then kVersionedDLPackName else kDLPackName), cp_pointer = m\<rparr>) w
     = legacy_dlpack_deleter E t (Some m) w"
  by (simp add: dlpack_capsule_destructor_def deleters_agree kDLPackName_def kVersionedDLPackName_def)

lemma deleter_runs:
  assumes "py_managed w m = Some x" "mt_manager_ctx x = Some a" "py_contexts w a = Some c" "ec_owner c = Some h"
  shows "legacy_dlpack_deleter E t (Some m) w =
    w\<lparr>py_managed := (py_managed w)(m := None), py_contexts := (py_contexts w)(a := None),
      py_sub := rh_destroy E t h (py_sub w)\<rparr>"
  using assms by (simp add: legacy_dlpack_deleter_def delete_context_def delete_managed_def Let_def)

text \<open>What an export does, by the outcome of the binding.\<close>

lemma dlpack_export_cases:
  assumes "make_bound E t p stream (py_sub w) = ((ro, p'), sb)"
  shows "case ro of
      None \<Rightarrow> dlpack_export E t ok stream versioned tensor p im w =
        ((Inl (MappingError ''failed to bind GpuImage to the DLPack consumer stream''), im\<lparr>pd_publication := Some p'\<rparr>),
         w\<lparr>py_next := py_next w + 2, py_sub := sb, py_contexts := (py_contexts w)(py_next w := None),
           py_managed := (py_managed w)(Suc (py_next w) := None)\<rparr>)
    | Some read \<Rightarrow> (\<exists>x. mt_manager_ctx x = Some (py_next w) \<and> mt_arrays x = py_next w \<and> mt_data x = it_data tensor
        \<and> (let w2 = w\<lparr>py_next := py_next w + 2, py_sub := mu_destroy E t p' sb,
             py_contexts := (py_contexts w)(py_next w \<mapsto> \<lparr>ec_tensor = tensor, ec_owner = Some (Some read)\<rparr>),
             py_managed := (py_managed w)(Suc (py_next w) \<mapsto> x)\<rparr>
           in dlpack_export E t ok stream versioned tensor p im w =
            (if ok then ((Inr \<lparr>cp_name = Some (if versioned then kVersionedDLPackName else kDLPackName),
                              cp_pointer = Suc (py_next w)\<rparr>,
                          im\<lparr>pd_publication := None, pd_state := Consumed\<rparr>), w2)
             else ((Inl ErrorAlreadySet, im\<lparr>pd_publication := None, pd_state := Closed\<rparr>),
                   delete_context E t (py_next w) (legacy_dlpack_deleter E t (Some (Suc (py_next w))) w2)))))"
proof (cases ro)
  case None
  with assms show ?thesis
    by (simp add: dlpack_export_def Let_def delete_managed_def delete_context_def)
next
  case (Some read)
  let ?x = "populate_dlpack_tensor (py_next w) \<lparr>ec_tensor = tensor, ec_owner = Some (Some read)\<rparr>
    ((new_managed versioned)\<lparr>mt_manager_ctx := Some (py_next w)\<rparr>)"
  have "mt_manager_ctx ?x = Some (py_next w)" "mt_arrays ?x = py_next w" "mt_data ?x = it_data tensor"
    by (simp_all add: populate_dlpack_tensor_def)
  with assms Some show ?thesis
    by (auto simp: dlpack_export_def Let_def reset_publication_def dlpack_deleter_def deleters_agree intro!: exI [of _ ?x])
qed

text \<open>Mapping an image leaves its publication as one more owner next to the process's reads.\<close>

lemma py_image_map_sound:
  assumes "driver_documented E" "sound base sb L C B" "py_image_map E t d sb = (Inr im, sb')"
  obtains q a where "pd_publication im = Some q" "pd_state im = Available" "cell_of (mu_buffer_ref q) = Some a"
    "sound base sb' (some_of (mu_resource q) + L) C (some_of (cell_of (mu_buffer_ref q)) + B)"
    "sb_items sb' = sb_items sb" "sb_failed sb' = sb_failed sb"
proof -
  obtain m x where m: "acquire_publication E t (gi_core m) sb = (Some x, sb')" "DLPackImage E t m (Some x) sb' = (Inr im, sb')"
    using assms(3) by (auto simp: py_image_map_def DLPackImage_def split: sum.splits option.splits prod.splits if_splits)
  then have i: "pd_publication im = Some x" "pd_state im = Available" "mu_valid sb' x"
    by (auto simp: DLPackImage_def split: if_splits)
  have md: "map_descriptor E t (gi_core m) sb = (Some x, sb')" using m(1) by (simp add: acquire_publication_def)
  note s = map_descriptor_sound [OF assms(1,2) md] and h = map_descriptor_shared [OF md]
  from h obtain b where "mu_buffer_ref x = Some b" "br_valid b" by auto
  then obtain a where "cell_of (mu_buffer_ref x) = Some a" by (auto simp: cell_of_def br_valid_def)
  with i s h show thesis by (intro that) auto
qed

text \<open>A successful export turns the publication into a bound read inside the context.\<close>

lemma dlpack_success:
  assumes "image_ok im" "dlpack E t ok stream sync versioned im w = ((Inr c, im'), w')"
  obtains q read p' sb tensor x where "pd_state im = Available" "pd_publication im = Some q" "ok"
    "make_bound E t q stream (py_sub w) = ((Some read, p'), sb)"
    "im' = im\<lparr>pd_publication := None, pd_state := Consumed\<rparr>"
    "c = \<lparr>cp_name = Some (if versioned then kVersionedDLPackName else kDLPackName), cp_pointer = Suc (py_next w)\<rparr>"
    "mt_manager_ctx x = Some (py_next w)"
    "w' = w\<lparr>py_next := py_next w + 2, py_sub := mu_destroy E t p' sb,
       py_contexts := (py_contexts w)(py_next w \<mapsto> \<lparr>ec_tensor = tensor, ec_owner = Some (Some read)\<rparr>),
       py_managed := (py_managed w)(Suc (py_next w) \<mapsto> x)\<rparr>"
proof -
  obtain q tensor where q: "pd_state im = Available" "pd_publication im = Some q"
      "dlpack_export E t ok stream versioned tensor q im w = ((Inr c, im'), w')"
    using assms by (auto simp: dlpack_def ensure_available_def split: export_state.splits if_splits option.splits sum.splits)
  obtain ro p' sb where b: "make_bound E t q stream (py_sub w) = ((ro, p'), sb)" by (metis surj_pair)
  show thesis
  proof (cases ro)
    case None
    with q(3) dlpack_export_cases [OF b, of ok versioned tensor im] show thesis by simp
  next
    case (Some read)
    with q(3) dlpack_export_cases [OF b, of ok versioned tensor im]
    obtain x where "mt_manager_ctx x = Some (py_next w)" "ok" "im' = im\<lparr>pd_publication := None, pd_state := Consumed\<rparr>"
      "c = \<lparr>cp_name = Some (if versioned then kVersionedDLPackName else kDLPackName), cp_pointer = Suc (py_next w)\<rparr>"
      "w' = w\<lparr>py_next := py_next w + 2, py_sub := mu_destroy E t p' sb,
         py_contexts := (py_contexts w)(py_next w \<mapsto> \<lparr>ec_tensor = tensor, ec_owner = Some (Some read)\<rparr>),
         py_managed := (py_managed w)(Suc (py_next w) \<mapsto> x)\<rparr>"
      by (auto simp: Let_def split: if_splits)
    with q b Some show thesis by (intro that) simp_all
  qed
qed

lemma pinned_block:
  assumes "sound base sb L C (some_of (Some a) + B)"
  shows "\<forall>now. fst (reserve_cell now (load_meta (sb_shm sb) a)) = None"
proof -
  have "0 < count (cells sb (some_of (Some a) + B)) a" by (simp add: cells_def)
  also have "\<dots> \<le> unat (bm_refcount (load_meta (sb_shm sb) a))"
    using soundD(4) [OF assms] unfolding cells_ok_def by (rule spec)
  finally have "bm_refcount (load_meta (sb_shm sb) a) \<noteq> 0" by auto
  then show ?thesis by (simp add: reserve_cell_def)
qed

lemma delete_context_fresh: "heap_fresh w \<Longrightarrow> heap_fresh (delete_context E t a w)"
  by (auto simp: heap_fresh_def delete_context_def split: option.split)

lemma deleter_fresh: "heap_fresh w \<Longrightarrow> heap_fresh (legacy_dlpack_deleter E t m w)"
proof -
  have managed: "heap_fresh w \<Longrightarrow> heap_fresh (delete_managed n w)" for w n
    by (auto simp: heap_fresh_def delete_managed_def split: option.split)
  have null: "heap_fresh w \<Longrightarrow> py_managed w n = Some x \<Longrightarrow> heap_fresh (w\<lparr>py_managed := (py_managed w)(n \<mapsto> y)\<rparr>)" for w n x y
    by (auto simp: heap_fresh_def)
  show "heap_fresh w \<Longrightarrow> heap_fresh (legacy_dlpack_deleter E t m w)"
    by (auto simp: legacy_dlpack_deleter_def Let_def split: option.split intro!: managed delete_context_fresh null)
qed

lemma dlpack_export_keeps:
  assumes "pd_state im = Available" "heap_fresh w"
  shows "image_ok (snd (fst (dlpack_export E t ok stream versioned tensor p im w)))
    \<and> heap_fresh (snd (dlpack_export E t ok stream versioned tensor p im w))"
proof -
  obtain ro p' sb where b: "make_bound E t p stream (py_sub w) = ((ro, p'), sb)" by (metis surj_pair)
  note x = dlpack_export_cases [OF b, of ok versioned tensor im]
  show ?thesis
  proof (cases ro)
    case None
    with x assms show ?thesis by (simp add: image_ok_def heap_fresh_def)
  next
    case (Some read)
    with x obtain y where y: "let w2 = w\<lparr>py_next := py_next w + 2, py_sub := mu_destroy E t p' sb,
             py_contexts := (py_contexts w)(py_next w \<mapsto> \<lparr>ec_tensor = tensor, ec_owner = Some (Some read)\<rparr>),
             py_managed := (py_managed w)(Suc (py_next w) \<mapsto> y)\<rparr>
           in dlpack_export E t ok stream versioned tensor p im w =
            (if ok then ((Inr \<lparr>cp_name = Some (if versioned then kVersionedDLPackName else kDLPackName),
                              cp_pointer = Suc (py_next w)\<rparr>,
                          im\<lparr>pd_publication := None, pd_state := Consumed\<rparr>), w2)
             else ((Inl ErrorAlreadySet, im\<lparr>pd_publication := None, pd_state := Closed\<rparr>),
                   delete_context E t (py_next w) (legacy_dlpack_deleter E t (Some (Suc (py_next w))) w2)))"
      by auto
    have "heap_fresh (w\<lparr>py_next := py_next w + 2, py_sub := mu_destroy E t p' sb,
             py_contexts := (py_contexts w)(py_next w \<mapsto> \<lparr>ec_tensor = tensor, ec_owner = Some (Some read)\<rparr>),
             py_managed := (py_managed w)(Suc (py_next w) \<mapsto> y)\<rparr>)"
      using assms(2) by (simp add: heap_fresh_def)
    with y show ?thesis by (auto simp: Let_def image_ok_def intro!: delete_context_fresh deleter_fresh)
  qed
qed

section \<open>Properties\<close>

text \<open>
  C40. The representation invariants hold throughout: an image has a publication exactly while it
  is available, from its construction on, through exports that succeed or fail in any way and
  through close; and addresses that were not handed out yet hold no object.
\<close>

theorem images_stay_well_formed:
  "(py_image_map E t d sb = (Inr im, sb1) \<longrightarrow> image_ok im)
   \<and> (image_ok im \<and> heap_fresh w \<longrightarrow>
        image_ok (snd (fst (dlpack E t ok stream sync versioned im w)))
        \<and> heap_fresh (snd (dlpack E t ok stream sync versioned im w)))
   \<and> (image_ok im \<longrightarrow> image_ok (snd (fst (dlpack_close E t im sb))))
   \<and> (heap_fresh w \<longrightarrow> heap_fresh (dlpack_capsule_destructor E t c w))"
proof (intro conjI impI)
  show "image_ok im" if "py_image_map E t d sb = (Inr im, sb1)"
    using that by (auto simp: py_image_map_def DLPackImage_def image_ok_def split: sum.splits option.splits prod.splits if_splits)
  show "image_ok (snd (fst (dlpack E t ok stream sync versioned im w)))" if "image_ok im \<and> heap_fresh w"
    using that by (auto simp: dlpack_def ensure_available_def dlpack_export_keeps
        split: export_state.split option.split sum.split)
  show "heap_fresh (snd (dlpack E t ok stream sync versioned im w))" if "image_ok im \<and> heap_fresh w"
    using that by (auto simp: dlpack_def ensure_available_def dlpack_export_keeps
        split: export_state.split option.split sum.split)
  show "image_ok (snd (fst (dlpack_close E t im sb)))" if "image_ok im"
    using that by (auto simp: dlpack_close_def ensure_available_def image_ok_def split: export_state.split)
  show "heap_fresh (dlpack_capsule_destructor E t c w)" if "heap_fresh w"
    using that deleter_fresh by (auto simp: dlpack_capsule_destructor_def deleters_agree [symmetric] split: option.split)
qed

text \<open>
  C28. An export succeeds once: it needs an available image, leaves it consumed and without its
  publication, and every later export, close or device query of that image, whatever the
  environment, is refused and changes nothing.
\<close>

theorem export_is_one_shot:
  assumes "image_ok im" "dlpack E t ok stream sync versioned im w = ((Inr c, im'), w')"
  shows "pd_state im = Available \<and> pd_state im' = Consumed \<and> pd_publication im' = None
    \<and> fst (fst (dlpack E2 t2 ok2 stream2 sync2 versioned2 im' w2))
        = Inl (MappingError ''cannot export through DLPack after DLPack ownership was transferred'')
    \<and> snd (fst (dlpack E2 t2 ok2 stream2 sync2 versioned2 im' w2)) = im'
    \<and> snd (dlpack E2 t2 ok2 stream2 sync2 versioned2 im' w2) = w2
    \<and> dlpack_close E2 t2 im' sb2 = ((Inl (MappingError ''cannot close after DLPack ownership was transferred''), im'), sb2)
    \<and> dlpack_device im' = Inl (MappingError ''cannot query DLPack device after DLPack ownership was transferred'')"
  by (rule dlpack_success [OF assms]) (auto simp: dlpack_def ensure_available_def dlpack_close_def dlpack_device_def)

text \<open>
  An export that fails before the capsule is created changes neither the image, which stays
  available with its publication, nor the heap, nor shared memory, nor the release queue: it can
  be retried.
\<close>

theorem failed_export_can_be_retried:
  assumes "image_ok im" "heap_fresh w" "dlpack E t True stream sync versioned im w = ((Inl e, im'), w')"
  shows "im' = im \<and> py_contexts w' = py_contexts w \<and> py_managed w' = py_managed w
    \<and> py_deleted_twice w' = py_deleted_twice w \<and> same_shared (py_sub w) (py_sub w')"
proof -
  have keep: ?thesis if "im' = im" "w' = w" using that by (simp add: same_shared_def)
  show ?thesis
  proof (cases "\<exists>q tensor. pd_publication im = Some q \<and> dlpack_export E t True stream versioned tensor q im w = ((Inl e, im'), w')")
    case False
    with assms(1,3) show ?thesis by (intro keep)
        (auto simp: dlpack_def ensure_available_def image_ok_def split: export_state.splits if_splits option.splits sum.splits)
  next
    case True
    then obtain q tensor where q: "pd_publication im = Some q"
      "dlpack_export E t True stream versioned tensor q im w = ((Inl e, im'), w')" by blast
    obtain ro p' sb where b: "make_bound E t q stream (py_sub w) = ((ro, p'), sb)" by (metis surj_pair)
    note c = make_bound_cases [OF b] and x = dlpack_export_cases [OF b, of True versioned tensor im]
    have "ro = None" using x q(2) by (cases ro) (auto simp: Let_def)
    with c x q fresh_slots [OF assms(2)] show ?thesis by (auto simp: fun_upd_idem)
  qed
qed

text \<open>
  When Python cannot create the capsule after the binding, the export context is deleted by
  the tensor's deleter and then once more by the unwinding: the code frees it twice.
\<close>

theorem failed_capsule_frees_twice:
  assumes "heap_fresh w" "pd_publication im = Some p"
    and "dlpack E t False stream sync versioned im w = ((Inl ErrorAlreadySet, im'), w')"
  shows "pd_state im' = Closed \<and> py_deleted_twice w' = py_deleted_twice w @ [py_next w]"
proof -
  obtain tensor where q: "dlpack_export E t False stream versioned tensor p im w = ((Inl ErrorAlreadySet, im'), w')"
    using assms(2,3) by (auto simp: dlpack_def ensure_available_def split: export_state.splits if_splits sum.splits)
  obtain ro p' sb where b: "make_bound E t p stream (py_sub w) = ((ro, p'), sb)" by (metis surj_pair)
  note x = dlpack_export_cases [OF b, of False versioned tensor im]
  show ?thesis
  proof (cases ro)
    case None with q x show ?thesis by simp
  next
    case (Some read)
    with q x show ?thesis by (auto simp: Let_def deleter_runs delete_context_def)
  qed
qed


section \<open>A concrete export\<close>

definition exported_message :: gpu_image where
  "exported_message = GpuImage\<lparr>gi_shape := (2, 3, 4), gi_strides := (12, 4, 1), gi_core := sample_message\<rparr>"

definition sample_python :: "subscriber \<Rightarrow> python" where
  "sample_python sb = \<lparr>py_sub = sb, py_contexts = (\<lambda>_. None), py_managed = (\<lambda>_. None), py_next = 0, py_deleted_twice = []\<rparr>"

lemma sample_python_fresh [simp]: "heap_fresh (sample_python sb)" "py_sub (sample_python sb) = sb"
  by (simp_all add: heap_fresh_def sample_python_def)

lemma exported_message_reads:
  "gpu_image_from_descriptor (gpu_image_descriptor exported_message) = Inr exported_message"
  "validate_image_descriptor exported_message = Inr ()"
proof -
  show "gpu_image_from_descriptor (gpu_image_descriptor exported_message) = Inr exported_message"
    by (rule gpu_image_descriptor_reads_back)
      (simp_all add: exported_message_def GpuImage_def Header_def sample_message_def sample_core_def BufferCore_def ascii_def)
  show "validate_image_descriptor exported_message = Inr ()"
    by (simp add: validate_image_descriptor_def dtype_size_def exported_message_def GpuImage_def dtype_of_byte_def
        word_less_nat_alt u64_max_unat sample_message_def sample_core_def)
qed

lemma sample_image_map:
  "case py_image_map healthy 1 (gpu_image_descriptor exported_message) (initial_subscriber initial_sys sample_shm) of
     (Inl e, sb) \<Rightarrow> False
   | (Inr im, sb) \<Rightarrow> image_ok im \<and> pd_publication im \<noteq> None
      \<and> \<not> isl (fst (fst (dlpack healthy 1 True 3 True False im (sample_python sb))))
      \<and> fst (fst (dlpack healthy 1 False 3 True True im (sample_python sb))) = Inl ErrorAlreadySet
      \<and> isl (fst (fst (dlpack (failing (\<lambda>c. c = CuStreamGetCtx 3) 1) 1 True 3 True False im (sample_python sb))))"
  by (simp add: py_image_map_def exported_message_reads)
    (simp add: exported_message_def GpuImage_def map_eval import_eval DLPackImage_def dlpack_def ensure_available_def
      image_ok_def project_to_tensor_def tensor_element_size_def dimensions_def project_dimension_def mu_device_ptr_def
      word_less_nat_alt u64_max_unat dlpack_export_def sample_python_def reset_publication_def dtype_of_byte_def
      delete_context_def delete_managed_def dlpack_deleter_def)

lemma sample_image:
  obtains im sb where
    "py_image_map healthy 1 (gpu_image_descriptor exported_message) (initial_subscriber initial_sys sample_shm) = (Inr im, sb)"
    "image_ok im" "pd_publication im \<noteq> None"
    "\<exists>c im' w'. dlpack healthy 1 True 3 True False im (sample_python sb) = ((Inr c, im'), w')"
    "\<exists>im' w'. dlpack healthy 1 False 3 True True im (sample_python sb) = ((Inl ErrorAlreadySet, im'), w')"
    "\<exists>e im' w'. dlpack (failing (\<lambda>c. c = CuStreamGetCtx 3) 1) 1 True 3 True False im (sample_python sb) = ((Inl e, im'), w')"
proof -
  have pair: "\<exists>im' w'. x = ((fst (fst x), im'), w')" for x :: "((py_error + capsule) \<times> dlpack_image) \<times> python"
    by (cases x; cases "fst x") simp
  have right: "\<exists>c. y = Inr c" if "\<not> isl y" for y :: "py_error + capsule" using that by (cases y) simp_all
  have left: "\<exists>e. y = Inl e" if "isl y" for y :: "py_error + capsule" using that by (cases y) simp_all
  show thesis
    using sample_image_map that pair right left
    by (simp split: prod.splits sum.splits) (metis (no_types, lifting))
qed

theorem images_stay_well_formed_witness:
  "\<exists>im sb. pd_publication im \<noteq> None \<and> image_ok (snd (fst (dlpack healthy 1 False 3 True True im (sample_python sb))))
     \<and> heap_fresh (snd (dlpack healthy 1 False 3 True True im (sample_python sb)))"
proof -
  obtain im sb where
    m: "py_image_map healthy 1 (gpu_image_descriptor exported_message) (initial_subscriber initial_sys sample_shm) = (Inr im, sb)"
    and p: "pd_publication im \<noteq> None" by (rule sample_image)
  note k = images_stay_well_formed [of healthy 1 _ _ im _ "sample_python sb" False 3 True True None]
  from k m have "image_ok im" by blast
  with k p sample_python_fresh(1) show ?thesis by blast
qed

theorem export_is_one_shot_witness:
  "\<exists>im im' sb w'. pd_state im = Available \<and> pd_state im' = Consumed
     \<and> snd (fst (dlpack healthy 1 True 3 True False im (sample_python sb))) = im'
     \<and> snd (dlpack healthy 1 True 3 True False im' w') = w'"
proof -
  obtain im sb where "image_ok im" "\<exists>c im' w'. dlpack healthy 1 True 3 True False im (sample_python sb) = ((Inr c, im'), w')"
    by (rule sample_image)
  then obtain c im' w' where d: "dlpack healthy 1 True 3 True False im (sample_python sb) = ((Inr c, im'), w')" by blast
  from export_is_one_shot [OF \<open>image_ok im\<close> d, where ?w2.0 = w'] d show ?thesis
    by (intro exI [of _ im] exI [of _ im'] exI [of _ sb] exI [of _ w']) simp
qed

theorem failed_export_can_be_retried_witness:
  "\<exists>im sb e w'. dlpack (failing (\<lambda>c. c = CuStreamGetCtx 3) 1) 1 True 3 True False im (sample_python sb) = ((Inl e, im), w')
     \<and> py_contexts w' = (\<lambda>_. None)"
proof -
  obtain im sb where i: "image_ok im"
    "\<exists>e im' w'. dlpack (failing (\<lambda>c. c = CuStreamGetCtx 3) 1) 1 True 3 True False im (sample_python sb) = ((Inl e, im'), w')"
    by (rule sample_image)
  then obtain e im' w' where
    d: "dlpack (failing (\<lambda>c. c = CuStreamGetCtx 3) 1) 1 True 3 True False im (sample_python sb) = ((Inl e, im'), w')" by blast
  from failed_export_can_be_retried [OF i(1) sample_python_fresh(1) d] d show ?thesis by (auto simp: sample_python_def)
qed

theorem failed_capsule_frees_twice_witness:
  "\<exists>im sb w' im'. dlpack healthy 1 False 3 True True im (sample_python sb) = ((Inl ErrorAlreadySet, im'), w')
     \<and> py_deleted_twice w' = [0]"
proof -
  obtain im sb where i: "pd_publication im \<noteq> None"
    "\<exists>im' w'. dlpack healthy 1 False 3 True True im (sample_python sb) = ((Inl ErrorAlreadySet, im'), w')"
    by (rule sample_image)
  then obtain p im' w' where d: "pd_publication im = Some p"
    "dlpack healthy 1 False 3 True True im (sample_python sb) = ((Inl ErrorAlreadySet, im'), w')" by blast
  from failed_capsule_frees_twice [OF sample_python_fresh(1) d] d show ?thesis by (auto simp: sample_python_def)
qed


end
