(* ===== verification/Python_Api.thy ===== *)
theory Python_Api
  imports Python_Module
begin

text \<open>
  What Python programs see: the attributes that the extension module registers
  (\<^verbatim>\<open>ros2_cuda_ipc_py/src/native_module.cpp\<close>, \<^verbatim>\<open>PYBIND11_MODULE\<close>) with their getters, and the view classes
  of \<^verbatim>\<open>ros2_cuda_ipc_py/_api.py\<close>, which normalise the arguments of the DLPack protocol.
\<close>

section \<open>The extension module\<close>

text \<open>Class, read-only properties, methods.\<close>

definition native_classes :: "(string \<times> string list \<times> string list) list" where
  "native_classes =
     [(''ReadHandle'', [''valid'', ''device_ptr'', ''byte_size'', ''device_id''], [''close'']),
      (''ImageReadHandle'', [''valid'', ''byte_size'', ''device_id'', ''shape'', ''strides'', ''dtype'', ''encoding'', ''frame_id''],
         [''from_message'', ''close'']),
      (''BufferMapper'', [], [''__init__'', ''map'']),
      (''DLPackImage'', [''valid'', ''byte_size'', ''device_id'', ''shape'', ''strides'', ''dtype'', ''encoding'', ''frame_id''],
         [''_dlpack_device'', ''_dlpack'', ''close'']),
      (''ImageMapper'', [], [''__init__'', ''map''])]"

text \<open>A text is the bytes of the \<^verbatim>\<open>std::string\<close>.\<close>

datatype (plugins only: code) attribute = ABool bool | AInt int | AText string | ATuple "int list"

definition int_tuple :: "'a::len word three \<Rightarrow> attribute" where
  "int_tuple v = (case v of (a, b, c) \<Rightarrow> ATuple [uint a, uint b, uint c])"

text \<open>The getters; \<open>None\<close> when the class has no property of that name.\<close>

definition read_attribute :: "subscriber \<Rightarrow> read_handle \<Rightarrow> string \<Rightarrow> (py_error + attribute) option" where
  "read_attribute sb view name =
     (if name = ''valid'' then Some (Inr (ABool (rh_valid sb view)))
      else if name = ''device_ptr'' then Some (Inr (AInt (uint (rh_device_ptr sb view))))
      else if name = ''byte_size'' then Some (Inr (AInt (uint (rh_byte_size view))))
      else if name = ''device_id'' then Some (Inr (AInt (sint (rh_device_id view))))
      else None)"

definition image_attribute :: "py_image \<Rightarrow> string \<Rightarrow> (py_error + attribute) option" where
  "image_attribute im name =
     (if name = ''valid'' then Some (Inr (ABool (pi_valid im)))
      else if name = ''byte_size'' then Some (Inr (AInt (uint (pi_byte_size im))))
      else if name = ''device_id'' then Some (Inr (AInt (sint (pi_device_id im))))
      else if name = ''shape'' then Some (Inr (int_tuple (pi_shape im)))
      else if name = ''strides'' then Some (Inr (int_tuple (pi_strides im)))
      else if name = ''dtype'' then Some (and_then (dtype_name (pi_dtype im)) (\<lambda>s. Inr (AText s)))
      else if name = ''encoding'' then Some (Inr (AText (pi_encoding im)))
      else if name = ''frame_id'' then Some (Inr (AText (pi_frame_id im)))
      else None)"

definition dlpack_attribute :: "dlpack_image \<Rightarrow> string \<Rightarrow> (py_error + attribute) option" where
  "dlpack_attribute im name =
     (if name = ''valid'' then Some (Inr (ABool (pd_state im = Available)))
      else if name = ''byte_size'' then Some (Inr (AInt (uint (pd_byte_size im))))
      else if name = ''device_id'' then Some (Inr (AInt (sint (pd_device_id im))))
      else if name = ''shape'' then Some (Inr (int_tuple (pd_shape im)))
      else if name = ''strides'' then Some (Inr (int_tuple (pd_strides im)))
      else if name = ''dtype'' then Some (and_then (dtype_name (pd_dtype im)) (\<lambda>s. Inr (AText s)))
      else if name = ''encoding'' then Some (Inr (AText (pd_encoding im)))
      else if name = ''frame_id'' then Some (Inr (AText (pd_frame_id im)))
      else None)"

section \<open>The Python views\<close>

text \<open>The native names that the view classes of \<^verbatim>\<open>_api.py\<close> use.\<close>

definition api_uses :: "(string \<times> string list \<times> string list) list" where
  "api_uses =
     [(''ReadHandle'', [''valid'', ''device_ptr'', ''byte_size'', ''device_id''], [''close'']),
      (''ImageReadHandle'', [''valid'', ''byte_size'', ''device_id'', ''shape'', ''strides'', ''dtype'', ''encoding'', ''frame_id''],
         [''from_message'', ''close'']),
      (''BufferMapper'', [], [''__init__'', ''map'']),
      (''DLPackImage'', [''valid'', ''byte_size'', ''device_id'', ''shape'', ''strides'', ''dtype'', ''encoding'', ''frame_id''],
         [''_dlpack_device'', ''_dlpack'', ''close'']),
      (''ImageMapper'', [], [''__init__'', ''map''])]"

text \<open>
  The exceptions of a view: those of the extension, and its own. A \<^verbatim>\<open>RuntimeError\<close> of the extension
  (its \<^verbatim>\<open>MappingError\<close> is one) becomes a \<^verbatim>\<open>MappingError\<close> with its text, which for a failed cast is pybind11's.
\<close>

datatype (plugins only: code) api_error =
  FromNative py_error | ApiMappingError "string option" | ApiTypeError string | ApiValueError string | ApiBufferError string

definition wrap_runtime_error :: "py_error \<Rightarrow> api_error" where
  "wrap_runtime_error e = (case e of
       MappingError s \<Rightarrow> ApiMappingError (Some s) | LogicError s \<Rightarrow> ApiMappingError (Some s) | CastError \<Rightarrow> ApiMappingError None
     | _ \<Rightarrow> FromNative e)"

text \<open>The argument \<^verbatim>\<open>stream\<close>: \<^verbatim>\<open>None\<close>, a value, or an object that has no index but maybe a \<^verbatim>\<open>ptr\<close>.\<close>

datatype (plugins only: code) stream_argument = NoStream | StreamValue py_value | StreamObject "py_value option"

definition stream_index :: "stream_argument \<Rightarrow> int option" where
  "stream_index s = (case s of
       NoStream \<Rightarrow> Some 1
     | StreamValue v \<Rightarrow> py_number_index v
     | StreamObject p \<Rightarrow> Option.bind p py_number_index)"

definition dlpack_stream_pointer :: "stream_argument \<Rightarrow> api_error + (int \<times> bool)" where
  "dlpack_stream_pointer s =
     (if s = NoStream then Inr (1, True)
      else case stream_index s of
        None \<Rightarrow> Inl (ApiTypeError ''DLPack stream must be an integer pointer or an object with a ptr attribute'')
      | Some pointer \<Rightarrow>
          if pointer = - 1 then Inl (ApiValueError ''DLPack stream=-1 is not supported because automatic completion requires a consumer stream'')
          else if pointer = 0 then Inl (ApiValueError ''CUDA DLPack stream pointer 0 is ambiguous'')
          else if pointer < - 1 then Inl (ApiValueError ''CUDA DLPack stream pointer must be -1 or positive'')
          else if pointer > 2 ^ 64 - 1 then Inl (ApiValueError ''CUDA DLPack stream pointer is outside uintptr_t'')
          else Inr (pointer, True))"

text \<open>\<open>PyItems\<close> are the tuples and lists.\<close>

definition dlpack_versioned :: "py_value option \<Rightarrow> api_error + bool" where
  "dlpack_versioned max_version = (case max_version of
       None \<Rightarrow> Inr False
     | Some (PyItems [a, b]) \<Rightarrow>
         (case (py_number_index a, py_number_index b) of
            (Some major, Some minor) \<Rightarrow>
              if major < 0 \<or> minor < 0 then Inl (ApiValueError ''max_version values must be non-negative'') else Inr (1 \<le> major)
          | _ \<Rightarrow> Inl (ApiTypeError ''max_version must contain integer versions''))
     | Some _ \<Rightarrow> Inl (ApiTypeError ''max_version must be a (major, minor) pair''))"

text \<open>
  \<^verbatim>\<open>__dlpack__\<close>; \<open>dl_device\<close> is a tuple of integers, \<open>copy\<close> a Boolean, when given. 2 is \<^verbatim>\<open>kDLCUDA\<close>.
\<close>

definition dlpack_arguments ::
    "stream_argument \<Rightarrow> py_value option \<Rightarrow> int list option \<Rightarrow> bool option \<Rightarrow> dlpack_image \<Rightarrow> api_error + (u64 \<times> bool \<times> bool)" where
  "dlpack_arguments stream max_version dl_device cpy im =
     (case dlpack_device im of
        Inl e \<Rightarrow> Inl (FromNative e)
      | Inr device \<Rightarrow>
          if dl_device \<noteq> None \<and> dl_device \<noteq> Some [2, sint device]
          then Inl (ApiBufferError ''cross-device DLPack export is not supported'')
          else if cpy = Some True then Inl (ApiBufferError ''copying DLPack export is not supported'')
          else and_then (dlpack_stream_pointer stream) (\<lambda>(pointer, synchronize).
               and_then (dlpack_versioned max_version) (\<lambda>versioned.
               Inr (word_of_int pointer, synchronize, versioned))))"

definition api_dlpack ::
    "env \<Rightarrow> nat \<Rightarrow> bool \<Rightarrow> stream_argument \<Rightarrow> py_value option \<Rightarrow> int list option \<Rightarrow> bool option \<Rightarrow> dlpack_image \<Rightarrow> python
     \<Rightarrow> ((api_error + capsule) \<times> dlpack_image) \<times> python" where
  "api_dlpack E thread capsule_ok stream max_version dl_device cpy im w =
     (case dlpack_arguments stream max_version dl_device cpy im of
        Inl e \<Rightarrow> ((Inl e, im), w)
      | Inr (pointer, synchronize, versioned) \<Rightarrow>
          (case dlpack E thread capsule_ok pointer synchronize versioned im w of
             ((r, im'), w') \<Rightarrow> ((map_sum FromNative id r, im'), w')))"

text \<open>The mappers and \<^verbatim>\<open>ImageReadHandle.from_message\<close>.\<close>

definition api_buffer_map ::
    "env \<Rightarrow> nat \<Rightarrow> buffer_core \<Rightarrow> stream_argument \<Rightarrow> subscriber \<Rightarrow> (api_error + read_handle) \<times> subscriber" where
  "api_buffer_map E thread m stream sb =
     (case dlpack_stream_pointer stream of
        Inl e \<Rightarrow> (Inl e, sb)
      | Inr (pointer, _) \<Rightarrow>
          (case py_buffer_map E thread (buffer_core_descriptor m) (word_of_int pointer) sb of
             (r, sb') \<Rightarrow> (map_sum wrap_runtime_error id r, sb')))"

definition api_image_map :: "env \<Rightarrow> nat \<Rightarrow> gpu_image \<Rightarrow> subscriber \<Rightarrow> (api_error + dlpack_image) \<times> subscriber" where
  "api_image_map E thread m sb =
     (case py_image_map E thread (gpu_image_descriptor m) sb of (r, sb') \<Rightarrow> (map_sum wrap_runtime_error id r, sb'))"

definition api_image_from_message ::
    "env \<Rightarrow> nat \<Rightarrow> gpu_image \<Rightarrow> read_handle \<Rightarrow> subscriber \<Rightarrow> ((api_error + py_image) \<times> read_handle) \<times> subscriber" where
  "api_image_from_message E thread m read sb =
     (case py_image_from_message E thread (gpu_image_descriptor m) read sb of
        ((r, left), sb') \<Rightarrow> ((map_sum wrap_runtime_error id r, left), sb'))"

section \<open>Facts\<close>

text \<open>The views use registered names only, and the getters know exactly the registered properties.\<close>

lemma api_names_are_registered:
  "\<forall>(c, properties, functions) \<in> set api_uses. \<exists>(d, ps, fs) \<in> set native_classes. c = d \<and> set properties \<subseteq> set ps \<and> set functions \<subseteq> set fs"
  by (simp add: api_uses_def native_classes_def)

lemma getters_are_registered:
  "read_attribute sb view name \<noteq> None \<longleftrightarrow> name \<in> set (fst (the (map_of native_classes ''ReadHandle'')))"
  "image_attribute im name \<noteq> None \<longleftrightarrow> name \<in> set (fst (the (map_of native_classes ''ImageReadHandle'')))"
  "dlpack_attribute di name \<noteq> None \<longleftrightarrow> name \<in> set (fst (the (map_of native_classes ''DLPackImage'')))"
  by (simp_all add: read_attribute_def image_attribute_def dlpack_attribute_def native_classes_def)

text \<open>Closing an image, or exporting it, changes one attribute.\<close>

lemma closed_image_keeps_its_metadata:
  "name \<noteq> ''valid'' \<Longrightarrow> image_attribute (fst (py_image_close E t im sb)) name = image_attribute im name"
  "image_attribute (fst (py_image_close E t im sb)) ''valid'' = Some (Inr (ABool False))"
  by (simp_all add: py_image_close_def image_attribute_def)

text \<open>An accepted stream argument is a pointer that fits, never 0, and is handed on as it is.\<close>

lemma stream_pointer_exact:
  "dlpack_stream_pointer s = Inr (pointer, synchronize) \<longleftrightarrow>
     synchronize \<and> stream_index s = Some pointer \<and> 0 < pointer \<and> pointer < 2 ^ 64"
  by (cases s) (auto simp: dlpack_stream_pointer_def stream_index_def split: option.split)

lemma stream_pointer_word:
  assumes "0 < pointer" "pointer < 2 ^ 64"
  shows "uint (word_of_int pointer :: u64) = pointer" "(word_of_int pointer :: u64) \<noteq> 0"
proof -
  show u: "uint (word_of_int pointer :: u64) = pointer" using assms by (simp add: uint_word_of_int)
  show "(word_of_int pointer :: u64) \<noteq> 0" using u assms by (metis uint_0_eq less_irrefl)
qed

lemma versioned_exact:
  "dlpack_versioned v = Inr versioned \<longleftrightarrow>
     (v = None \<and> \<not> versioned) \<or> (\<exists>a b major minor. v = Some (PyItems [a, b]) \<and> py_number_index a = Some major
        \<and> py_number_index b = Some minor \<and> 0 \<le> major \<and> 0 \<le> minor \<and> versioned = (1 \<le> major))"
  by (auto simp: dlpack_versioned_def split: option.splits py_value.splits list.splits if_splits)

lemma versioned_value:
  "dlpack_versioned v = Inr versioned \<Longrightarrow>
   versioned = (case v of Some (PyItems [a, b]) \<Rightarrow> 1 \<le> the (py_number_index a) | _ \<Rightarrow> False)"
  by (auto simp: versioned_exact)

definition call_accepted :: "stream_argument \<Rightarrow> py_value option \<Rightarrow> int list option \<Rightarrow> bool option \<Rightarrow> dlpack_image \<Rightarrow> bool" where
  "call_accepted stream max_version dl_device cpy im \<longleftrightarrow>
     pd_state im = Available \<and> (dl_device = None \<or> dl_device = Some [2, sint (pd_device_id im)]) \<and> cpy \<noteq> Some True
     \<and> (case stream_index stream of Some p \<Rightarrow> 0 < p \<and> p < 2 ^ 64 | None \<Rightarrow> False) \<and> \<not> isl (dlpack_versioned max_version)"

lemma available_device:
  "dlpack_device im = Inr d \<longleftrightarrow> pd_state im = Available \<and> d = pd_device_id im"
  "Inr d = dlpack_device im \<longleftrightarrow> pd_state im = Available \<and> d = pd_device_id im"
  by (cases "pd_state im"; auto simp: dlpack_device_def ensure_available_def)+

lemma arguments_accepted:
  assumes "call_accepted stream max_version dl_device cpy im"
  shows "dlpack_arguments stream max_version dl_device cpy im = Inr (word_of_int (the (stream_index stream)), True,
    (case max_version of Some (PyItems [a, b]) \<Rightarrow> 1 \<le> the (py_number_index a) | _ \<Rightarrow> False))"
proof -
  obtain p where p: "stream_index stream = Some p" "0 < p" "p < 2 ^ 64"
    using assms by (auto simp: call_accepted_def split: option.splits)
  then have s: "dlpack_stream_pointer stream = Inr (p, True)" by (simp add: stream_pointer_exact)
  have "\<exists>v. dlpack_versioned max_version = Inr v"
    using assms by (cases "dlpack_versioned max_version") (simp_all add: call_accepted_def)
  then obtain v where v: "dlpack_versioned max_version = Inr v" ..
  have d: "dlpack_device im = Inr (pd_device_id im)" using assms by (simp add: available_device call_accepted_def)
  show ?thesis using assms versioned_value [OF v]
    by (auto simp: dlpack_arguments_def call_accepted_def d s v p(1))
qed

lemma arguments_refused:
  assumes "\<not> call_accepted stream max_version dl_device cpy im"
  obtains e where "dlpack_arguments stream max_version dl_device cpy im = Inl e"
proof (cases "dlpack_arguments stream max_version dl_device cpy im")
  case (Inr r)
  then have "call_accepted stream max_version dl_device cpy im"
    by (auto simp: dlpack_arguments_def call_accepted_def and_then_def stream_pointer_exact available_device split: sum.splits if_splits)
  with assms show thesis by blast
qed (rule that)

section \<open>Properties\<close>


end
