(* ===== verification/Device_Kernels.thy ===== *)
theory Device_Kernels
  imports Prelude "HOL-Library.Multiset" "HOL-Library.Signed_Division"
begin

unbundle bit_operations_syntax

text \<open>
  The CUDA kernels of the example nodes
  (\<^verbatim>\<open>examples/multi_process_image_fanout/src/cuda/kernels.cu\<close>) with their launchers, apart
  from the statistics over floating-point numbers. Device memory maps addresses to bytes; a
  thread is a function from the memory to the bytes it stores, and a launch runs the threads of
  its grid in an order that the device chooses.
\<close>

section \<open>The device\<close>

type_synonym device_memory = "u64 \<Rightarrow> u8"

text \<open>\<^verbatim>\<open>blockIdx\<close> and \<^verbatim>\<open>threadIdx\<close>, the two dimensions the kernels use.\<close>

type_synonym thread_id = "(u32 \<times> u32) \<times> (u32 \<times> u32)"

text \<open>
  The device is a parameter: what \<^verbatim>\<open>cudaGetLastError\<close> says after a launch with a grid and a
  block, and the order in which the threads of the grid run.
\<close>

record device =
  dv_error :: "u32 \<times> u32 \<Rightarrow> u32 \<times> u32 \<Rightarrow> int"
  dv_schedule :: "thread_id list \<Rightarrow> thread_id list"

abbreviation cudaSuccess :: int where "cudaSuccess \<equiv> 0"
abbreviation cudaErrorInvalidValue :: int where "cudaErrorInvalidValue \<equiv> 1"

definition words_below :: "u32 \<Rightarrow> u32 list" where
  "words_below n = map of_nat [0..<unat n]"

definition grid_threads :: "u32 \<times> u32 \<Rightarrow> u32 \<times> u32 \<Rightarrow> thread_id list" where
  "grid_threads grid block =
     [((i, j), (s, t)). i \<leftarrow> words_below (fst grid), j \<leftarrow> words_below (snd grid),
                        s \<leftarrow> words_below (fst block), t \<leftarrow> words_below (snd block)]"

text \<open>
  A thread's stores: the addresses and the values, bytes or floating-point numbers.
\<close>

definition store_bytes :: "(u64 \<times> 'v) list \<Rightarrow> (u64 \<Rightarrow> 'v) \<Rightarrow> u64 \<Rightarrow> 'v" where
  "store_bytes ws m = fold (\<lambda>(a, v) m. m(a := v)) ws m"

definition run_threads ::
    "(thread_id \<Rightarrow> (u64 \<Rightarrow> 'v) \<Rightarrow> (u64 \<times> 'v) list) \<Rightarrow> thread_id list \<Rightarrow> (u64 \<Rightarrow> 'v) \<Rightarrow> u64 \<Rightarrow> 'v" where
  "run_threads body order m = fold (\<lambda>t m. store_bytes (body t m) m) order m"

text \<open>\<^verbatim>\<open>kernel<<<grid, block>>>(...)\<close> and the error that is read afterwards.\<close>

definition launch ::
    "device \<Rightarrow> (thread_id \<Rightarrow> (u64 \<Rightarrow> 'v) \<Rightarrow> (u64 \<times> 'v) list) \<Rightarrow> u32 \<times> u32 \<Rightarrow> u32 \<times> u32 \<Rightarrow> (u64 \<Rightarrow> 'v)
     \<Rightarrow> int \<times> (u64 \<Rightarrow> 'v)" where
  "launch dv body grid block m =
     (if dv_error dv grid block \<noteq> cudaSuccess then (dv_error dv grid block, m)
      else (cudaSuccess, run_threads body (dv_schedule dv (grid_threads grid block)) m))"

section \<open>Kernels\<close>

definition kPatternBlockSize :: int where "kPatternBlockSize = 32"
definition kPixelBlockX :: u32 where "kPixelBlockX = 16"
definition kPixelBlockY :: u32 where "kPixelBlockY = 16"
definition kGrayBlockX :: u32 where "kGrayBlockX = 16"
definition kGrayBlockY :: u32 where "kGrayBlockY = 16"
definition kChecksumBlockSize :: u32 where "kChecksumBlockSize = 256"
definition kStatsBlockSize :: u32 where "kStatsBlockSize = 256"
definition kDefaultChannels :: u32 where "kDefaultChannels = 4"

lemmas kernel_constants = kPatternBlockSize_def kPixelBlockX_def kPixelBlockY_def kGrayBlockX_def kGrayBlockY_def
  kChecksumBlockSize_def kStatsBlockSize_def kDefaultChannels_def

text \<open>\<^verbatim>\<open>blockIdx * blockDim + threadIdx\<close>, cast to \<^verbatim>\<open>int\<close>.\<close>

definition global_x :: "u32 \<Rightarrow> thread_id \<Rightarrow> i32" where
  "global_x dim t = fst (fst t) * dim + fst (snd t)"

definition global_y :: "u32 \<Rightarrow> thread_id \<Rightarrow> i32" where
  "global_y dim t = snd (fst t) * dim + snd (snd t)"

definition rgba_to_luma_u8 :: "device_memory \<Rightarrow> u64 \<Rightarrow> u8" where
  "rgba_to_luma_u8 m pixel =
     (let r = ucast (m pixel) :: u32; g = ucast (m (pixel + 1)); b = ucast (m (pixel + 2))
      in ucast (drop_bit 8 (77 * r + 150 * g + 29 * b)))"

definition generate_rgba_pattern_kernel ::
    "u64 \<Rightarrow> i32 \<Rightarrow> i32 \<Rightarrow> u64 \<Rightarrow> u64 \<Rightarrow> thread_id \<Rightarrow> device_memory \<Rightarrow> (u64 \<times> u8) list" where
  "generate_rgba_pattern_kernel output width height stride_bytes frame_index t m =
     (let x = global_x kPixelBlockX t; y = global_y kPixelBlockY t
      in if sint x \<ge> sint width \<or> sint y \<ge> sint height then []
      else let pixel = output + scast y * stride_bytes + scast x * ucast kDefaultChannels;
               block_x = word_of_int (sint x sdiv kPatternBlockSize) :: i32;
               block_y = word_of_int (sint y sdiv kPatternBlockSize) :: i32
      in [(pixel, ucast ((scast x + frame_index) AND 0xFF)),
          (pixel + 1, ucast ((scast y + 2 * frame_index) AND 0xFF)),
          (pixel + 2, ucast ((scast ((block_x XOR block_y) * 37) + 3 * frame_index) AND 0xFF)),
          (pixel + 3, 255)])"

definition rgba_to_luma_downscale2_kernel ::
    "u64 \<Rightarrow> u64 \<Rightarrow> i32 \<Rightarrow> i32 \<Rightarrow> u64 \<Rightarrow> thread_id \<Rightarrow> device_memory \<Rightarrow> (u64 \<times> u8) list" where
  "rgba_to_luma_downscale2_kernel input_rgba output_luma input_width input_height input_stride_bytes t m =
     (let output_x = global_x kGrayBlockX t; output_y = global_y kGrayBlockY t;
          output_width = word_of_int (sint input_width sdiv 2) :: i32;
          output_height = word_of_int (sint input_height sdiv 2) :: i32
      in if sint output_x \<ge> sint output_width \<or> sint output_y \<ge> sint output_height then []
      else let input_x = output_x * 2; input_y = output_y * 2
      in if sint (input_x + 1) \<ge> sint input_width \<or> sint (input_y + 1) \<ge> sint input_height then []
      else let row0 = input_rgba + scast input_y * input_stride_bytes;
               row1 = input_rgba + scast (input_y + 1) * input_stride_bytes;
               luma = (\<lambda>row x. ucast (rgba_to_luma_u8 m (row + scast (x :: i32) * ucast kDefaultChannels)) :: u32);
               sum = luma row0 input_x + luma row0 (input_x + 1) + luma row1 input_x + luma row1 (input_x + 1)
      in [(output_luma + (scast output_y * scast output_width + scast output_x), ucast (sum div 4))])"

text \<open>An atomic addition to the checksum cell; the input is only read.\<close>

definition element_index :: "u32 \<Rightarrow> thread_id \<Rightarrow> u64" where
  "element_index dim t = ucast (fst (fst t)) * ucast dim + ucast (fst (snd t))"

definition checksum_u8_kernel :: "device_memory \<Rightarrow> u64 \<Rightarrow> u64 \<Rightarrow> thread_id \<Rightarrow> u64 \<Rightarrow> u64" where
  "checksum_u8_kernel m input element_count t checksum =
     (let index = element_index kChecksumBlockSize t
      in if index \<ge> element_count then checksum
      else let weight = index mod 251 + 1 in checksum + ucast (m (input + index)) * weight)"

text \<open>
  Single-precision arithmetic is a parameter: \<^verbatim>\<open>static_cast<float>\<close>, division, multiplication,
  addition, \<^verbatim>\<open>__float_as_uint\<close>, \<^verbatim>\<open>__float2int_rn\<close> and infinity.
\<close>

record 'f float_ops =
  fl_of_nat :: "nat \<Rightarrow> 'f"
  fl_div :: "'f \<Rightarrow> 'f \<Rightarrow> 'f"
  fl_mul :: "'f \<Rightarrow> 'f \<Rightarrow> 'f"
  fl_add :: "'f \<Rightarrow> 'f \<Rightarrow> 'f"
  fl_bits :: "'f \<Rightarrow> u32"
  fl_to_int :: "'f \<Rightarrow> i32"
  fl_infinity :: 'f

definition rgba_to_normalized_gray_kernel ::
    "'f float_ops \<Rightarrow> device_memory \<Rightarrow> u64 \<Rightarrow> u64 \<Rightarrow> i32 \<Rightarrow> i32 \<Rightarrow> u64 \<Rightarrow> thread_id \<Rightarrow> (u64 \<Rightarrow> 'f) \<Rightarrow> (u64 \<times> 'f) list" where
  "rgba_to_normalized_gray_kernel F m input_rgba output_gray width height input_stride_bytes t floats =
     (let x = global_x kGrayBlockX t; y = global_y kGrayBlockY t
      in if sint x \<ge> sint width \<or> sint y \<ge> sint height then []
      else let pixel = input_rgba + scast y * input_stride_bytes + scast x * ucast kDefaultChannels;
               luma = rgba_to_luma_u8 m pixel
      in [(output_gray + 4 * (scast y * scast width + scast x), fl_div F (fl_of_nat F (unat luma)) (fl_of_nat F 255))])"

text \<open>The minimum and the maximum are kept as the bits of the numbers.\<close>

record 'f inference_stats =
  is_mean :: 'f
  is_min :: u32
  is_max :: u32
  is_checksum :: u64

definition inference_stats_accumulate_kernel ::
    "'f float_ops \<Rightarrow> (u64 \<Rightarrow> 'f) \<Rightarrow> u64 \<Rightarrow> u64 \<Rightarrow> thread_id \<Rightarrow> 'f inference_stats \<Rightarrow> 'f inference_stats" where
  "inference_stats_accumulate_kernel F floats input element_count t stats =
     (let index = element_index kStatsBlockSize t
      in if index \<ge> element_count then stats
      else let value = floats (input + 4 * index);
               quantized = scast (fl_to_int F (fl_mul F value (fl_of_nat F 65535)));
               weighted = quantized * (index mod 251 + 1)
      in stats\<lparr>is_mean := fl_add F (is_mean stats) value, is_min := min (is_min stats) (fl_bits F value),
               is_max := max (is_max stats) (fl_bits F value), is_checksum := is_checksum stats + weighted\<rparr>)"

definition inference_stats_finalize_kernel ::
    "'f float_ops \<Rightarrow> u64 \<Rightarrow> 'f inference_stats \<Rightarrow> 'f inference_stats" where
  "inference_stats_finalize_kernel F element_count stats =
     (if element_count = 0
      then \<lparr>is_mean = fl_of_nat F 0, is_min = fl_bits F (fl_of_nat F 0), is_max = fl_bits F (fl_of_nat F 0), is_checksum = 0\<rparr>
      else stats\<lparr>is_mean := fl_div F (is_mean stats) (fl_of_nat F (unat element_count))\<rparr>)"

section \<open>Launchers\<close>

definition blocks_for :: "u32 \<Rightarrow> u32 \<Rightarrow> u32" where
  "blocks_for n dim = (n + dim - 1) div dim"

definition launch_generate_rgba_pattern_kernel ::
    "device \<Rightarrow> u64 \<Rightarrow> i32 \<Rightarrow> i32 \<Rightarrow> u64 \<Rightarrow> u64 \<Rightarrow> device_memory \<Rightarrow> int \<times> device_memory" where
  "launch_generate_rgba_pattern_kernel dv output width height stride_bytes frame_index m =
     (if output = 0 \<or> sint width \<le> 0 \<or> sint height \<le> 0 \<or> stride_bytes = 0 then (cudaErrorInvalidValue, m)
      else launch dv (generate_rgba_pattern_kernel output width height stride_bytes frame_index)
             (blocks_for width kPixelBlockX, blocks_for height kPixelBlockY) (kPixelBlockX, kPixelBlockY) m)"

definition launch_rgba_to_luma_downscale2_kernel ::
    "device \<Rightarrow> u64 \<Rightarrow> u64 \<Rightarrow> i32 \<Rightarrow> i32 \<Rightarrow> u64 \<Rightarrow> device_memory \<Rightarrow> int \<times> device_memory" where
  "launch_rgba_to_luma_downscale2_kernel dv input_rgba output_luma input_width input_height input_stride_bytes m =
     (if input_rgba = 0 \<or> output_luma = 0 \<or> sint input_width \<le> 0 \<or> sint input_height \<le> 0 \<or> input_stride_bytes = 0
      then (cudaErrorInvalidValue, m)
      else let output_width = word_of_int (sint input_width sdiv 2) :: i32;
               output_height = word_of_int (sint input_height sdiv 2) :: i32
      in if sint output_width \<le> 0 \<or> sint output_height \<le> 0 then (cudaErrorInvalidValue, m)
      else launch dv (rgba_to_luma_downscale2_kernel input_rgba output_luma input_width input_height input_stride_bytes)
             (blocks_for output_width kGrayBlockX, blocks_for output_height kGrayBlockY) (kGrayBlockX, kGrayBlockY) m)"

definition launch_checksum_u8_kernel ::
    "device \<Rightarrow> u64 \<Rightarrow> u64 \<Rightarrow> u64 \<Rightarrow> device_memory \<Rightarrow> u64 \<Rightarrow> int \<times> u64" where
  "launch_checksum_u8_kernel dv input element_count device_checksum m checksum =
     (if input = 0 \<or> device_checksum = 0 \<or> element_count = 0 then (cudaErrorInvalidValue, checksum)
      else let grid = (blocks_for (ucast element_count) kChecksumBlockSize, 1); block = (kChecksumBlockSize, 1)
      in if dv_error dv grid block \<noteq> cudaSuccess then (dv_error dv grid block, checksum)
      else (cudaSuccess, fold (checksum_u8_kernel m input element_count) (dv_schedule dv (grid_threads grid block)) checksum))"

definition launch_rgba_to_normalized_gray_kernel ::
    "device \<Rightarrow> 'f float_ops \<Rightarrow> device_memory \<Rightarrow> u64 \<Rightarrow> u64 \<Rightarrow> i32 \<Rightarrow> i32 \<Rightarrow> u64 \<Rightarrow> (u64 \<Rightarrow> 'f) \<Rightarrow> int \<times> (u64 \<Rightarrow> 'f)" where
  "launch_rgba_to_normalized_gray_kernel dv F m input_rgba output_gray width height input_stride_bytes floats =
     (if input_rgba = 0 \<or> output_gray = 0 \<or> sint width \<le> 0 \<or> sint height \<le> 0 \<or> input_stride_bytes = 0
      then (cudaErrorInvalidValue, floats)
      else launch dv (rgba_to_normalized_gray_kernel F m input_rgba output_gray width height input_stride_bytes)
             (blocks_for width kGrayBlockX, blocks_for height kGrayBlockY) (kGrayBlockX, kGrayBlockY) floats)"

text \<open>\<open>copied\<close> is what the initial copy to the device answers.\<close>

definition launch_inference_stats_kernel ::
    "device \<Rightarrow> 'f float_ops \<Rightarrow> int \<Rightarrow> (u64 \<Rightarrow> 'f) \<Rightarrow> u64 \<Rightarrow> u64 \<Rightarrow> u64 \<Rightarrow> 'f inference_stats \<Rightarrow> int \<times> 'f inference_stats" where
  "launch_inference_stats_kernel dv F copied floats input element_count device_stats stats =
     (if input = 0 \<or> device_stats = 0 \<or> element_count = 0 then (cudaErrorInvalidValue, stats)
      else if copied \<noteq> cudaSuccess then (copied, stats)
      else let init = \<lparr>is_mean = fl_of_nat F 0, is_min = fl_bits F (fl_infinity F), is_max = fl_bits F (fl_of_nat F 0),
                        is_checksum = 0\<rparr>;
               grid = (blocks_for (ucast element_count) kStatsBlockSize, 1); block = (kStatsBlockSize, 1)
      in if dv_error dv grid block \<noteq> cudaSuccess then (dv_error dv grid block, init)
      else let acc = fold (inference_stats_accumulate_kernel F floats input element_count)
                       (dv_schedule dv (grid_threads grid block)) init
      in if dv_error dv (1, 1) (1, 1) \<noteq> cudaSuccess then (dv_error dv (1, 1) (1, 1), acc)
      else (cudaSuccess, inference_stats_finalize_kernel F element_count acc))"

section \<open>The order of the threads\<close>

text \<open>A schedule runs every thread of the grid once.\<close>

definition fair :: "device \<Rightarrow> bool" where
  "fair dv \<longleftrightarrow> (\<forall>ts. mset (dv_schedule dv ts) = mset ts)"

lemma fair_set: "fair dv \<Longrightarrow> set (dv_schedule dv ts) = set ts"
  by (metis fair_def set_mset_mset)

lemma store_bytes_simps [simp]:
  "store_bytes [] m = m" "store_bytes ((a, v) # ws) m = store_bytes ws (m(a := v))"
  by (simp_all add: store_bytes_def)

lemma store_bytes_outside: "a \<notin> fst ` set ws \<Longrightarrow> store_bytes ws m a = m a"
  by (induction ws arbitrary: m) auto

lemma store_bytes_inside:
  "(a, v) \<in> set ws \<Longrightarrow> \<forall>(b, u) \<in> set ws. b = a \<longrightarrow> u = v \<Longrightarrow> store_bytes ws m a = v"
proof (induction ws arbitrary: m)
  case (Cons w ws)
  obtain b u where w: "w = (b, u)" by (cases w)
  show ?case
  proof (cases "(a, v) \<in> set ws")
    case True
    with Cons show ?thesis by (simp add: w)
  next
    case False
    with Cons.prems have "w = (a, v)" by simp
    moreover have "a \<notin> fst ` set ws" using False Cons.prems(2) by force
    ultimately show ?thesis by (simp add: store_bytes_outside)
  qed
qed simp

text \<open>
  If the stores of the grid's threads never disagree about an address and no thread reads an
  address that is stored to, then the order does not matter: every store arrives and nothing else
  changes.
\<close>

lemma run_threads_snoc: "run_threads body (ts @ [t]) m = store_bytes (body t (run_threads body ts m)) (run_threads body ts m)"
  by (simp add: run_threads_def)

definition grid_stores ::
    "(thread_id \<Rightarrow> (u64 \<Rightarrow> 'v) \<Rightarrow> (u64 \<times> 'v) list) \<Rightarrow> (u64 \<Rightarrow> 'v) \<Rightarrow> thread_id set \<Rightarrow> (u64 \<times> 'v) set" where
  "grid_stores body m T = (\<Union>t \<in> T. set (body t m))"

lemma run_threads_exact_aux:
  assumes agree: "\<And>a v u. (a, v) \<in> grid_stores body m T \<Longrightarrow> (a, u) \<in> grid_stores body m T \<Longrightarrow> v = u"
    and reads: "\<And>t m'. t \<in> T \<Longrightarrow> \<forall>a. a \<notin> fst ` grid_stores body m T \<longrightarrow> m' a = m a \<Longrightarrow> body t m' = body t m"
  shows "set ts \<subseteq> T \<Longrightarrow>
    (\<forall>a v. (a, v) \<in> grid_stores body m (set ts) \<longrightarrow> run_threads body ts m a = v)
    \<and> (\<forall>a. a \<notin> fst ` grid_stores body m (set ts) \<longrightarrow> run_threads body ts m a = m a)"
proof (induction ts rule: rev_induct)
  case Nil
  then show ?case by (simp add: grid_stores_def run_threads_def)
next
  case (snoc t ts)
  let ?m = "run_threads body ts m" and ?S = "grid_stores body m"
  have T: "set ts \<subseteq> T" "t \<in> T" using snoc.prems by auto
  have sub: "?S (set ts) \<subseteq> ?S T" "set (body t m) \<subseteq> ?S T" "?S (set (ts @ [t])) = ?S (set ts) \<union> set (body t m)"
    using T by (auto simp: grid_stores_def)
  have IH: "\<And>a v. (a, v) \<in> ?S (set ts) \<Longrightarrow> ?m a = v" "\<And>a. a \<notin> fst ` ?S (set ts) \<Longrightarrow> ?m a = m a"
    using snoc.IH [OF T(1)] by auto
  have k: "body t ?m = body t m"
    using image_mono [OF sub(1), of fst] by (intro reads [OF T(2)]) (auto intro!: IH(2))
  have inside: "store_bytes (body t m) ?m a = v" if "(a, v) \<in> set (body t m)" for a v
    using that sub(2) by (intro store_bytes_inside) (auto dest!: subsetD [OF sub(2)] intro: agree)
  show ?case
  proof (intro conjI allI impI)
    fix a v
    assume av: "(a, v) \<in> ?S (set (ts @ [t]))"
    show "run_threads body (ts @ [t]) m a = v"
    proof (cases "a \<in> fst ` set (body t m)")
      case True
      then obtain u where u: "(a, u) \<in> set (body t m)" by auto
      have "u = v" using agree u av sub by blast
      then show ?thesis using inside u by (simp add: run_threads_snoc k)
    next
      case False
      then have "(a, v) \<in> ?S (set ts)" using av unfolding sub(3) by force
      then show ?thesis using IH(1) False by (simp add: run_threads_snoc k store_bytes_outside)
    qed
  next
    fix a
    assume "a \<notin> fst ` ?S (set (ts @ [t]))"
    then have "a \<notin> fst ` ?S (set ts)" "a \<notin> fst ` set (body t m)" unfolding sub(3) by blast+
    then show "run_threads body (ts @ [t]) m a = m a" using IH(2) by (simp add: run_threads_snoc k store_bytes_outside)
  qed
qed

lemmas run_threads_exact = run_threads_exact_aux [OF _ _ subset_refl]

section \<open>The pixels of a grid\<close>

lemma words_below_set: "set (words_below n) = {v. v < n}"
proof -
  have "v \<in> set (words_below n)" if "v < n" for v
    using that by (auto simp: words_below_def word_less_nat_alt intro!: image_eqI [of _ _ "unat v"])
  moreover have "v < n" if "v \<in> set (words_below n)" for v
  proof -
    from that have "v \<in> of_nat ` {0..<unat n}" by (simp add: words_below_def)
    then obtain k where "k \<in> {0..<unat n}" and k1: "v = of_nat k" by (rule imageE) (rule that)
    then have k: "v = of_nat k" "k < unat n" by simp_all
    have "unat n < 2 ^ 32" using unsigned_less [of n] by simp
    then show ?thesis using k by (simp add: word_less_nat_alt unat_of_nat take_bit_eq_mod)
  qed
  ultimately show ?thesis by blast
qed

lemma grid_threads_set:
  "set (grid_threads (gx, gy) (bx, by')) = {((i, j), (s, t)). i < gx \<and> j < gy \<and> s < bx \<and> t < by'}"
  by (auto simp: grid_threads_def words_below_set)

lemma unat_blocks_for16:
  assumes "0 < unat n" "unat n < 2 ^ 31"
  shows "unat (blocks_for n 16) = (unat n + 15) div 16"
proof -
  have "unat (n + 16 - 1) = unat n + 15"
    using assms by (simp add: unat_word_ariths)
  then show ?thesis by (simp add: blocks_for_def unat_div)
qed

text \<open>A thread of a grid of 16 by 16 blocks names a point that no signed 32-bit number misses.\<close>

lemma point_of_thread:
  assumes n: "0 < unat n" "unat n < 2 ^ 31" and i: "i < blocks_for n 16" and s: "s < (16 :: u32)"
  shows "unat (i * 16 + s) = unat i * 16 + unat s" "unat i * 16 + unat s < 2 ^ 31"
proof -
  have "unat i < (unat n + 15) div 16" "unat s < 16"
    using i s by (simp_all add: word_less_nat_alt unat_blocks_for16 [OF n])
  moreover have "(unat n + 15) div 16 \<le> 2 ^ 27" using n(2) by simp
  ultimately show b: "unat i * 16 + unat s < 2 ^ 31" by simp
  then show "unat (i * 16 + s) = unat i * 16 + unat s" by (simp add: unat_word_ariths)
qed

lemma sint_small32: "unat (x :: i32) < 2 ^ 31 \<Longrightarrow> sint x = int (unat x)"
  by (rule sint_nonnegative) simp

lemma positive_i32: "0 < sint (x :: i32) \<Longrightarrow> 0 < unat x \<and> unat x < 2 ^ 31"
proof -
  assume pos: "0 < sint x"
  have lt: "sint x < 2 ^ 31" using sint_less [of x] by simp
  have "uint x = take_bit 32 (sint x)" by (simp add: uint_sint)
  also have "\<dots> = sint x" using pos lt by (intro take_bit_int_eq_self) simp_all
  finally have "uint x < 2 ^ 31" "0 < uint x" using pos lt by simp_all
  then show "0 < unat x \<and> unat x < 2 ^ 31" by (simp add: unat_eq_nat_uint nat_less_iff del: nat_uint_eq)
qed

definition thread_point :: "thread_id \<Rightarrow> nat \<times> nat" where
  "thread_point t = (unat (global_x 16 t), unat (global_y 16 t))"

lemma grid_points:
  assumes w: "0 < unat w" "unat w < 2 ^ 31" and h: "0 < unat h" "unat h < 2 ^ 31"
    and T: "T = set (grid_threads (blocks_for w 16, blocks_for h 16) (16, 16))"
  shows "t \<in> T \<Longrightarrow> fst (thread_point t) < 2 ^ 31 \<and> snd (thread_point t) < 2 ^ 31"
    and "{..<unat w} \<times> {..<unat h} \<subseteq> thread_point ` T"
proof -
  show "fst (thread_point t) < 2 ^ 31 \<and> snd (thread_point t) < 2 ^ 31" if "t \<in> T"
    using that point_of_thread [OF w] point_of_thread [OF h]
    by (auto simp: T grid_threads_set thread_point_def global_x_def global_y_def)
  have one: "of_nat (x div 16) < blocks_for n (16 :: u32) \<and> of_nat (x mod 16) < (16 :: u32)
      \<and> unat (of_nat (x div 16) * 16 + of_nat (x mod 16) :: u32) = x"
    if n: "0 < unat n" "unat n < 2 ^ 31" and x: "x < unat n" for n :: u32 and x
  proof -
    have q: "unat (of_nat (x div 16) :: u32) = x div 16" "unat (of_nat (x mod 16) :: u32) = x mod 16"
      using x n by (auto simp: unat_of_nat take_bit_eq_mod)
    have "x div 16 < (unat n + 15) div 16" using x by simp
    then have lt: "of_nat (x div 16) < blocks_for n (16 :: u32)" "of_nat (x mod 16) < (16 :: u32)"
      by (simp_all add: word_less_nat_alt unat_blocks_for16 [OF n] q)
    show ?thesis using lt point_of_thread(1) [OF n lt] by (simp add: q)
  qed
  show "{..<unat w} \<times> {..<unat h} \<subseteq> thread_point ` T"
  proof
    fix p
    assume "p \<in> {..<unat w} \<times> {..<unat h}"
    then obtain x y where p: "p = (x, y)" "x < unat w" "y < unat h" by auto
    let ?t = "((of_nat (x div 16), of_nat (y div 16)), (of_nat (x mod 16), of_nat (y mod 16))) :: thread_id"
    have "?t \<in> T" using one [OF w p(2)] one [OF h p(3)] by (simp add: T grid_threads_set)
    moreover have "thread_point ?t = p"
      using one [OF w p(2)] one [OF h p(3)] by (simp add: thread_point_def global_x_def global_y_def p(1))
    ultimately show "p \<in> thread_point ` T" by blast
  qed
qed

text \<open>
  A kernel that does its work per pixel, on a grid that covers the picture, stores what the
  pixels of the picture ask for.
\<close>

lemma grid_stores_pixels:
  assumes w: "0 < unat w" "unat w < 2 ^ 31" and h: "0 < unat h" "unat h < 2 ^ 31"
    and T: "T = set (grid_threads (blocks_for w 16, blocks_for h 16) (16, 16))"
    and body: "\<And>t m. t \<in> T \<Longrightarrow> fst (thread_point t) < 2 ^ 31 \<Longrightarrow> snd (thread_point t) < 2 ^ 31 \<Longrightarrow> body t m =
      (if fst (thread_point t) < unat w \<and> snd (thread_point t) < unat h then pixel (thread_point t) m else [])"
  shows "grid_stores body m T = (\<Union>p \<in> {..<unat w} \<times> {..<unat h}. set (pixel p m))"
proof -
  note b = body [OF _ conjunct1 [OF grid_points(1) [OF w h T]] conjunct2 [OF grid_points(1) [OF w h T]]]
  show ?thesis
  proof (intro equalityI subsetI)
    fix e
    assume "e \<in> grid_stores body m T"
    then obtain t where t: "t \<in> T" "e \<in> set (body t m)" unfolding grid_stores_def by blast
    then have "thread_point t \<in> {..<unat w} \<times> {..<unat h}" "e \<in> set (pixel (thread_point t) m)"
      by (simp_all add: b mem_Times_iff split: if_splits)
    then show "e \<in> (\<Union>p \<in> {..<unat w} \<times> {..<unat h}. set (pixel p m))" by (rule UN_I)
  next
    fix e
    assume "e \<in> (\<Union>p \<in> {..<unat w} \<times> {..<unat h}. set (pixel p m))"
    then obtain p where p: "p \<in> {..<unat w} \<times> {..<unat h}" "e \<in> set (pixel p m)" by (rule UN_E)
    from p(1) have "p \<in> thread_point ` T" using grid_points(2) [OF w h T] by (rule subsetD [rotated])
    then obtain t where t: "p = thread_point t" "t \<in> T" by (rule imageE)
    have "e \<in> set (body t m)" using p t by (simp add: b [OF t(2)] mem_Times_iff)
    with t(2) show "e \<in> grid_stores body m T" unfolding grid_stores_def by (rule UN_I)
  qed
qed

lemma launch_pixels:
  fixes pixel :: "nat \<times> nat \<Rightarrow> (u64 \<Rightarrow> 'v) \<Rightarrow> (u64 \<times> 'v) list" and w h :: u32
  assumes fair: "fair dv"
    and w: "0 < unat w" "unat w < 2 ^ 31" and h: "0 < unat h" "unat h < 2 ^ 31"
    and body: "\<And>t m. fst (thread_point t) < 2 ^ 31 \<Longrightarrow> snd (thread_point t) < 2 ^ 31 \<Longrightarrow> body t m =
      (if fst (thread_point t) < unat w \<and> snd (thread_point t) < unat h then pixel (thread_point t) m else [])"
    and P: "P = (\<Union>p \<in> {..<unat w} \<times> {..<unat h}. set (pixel p m))"
    and agree: "\<And>a v u. (a, v) \<in> P \<Longrightarrow> (a, u) \<in> P \<Longrightarrow> v = u"
    and reads: "\<And>p m'. p \<in> {..<unat w} \<times> {..<unat h} \<Longrightarrow> \<forall>a. a \<notin> fst ` P \<longrightarrow> m' a = m a \<Longrightarrow> pixel p m' = pixel p m"
    and launched: "launch dv body (blocks_for w 16, blocks_for h 16) (16, 16) m = (cudaSuccess, m')"
  shows "(a, v) \<in> P \<Longrightarrow> m' a = v" "a \<notin> fst ` P \<Longrightarrow> m' a = m a"
proof -
  define order where "order = dv_schedule dv (grid_threads (blocks_for w 16, blocks_for h 16) (16, 16))"
  define T where "T = set order"
  have T: "T = set (grid_threads (blocks_for w 16, blocks_for h 16) (16, 16))"
    unfolding T_def order_def by (rule fair_set [OF fair])
  note points = grid_points [OF w h T] and small = grid_points(1) [OF w h T]
  note b = body [OF conjunct1 [OF small] conjunct2 [OF small]]
  have S: "grid_stores body m T = P" unfolding P by (rule grid_stores_pixels [OF w h T]) (rule body)
  have m': "m' = run_threads body order m"
    using launched by (simp add: launch_def order_def split: if_splits)
  have exact: "(\<forall>a v. (a, v) \<in> P \<longrightarrow> m' a = v) \<and> (\<forall>a. a \<notin> fst ` P \<longrightarrow> m' a = m a)"
    unfolding m' S [symmetric] T_def
  proof (rule run_threads_exact)
    show "v = u" if "(a, v) \<in> grid_stores body m (set order)" "(a, u) \<in> grid_stores body m (set order)" for a v u
      using that agree unfolding T_def [symmetric] S by blast
    show "body t n = body t m"
      if "t \<in> set order" "\<forall>a. a \<notin> fst ` grid_stores body m (set order) \<longrightarrow> n a = m a" for t n
    proof -
      have t: "t \<in> T" using that(1) by (simp only: T_def)
      have n: "\<forall>a. a \<notin> fst ` P \<longrightarrow> n a = m a" using that(2) unfolding T_def [symmetric] S .
      have "pixel (thread_point t) n = pixel (thread_point t) m"
        if "fst (thread_point t) < unat w" "snd (thread_point t) < unat h"
        by (rule reads [OF _ n]) (simp add: mem_Times_iff that)
      then show ?thesis by (simp add: b t)
    qed
  qed
  then show "(a, v) \<in> P \<Longrightarrow> m' a = v" "a \<notin> fst ` P \<Longrightarrow> m' a = m a" by blast+
qed

section \<open>The test pattern\<close>

text \<open>The bytes of one pixel, computed modulo 256.\<close>

definition pattern_byte :: "u64 \<Rightarrow> nat \<times> nat \<Rightarrow> nat \<Rightarrow> u8" where
  "pattern_byte frame p k =
     (if k = 0 then of_nat (fst p) + ucast frame
      else if k = 1 then of_nat (snd p) + 2 * ucast frame
      else if k = 2 then of_nat (fst p div 32 XOR snd p div 32) * 37 + 3 * ucast frame
      else 255)"

definition pixel_byte_offset :: "nat \<Rightarrow> nat \<times> nat \<Rightarrow> nat \<Rightarrow> nat" where
  "pixel_byte_offset stride p k = snd p * stride + 4 * fst p + k"

definition pattern_pixel :: "u64 \<Rightarrow> u64 \<Rightarrow> u64 \<Rightarrow> nat \<times> nat \<Rightarrow> device_memory \<Rightarrow> (u64 \<times> u8) list" where
  "pattern_pixel output stride frame p m =
     map (\<lambda>k. (output + of_nat (pixel_byte_offset (unat stride) p k), pattern_byte frame p k)) [0..<4]"

lemma ucast_low:
  fixes a b :: "'a::len word"
  assumes "LENGTH('b) \<le> LENGTH('a)"
  shows "ucast (a + b) = (ucast a + ucast b :: 'b::len word)" "ucast (a * b) = (ucast a * ucast b :: 'b::len word)"
proof -
  have low: "take_bit LENGTH('b) (take_bit LENGTH('a) x) = take_bit LENGTH('b) x" for x :: int
    using assms by (simp only: take_bit_take_bit min.absorb1)
  show "ucast (a + b) = (ucast a + ucast b :: 'b::len word)"
    by transfer (simp only: low, metis take_bit_add low)
  show "ucast (a * b) = (ucast a * ucast b :: 'b::len word)"
    by transfer (simp only: low, metis take_bit_mult low)
qed

lemma ucast_scast_low: "ucast (scast (a :: u32) :: u64) = (ucast a :: u8)"
  by transfer (simp add: take_bit_signed_take_bit)

lemma ucast_of_nat_low: "ucast (of_nat n :: u32) = (of_nat n :: u8)" "ucast (of_nat n :: u64) = (of_nat n :: u8)"
  by (transfer, simp)+

lemma ucast_mask_low: "ucast ((a :: u64) AND 0xFF) = (ucast a :: u8)"
proof -
  have "(0xFF :: u64) = mask 8" by (simp add: mask_eq_exp_minus_1)
  then have "a AND 0xFF = take_bit 8 a" by (simp only: take_bit_eq_mask)
  moreover have "ucast (take_bit 8 a) = (ucast a :: u8)" by transfer simp
  ultimately show ?thesis by simp
qed

lemma scast_of_small: "unat (x :: u32) < 2 ^ 31 \<Longrightarrow> scast x = (ucast x :: u64)"
  by (simp only: scast_eq sint_small32 of_int_of_nat_eq) simp

lemma sdiv_of_small:
  "unat (x :: u32) < 2 ^ 31 \<Longrightarrow> 0 < n \<Longrightarrow> word_of_int (sint x sdiv int n) = (of_nat (unat x div n) :: u32)"
  by (simp add: sint_small32 signed_divide_int_def of_nat_div [symmetric] del: of_nat_div of_nat_unat)


lemmas low_byte = ucast_mask_low ucast_scast_low ucast_of_nat_low of_nat_xor_eq [symmetric]
  ucast_low [where 'a = 64 and 'b = 8, simplified] ucast_low [where 'a = 32 and 'b = 8, simplified]

lemma pattern_kernel_pixel:
  assumes t: "fst (thread_point t) < 2 ^ 31" "snd (thread_point t) < 2 ^ 31"
    and w: "unat width < 2 ^ 31" and h: "unat height < 2 ^ 31"
  shows "generate_rgba_pattern_kernel output width height stride frame t m =
    (if fst (thread_point t) < unat width \<and> snd (thread_point t) < unat height
     then pattern_pixel output stride frame (thread_point t) m else [])"
proof -
  define x y where "x = global_x 16 t" and "y = global_y 16 t"
  have p: "thread_point t = (unat x, unat y)" and x: "unat x < 2 ^ 31" and y: "unat y < 2 ^ 31"
    using t by (simp_all add: thread_point_def x_def y_def)
  have guard: "sint x \<ge> sint width \<or> sint y \<ge> sint height \<longleftrightarrow> \<not> (unat x < unat width \<and> unat y < unat height)"
    using sint_small32 [OF x] sint_small32 [OF y] sint_small32 [OF w] sint_small32 [OF h]
    by (simp only: of_nat_le_iff not_less de_Morgan_conj)
  have blocks: "word_of_int (sint x sdiv kPatternBlockSize) = (of_nat (unat x div 32) :: u32)"
      "word_of_int (sint y sdiv kPatternBlockSize) = (of_nat (unat y div 32) :: u32)"
    using sdiv_of_small [OF x, of 32] sdiv_of_small [OF y, of 32] by (simp_all add: kPatternBlockSize_def)
  have four: "[0..<4] = [0, 1, 2, 3]" by (simp add: upt_rec)
  have addr: "scast y * stride + scast x * ucast kDefaultChannels = of_nat (unat y * unat stride + 4 * unat x)"
    by (simp add: scast_of_small [OF x] scast_of_small [OF y] kDefaultChannels_def mult.commute)
  show ?thesis
    unfolding generate_rgba_pattern_kernel_def Let_def x_def [symmetric] y_def [symmetric] kPixelBlockX_def kPixelBlockY_def
      guard blocks pattern_pixel_def p four
    by (simp add: addr add.assoc pixel_byte_offset_def pattern_byte_def low_byte)
qed


text \<open>Within rows that hold their pixels, and with no wrap-around, no two bytes coincide.\<close>

lemma row_split:
  fixes y x stride :: nat
  assumes "x < stride"
  shows "(y * stride + x) div stride = y" "(y * stride + x) mod stride = x"
  using assms by (simp_all add: add.commute)

lemma row_bytes_differ:
  assumes "4 * w \<le> stride" "fst p < w" "fst q < w" "k < 4" "l < 4"
    and eq: "pixel_byte_offset stride p k = pixel_byte_offset stride q l"
  shows "p = q \<and> k = l"
proof -
  have lt: "4 * fst p + k < stride" "4 * fst q + l < stride" using assms by linarith+
  have "snd p * stride + (4 * fst p + k) = snd q * stride + (4 * fst q + l)"
    using eq by (simp add: pixel_byte_offset_def add.assoc)
  then have "snd p = snd q" "4 * fst p + k = 4 * fst q + l"
    using row_split [OF lt(1), of "snd p"] row_split [OF lt(2), of "snd q"] by metis+
  then have "fst p = fst q \<and> k = l" using \<open>k < 4\<close> \<open>l < 4\<close> by presburger
  with \<open>snd p = snd q\<close> show ?thesis by (simp add: prod_eq_iff)
qed

lemma row_byte_bound:
  assumes "4 * w \<le> stride" "fst p < w" "snd p < h" "k < 4"
  shows "pixel_byte_offset stride p k < stride * h"
proof -
  have "4 * fst p + k < stride" using assms by linarith
  then have "pixel_byte_offset stride p k < stride * Suc (snd p)" by (simp add: pixel_byte_offset_def mult.commute)
  also have "\<dots> \<le> stride * h" using assms(3) by (intro mult_le_mono2) simp
  finally show ?thesis .
qed

lemma of_nat_eq_offset:
  fixes base :: u64
  assumes "unat base + n < 2 ^ 64" "unat base + l < 2 ^ 64" "base + of_nat n = base + of_nat l"
  shows "n = l"
proof -
  have "(of_nat n :: u64) = of_nat l" using assms(3) by simp
  moreover have "n < 2 ^ 64" "l < 2 ^ 64" using assms(1,2) by linarith+
  ultimately show ?thesis by (simp add: word_of_nat_eq_iff take_bit_eq_mod)
qed


lemma pattern_frame:
  assumes fair: "fair dv"
    and launched: "launch_generate_rgba_pattern_kernel dv output width height stride frame m = (cudaSuccess, m')"
    and rows: "4 * unat width \<le> unat stride" and range: "unat output + unat stride * unat height \<le> 2 ^ 64"
  shows "fst p < unat width \<Longrightarrow> snd p < unat height \<Longrightarrow> k < 4 \<Longrightarrow>
      m' (output + of_nat (pixel_byte_offset (unat stride) p k)) = pattern_byte frame p k"
    and "(\<And>p k. fst p < unat width \<Longrightarrow> snd p < unat height \<Longrightarrow> k < 4 \<Longrightarrow>
        a \<noteq> output + of_nat (pixel_byte_offset (unat stride) p k)) \<Longrightarrow> m' a = m a"
proof -
  have "0 < sint width" "0 < sint height"
    and l: "launch dv (generate_rgba_pattern_kernel output width height stride frame)
        (blocks_for width 16, blocks_for height 16) (16, 16) m = (cudaSuccess, m')"
    using launched by (auto simp: launch_generate_rgba_pattern_kernel_def kPixelBlockX_def kPixelBlockY_def split: if_splits)
  then have w: "0 < unat width" "unat width < 2 ^ 31" and h: "0 < unat height" "unat height < 2 ^ 31"
    by (blast dest: positive_i32)+
  define P where "P = (\<Union>p \<in> {..<unat width} \<times> {..<unat height}. set (pattern_pixel output stride frame p m))"
  have P: "(a, v) \<in> P \<longleftrightarrow> (\<exists>p k. fst p < unat width \<and> snd p < unat height \<and> k < 4 \<and>
      a = output + of_nat (pixel_byte_offset (unat stride) p k) \<and> v = pattern_byte frame p k)" for a v
    unfolding P_def pattern_pixel_def UN_iff Bex_def set_map image_iff mem_Times_iff prod.inject set_upt by auto
  have agree: "v = u" if v: "(a, v) \<in> P" and u: "(a, u) \<in> P" for a v u
  proof -
    obtain p k where 1: "fst p < unat width" "snd p < unat height" "k < 4"
        "a = output + of_nat (pixel_byte_offset (unat stride) p k)" "v = pattern_byte frame p k"
      using v unfolding P by blast
    obtain q l where 2: "fst q < unat width" "snd q < unat height" "l < 4"
        "a = output + of_nat (pixel_byte_offset (unat stride) q l)" "u = pattern_byte frame q l"
      using u unfolding P by blast
    have "pixel_byte_offset (unat stride) p k = pixel_byte_offset (unat stride) q l"
      using row_byte_bound [OF rows 1(1,2,3)] row_byte_bound [OF rows 2(1,2,3)] range 1(4) 2(4)
      by (intro of_nat_eq_offset [where base = "output"]) simp_all
    then have "p = q \<and> k = l" by (rule row_bytes_differ [OF rows 1(1) 2(1) 1(3) 2(3)])
    with 1(5) 2(5) show "v = u" by simp
  qed
  have reads: "pattern_pixel output stride frame p m'' = pattern_pixel output stride frame p m" for p m''
    by (simp add: pattern_pixel_def)
  have body: "generate_rgba_pattern_kernel output width height stride frame t n =
      (if fst (thread_point t) < unat width \<and> snd (thread_point t) < unat height
       then pattern_pixel output stride frame (thread_point t) n else [])"
    if "fst (thread_point t) < 2 ^ 31" "snd (thread_point t) < 2 ^ 31" for t n
    by (rule pattern_kernel_pixel [OF that w(2) h(2)])
  have hit: "m' a = v" if "(a, v) \<in> P" for a v
    by (rule launch_pixels(1) [where pixel = "pattern_pixel output stride frame", OF fair w h _ P_def _ _ l]) (fact body agree that | rule reads)+
  have miss: "m' a = m a" if "a \<notin> fst ` P" for a
    by (rule launch_pixels(2) [where pixel = "pattern_pixel output stride frame", OF fair w h _ P_def _ _ l]) (fact body agree that | rule reads)+
  show "fst p < unat width \<Longrightarrow> snd p < unat height \<Longrightarrow> k < 4 \<Longrightarrow>
      m' (output + of_nat (pixel_byte_offset (unat stride) p k)) = pattern_byte frame p k"
    by (rule hit) (unfold P, intro exI [of _ p] exI [of _ k] conjI refl)
  show "(\<And>p k. fst p < unat width \<Longrightarrow> snd p < unat height \<Longrightarrow> k < 4 \<Longrightarrow>
        a \<noteq> output + of_nat (pixel_byte_offset (unat stride) p k)) \<Longrightarrow> m' a = m a"
  proof (rule miss)
    assume none: "\<And>p k. fst p < unat width \<Longrightarrow> snd p < unat height \<Longrightarrow> k < 4 \<Longrightarrow>
        a \<noteq> output + of_nat (pixel_byte_offset (unat stride) p k)"
    show "a \<notin> fst ` P"
    proof
      assume "a \<in> fst ` P"
      then obtain v where "(a, v) \<in> P" by auto
      then show False using none unfolding P by blast
    qed
  qed
qed


section \<open>The reduced luma plane\<close>

definition luma_at :: "device_memory \<Rightarrow> u64 \<Rightarrow> nat \<Rightarrow> nat \<times> nat \<Rightarrow> nat" where
  "luma_at m base stride p =
     (let pixel = base + of_nat (snd p * stride + 4 * fst p)
      in (77 * unat (m pixel) + 150 * unat (m (pixel + 1)) + 29 * unat (m (pixel + 2))) div 256)"

definition luma_average :: "device_memory \<Rightarrow> u64 \<Rightarrow> nat \<Rightarrow> nat \<times> nat \<Rightarrow> nat" where
  "luma_average m base stride p =
     (luma_at m base stride (2 * fst p, 2 * snd p) + luma_at m base stride (2 * fst p + 1, 2 * snd p)
      + luma_at m base stride (2 * fst p, 2 * snd p + 1) + luma_at m base stride (2 * fst p + 1, 2 * snd p + 1)) div 4"

lemma unat_ucast32_8: "unat (ucast (v :: u8) :: u32) = unat v"
proof -
  have "unat v < 2 ^ 32" using unsigned_less [of v, where 'a = nat] by simp
  then show ?thesis by (simp add: unsigned_ucast_eq take_bit_nat_eq_self)
qed

lemma luma_exact:
  "unat (rgba_to_luma_u8 m pixel) = (77 * unat (m pixel) + 150 * unat (m (pixel + 1)) + 29 * unat (m (pixel + 2))) div 256"
proof -
  let ?r = "m pixel" and ?g = "m (pixel + 1)" and ?b = "m (pixel + 2)"
  have small: "unat ?r < 2 ^ 8" "unat ?g < 2 ^ 8" "unat ?b < 2 ^ 8"
    using unsigned_less [of ?r, where 'a = nat] unsigned_less [of ?g, where 'a = nat] unsigned_less [of ?b, where 'a = nat] by simp_all
  have wide: "unat (ucast v :: u32) = unat v" for v :: u8
    by (rule unat_ucast32_8)
  let ?sum = "77 * ucast ?r + 150 * ucast ?g + 29 * ucast ?b :: u32"
  have sum: "unat ?sum = 77 * unat ?r + 150 * unat ?g + 29 * unat ?b"
    using small by (simp add: unat_word_ariths wide)
  have "unat (drop_bit 8 ?sum) = unat ?sum div 256" by (simp add: drop_bit_eq_div unat_div)
  moreover have "unat ?sum div 256 < 256" using small unfolding sum by simp
  moreover have "unat (ucast v :: u8) = unat v mod 256" for v :: u32
    by (simp add: unsigned_ucast_eq take_bit_eq_mod)
  ultimately show ?thesis by (simp add: rgba_to_luma_u8_def Let_def sum)
qed

lemma luma_at_bound: "luma_at m base stride p < 256"
proof -
  have "luma_at m base stride p = unat (rgba_to_luma_u8 m (base + of_nat (snd p * stride + 4 * fst p)))"
    by (simp only: luma_at_def luma_exact Let_def)
  then show ?thesis using unsigned_less [of "rgba_to_luma_u8 m (base + of_nat (snd p * stride + 4 * fst p))", where 'a = nat] by simp
qed

definition luma_pixel :: "u64 \<Rightarrow> u64 \<Rightarrow> nat \<Rightarrow> u64 \<Rightarrow> nat \<times> nat \<Rightarrow> device_memory \<Rightarrow> (u64 \<times> u8) list" where
  "luma_pixel rgba luma width stride p m =
     [(luma + of_nat (snd p * width + fst p), of_nat (luma_average m rgba (unat stride) p))]"

lemma half_i32:
  assumes "unat (x :: i32) < 2 ^ 31"
  shows "word_of_int (sint x sdiv 2) = (of_nat (unat x div 2) :: i32)"
  using sdiv_of_small [OF assms, of 2] by simp


lemma luma_at_word:
  "unat (rgba_to_luma_u8 m (base + of_nat y * stride + of_nat x * 4)) = luma_at m base (unat stride) (x, y)"
  by (simp add: luma_exact luma_at_def Let_def algebra_simps)

lemma average_word:
  fixes a b c d :: u8
  shows "ucast ((ucast a + ucast b + ucast c + ucast d :: u32) div 4) = (of_nat ((unat a + unat b + unat c + unat d) div 4) :: u8)"
proof -
  have small: "unat a < 2 ^ 8" "unat b < 2 ^ 8" "unat c < 2 ^ 8" "unat d < 2 ^ 8"
    using unsigned_less [where 'a = nat] by (metis len_bit0 len_num1 numeral_Bit0_eq_double mult_2 one_add_one)+
  have "unat (ucast a + ucast b + ucast c + ucast d :: u32) = unat a + unat b + unat c + unat d"
    using small by (simp add: unat_word_ariths unat_ucast32_8)
  then have "unat ((ucast a + ucast b + ucast c + ucast d :: u32) div 4) = (unat a + unat b + unat c + unat d) div 4"
    by (simp add: unat_div)
  then have "(ucast a + ucast b + ucast c + ucast d :: u32) div 4 = of_nat ((unat a + unat b + unat c + unat d) div 4)"
    by (metis of_nat_unat ucast_id)
  then show ?thesis by (simp only: ucast_of_nat_low)
qed

lemma scast_nat: "unat (x :: u32) < 2 ^ 31 \<Longrightarrow> scast x = (of_nat (unat x) :: u64)"
  by (simp only: scast_eq sint_small32 of_int_of_nat_eq)

lemma doubled:
  assumes "unat (x :: i32) < unat n div 2" "unat (n :: i32) < 2 ^ 31"
  shows "2 * unat x + 1 < unat n" "unat (x * 2) = 2 * unat x" "unat (x * 2 + 1) = 2 * unat x + 1"
proof -
  show le: "2 * unat x + 1 < unat n" using assms(1) by presburger
  show e: "unat (x * 2) = 2 * unat x" using le assms(2) by (simp add: unat_word_ariths)
  show "unat (x * 2 + 1) = 2 * unat x + 1" using le assms(2) by (subst unat_word_ariths) (simp add: e)
qed

lemma luma_kernel_pixel:
  assumes t: "fst (thread_point t) < 2 ^ 31" "snd (thread_point t) < 2 ^ 31"
    and w: "unat width < 2 ^ 31" and h: "unat height < 2 ^ 31"
  shows "rgba_to_luma_downscale2_kernel rgba luma width height stride t m =
    (if fst (thread_point t) < unat width div 2 \<and> snd (thread_point t) < unat height div 2
     then luma_pixel rgba luma (unat width div 2) stride (thread_point t) m else [])"
proof -
  define x y where "x = global_x 16 t" and "y = global_y 16 t"
  have p: "thread_point t = (unat x, unat y)" and x: "unat x < 2 ^ 31" and y: "unat y < 2 ^ 31"
    using t by (simp_all add: thread_point_def x_def y_def)
  define ow oh where "ow = (of_nat (unat width div 2) :: i32)" and "oh = (of_nat (unat height div 2) :: i32)"
  have u: "unat ow = unat width div 2" "unat oh = unat height div 2"
    using w h by (simp_all add: ow_def oh_def unat_of_nat take_bit_eq_mod del: of_nat_div)
  then have small: "unat ow < 2 ^ 31" "unat oh < 2 ^ 31" using w h by linarith+
  have halves: "word_of_int (sint width sdiv 2) = ow" "word_of_int (sint height sdiv 2) = oh"
    using half_i32 [OF w] half_i32 [OF h] by (simp_all only: ow_def oh_def)
  have guard: "sint x \<ge> sint ow \<or> sint y \<ge> sint oh \<longleftrightarrow> \<not> (unat x < unat width div 2 \<and> unat y < unat height div 2)"
    using sint_small32 [OF x] sint_small32 [OF y] sint_small32 [OF small(1)] sint_small32 [OF small(2)]
    by (simp only: of_nat_le_iff not_less de_Morgan_conj u)
  show ?thesis
  proof (cases "unat x < unat width div 2 \<and> unat y < unat height div 2")
    case False
    then show ?thesis
      by (simp only: rgba_to_luma_downscale2_kernel_def Let_def x_def [symmetric] y_def [symmetric] kGrayBlockX_def
        kGrayBlockY_def halves guard p fst_conv snd_conv if_False not_False_eq_True if_True)
  next
    case True
    note dx = doubled [OF conjunct1 [OF True] w] and dy = doubled [OF conjunct2 [OF True] h]
    have s31: "unat (x * 2) < 2 ^ 31" "unat (x * 2 + 1) < 2 ^ 31" "unat (y * 2) < 2 ^ 31" "unat (y * 2 + 1) < 2 ^ 31"
      using dx dy w h by linarith+
    have inside: "\<not> (sint (x * 2 + 1) \<ge> sint width \<or> sint (y * 2 + 1) \<ge> sint height)"
      using dx dy by (simp only: sint_small32 [OF s31(2)] sint_small32 [OF s31(4)] sint_small32 [OF w] sint_small32 [OF h]
        of_nat_le_iff not_le de_Morgan_disj)
    note casts = scast_nat [OF s31(1)] scast_nat [OF s31(2)] scast_nat [OF s31(3)] scast_nat [OF s31(4)]
      scast_nat [OF x] scast_nat [OF y] scast_nat [OF small(1)]
    have four: "ucast kDefaultChannels = (4 :: u64)" by (simp add: kDefaultChannels_def)
    show ?thesis
      unfolding rgba_to_luma_downscale2_kernel_def Let_def x_def [symmetric] y_def [symmetric] kGrayBlockX_def
        kGrayBlockY_def halves guard p fst_conv snd_conv casts four average_word luma_at_word dx(2,3) dy(2,3)
      using True inside
      by (simp add: luma_pixel_def luma_average_def luma_at_word u)
  qed
qed


lemma plane_index:
  fixes w h :: nat
  shows "x < w \<Longrightarrow> y < h \<Longrightarrow> y * w + x < w * h" "i < w * h \<Longrightarrow> i mod w < w \<and> i div w < h"
proof -
  show "y * w + x < w * h" if "x < w" "y < h"
  proof -
    have "y * w + x < Suc y * w" using that by simp
    also have "\<dots> \<le> h * w" using that by (intro mult_le_mono1) simp
    finally show ?thesis by (simp add: mult.commute)
  qed
  show "i mod w < w \<and> i div w < h" if "i < w * h"
    using that by (cases "w = 0") (simp_all add: less_mult_imp_div_less mult.commute)
qed

lemma luma_at_cong:
  assumes "\<And>k. k < 3 \<Longrightarrow> n (base + of_nat (snd p * stride + 4 * fst p + k)) = m (base + of_nat (snd p * stride + 4 * fst p + k))"
  shows "luma_at n base stride p = luma_at m base stride p"
proof -
  let ?q = "base + of_nat (snd p * stride + 4 * fst p)"
  have "n (?q + of_nat k) = m (?q + of_nat k)" if "k < 3" for k
    using assms [OF that] by (simp only: of_nat_add add.assoc)
  from this [of 0] this [of 1] this [of 2] have "n ?q = m ?q" "n (?q + 1) = m (?q + 1)" "n (?q + 2) = m (?q + 2)"
    by (simp_all del: of_nat_add of_nat_mult)
  then show ?thesis by (simp only: luma_at_def Let_def)
qed

text \<open>The bytes of a picture: all rows but the last in full, the last without its padding.\<close>

definition picture_bytes :: "nat \<Rightarrow> nat \<Rightarrow> nat \<Rightarrow> nat" where
  "picture_bytes stride width height = (height - 1) * stride + 4 * width"

lemma row_byte_in_picture:
  assumes "fst p < w" "snd p < h" "k < 4"
  shows "snd p * stride + 4 * fst p + k < picture_bytes stride w h"
proof -
  have "4 * fst p + k < 4 * w" using assms by linarith
  moreover have "snd p * stride \<le> (h - 1) * stride" using assms(2) by (intro mult_le_mono1) simp
  ultimately show ?thesis unfolding picture_bytes_def by linarith
qed

lemma luma_average_cong:
  assumes same: "\<And>i. i < picture_bytes stride w h \<Longrightarrow> n (base + of_nat i) = m (base + of_nat i)"
    and p: "fst p < w div 2" "snd p < h div 2"
  shows "luma_average n base stride p = luma_average m base stride p"
proof -
  have one: "luma_at n base stride q = luma_at m base stride q" if "fst q < w" "snd q < h" for q
  proof (rule luma_at_cong)
    fix k :: nat
    assume "k < 3"
    then have "snd q * stride + 4 * fst q + k < picture_bytes stride w h"
      using that by (intro row_byte_in_picture) simp_all
    then show "n (base + of_nat (snd q * stride + 4 * fst q + k)) = m (base + of_nat (snd q * stride + 4 * fst q + k))"
      by (rule same)
  qed
  have b: "2 * fst p + 1 < w" "2 * snd p + 1 < h" using p by presburger+
  then show ?thesis by (simp add: luma_average_def one)
qed

lemma luma_average_bound: "luma_average m base stride p < 256"
proof -
  let ?l = "luma_at m base stride"
  have "?l (2 * fst p, 2 * snd p) \<le> 255" "?l (2 * fst p + 1, 2 * snd p) \<le> 255"
    "?l (2 * fst p, 2 * snd p + 1) \<le> 255" "?l (2 * fst p + 1, 2 * snd p + 1) \<le> 255"
    using luma_at_bound [of m base stride] by (simp_all add: less_Suc_eq_le [symmetric])
  then have "?l (2 * fst p, 2 * snd p) + ?l (2 * fst p + 1, 2 * snd p) + ?l (2 * fst p, 2 * snd p + 1)
      + ?l (2 * fst p + 1, 2 * snd p + 1) < 256 * 4" by linarith
  then show ?thesis unfolding luma_average_def by (rule less_mult_imp_div_less)
qed

lemma luma_plane:
  assumes fair: "fair dv"
    and launched: "launch_rgba_to_luma_downscale2_kernel dv rgba luma width height stride m = (cudaSuccess, m')"
    and range: "unat luma + (unat width div 2) * (unat height div 2) \<le> 2 ^ 64"
    and apart: "\<And>i j. i < picture_bytes (unat stride) (unat width) (unat height) \<Longrightarrow> j < (unat width div 2) * (unat height div 2) \<Longrightarrow>
        rgba + of_nat i \<noteq> luma + of_nat j"
  shows "i < (unat width div 2) * (unat height div 2) \<Longrightarrow>
      unat (m' (luma + of_nat i)) =
      luma_average m rgba (unat stride) (i mod (unat width div 2), i div (unat width div 2))"
    and "(\<And>j. j < (unat width div 2) * (unat height div 2) \<Longrightarrow> a \<noteq> luma + of_nat j) \<Longrightarrow> m' a = m a"
proof -
  let ?w = "unat width div 2" and ?h = "unat height div 2"
  define ow oh where "ow = (of_nat ?w :: u32)" and "oh = (of_nat ?h :: u32)"
  have pos: "0 < sint width" "0 < sint height"
    using launched by (auto simp: launch_rgba_to_luma_downscale2_kernel_def split: if_splits)
  then have w31: "unat width < 2 ^ 31" and h31: "unat height < 2 ^ 31" by (blast dest: positive_i32)+
  have u: "unat ow = ?w" "unat oh = ?h"
    using w31 h31 by (simp_all add: ow_def oh_def unat_of_nat take_bit_eq_mod del: of_nat_div)
  have halves: "word_of_int (sint width sdiv 2) = ow" "word_of_int (sint height sdiv 2) = oh"
    using half_i32 [OF w31] half_i32 [OF h31] by (simp_all only: ow_def oh_def)
  have "0 < sint ow" "0 < sint oh"
    and l: "launch dv (rgba_to_luma_downscale2_kernel rgba luma width height stride)
        (blocks_for ow 16, blocks_for oh 16) (16, 16) m = (cudaSuccess, m')"
    using launched by (auto simp: launch_rgba_to_luma_downscale2_kernel_def Let_def halves kGrayBlockX_def kGrayBlockY_def
      split: if_splits)
  then have w: "0 < unat ow" "unat ow < 2 ^ 31" and h: "0 < unat oh" "unat oh < 2 ^ 31" by (blast dest: positive_i32)+
  define P where "P = (\<Union>p \<in> {..<unat ow} \<times> {..<unat oh}. set (luma_pixel rgba luma ?w stride p m))"
  have P: "(a, v) \<in> P \<longleftrightarrow> (\<exists>i < ?w * ?h. a = luma + of_nat i \<and>
      v = of_nat (luma_average m rgba (unat stride) (i mod ?w, i div ?w)))" for a v
  proof
    assume "(a, v) \<in> P"
    then obtain x y where "x < ?w" "y < ?h" "a = luma + of_nat (y * ?w + x)"
        "v = of_nat (luma_average m rgba (unat stride) (x, y))"
      by (auto simp: P_def luma_pixel_def u)
    moreover have "(y * ?w + x) mod ?w = x" "(y * ?w + x) div ?w = y" using row_split [OF \<open>x < ?w\<close>] by simp_all
    ultimately show "\<exists>i < ?w * ?h. a = luma + of_nat i \<and> v = of_nat (luma_average m rgba (unat stride) (i mod ?w, i div ?w))"
      using plane_index(1) by (intro exI [of _ "y * ?w + x"]) simp
  next
    assume "\<exists>i < ?w * ?h. a = luma + of_nat i \<and> v = of_nat (luma_average m rgba (unat stride) (i mod ?w, i div ?w))"
    then obtain i where i: "i < ?w * ?h" "a = luma + of_nat i"
        "v = of_nat (luma_average m rgba (unat stride) (i mod ?w, i div ?w))" by blast
    have "(a, v) \<in> set (luma_pixel rgba luma ?w stride (i mod ?w, i div ?w) m)"
      by (simp only: luma_pixel_def fst_conv snd_conv div_mult_mod_eq i(2,3)) simp
    moreover have "(i mod ?w, i div ?w) \<in> {..<unat ow} \<times> {..<unat oh}" using plane_index(2) [OF i(1)] by (simp add: u)
    ultimately show "(a, v) \<in> P" unfolding P_def by blast
  qed
  have agree: "v = v'" if vs: "(a, v) \<in> P" "(a, v') \<in> P" for a v v'
  proof -
    obtain i where i: "i < ?w * ?h \<and> a = luma + of_nat i \<and> v = of_nat (luma_average m rgba (unat stride) (i mod ?w, i div ?w))"
      using vs(1) unfolding P by blast
    obtain j where j: "j < ?w * ?h \<and> a = luma + of_nat j \<and> v' = of_nat (luma_average m rgba (unat stride) (j mod ?w, j div ?w))"
      using vs(2) unfolding P by blast
    have "i = j" by (rule of_nat_eq_offset [where base = luma]) (use i j range in simp_all)
    with i j show ?thesis by simp
  qed
  have reads: "luma_pixel rgba luma ?w stride p n = luma_pixel rgba luma ?w stride p m"
    if p: "p \<in> {..<unat ow} \<times> {..<unat oh}" and n: "\<forall>a. a \<notin> fst ` P \<longrightarrow> n a = m a" for p n
  proof -
    have "n (rgba + of_nat i) = m (rgba + of_nat i)" if "i < picture_bytes (unat stride) (unat width) (unat height)" for i
    proof -
      have "rgba + of_nat i \<notin> fst ` P" using apart [OF that] P by fastforce
      then show ?thesis using n by blast
    qed
    then show ?thesis
      using luma_average_cong [of "unat stride" "unat width" "unat height" n rgba m p] p by (simp add: luma_pixel_def mem_Times_iff u)
  qed
  have body: "rgba_to_luma_downscale2_kernel rgba luma width height stride t n =
      (if fst (thread_point t) < unat ow \<and> snd (thread_point t) < unat oh
       then luma_pixel rgba luma ?w stride (thread_point t) n else [])"
    if "fst (thread_point t) < 2 ^ 31" "snd (thread_point t) < 2 ^ 31" for t n
    unfolding u by (rule luma_kernel_pixel [OF that w31 h31])
  have hit: "m' a = v" if "(a, v) \<in> P" for a v
    by (rule launch_pixels(1) [where pixel = "luma_pixel rgba luma ?w stride", OF fair w h _ P_def _ _ l])
      (fact body agree reads that)+
  have miss: "m' a = m a" if "a \<notin> fst ` P" for a
    by (rule launch_pixels(2) [where pixel = "luma_pixel rgba luma ?w stride", OF fair w h _ P_def _ _ l])
      (fact body agree reads that)+
  show "unat (m' (luma + of_nat i)) = luma_average m rgba (unat stride) (i mod ?w, i div ?w)" if "i < ?w * ?h"
  proof -
    have "(luma + of_nat i, of_nat (luma_average m rgba (unat stride) (i mod ?w, i div ?w))) \<in> P"
      unfolding P using that by blast
    from hit [OF this] show ?thesis using luma_average_bound by (simp add: unat_of_nat)
  qed
  show "m' a = m a" if "\<And>j. j < ?w * ?h \<Longrightarrow> a \<noteq> luma + of_nat j"
  proof (rule miss)
    show "a \<notin> fst ` P" using that P by fastforce
  qed
qed


section \<open>The checksum\<close>

definition weighted_sum :: "device_memory \<Rightarrow> u64 \<Rightarrow> nat \<Rightarrow> u64" where
  "weighted_sum m input n = (\<Sum>i < n. ucast (m (input + of_nat i)) * of_nat (i mod 251 + 1))"

lemma fold_add: "fold (\<lambda>t c. c + f t) ts c = c + sum_list (map f ts)" for f :: "'a \<Rightarrow> u64"
  by (induction ts arbitrary: c) (simp_all add: add.assoc)

lemma checksum_schedule:
  fixes f :: "thread_id \<Rightarrow> u64"
  assumes "fair dv"
  shows "fold (\<lambda>t c. c + f t) (dv_schedule dv ts) c = c + sum_list (map f ts)"
proof -
  have "mset (map f (dv_schedule dv ts)) = mset (map f ts)" using assms by (simp add: fair_def)
  then have "sum_list (map f (dv_schedule dv ts)) = sum_list (map f ts)" by (metis sum_mset_sum_list)
  then show ?thesis by (simp add: fold_add)
qed

lemma sum_words_below: "sum_list (map f (words_below n)) = (\<Sum>i < unat n. f (of_nat i))" for f :: "u32 \<Rightarrow> u64"
  by (simp add: words_below_def comp_def sum_list_sum_nth atLeast0LessThan)

lemma sum_list_map_concat: "sum_list (map f (concat xss)) = (\<Sum>xs \<leftarrow> xss. sum_list (map f xs))" for f :: "'a \<Rightarrow> u64"
  by (induction xss) simp_all

lemma sum_linear_grid:
  "sum_list (map f (grid_threads (blocks, 1) (256, 1))) =
    (\<Sum>i < unat blocks. \<Sum>s < 256. f ((of_nat i, 0), (of_nat s, 0)))" for f :: "thread_id \<Rightarrow> u64"
proof -
  have one: "words_below 1 = [0]" by (simp add: words_below_def)
  have "sum_list (map f (grid_threads (blocks, 1) (256, 1))) =
      (\<Sum>i \<leftarrow> words_below blocks. \<Sum>s \<leftarrow> words_below 256. f ((i, 0), (s, 0)))"
    by (simp add: grid_threads_def one sum_list_map_concat comp_def)
  then show ?thesis by (simp add: sum_words_below)
qed

definition covered_elements :: "u64 \<Rightarrow> nat" where
  "covered_elements n = min (unat n) (unat (blocks_for (ucast n) 256) * 256)"

lemma word_mod_small: "unat (of_nat k :: u64) = k \<Longrightarrow> (of_nat k :: u64) mod 251 = of_nat (k mod 251)"
proof -
  assume k: "unat (of_nat k :: u64) = k"
  have "unat ((of_nat k :: u64) mod 251) = k mod 251" by (simp only: unat_mod k) simp
  then show ?thesis by (metis of_nat_unat ucast_id)
qed

lemma covered_index: "i < covered_elements n \<Longrightarrow> unat (of_nat i :: u64) = i"
proof -
  assume "i < covered_elements n"
  then have "i < unat n" by (simp add: covered_elements_def)
  then show ?thesis using unat_bound64 [of n] by (simp add: unat_of_nat)
qed

lemma nested_sum: "(\<Sum>i < b. \<Sum>s < 256. g (s + i * 256)) = sum g {..<b * 256}" for g :: "nat \<Rightarrow> u64"
proof -
  have "(\<Sum>s < 256. g (s + i * 256)) = sum g {i * 256..<i * 256 + 256}" for i
    using sum.shift_bounds_nat_ivl [of g 0 "i * 256" 256] by (simp add: atLeast0LessThan add.commute)
  then show ?thesis by (simp only: sum.nat_group)
qed

lemma index_of_thread:
  assumes "i < unat (b :: u32)" "s < 256"
  shows "element_index 256 ((of_nat i, 0), (of_nat s, 0)) = of_nat (s + i * 256)"
    "unat (of_nat (s + i * 256) :: u64) = s + i * 256"
proof -
  have b: "unat b < 2 ^ 32" by (rule unat_bound32)
  show "element_index 256 ((of_nat i, 0), (of_nat s, 0)) = of_nat (s + i * 256)"
    using assms b by (simp add: element_index_def unsigned_of_nat take_bit_nat_eq_self del: of_nat_add)
      (simp add: take_bit_nat_eq_self)
  show "unat (of_nat (s + i * 256) :: u64) = s + i * 256"
    using assms b by (simp add: unat_of_nat del: of_nat_add of_nat_mult)
qed

text \<open>One thread per element, as far as the grid reaches.\<close>

lemma grid_sum:
  fixes g :: "u64 \<Rightarrow> u64" and n :: u64
  assumes "fair dv"
  shows "fold (\<lambda>t c. c + (if element_index 256 t \<ge> n then 0 else g (element_index 256 t)))
      (dv_schedule dv (grid_threads (blocks_for (ucast n) 256, 1) (256, 1))) c =
    c + (\<Sum>i < covered_elements n. g (of_nat i))"
proof -
  let ?g = "\<lambda>k. if k < unat n then g (of_nat k) else 0"
  let ?f = "\<lambda>t. if element_index 256 t \<ge> n then 0 else g (element_index 256 t)"
  let ?b = "unat (blocks_for (ucast n) 256)"
  have g: "?f ((of_nat i, 0), (of_nat s, 0)) = ?g (s + i * 256)" if "i < ?b" and "s < 256" for i s
    using index_of_thread [OF that] by (simp only: not_le [symmetric] word_le_nat_alt) simp
  have "sum_list (map ?f (grid_threads (blocks_for (ucast n) 256, 1) (256, 1))) = (\<Sum>i < ?b. \<Sum>s < 256. ?g (s + i * 256))"
    unfolding sum_linear_grid by (intro sum.cong refl) (simp only: lessThan_iff g)
  also have "\<dots> = sum ?g {..<?b * 256}" by (rule nested_sum)
  also have "\<dots> = sum ?g {..<covered_elements n}"
    by (rule sum.mono_neutral_right) (auto simp: covered_elements_def)
  also have "\<dots> = (\<Sum>i < covered_elements n. g (of_nat i))"
    by (intro sum.cong refl) (simp add: covered_elements_def)
  finally show ?thesis unfolding checksum_schedule [OF assms] by simp
qed

lemma grid_indices:
  "element_index 256 ` set (grid_threads (b, 1) (256, 1)) = of_nat ` {..<unat b * 256}"
proof (intro equalityI subsetI)
  fix k
  assume "k \<in> element_index 256 ` set (grid_threads (b, 1) (256, 1))"
  then obtain i j s t where k: "k = element_index 256 ((i, j), (s, t))" "i < b" "s < 256" by (auto simp: grid_threads_set)
  then have ist: "unat i < unat b" "unat s < 256" by (simp_all add: word_less_nat_alt)
  have "k = of_nat (unat s + unat i * 256)" using index_of_thread(1) [OF ist] by (simp add: k(1) element_index_def)
  moreover have "unat s + unat i * 256 < unat b * 256" using ist by simp
  ultimately show "k \<in> of_nat ` {..<unat b * 256}" by blast
next
  fix k :: u64
  assume "k \<in> of_nat ` {..<unat b * 256}"
  then obtain n where n: "k = of_nat n" "n < unat b * 256" by blast
  have d: "n div 256 < unat b" "n mod 256 < 256" using n(2) by (simp_all add: less_mult_imp_div_less)
  let ?t = "((of_nat (n div 256), 0), (of_nat (n mod 256), 0)) :: thread_id"
  have "of_nat (n div 256) < b"
    using d(1) unat_bound32 [of b] by (simp add: word_less_nat_alt unat_of_nat del: of_nat_div)
  then have "?t \<in> set (grid_threads (b, 1) (256, 1))"
    by (simp add: grid_threads_set word_less_nat_alt unat_of_nat del: of_nat_div of_nat_mod)
  moreover have "element_index 256 ?t = k" unfolding index_of_thread(1) [OF d] n(1) by (simp only: mod_div_mult_eq)
  ultimately show "k \<in> element_index 256 ` set (grid_threads (b, 1) (256, 1))" by blast
qed

lemma checksum_fold:
  assumes "fair dv"
  shows "fold (checksum_u8_kernel m input n) (dv_schedule dv (grid_threads (blocks_for (ucast n) 256, 1) (256, 1))) c =
    c + weighted_sum m input (covered_elements n)"
proof -
  have f: "checksum_u8_kernel m input n = (\<lambda>t c. c + (if element_index 256 t \<ge> n then 0
      else ucast (m (input + element_index 256 t)) * (element_index 256 t mod 251 + 1)))"
    by (intro ext) (simp add: checksum_u8_kernel_def Let_def kChecksumBlockSize_def)
  have "(\<Sum>i < covered_elements n. ucast (m (input + of_nat i)) * ((of_nat i :: u64) mod 251 + 1)) =
      weighted_sum m input (covered_elements n)"
    unfolding weighted_sum_def by (intro sum.cong refl) (simp add: word_mod_small covered_index add.commute)
  then show ?thesis
    unfolding f using grid_sum [OF assms, of n "\<lambda>k. ucast (m (input + k)) * (k mod 251 + 1)" c] by simp
qed


lemma fold_select:
  assumes op: "semilattice_set op" and assoc: "\<And>a b c. op (op a b) c = op a (op b c)"
  shows "fold (\<lambda>t c. if skip t then c else op c (g t)) ts c = semilattice_set.F op (insert c (g ` {t \<in> set ts. \<not> skip t}))"
proof (induction ts arbitrary: c)
  case Nil
  then show ?case by (simp add: semilattice_set.singleton [OF op])
next
  case (Cons t ts)
  let ?S = "\<lambda>ts. g ` {t \<in> set ts. \<not> skip t}" and ?F = "semilattice_set.F op"
  note insert_op = semilattice_set.insert [OF op] semilattice_set.singleton [OF op]
  show ?case
  proof (cases "skip t")
    case True
    then have "?S (t # ts) = ?S ts" by auto
    then show ?thesis using True Cons.IH by simp
  next
    case False
    then have "?S (t # ts) = insert (g t) (?S ts)" by auto
    moreover have "?F (insert (op c a) A) = ?F (insert c (insert a A))" if "finite A" for a A
      using that by (cases "A = {}") (simp_all add: assoc insert_op)
    ultimately show ?thesis using False Cons.IH by simp
  qed
qed


lemma reached_elements:
  assumes "fair dv"
  shows "{k \<in> element_index 256 ` set (dv_schedule dv (grid_threads (blocks_for (ucast n) 256, 1) (256, 1))). k < n} =
    of_nat ` {..<covered_elements n}"
  unfolding fair_set [OF assms] grid_indices
proof (intro equalityI subsetI)
  fix k
  assume "k \<in> {k \<in> of_nat ` {..<unat (blocks_for (ucast n) 256) * 256}. k < n}"
  then obtain i where i: "k = of_nat i" "i < unat (blocks_for (ucast n) 256) * 256" "k < n" by blast
  have "unat (blocks_for (ucast n) 256) < 2 ^ 32" by (rule unat_bound32)
  then have "unat k = i" using i(1,2) by (simp add: unat_of_nat)
  then have "i < covered_elements n" using i by (simp add: covered_elements_def word_less_nat_alt)
  then show "k \<in> of_nat ` {..<covered_elements n}" using i(1) by blast
next
  fix k :: u64
  assume "k \<in> of_nat ` {..<covered_elements n}"
  then obtain i where i: "k = of_nat i" "i < covered_elements n" by blast
  then have "k < n" using covered_index [OF i(2)] by (simp add: word_less_nat_alt covered_elements_def)
  then show "k \<in> {k \<in> of_nat ` {..<unat (blocks_for (ucast n) 256) * 256}. k < n}"
    using i by (auto simp: covered_elements_def)
qed

lemma grid_select:
  assumes fair: "fair dv" and op: "semilattice_set op" and assoc: "\<And>a b c. op (op a b) c = op a (op b c)"
  shows "fold (\<lambda>t c. if element_index 256 t \<ge> n then c else op c (g (element_index 256 t)))
      (dv_schedule dv (grid_threads (blocks_for (ucast n) 256, 1) (256, 1))) c =
    semilattice_set.F op (insert c ((\<lambda>i. g (of_nat i)) ` {..<covered_elements n}))"
proof -
  let ?ts = "dv_schedule dv (grid_threads (blocks_for (ucast n) 256, 1) (256, 1))"
  have "(\<lambda>t. g (element_index 256 t)) ` {t \<in> set ?ts. \<not> element_index 256 t \<ge> n} =
      g ` {k \<in> element_index 256 ` set ?ts. k < n}" by (auto simp: not_le)
  also have "\<dots> = (\<lambda>i. g (of_nat i)) ` {..<covered_elements n}"
    unfolding reached_elements [OF fair] by (simp add: image_image)
  finally show ?thesis by (subst fold_select [OF op assoc]) simp_all
qed

lemma stats_fields:
  "is_min (fold (inference_stats_accumulate_kernel F floats input n) ts st) =
     fold (\<lambda>t c. if element_index 256 t \<ge> n then c else min c (fl_bits F (floats (input + 4 * element_index 256 t)))) ts (is_min st)"
  "is_max (fold (inference_stats_accumulate_kernel F floats input n) ts st) =
     fold (\<lambda>t c. if element_index 256 t \<ge> n then c else max c (fl_bits F (floats (input + 4 * element_index 256 t)))) ts (is_max st)"
  "is_checksum (fold (inference_stats_accumulate_kernel F floats input n) ts st) =
     fold (\<lambda>t c. c + (if element_index 256 t \<ge> n then 0
       else scast (fl_to_int F (fl_mul F (floats (input + 4 * element_index 256 t)) (fl_of_nat F 65535)))
         * (element_index 256 t mod 251 + 1))) ts (is_checksum st)"
  by (induction ts arbitrary: st)
    (simp_all add: inference_stats_accumulate_kernel_def Let_def kStatsBlockSize_def)

definition quantized_value :: "'f float_ops \<Rightarrow> 'f \<Rightarrow> u64" where
  "quantized_value F value = scast (fl_to_int F (fl_mul F value (fl_of_nat F 65535)))"

lemma semilattice_min: "semilattice_set (min :: u32 \<Rightarrow> _)" and semilattice_max: "semilattice_set (max :: u32 \<Rightarrow> _)"
  by unfold_locales

lemma stats_exact:
  assumes fair: "fair dv"
    and launched: "launch_inference_stats_kernel dv F copied floats input n device_stats st = (cudaSuccess, st')"
  shows "is_min st' = Min (insert (fl_bits F (fl_infinity F))
      ((\<lambda>i. fl_bits F (floats (input + 4 * of_nat i))) ` {..<covered_elements n}))"
    and "is_max st' = Max (insert (fl_bits F (fl_of_nat F 0))
      ((\<lambda>i. fl_bits F (floats (input + 4 * of_nat i))) ` {..<covered_elements n}))"
    and "is_checksum st' =
      (\<Sum>i < covered_elements n. quantized_value F (floats (input + 4 * of_nat i)) * of_nat (i mod 251 + 1))"
proof -
  define acc where "acc = fold (inference_stats_accumulate_kernel F floats input n)
    (dv_schedule dv (grid_threads (blocks_for (ucast n) 256, 1) (256, 1)))
    \<lparr>is_mean = fl_of_nat F 0, is_min = fl_bits F (fl_infinity F), is_max = fl_bits F (fl_of_nat F 0), is_checksum = 0\<rparr>"
  have "n \<noteq> 0" and "st' = inference_stats_finalize_kernel F n acc"
    using launched by (auto simp: launch_inference_stats_kernel_def Let_def kStatsBlockSize_def acc_def split: if_splits)
  then have st': "is_min st' = is_min acc" "is_max st' = is_max acc" "is_checksum st' = is_checksum acc"
    by (simp_all add: inference_stats_finalize_kernel_def)
  show "is_min st' = Min (insert (fl_bits F (fl_infinity F))
      ((\<lambda>i. fl_bits F (floats (input + 4 * of_nat i))) ` {..<covered_elements n}))"
    unfolding st' acc_def stats_fields
      grid_select [OF fair semilattice_min min.assoc, where g = "\<lambda>k. fl_bits F (floats (input + 4 * k))"]
    by (simp add: Min_def)
  show "is_max st' = Max (insert (fl_bits F (fl_of_nat F 0))
      ((\<lambda>i. fl_bits F (floats (input + 4 * of_nat i))) ` {..<covered_elements n}))"
    unfolding st' acc_def stats_fields
      grid_select [OF fair semilattice_max max.assoc, where g = "\<lambda>k. fl_bits F (floats (input + 4 * k))"]
    by (simp add: Max_def)
  show "is_checksum st' =
      (\<Sum>i < covered_elements n. quantized_value F (floats (input + 4 * of_nat i)) * of_nat (i mod 251 + 1))"
    unfolding st' acc_def stats_fields quantized_value_def
      grid_sum [OF fair, where g = "\<lambda>k. scast (fl_to_int F (fl_mul F (floats (input + 4 * k)) (fl_of_nat F 65535))) * (k mod 251 + 1)"]
    by (simp add: word_mod_small covered_index add.commute)
qed


section \<open>The normalised grey plane\<close>

definition grey_value :: "'f float_ops \<Rightarrow> nat \<Rightarrow> 'f" where
  "grey_value F luma = fl_div F (fl_of_nat F luma) (fl_of_nat F 255)"

definition grey_pixel ::
    "'f float_ops \<Rightarrow> device_memory \<Rightarrow> u64 \<Rightarrow> u64 \<Rightarrow> nat \<Rightarrow> u64 \<Rightarrow> nat \<times> nat \<Rightarrow> (u64 \<Rightarrow> 'f) \<Rightarrow> (u64 \<times> 'f) list" where
  "grey_pixel F m rgba grey width stride p floats =
     [(grey + of_nat (4 * (snd p * width + fst p)), grey_value F (luma_at m rgba (unat stride) p))]"

lemma grey_kernel_pixel:
  assumes t: "fst (thread_point t) < 2 ^ 31" "snd (thread_point t) < 2 ^ 31"
    and w: "unat width < 2 ^ 31" and h: "unat height < 2 ^ 31"
  shows "rgba_to_normalized_gray_kernel F m rgba grey width height stride t floats =
    (if fst (thread_point t) < unat width \<and> snd (thread_point t) < unat height
     then grey_pixel F m rgba grey (unat width) stride (thread_point t) floats else [])"
proof -
  define x y where "x = global_x 16 t" and "y = global_y 16 t"
  have p: "thread_point t = (unat x, unat y)" and x: "unat x < 2 ^ 31" and y: "unat y < 2 ^ 31"
    using t by (simp_all add: thread_point_def x_def y_def)
  have guard: "sint x \<ge> sint width \<or> sint y \<ge> sint height \<longleftrightarrow> \<not> (unat x < unat width \<and> unat y < unat height)"
    using sint_small32 [OF x] sint_small32 [OF y] sint_small32 [OF w] sint_small32 [OF h]
    by (simp only: of_nat_le_iff not_less de_Morgan_conj)
  have four: "ucast kDefaultChannels = (4 :: u64)" by (simp add: kDefaultChannels_def)
  show ?thesis
    unfolding rgba_to_normalized_gray_kernel_def Let_def x_def [symmetric] y_def [symmetric] kGrayBlockX_def kGrayBlockY_def
      guard p fst_conv snd_conv scast_nat [OF x] scast_nat [OF y] scast_nat [OF w] four luma_at_word
    by (simp add: grey_pixel_def grey_value_def)
qed

lemma grey_plane:
  assumes fair: "fair dv"
    and launched: "launch_rgba_to_normalized_gray_kernel dv F m rgba grey width height stride floats = (cudaSuccess, floats')"
    and range: "unat grey + 4 * (unat width * unat height) \<le> 2 ^ 64"
  shows "i < unat width * unat height \<Longrightarrow>
      floats' (grey + of_nat (4 * i)) = grey_value F (luma_at m rgba (unat stride) (i mod unat width, i div unat width))"
    and "(\<And>j. j < unat width * unat height \<Longrightarrow> a \<noteq> grey + of_nat (4 * j)) \<Longrightarrow> floats' a = floats a"
proof -
  let ?w = "unat width" and ?h = "unat height"
  have "0 < sint width" "0 < sint height"
    and l: "launch dv (rgba_to_normalized_gray_kernel F m rgba grey width height stride)
        (blocks_for width 16, blocks_for height 16) (16, 16) floats = (cudaSuccess, floats')"
    using launched by (auto simp: launch_rgba_to_normalized_gray_kernel_def kGrayBlockX_def kGrayBlockY_def split: if_splits)
  then have w: "0 < ?w" "?w < 2 ^ 31" and h: "0 < ?h" "?h < 2 ^ 31" by (blast dest: positive_i32)+
  let ?v = "\<lambda>i. grey_value F (luma_at m rgba (unat stride) (i mod ?w, i div ?w))"
  define P where "P = (\<Union>p \<in> {..<?w} \<times> {..<?h}. set (grey_pixel F m rgba grey ?w stride p floats))"
  have P: "(a, v) \<in> P \<longleftrightarrow> (\<exists>i < ?w * ?h. a = grey + of_nat (4 * i) \<and> v = ?v i)" for a v
  proof
    assume "(a, v) \<in> P"
    then obtain x y where xy: "x < ?w" "y < ?h" "a = grey + of_nat (4 * (y * ?w + x))"
        "v = grey_value F (luma_at m rgba (unat stride) (x, y))"
      by (auto simp: P_def grey_pixel_def)
    have "(y * ?w + x) mod ?w = x" "(y * ?w + x) div ?w = y" using row_split [OF xy(1)] by simp_all
    then show "\<exists>i < ?w * ?h. a = grey + of_nat (4 * i) \<and> v = ?v i"
      using xy plane_index(1) by (intro exI [of _ "y * ?w + x"]) simp
  next
    assume "\<exists>i < ?w * ?h. a = grey + of_nat (4 * i) \<and> v = ?v i"
    then obtain i where i: "i < ?w * ?h" "a = grey + of_nat (4 * i)" "v = ?v i" by blast
    have "(a, v) \<in> set (grey_pixel F m rgba grey ?w stride (i mod ?w, i div ?w) floats)"
      by (simp only: grey_pixel_def fst_conv snd_conv div_mult_mod_eq i(2,3)) simp
    moreover have "(i mod ?w, i div ?w) \<in> {..<?w} \<times> {..<?h}" using plane_index(2) [OF i(1)] by simp
    ultimately show "(a, v) \<in> P" unfolding P_def by blast
  qed
  have agree: "v = u" if vs: "(a, v) \<in> P" "(a, u) \<in> P" for a v u
  proof -
    obtain i where i: "i < ?w * ?h" "a = grey + of_nat (4 * i)" "v = ?v i" using vs(1) unfolding P by blast
    obtain j where j: "j < ?w * ?h" "a = grey + of_nat (4 * j)" "u = ?v j" using vs(2) unfolding P by blast
    have "4 * i = 4 * j"
      by (rule of_nat_eq_offset [where base = grey]) (use i j range in \<open>simp_all del: of_nat_mult\<close>)
    with i(3) j(3) show ?thesis by simp
  qed
  have reads: "grey_pixel F m rgba grey ?w stride p n = grey_pixel F m rgba grey ?w stride p floats" for p n
    by (simp add: grey_pixel_def)
  have body: "rgba_to_normalized_gray_kernel F m rgba grey width height stride t n =
      (if fst (thread_point t) < ?w \<and> snd (thread_point t) < ?h
       then grey_pixel F m rgba grey ?w stride (thread_point t) n else [])"
    if "fst (thread_point t) < 2 ^ 31" "snd (thread_point t) < 2 ^ 31" for t n
    by (rule grey_kernel_pixel [OF that w(2) h(2)])
  have hit: "floats' a = v" if "(a, v) \<in> P" for a v
    by (rule launch_pixels(1) [where pixel = "grey_pixel F m rgba grey ?w stride", OF fair w h _ P_def _ _ l])
      (fact body agree that | rule reads)+
  have miss: "floats' a = floats a" if "a \<notin> fst ` P" for a
    by (rule launch_pixels(2) [where pixel = "grey_pixel F m rgba grey ?w stride", OF fair w h _ P_def _ _ l])
      (fact body agree that | rule reads)+
  show "i < ?w * ?h \<Longrightarrow> floats' (grey + of_nat (4 * i)) = ?v i" by (rule hit) (unfold P, blast)
  show "floats' a = floats a" if "\<And>j. j < ?w * ?h \<Longrightarrow> a \<noteq> grey + of_nat (4 * j)"
  proof (rule miss)
    show "a \<notin> fst ` P" using that P by fastforce
  qed
qed

section \<open>The image's checksum\<close>

lemma covered_all: "unat n \<le> 2 ^ 32 - 256 \<Longrightarrow> covered_elements n = unat n"
proof -
  assume n: "unat n \<le> 2 ^ 32 - 256"
  have u: "unat (ucast n :: u32) = unat n"
    using n by (simp add: unsigned_ucast_eq take_bit_nat_eq_self)
  have "(ucast n :: u32) + 256 - 1 = 255 + ucast n" by simp
  moreover have "unat (255 + (ucast n :: u32)) = unat n + 255"
    using n u unat_word_ariths(1) [of 255 "ucast n :: u32"] by simp
  ultimately have "unat ((ucast n :: u32) + 256 - 1) = unat n + 255" by (simp only:)
  then have "unat (blocks_for (ucast n) 256) = (unat n + 255) div 256"
    by (simp add: blocks_for_def unat_div)
  then show ?thesis by (simp add: covered_elements_def)
qed

definition image_checksum :: "device_memory \<Rightarrow> u64 \<Rightarrow> nat \<Rightarrow> nat \<Rightarrow> nat \<Rightarrow> u64" where
  "image_checksum m rgba stride width height =
     (\<Sum>i < (width div 2) * (height div 2).
        of_nat (luma_average m rgba stride (i mod (width div 2), i div (width div 2))) * of_nat (i mod 251 + 1))"

lemma checksum_of_plane:
  assumes fair: "fair dv" "fair dv'"
    and luma: "launch_rgba_to_luma_downscale2_kernel dv rgba luma width height stride m = (cudaSuccess, m')"
    and sums: "launch_checksum_u8_kernel dv' luma n cell m' 0 = (cudaSuccess, result)"
    and n: "unat n = (unat width div 2) * (unat height div 2)" "unat n \<le> 2 ^ 32 - 256"
    and range: "unat luma + unat n \<le> 2 ^ 64"
    and apart: "\<And>i j. i < picture_bytes (unat stride) (unat width) (unat height) \<Longrightarrow> j < unat n \<Longrightarrow> rgba + of_nat i \<noteq> luma + of_nat j"
  shows "result = image_checksum m rgba (unat stride) (unat width) (unat height)"
proof -
  let ?w = "unat width div 2" and ?h = "unat height div 2"
  have "result = weighted_sum m' luma (unat n)"
    using sums checksum_fold [OF fair(2), of m' luma n 0]
    by (auto simp: launch_checksum_u8_kernel_def Let_def kChecksumBlockSize_def covered_all [OF n(2)] split: if_splits)
  moreover have "ucast (m' (luma + of_nat i)) =
      (of_nat (luma_average m rgba (unat stride) (i mod ?w, i div ?w)) :: u64)" if "i < ?w * ?h" for i
    using luma_plane(1) [OF fair(1) luma range [unfolded n(1)] apart [unfolded n(1)] that]
    by (metis of_nat_unat)
  ultimately show ?thesis by (simp add: image_checksum_def weighted_sum_def n(1))
qed


section \<open>Properties\<close>

text \<open>
  The publisher's kernel draws exactly the frame: whatever the order in which the device runs the
  threads, after a successful launch every byte of every pixel has the value of the pattern and no
  byte outside the pixels (the padding of the rows included) has changed.
\<close>

theorem pattern_fills_the_frame:
  assumes "fair dv"
    and "launch_generate_rgba_pattern_kernel dv output width height stride frame m = (cudaSuccess, m')"
    and "4 * unat width \<le> unat stride" "unat output + unat stride * unat height \<le> 2 ^ 64"
  shows "(\<forall>p k. fst p < unat width \<and> snd p < unat height \<and> k < 4 \<longrightarrow>
        m' (output + of_nat (pixel_byte_offset (unat stride) p k)) = pattern_byte frame p k)
    \<and> (\<forall>a. (\<forall>p k. fst p < unat width \<and> snd p < unat height \<and> k < 4 \<longrightarrow>
          a \<noteq> output + of_nat (pixel_byte_offset (unat stride) p k)) \<longrightarrow> m' a = m a)"
proof (intro conjI allI impI)
  fix p and k :: nat
  assume "fst p < unat width \<and> snd p < unat height \<and> k < 4"
  then show "m' (output + of_nat (pixel_byte_offset (unat stride) p k)) = pattern_byte frame p k"
    by (intro pattern_frame(1) [OF assms]) simp_all
next
  fix a
  assume "\<forall>p k. fst p < unat width \<and> snd p < unat height \<and> k < 4 \<longrightarrow>
      a \<noteq> output + of_nat (pixel_byte_offset (unat stride) p k)"
  then show "m' a = m a" by (intro pattern_frame(2) [OF assms]) blast
qed

definition backward_device :: device where
  "backward_device = \<lparr>dv_error = \<lambda>_ _. 0, dv_schedule = rev\<rparr>"

lemma backward_is_fair: "fair backward_device"
  by (simp add: fair_def backward_device_def)

lemma backward_launches: "\<exists>m'. launch backward_device body grid block m = (cudaSuccess, m')"
  by (simp add: launch_def backward_device_def)

theorem pattern_fills_the_frame_witness:
  "\<exists>m'. launch_generate_rgba_pattern_kernel backward_device 0x1000 2 1 12 5 (\<lambda>_. 0) = (cudaSuccess, m')
    \<and> m' 0x1000 = 5 \<and> m' 0x1004 = 6 \<and> m' 0x1008 = 0"
proof -
  obtain m' where l: "launch_generate_rgba_pattern_kernel backward_device 0x1000 2 1 12 5 (\<lambda>_. 0) = (cudaSuccess, m')"
    using backward_launches [of "generate_rgba_pattern_kernel 0x1000 2 1 12 5"
        "(blocks_for 2 kPixelBlockX, blocks_for 1 kPixelBlockY)" "(kPixelBlockX, kPixelBlockY)" "\<lambda>_. 0"]
    by (auto simp: launch_generate_rgba_pattern_kernel_def)
  have f: "\<forall>p k. fst p < 2 \<and> snd p < 1 \<and> k < 4 \<longrightarrow> m' (0x1000 + of_nat (pixel_byte_offset 12 p k)) = pattern_byte 5 p k"
    and u: "\<forall>a. (\<forall>p k. fst p < 2 \<and> snd p < 1 \<and> k < 4 \<longrightarrow> a \<noteq> 0x1000 + of_nat (pixel_byte_offset 12 p k)) \<longrightarrow> m' a = 0"
    using pattern_fills_the_frame [OF backward_is_fair l] by simp_all
  have "m' 0x1000 = 5" "m' 0x1004 = 6"
    using f [rule_format, of "(0, 0)" 0] f [rule_format, of "(1, 0)" 0]
    by (simp_all add: pixel_byte_offset_def pattern_byte_def)
  moreover have "m' 0x1008 = 0"
  proof (rule u [rule_format], rule notI)
    fix p :: "nat \<times> nat" and k
    assume p: "fst p < 2 \<and> snd p < 1 \<and> k < (4 :: nat)" and "(0x1008 :: u64) = 0x1000 + of_nat (pixel_byte_offset 12 p k)"
    then have "(0x1000 :: u64) + of_nat 8 = 0x1000 + of_nat (pixel_byte_offset 12 p k)" by simp
    moreover have "pixel_byte_offset 12 p k < 8" using p unfolding pixel_byte_offset_def by linarith
    ultimately have "8 = pixel_byte_offset 12 p k" using of_nat_eq_offset [of "0x1000" 8 "pixel_byte_offset 12 p k"] by simp
    with \<open>pixel_byte_offset 12 p k < 8\<close> show False by simp
  qed
  ultimately show ?thesis using l by blast
qed


text \<open>Fixed-point numbers with eight binary places stand in for the floats.\<close>

definition fixed_point :: "u32 float_ops" where
  "fixed_point = \<lparr>fl_of_nat = \<lambda>n. of_nat n * 256, fl_div = \<lambda>a b. a * 256 div b, fl_mul = \<lambda>a b. a * b div 256,
     fl_add = (+), fl_bits = id, fl_to_int = \<lambda>a. a div 256, fl_infinity = - 1\<rparr>"


end
