(* ===== verification/Cuda_Runtime.thy ===== *)
theory Cuda_Runtime
  imports Device_Kernels
begin

text \<open>
  The CUDA runtime as the example nodes use it: a log of the calls with their error codes and the
  handle or address each one wrote, the device memory as the kernels see it (bytes, 64 bit words
  and floating-point numbers live in different allocations), and the books of what was created and
  given back.
\<close>

section \<open>Calls\<close>

datatype (plugins only: code) runtime_call =
  CudaSetDevice i32
| CudaStreamCreateWithFlags
| CudaStreamSynchronize u64
| CudaStreamDestroy u64
| CudaMalloc u64
| CudaFree u64
| CudaEventCreate
| CudaEventDestroy u64
| CudaEventRecord u64 u64
| CudaEventElapsedTime u64 u64
| CudaMemsetAsync u64 u64 u64
| CudaMemcpyToHost u64 u64
| CudaMemcpy2DToHostAsync u64 u64 u64 u64 u64
| CopyToDevice u64 u64 u64
| CudaMallocHost u64
| CudaFreeHost u64
| CudaMemcpyToHostAsync u64 u64 u64
| KernelLaunch string

type_synonym runtime_log = "(runtime_call \<times> int \<times> u64) list"

record 'f runtime =
  rt_log :: runtime_log
  rt_memory :: device_memory
  rt_words :: "u64 \<Rightarrow> u64"
  rt_floats :: "u64 \<Rightarrow> 'f"
  rt_stats :: "u64 \<Rightarrow> 'f inference_stats"

text \<open>What the runtime answers may depend on everything that happened before.\<close>

record 'f cuda_env =
  ce_reply :: "runtime_log \<Rightarrow> runtime_call \<Rightarrow> int \<times> u64"
  ce_device :: "runtime_log \<Rightarrow> device"
  ce_floats :: "'f float_ops"

definition rt_call :: "'f cuda_env \<Rightarrow> runtime_call \<Rightarrow> 'f runtime \<Rightarrow> (int \<times> u64) \<times> 'f runtime" where
  "rt_call C c rt = (let r = ce_reply C (rt_log rt) c in (r, rt\<lparr>rt_log := rt_log rt @ [(c, r)]\<rparr>))"

definition rt_exec :: "'f cuda_env \<Rightarrow> runtime_call \<Rightarrow> 'f runtime \<Rightarrow> 'f runtime" where
  "rt_exec C c rt = snd (rt_call C c rt)"

definition rt_note :: "runtime_call \<Rightarrow> int \<Rightarrow> 'f runtime \<Rightarrow> 'f runtime" where
  "rt_note c err rt = rt\<lparr>rt_log := rt_log rt @ [(c, err, 0)]\<rparr>"

text \<open>A call whose failure ends the work: \<open>k\<close> gets what the call wrote.\<close>

definition attempt ::
    "'f cuda_env \<Rightarrow> runtime_call \<Rightarrow> 'f runtime \<Rightarrow> (u64 \<Rightarrow> 'f runtime \<Rightarrow> 'a option \<times> 'f runtime) \<Rightarrow> 'a option \<times> 'f runtime" where
  "attempt C c rt k =
     (case rt_call C c rt of ((err, v), rt') \<Rightarrow> if err \<noteq> cudaSuccess then (None, rt') else k v rt')"

section \<open>Books\<close>

datatype (plugins only: code) resource_kind = StreamResource | EventResource | MemoryResource | HostResource

primrec acquires :: "runtime_call \<Rightarrow> resource_kind option" where
  "acquires (CudaSetDevice d) = None"
| "acquires CudaStreamCreateWithFlags = Some StreamResource"
| "acquires (CudaStreamSynchronize s) = None"
| "acquires (CudaStreamDestroy s) = None"
| "acquires (CudaMalloc n) = Some MemoryResource"
| "acquires (CudaFree p) = None"
| "acquires CudaEventCreate = Some EventResource"
| "acquires (CudaEventDestroy e) = None"
| "acquires (CudaEventRecord e s) = None"
| "acquires (CudaEventElapsedTime a b) = None"
| "acquires (CudaMemsetAsync p n s) = None"
| "acquires (CudaMemcpyToHost p n) = None"
| "acquires (CudaMemcpy2DToHostAsync a b c d e) = None"
| "acquires (CopyToDevice p n s) = None"
| "acquires (CudaMallocHost n) = Some HostResource"
| "acquires (CudaFreeHost p) = None"
| "acquires (CudaMemcpyToHostAsync p n s) = None"
| "acquires (KernelLaunch n) = None"

primrec releases :: "runtime_call \<Rightarrow> (resource_kind \<times> u64) option" where
  "releases (CudaSetDevice d) = None"
| "releases CudaStreamCreateWithFlags = None"
| "releases (CudaStreamSynchronize s) = None"
| "releases (CudaStreamDestroy s) = Some (StreamResource, s)"
| "releases (CudaMalloc n) = None"
| "releases (CudaFree p) = Some (MemoryResource, p)"
| "releases CudaEventCreate = None"
| "releases (CudaEventDestroy e) = Some (EventResource, e)"
| "releases (CudaEventRecord e s) = None"
| "releases (CudaEventElapsedTime a b) = None"
| "releases (CudaMemsetAsync p n s) = None"
| "releases (CudaMemcpyToHost p n) = None"
| "releases (CudaMemcpy2DToHostAsync a b c d e) = None"
| "releases (CopyToDevice p n s) = None"
| "releases (CudaMallocHost n) = None"
| "releases (CudaFreeHost p) = Some (HostResource, p)"
| "releases (CudaMemcpyToHostAsync p n s) = None"
| "releases (KernelLaunch n) = None"

definition handle_set :: "u64 \<Rightarrow> u64 multiset" where
  "handle_set p = (if p = 0 then {#} else {#p#})"

lemma handle_set_simps [simp]: "handle_set 0 = {#}" "p \<noteq> 0 \<Longrightarrow> handle_set p = {#p#}"
  by (simp_all add: handle_set_def)

primrec acquired :: "resource_kind \<Rightarrow> runtime_log \<Rightarrow> u64 multiset" where
  "acquired k [] = {#}"
| "acquired k (e # log) =
     (case e of (c, err, v) \<Rightarrow> if acquires c = Some k \<and> err = cudaSuccess then handle_set v else {#}) + acquired k log"

primrec released :: "resource_kind \<Rightarrow> bool \<Rightarrow> runtime_log \<Rightarrow> u64 multiset" where
  "released k ok [] = {#}"
| "released k ok (e # log) =
     (case e of (c, err, v) \<Rightarrow>
        case releases c of
          None \<Rightarrow> {#}
        | Some (k', p) \<Rightarrow> if k' = k \<and> (err = cudaSuccess) = ok then handle_set p else {#}) + released k ok log"

lemma acquired_append [simp]: "acquired k (log @ log') = acquired k log + acquired k log'"
  by (induction log) (simp_all add: add.assoc)

lemma released_append [simp]: "released k ok (log @ log') = released k ok log + released k ok log'"
  by (induction log) (simp_all add: add.assoc)

text \<open>
  The books: every stream and event was destroyed or is in \<open>s\<close> or \<open>e\<close>; every allocation was given to
  \<^verbatim>\<open>cudaFree\<close> or is in \<open>m\<close>; and nothing in \<open>m\<close> has been freed.
\<close>

definition rt_books :: "runtime_log \<Rightarrow> u64 multiset \<Rightarrow> u64 multiset \<Rightarrow> u64 multiset \<Rightarrow> bool" where
  "rt_books log s e m \<longleftrightarrow>
     acquired StreamResource log = released StreamResource True log + released StreamResource False log + s
   \<and> acquired EventResource log = released EventResource True log + released EventResource False log + e
   \<and> released MemoryResource True log + m \<subseteq># acquired MemoryResource log
   \<and> acquired MemoryResource log \<subseteq># released MemoryResource True log + released MemoryResource False log + m"

lemma rt_books_empty [simp]: "rt_books [] {#} {#} {#}"
  by (simp add: rt_books_def)

lemma rt_books_neutral [simp]:
  "acquires c = None \<Longrightarrow> releases c = None \<Longrightarrow> rt_books (log @ [(c, r)]) s e m \<longleftrightarrow> rt_books log s e m"
  by (simp add: rt_books_def split: prod.split)

lemma rt_books_failed [simp]:
  "acquires c \<noteq> None \<Longrightarrow> releases c = None \<Longrightarrow> err \<noteq> cudaSuccess \<Longrightarrow>
    rt_books (log @ [(c, err, v)]) s e m \<longleftrightarrow> rt_books log s e m"
  by (simp add: rt_books_def)

lemma rt_books_acquired:
  assumes "rt_books log s e m"
  shows "rt_books (log @ [(CudaStreamCreateWithFlags, cudaSuccess, v)]) (s + handle_set v) e m"
    and "rt_books (log @ [(CudaEventCreate, cudaSuccess, v)]) s (e + handle_set v) m"
    and "rt_books (log @ [(CudaMalloc n, cudaSuccess, v)]) s e (m + handle_set v)"
  using assms by (simp_all add: rt_books_def add.assoc [symmetric])

lemma rt_books_destroyed:
  "rt_books log (s + handle_set v) e m \<Longrightarrow> rt_books (log @ [(CudaStreamDestroy v, r)]) s e m"
  "rt_books log s (e + handle_set v) m \<Longrightarrow> rt_books (log @ [(CudaEventDestroy v, r)]) s e m"
  by (auto simp: rt_books_def ac_simps split: prod.split)

lemma rt_books_freed:
  assumes "rt_books log s e (m + handle_set p)"
  shows "rt_books (log @ [(CudaFree p, r)]) s e m"
    and "fst r \<noteq> cudaSuccess \<Longrightarrow> rt_books (log @ [(CudaFree p, r)]) s e (m + handle_set p)"
proof -
  let ?a = "acquired MemoryResource log" and ?ok = "released MemoryResource True log" and ?ko = "released MemoryResource False log"
  have l: "?ok + (m + handle_set p) \<subseteq># ?a" "?a \<subseteq># ?ok + ?ko + (m + handle_set p)" using assms by (simp_all add: rt_books_def)
  have "?ok + m \<subseteq># ?ok + (m + handle_set p)" by (simp add: add.assoc [symmetric])
  then have low: "?ok + m \<subseteq># ?a" using l(1) by (rule subset_mset.trans)
  obtain err v where r: "r = (err, v)" by (cases r)
  show "rt_books (log @ [(CudaFree p, r)]) s e m"
    using assms low by (cases "err = cudaSuccess") (simp_all add: rt_books_def r ac_simps)
  have "?ok + ?ko + (m + handle_set p) \<subseteq># ?ok + ?ko + (m + handle_set p) + handle_set p" by simp
  then have high: "?a \<subseteq># ?ok + ?ko + (m + handle_set p) + handle_set p" using l(2) by (rule subset_mset.trans [rotated])
  show "rt_books (log @ [(CudaFree p, r)]) s e (m + handle_set p)" if "fst r \<noteq> cudaSuccess"
    using assms high that by (simp add: rt_books_def r ac_simps)
qed

lemma rt_call_log: "rt_call C c rt = (r, rt') \<Longrightarrow> rt_log rt' = rt_log rt @ [(c, r)]"
  by (auto simp: rt_call_def Let_def)

lemma rt_exec_log: "rt_log (rt_exec C c rt) = rt_log rt @ [(c, ce_reply C (rt_log rt) c)]"
  by (simp add: rt_exec_def rt_call_def Let_def)

lemma rt_note_log [simp]: "rt_log (rt_note c err rt) = rt_log rt @ [(c, err, 0)]"
  by (simp add: rt_note_def)

lemma rt_call_memory [simp]:
  "rt_memory (snd (rt_call C c rt)) = rt_memory rt" "rt_words (snd (rt_call C c rt)) = rt_words rt"
  "rt_floats (snd (rt_call C c rt)) = rt_floats rt" "rt_stats (snd (rt_call C c rt)) = rt_stats rt"
  by (simp_all add: rt_call_def Let_def)

lemma rt_books_exec [simp]:
  "acquires c = None \<Longrightarrow> releases c = None \<Longrightarrow> rt_books (rt_log (rt_exec C c rt)) s e m \<longleftrightarrow> rt_books (rt_log rt) s e m"
  by (simp add: rt_exec_log)

text \<open>What every step of a chain of attempts keeps, the chain keeps.\<close>

lemma attempt_cases:
  assumes "attempt C c rt k = (r, rt')"
  obtains (failed) err v where "err \<noteq> cudaSuccess" "r = None" "rt_log rt' = rt_log rt @ [(c, err, v)]"
      "rt' = snd (rt_call C c rt)"
  | (went_on) v rt1 where "rt_call C c rt = ((cudaSuccess, v), rt1)" "rt_log rt1 = rt_log rt @ [(c, cudaSuccess, v)]"
      "k v rt1 = (r, rt')"
proof -
  obtain err v rt1 where c: "rt_call C c rt = ((err, v), rt1)" by (metis prod.collapse)
  show thesis
  proof (cases "err = cudaSuccess")
    case True
    with assms c show thesis by (intro went_on) (auto simp: attempt_def dest: rt_call_log)
  next
    case False
    with assms c show thesis by (intro failed [of err v]) (auto simp: attempt_def dest: rt_call_log)
  qed
qed

end
