(* ===== verification/Fanout_Nodes.thy ===== *)
theory Fanout_Nodes
  imports Gpu_Image Cuda_Runtime
begin

text \<open>
  The subscriber nodes of \<^verbatim>\<open>examples/multi_process_image_fanout\<close> (\<^verbatim>\<open>encoder_like_node.cpp\<close>,
  \<^verbatim>\<open>inference_like_node.cpp\<close>): the guards of an image callback, the stream and the buffers a
  node keeps on its device, the kernels it runs and the status it publishes. A callback threads
  the node, the subscriber library's state and the CUDA runtime.
\<close>

section \<open>What the nodes share\<close>

definition kChannels :: u32 where "kChannels = 4"
definition kBytesPerPixel :: u64 where "kBytesPerPixel = 4"

definition is_supported_rgba8_layout :: "image_read_handle \<Rightarrow> bool" where
  "is_supported_rgba8_layout view \<longleftrightarrow>
     (case (ih_shape view, ih_strides view) of ((rows, cols, channels), (strideH, strideW, strideC)) \<Rightarrow>
        let row_bytes = ucast cols * kBytesPerPixel
        in strideC = 1 \<and> strideW = kBytesPerPixel \<and> strideH \<ge> row_bytes)"

text \<open>
  The device state of both nodes: \<^verbatim>\<open>stream_\<close>, \<^verbatim>\<open>current_device_id_\<close>, the plane the first kernel
  writes (\<^verbatim>\<open>device_luma_\<close>, \<^verbatim>\<open>device_gray_\<close>) and the result cell (\<^verbatim>\<open>device_checksum_\<close>,
  \<^verbatim>\<open>device_stats_\<close>).
\<close>

record gpu_node =
  gn_stream :: u64
  gn_plane :: u64
  gn_cell :: u64
  gn_device_id :: i32
  gn_received :: u64

definition cleanup_gpu :: "'f cuda_env \<Rightarrow> 'n gpu_node_scheme \<Rightarrow> 'f runtime \<Rightarrow> 'n gpu_node_scheme \<times> 'f runtime" where
  "cleanup_gpu C n rt =
     (let rt1 = (if gn_stream n = 0 then rt
                 else rt_exec C (CudaStreamSynchronize (gn_stream n))
                        (if sint (gn_device_id n) \<ge> 0 then rt_exec C (CudaSetDevice (gn_device_id n)) rt else rt));
          rt2 = (if gn_plane n = 0 then rt1 else rt_exec C (CudaFree (gn_plane n)) rt1);
          rt3 = (if gn_cell n = 0 then rt2 else rt_exec C (CudaFree (gn_cell n)) rt2);
          rt4 = (if gn_stream n = 0 then rt3 else rt_exec C (CudaStreamDestroy (gn_stream n)) rt3)
      in (n\<lparr>gn_stream := 0, gn_plane := 0, gn_cell := 0, gn_device_id := - 1\<rparr>, rt4))"

definition ensure_gpu ::
    "'f cuda_env \<Rightarrow> u64 \<Rightarrow> ('n gpu_node_scheme \<Rightarrow> 'f runtime \<Rightarrow> 'n gpu_node_scheme \<times> 'f runtime) \<Rightarrow> i32
     \<Rightarrow> 'n gpu_node_scheme \<Rightarrow> 'f runtime \<Rightarrow> bool \<times> 'n gpu_node_scheme \<times> 'f runtime" where
  "ensure_gpu C cell_bytes cleanup device_id n rt =
     (if gn_stream n \<noteq> 0 \<and> gn_device_id n = device_id then (True, n, rt)
      else let (n1, rt1) = cleanup n rt; ((set_device_err, _), rt2) = rt_call C (CudaSetDevice device_id) rt1
      in if set_device_err \<noteq> cudaSuccess then (False, n1, rt2)
      else let ((stream_err, stream), rt3) = rt_call C CudaStreamCreateWithFlags rt2
      in if stream_err \<noteq> cudaSuccess then (False, n1\<lparr>gn_stream := 0\<rparr>, rt3)
      else let ((alloc_err, cell), rt4) = rt_call C (CudaMalloc cell_bytes) rt3
      in if alloc_err \<noteq> cudaSuccess then (False, n1\<lparr>gn_stream := 0\<rparr>, rt_exec C (CudaStreamDestroy stream) rt4)
      else (True, n1\<lparr>gn_stream := stream, gn_cell := cell, gn_device_id := device_id\<rparr>, rt4))"

text \<open>The end of \<^verbatim>\<open>ensure_buffers\<close>: the old plane is given back before the new one is allocated.\<close>

definition replace_plane ::
    "'f cuda_env \<Rightarrow> u64 \<Rightarrow> 'n gpu_node_scheme \<Rightarrow> 'f runtime \<Rightarrow> bool \<times> 'n gpu_node_scheme \<times> 'f runtime" where
  "replace_plane C bytes n rt =
     (if gn_stream n = 0 then (False, n, rt)
      else let ((sync_err, _), rt1) = rt_call C (CudaStreamSynchronize (gn_stream n)) rt
      in if sync_err \<noteq> cudaSuccess then (False, n, rt1)
      else let ((free_err, _), rt2) = (if gn_plane n = 0 then ((cudaSuccess, 0), rt1) else rt_call C (CudaFree (gn_plane n)) rt1)
      in if free_err \<noteq> cudaSuccess then (False, n, rt2)
      else let ((alloc_err, plane), rt3) = rt_call C (CudaMalloc bytes) rt2
      in if alloc_err \<noteq> cudaSuccess then (False, n\<lparr>gn_plane := 0\<rparr>, rt3)
      else (True, n\<lparr>gn_plane := plane\<rparr>, rt3))"

text \<open>The two timing events; a failure gives back the first one.\<close>

definition destroy_event :: "'f cuda_env \<Rightarrow> u64 \<Rightarrow> 'f runtime \<Rightarrow> 'f runtime" where
  "destroy_event C e rt = (if e = 0 then rt else rt_exec C (CudaEventDestroy e) rt)"

definition create_timing_events :: "'f cuda_env \<Rightarrow> 'f runtime \<Rightarrow> (u64 \<times> u64) option \<times> 'f runtime" where
  "create_timing_events C rt =
     (let ((err1, kernel_start), rt1) = rt_call C CudaEventCreate rt
      in if err1 \<noteq> cudaSuccess then (None, rt1)
      else let ((err2, kernel_stop), rt2) = rt_call C CudaEventCreate rt1
      in if err2 \<noteq> cudaSuccess then (None, destroy_event C kernel_start rt2)
      else (Some (kernel_start, kernel_stop), rt2))"

text \<open>The timed part of a callback: every way out of it destroys both events.\<close>

definition with_events ::
    "'f cuda_env \<Rightarrow> (u64 \<times> u64 \<Rightarrow> 'f runtime \<Rightarrow> 'r option \<times> 'f runtime) \<Rightarrow> 'f runtime \<Rightarrow> 'r option \<times> 'f runtime" where
  "with_events C work rt =
     (case create_timing_events C rt of
        (None, rt1) \<Rightarrow> (None, rt1)
      | (Some events, rt1) \<Rightarrow>
          let (result, rt2) = work events rt1
          in (result, rt_exec C (CudaEventDestroy (snd events)) (rt_exec C (CudaEventDestroy (fst events)) rt2)))"

definition elapsed_time :: "'f cuda_env \<Rightarrow> u64 \<Rightarrow> u64 \<Rightarrow> 'f runtime \<Rightarrow> u64 \<times> 'f runtime" where
  "elapsed_time C start stop rt =
     (let ((err, ms), rt') = rt_call C (CudaEventElapsedTime start stop) rt
      in (if err \<noteq> cudaSuccess then 0 else ms, rt'))"

section \<open>The encoder-like node\<close>

record encoder_status =
  es_received :: u64
  es_header :: ros_header
  es_width :: u32
  es_height :: u32
  es_checksum :: u64
  es_kernel_ms :: u64

record encoder_node = gpu_node +
  en_output_width :: u32
  en_output_height :: u32
  en_output_pixel_count :: u64
  en_host_checksum :: u64
  en_published :: "encoder_status list"

definition EncoderLikeNode :: encoder_node where
  "EncoderLikeNode = \<lparr>gn_stream = 0, gn_plane = 0, gn_cell = 0, gn_device_id = - 1, gn_received = 0,
     en_output_width = 0, en_output_height = 0, en_output_pixel_count = 0, en_host_checksum = 0, en_published = []\<rparr>"

definition encoder_cleanup_cuda_state :: "'f cuda_env \<Rightarrow> encoder_node \<Rightarrow> 'f runtime \<Rightarrow> encoder_node \<times> 'f runtime" where
  "encoder_cleanup_cuda_state C n rt =
     (let (n1, rt1) = cleanup_gpu C n rt
      in (n1\<lparr>en_output_width := 0, en_output_height := 0, en_output_pixel_count := 0\<rparr>, rt1))"

definition encoder_ensure_cuda_state ::
    "'f cuda_env \<Rightarrow> i32 \<Rightarrow> encoder_node \<Rightarrow> 'f runtime \<Rightarrow> bool \<times> encoder_node \<times> 'f runtime" where
  "encoder_ensure_cuda_state C = ensure_gpu C 8 (encoder_cleanup_cuda_state C)"

definition encoder_ensure_buffers ::
    "'f cuda_env \<Rightarrow> image_read_handle \<Rightarrow> encoder_node \<Rightarrow> 'f runtime \<Rightarrow> bool \<times> encoder_node \<times> 'f runtime" where
  "encoder_ensure_buffers C view n rt =
     (case ih_shape view of (rows, cols, channels) \<Rightarrow>
        let required_width = cols div 2; required_height = rows div 2;
            required_bytes = ucast required_width * ucast required_height :: u64
        in if required_width = 0 \<or> required_height = 0 then (False, n, rt)
        else if gn_plane n \<noteq> 0 \<and> required_width = en_output_width n \<and> required_height = en_output_height n
        then (True, n, rt)
        else case replace_plane C required_bytes n rt of
            (False, n1, rt1) \<Rightarrow> (False, n1, rt1)
          | (True, n1, rt1) \<Rightarrow> (True, n1\<lparr>en_output_width := required_width, en_output_height := required_height,
                en_output_pixel_count := required_bytes\<rparr>, rt1))"

text \<open>The kernels, each followed by its error check.\<close>

definition luma_kernel :: "'f cuda_env \<Rightarrow> u64 \<Rightarrow> u64 \<Rightarrow> i32 \<Rightarrow> i32 \<Rightarrow> u64 \<Rightarrow> 'f runtime \<Rightarrow> int \<times> 'f runtime" where
  "luma_kernel C rgba luma width height stride rt =
     (let (err, m) = launch_rgba_to_luma_downscale2_kernel (ce_device C (rt_log rt)) rgba luma width height stride (rt_memory rt)
      in (err, rt_note (KernelLaunch ''rgba_to_luma_downscale2'') err (rt\<lparr>rt_memory := m\<rparr>)))"

definition checksum_kernel :: "'f cuda_env \<Rightarrow> u64 \<Rightarrow> u64 \<Rightarrow> u64 \<Rightarrow> 'f runtime \<Rightarrow> int \<times> 'f runtime" where
  "checksum_kernel C input element_count cell rt =
     (let (err, v) = launch_checksum_u8_kernel (ce_device C (rt_log rt)) input element_count cell (rt_memory rt) (rt_words rt cell)
      in (err, rt_note (KernelLaunch ''checksum_u8'') err (rt\<lparr>rt_words := (rt_words rt)(cell := v)\<rparr>)))"

text \<open>From \<^verbatim>\<open>cudaMemsetAsync\<close> to \<^verbatim>\<open>cudaEventElapsedTime\<close>: the checksum and the time, or an early return.\<close>

definition encoder_read_back :: "'f cuda_env \<Rightarrow> encoder_node \<Rightarrow> u64 \<times> u64 \<Rightarrow> 'f runtime \<Rightarrow> (u64 \<times> u64) option \<times> 'f runtime" where
  "encoder_read_back C n events rt =
     attempt C (CudaEventRecord (snd events) (gn_stream n)) rt (\<lambda>_ rt1.
     attempt C (CudaStreamSynchronize (gn_stream n)) rt1 (\<lambda>_ rt2.
     attempt C (CudaMemcpyToHost (gn_cell n) 8) rt2 (\<lambda>_ rt3.
     let (ms, rt4) = elapsed_time C (fst events) (snd events) rt3 in (Some (rt_words rt3 (gn_cell n), ms), rt4))))"

definition encoder_run_kernels ::
    "'f cuda_env \<Rightarrow> subscriber \<Rightarrow> image_read_handle \<Rightarrow> encoder_node \<Rightarrow> u64 \<times> u64 \<Rightarrow> 'f runtime \<Rightarrow> (u64 \<times> u64) option \<times> 'f runtime" where
  "encoder_run_kernels C sb view n events rt =
     (case (ih_shape view, ih_strides view) of ((rows, cols, channels), (strideH, strideW, strideC)) \<Rightarrow>
        let (err1, rt1) = luma_kernel C (rh_device_ptr sb (ih_read view)) (gn_plane n) (ucast cols) (ucast rows) strideH rt
        in if err1 \<noteq> cudaSuccess then (None, rt1)
        else let (err2, rt2) = checksum_kernel C (gn_plane n) (en_output_pixel_count n) (gn_cell n) rt1
        in if err2 \<noteq> cudaSuccess then (None, rt2) else encoder_read_back C n events rt2)"

definition encoder_measure ::
    "'f cuda_env \<Rightarrow> subscriber \<Rightarrow> image_read_handle \<Rightarrow> encoder_node \<Rightarrow> u64 \<times> u64 \<Rightarrow> 'f runtime \<Rightarrow> (u64 \<times> u64) option \<times> 'f runtime" where
  "encoder_measure C sb view n events rt =
     attempt C (CudaMemsetAsync (gn_cell n) 8 (gn_stream n)) rt (\<lambda>_ rt1.
     attempt C (CudaEventRecord (fst events) (gn_stream n)) (rt1\<lparr>rt_words := (rt_words rt1)(gn_cell n := 0)\<rparr>) (\<lambda>_ rt2.
     encoder_run_kernels C sb view n events rt2))"

lemmas encoder_measure_defs = encoder_measure_def encoder_run_kernels_def encoder_read_back_def

definition encoder_accepts :: "subscriber \<Rightarrow> image_read_handle \<Rightarrow> bool" where
  "encoder_accepts sb view \<longleftrightarrow>
     (case ih_shape view of (rows, cols, channels) \<Rightarrow>
        rh_valid sb (ih_read view) \<and> sanity_check sb view \<and> \<not> (ih_dtype view \<noteq> U8 \<or> channels \<noteq> kChannels)
        \<and> is_supported_rgba8_layout view \<and> \<not> (rows < 2 \<or> cols < 2))"

definition encoder_on_image ::
    "'f cuda_env \<Rightarrow> subscriber \<Rightarrow> image_read_handle \<Rightarrow> encoder_node \<Rightarrow> 'f runtime \<Rightarrow> encoder_node \<times> 'f runtime" where
  "encoder_on_image C sb view n0 rt =
     (let n = n0\<lparr>gn_received := gn_received n0 + 1\<rparr>
      in if \<not> encoder_accepts sb view then (n, rt)
      else case encoder_ensure_buffers C view n rt of
          (False, n1, rt1) \<Rightarrow> (n1, rt1)
        | (True, n1, rt1) \<Rightarrow>
            (case with_events C (encoder_measure C sb view n1) rt1 of
               (None, rt2) \<Rightarrow> (n1, rt2)
             | (Some (checksum, ms), rt2) \<Rightarrow>
                 (n1\<lparr>en_host_checksum := checksum, en_published := en_published n1 @
                    [\<lparr>es_received = gn_received n1, es_header = ih_header view, es_width = en_output_width n1,
                      es_height = en_output_height n1, es_checksum = checksum, es_kernel_ms = ms\<rparr>]\<rparr>, rt2)))"

text \<open>The subscription's callback; the handle is destroyed when the callback returns.\<close>

definition encoder_callback ::
    "'f cuda_env \<Rightarrow> env \<Rightarrow> nat \<Rightarrow> gpu_image \<Rightarrow> encoder_node \<Rightarrow> subscriber \<Rightarrow> 'f runtime
     \<Rightarrow> encoder_node \<times> subscriber \<times> 'f runtime" where
  "encoder_callback C E thread message n sb rt =
     (case encoder_ensure_cuda_state C (bc_device_id (gi_core message)) n rt of
        (False, n1, rt1) \<Rightarrow> (n1, sb, rt1)
      | (True, n1, rt1) \<Rightarrow>
          (case image_reader_read E thread message (gn_stream n1) sb of
             (None, sb1) \<Rightarrow> (n1, sb1, rt1)
           | (Some view, sb1) \<Rightarrow>
               let (n2, rt2) = encoder_on_image C sb1 view n1 rt1 in (n2, rh_destroy E thread (ih_read view) sb1, rt2)))"


section \<open>The books of a node\<close>

definition node_books :: "'n gpu_node_scheme \<Rightarrow> runtime_log \<Rightarrow> bool" where
  "node_books n log \<longleftrightarrow> rt_books log (handle_set (gn_stream n)) {#} (handle_set (gn_plane n) + handle_set (gn_cell n))"

definition emptied :: "'n gpu_node_scheme \<Rightarrow> bool" where
  "emptied n \<longleftrightarrow> gn_stream n = 0 \<and> gn_plane n = 0 \<and> gn_cell n = 0"

lemma node_books_emptied: "emptied n \<Longrightarrow> node_books n log \<longleftrightarrow> rt_books log {#} {#} {#}"
  by (simp add: node_books_def emptied_def)

lemma rt_books_exec_free: "rt_books (rt_log rt) s e (m + handle_set p) \<Longrightarrow> rt_books (rt_log (rt_exec C (CudaFree p) rt)) s e m"
  unfolding rt_exec_log by (rule rt_books_freed(1))

lemma rt_books_exec_destroy:
  "rt_books (rt_log rt) (s + handle_set v) e m \<Longrightarrow> rt_books (rt_log (rt_exec C (CudaStreamDestroy v) rt)) s e m"
  "rt_books (rt_log rt) s (e + handle_set v) m \<Longrightarrow> rt_books (rt_log (rt_exec C (CudaEventDestroy v) rt)) s e m"
  unfolding rt_exec_log by (rule rt_books_destroyed; assumption)+

lemma cleanup_gpu_books:
  assumes "node_books n (rt_log rt)"
  shows "rt_books (rt_log (snd (cleanup_gpu C n rt))) {#} {#} {#}" "emptied (fst (cleanup_gpu C n rt))"
proof -
  have start: "rt_books (rt_log rt) ({#} + handle_set (gn_stream n)) {#} ({#} + handle_set (gn_cell n) + handle_set (gn_plane n))"
    using assms by (simp add: node_books_def ac_simps)
  show "rt_books (rt_log (snd (cleanup_gpu C n rt))) {#} {#} {#}"
    using start
    by (cases "gn_stream n = 0"; cases "gn_plane n = 0"; cases "gn_cell n = 0")
      (auto simp: cleanup_gpu_def Let_def intro!: rt_books_exec_free rt_books_exec_destroy)
  show "emptied (fst (cleanup_gpu C n rt))" by (simp add: cleanup_gpu_def Let_def emptied_def)
qed

lemma ensure_gpu_books:
  assumes b: "node_books n (rt_log rt)"
    and cleanup: "\<And>n1 rt1. cleanup n rt = (n1, rt1) \<Longrightarrow> rt_books (rt_log rt1) {#} {#} {#} \<and> emptied n1"
    and r: "ensure_gpu C bytes cleanup device n rt = (ok, n', rt')"
  shows "node_books n' (rt_log rt')"
proof (cases "gn_stream n \<noteq> 0 \<and> gn_device_id n = device")
  case True
  with b r show ?thesis by (simp add: ensure_gpu_def)
next
  case False
  obtain n1 rt1 where n1: "cleanup n rt = (n1, rt1)" by fastforce
  obtain e2 v2 rt2 where 2: "rt_call C (CudaSetDevice device) rt1 = ((e2, v2), rt2)" by (metis prod.collapse)
  obtain e3 stream rt3 where 3: "rt_call C CudaStreamCreateWithFlags rt2 = ((e3, stream), rt3)" by (metis prod.collapse)
  obtain e4 cell rt4 where 4: "rt_call C (CudaMalloc bytes) rt3 = ((e4, cell), rt4)" by (metis prod.collapse)
  have b1: "rt_books (rt_log rt1) {#} {#} {#}" "emptied n1" using cleanup [OF n1] by simp_all
  then have b2: "rt_books (rt_log rt2) {#} {#} {#}" using rt_call_log [OF 2] by simp
  note result = r [unfolded ensure_gpu_def] False n1 2 3 4
  show ?thesis
  proof (cases "e2 = 0 \<and> e3 = 0")
    case no: False
    then have "rt_books (rt_log rt3) {#} {#} {#}" if "e2 = 0" using b2 that rt_call_log [OF 3] by simp
    then show ?thesis using result no b2 b1 by (auto simp: node_books_def emptied_def split: if_splits)
  next
    case yes: True
    then have b3: "rt_books (rt_log rt3) ({#} + handle_set stream) {#} {#}" using rt_books_acquired(1) [OF b2] rt_call_log [OF 3] by simp
    show ?thesis
    proof (cases "e4 = 0")
      case True
      then have "rt_books (rt_log rt4) (handle_set stream) {#} (handle_set cell)" using rt_books_acquired(3) [OF b3] rt_call_log [OF 4] by simp
      then show ?thesis using result yes True b1 by (auto simp: node_books_def emptied_def)
    next
      case False
      then have "rt_books (rt_log rt4) ({#} + handle_set stream) {#} {#}" using b3 rt_call_log [OF 4] by simp
      from rt_books_exec_destroy(1) [OF this] show ?thesis
        using result yes False b1 by (auto simp: node_books_def emptied_def)
    qed
  qed
qed

lemma replace_plane_books:
  assumes b: "node_books n (rt_log rt)" and r: "replace_plane C bytes n rt = (ok, n', rt')"
  shows "node_books n' (rt_log rt')"
    and "ok \<Longrightarrow> gn_plane n' = 0 \<or> (CudaMalloc bytes, cudaSuccess, gn_plane n') \<in> set (rt_log rt')"
proof -
  obtain e1 v1 rt1 where 1: "rt_call C (CudaStreamSynchronize (gn_stream n)) rt = ((e1, v1), rt1)" by (metis prod.collapse)
  obtain e2 v2 rt2 where 2: "(if gn_plane n = 0 then ((cudaSuccess, 0), rt1) else rt_call C (CudaFree (gn_plane n)) rt1) = ((e2, v2), rt2)"
    by (metis prod.collapse)
  obtain e3 plane rt3 where 3: "rt_call C (CudaMalloc bytes) rt2 = ((e3, plane), rt3)" by (metis prod.collapse)
  have b1: "rt_books (rt_log rt1) (handle_set (gn_stream n)) {#} (handle_set (gn_cell n) + handle_set (gn_plane n))"
    using b rt_call_log [OF 1] by (simp add: node_books_def add.commute)
  have b2: "rt_books (rt_log rt2) (handle_set (gn_stream n)) {#} (if e2 = 0 then handle_set (gn_cell n) else handle_set (gn_cell n) + handle_set (gn_plane n))"
  proof (cases "gn_plane n = 0")
    case True
    then show ?thesis using b1 2 by auto
  next
    case False
    then have "rt_log rt2 = rt_log rt1 @ [(CudaFree (gn_plane n), e2, v2)]" using 2 rt_call_log by fastforce
    then show ?thesis using rt_books_freed [OF b1, of "(e2, v2)"] by (cases "e2 = 0") simp_all
  qed
  have b3: "rt_books (rt_log rt3) (handle_set (gn_stream n)) {#} (if e3 = 0 then handle_set (gn_cell n) + handle_set plane else handle_set (gn_cell n))"
    if "e2 = 0" using b2 that rt_call_log [OF 3] rt_books_acquired(3) [of "rt_log rt2" _ _ _ bytes plane] by auto
  show "node_books n' (rt_log rt')"
    using r [unfolded replace_plane_def] 1 2 3 b b1 b2 b3
    by (auto simp: node_books_def add.commute split: if_splits)
  show "gn_plane n' = 0 \<or> (CudaMalloc bytes, cudaSuccess, gn_plane n') \<in> set (rt_log rt')" if ok
    using r [unfolded replace_plane_def] 1 2 3 that rt_call_log [OF 3] by (auto split: if_splits)
qed


lemma rt_books_destroy_event:
  "rt_books (rt_log rt) s (e + handle_set v) m \<Longrightarrow> rt_books (rt_log (destroy_event C v rt)) s e m"
  by (auto simp: destroy_event_def intro: rt_books_exec_destroy)

lemma create_timing_events_books:
  assumes b: "rt_books (rt_log rt) s e m" and r: "create_timing_events C rt = (r, rt')"
  shows "rt_books (rt_log rt') s (case r of None \<Rightarrow> e | Some (start, stop) \<Rightarrow> e + handle_set start + handle_set stop) m"
proof -
  obtain e1 start rt1 where 1: "rt_call C CudaEventCreate rt = ((e1, start), rt1)" by (metis prod.collapse)
  obtain e2 stop rt2 where 2: "rt_call C CudaEventCreate rt1 = ((e2, stop), rt2)" by (metis prod.collapse)
  note result = r [unfolded create_timing_events_def] 1 2
  show ?thesis
  proof (cases "e1 = 0")
    case False
    then show ?thesis using result b rt_call_log [OF 1] by auto
  next
    case True
    then have b1: "rt_books (rt_log rt1) s (e + handle_set start) m"
      using rt_books_acquired(2) [OF b] rt_call_log [OF 1] by simp
    show ?thesis
    proof (cases "e2 = 0")
      case True
      then show ?thesis using result \<open>e1 = 0\<close> rt_books_acquired(2) [OF b1] rt_call_log [OF 2] by auto
    next
      case False
      then have "rt_books (rt_log rt2) s (e + handle_set start) m" using b1 rt_call_log [OF 2] by simp
      from rt_books_destroy_event [OF this] show ?thesis using result \<open>e1 = 0\<close> False by auto
    qed
  qed
qed

lemma destroy_events_books:
  assumes "rt_books (rt_log rt) s (e + handle_set (fst events) + handle_set (snd events)) m"
  shows "rt_books (rt_log (rt_exec C (CudaEventDestroy (snd events)) (rt_exec C (CudaEventDestroy (fst events)) rt))) s e m"
  using assms by (intro rt_books_exec_destroy) (simp add: ac_simps)

lemma with_events_books:
  assumes r: "with_events C work rt = (r, rt')" and b: "rt_books (rt_log rt) s {#} m"
    and work: "\<And>events rt1 r' rt2 e. work events rt1 = (r', rt2) \<Longrightarrow> rt_books (rt_log rt1) s e m \<Longrightarrow> rt_books (rt_log rt2) s e m"
  shows "rt_books (rt_log rt') s {#} m"
proof -
  obtain ev rt1 where 1: "create_timing_events C rt = (ev, rt1)" by fastforce
  show ?thesis
  proof (cases ev)
    case None
    then show ?thesis using r 1 create_timing_events_books [OF b 1] by (auto simp: with_events_def)
  next
    case (Some events)
    obtain r2 rt2 where 2: "work events rt1 = (r2, rt2)" by fastforce
    have "rt_books (rt_log rt1) s ({#} + handle_set (fst events) + handle_set (snd events)) m"
      using create_timing_events_books [OF b 1] Some by (simp add: case_prod_beta)
    from destroy_events_books [OF work [OF 2 this]] show ?thesis using r 1 2 Some by (auto simp: with_events_def)
  qed
qed

lemma attempt_books:
  assumes "attempt C c rt k = (r, rt')" "rt_books (rt_log rt) s e m" "acquires c = None" "releases c = None"
    and "\<And>v rt1. rt_books (rt_log rt1) s e m \<Longrightarrow> k v rt1 = (r, rt') \<Longrightarrow> rt_books (rt_log rt') s e m"
  shows "rt_books (rt_log rt') s e m"
  using assms(1)
proof (cases rule: attempt_cases)
  case (failed err v)
  then show ?thesis using assms(2-4) by simp
next
  case (went_on v rt1)
  show ?thesis by (rule assms(5) [OF _ went_on(3)]) (simp add: went_on(2) assms(2-4))
qed

lemma elapsed_time_books:
  "elapsed_time C start stop rt = (ms, rt') \<Longrightarrow> rt_books (rt_log rt') s e m \<longleftrightarrow> rt_books (rt_log rt) s e m"
  by (auto simp: elapsed_time_def split: prod.splits dest!: rt_call_log)

lemma encoder_kernels_books:
  "luma_kernel C rgba luma width height stride rt = (err, rt') \<Longrightarrow> rt_books (rt_log rt') s e m \<longleftrightarrow> rt_books (rt_log rt) s e m"
  "checksum_kernel C input n cell rt = (err, rt') \<Longrightarrow> rt_books (rt_log rt') s e m \<longleftrightarrow> rt_books (rt_log rt) s e m"
  by (auto simp: luma_kernel_def checksum_kernel_def split: prod.splits)

lemma encoder_measure_books:
  assumes "encoder_measure C sb view n events rt = (r, rt')" "rt_books (rt_log rt) s e m"
  shows "rt_books (rt_log rt') s e m"
  using assms
  by (auto simp: encoder_measure_defs encoder_kernels_books elapsed_time_books split: prod.splits if_splits
    elim!: attempt_books)


text \<open>The log only grows.\<close>

lemma attempt_grows:
  assumes "attempt C c rt k = (r, rt')" "x \<in> set (rt_log rt)"
    and "\<And>v rt1. x \<in> set (rt_log rt1) \<Longrightarrow> k v rt1 = (r, rt') \<Longrightarrow> x \<in> set (rt_log rt')"
  shows "x \<in> set (rt_log rt')"
  using assms(1)
proof (cases rule: attempt_cases)
  case (failed err v)
  then show ?thesis using assms(2) by simp
next
  case (went_on v rt1)
  show ?thesis by (rule assms(3) [OF _ went_on(3)]) (simp add: went_on(2) assms(2))
qed

lemma replace_plane_grows: "replace_plane C bytes n rt = (ok, n', rt') \<Longrightarrow> set (rt_log rt) \<subseteq> set (rt_log rt')"
  by (auto simp: replace_plane_def split: prod.splits if_splits dest!: rt_call_log)

lemma rt_exec_grows: "set (rt_log rt) \<subseteq> set (rt_log (rt_exec C c rt))"
  by (auto simp: rt_exec_log)

lemma rt_call_grows: "rt_call C c rt = (r, rt') \<Longrightarrow> set (rt_log rt) \<subseteq> set (rt_log rt')"
  by (auto dest: rt_call_log)

lemma create_timing_events_grows: "create_timing_events C rt = (r, rt') \<Longrightarrow> set (rt_log rt) \<subseteq> set (rt_log rt')"
  by (auto simp: create_timing_events_def destroy_event_def rt_exec_log split: prod.splits if_splits dest!: rt_call_log)

lemma with_events_grows:
  assumes r: "with_events C work rt = (r, rt')" and "x \<in> set (rt_log rt)"
    and work: "\<And>events rt1 r' rt2. work events rt1 = (r', rt2) \<Longrightarrow> x \<in> set (rt_log rt1) \<Longrightarrow> x \<in> set (rt_log rt2)"
  shows "x \<in> set (rt_log rt')"
proof -
  obtain ev rt1 where 1: "create_timing_events C rt = (ev, rt1)" by fastforce
  have x1: "x \<in> set (rt_log rt1)" using create_timing_events_grows [OF 1] assms(2) by blast
  show ?thesis
  proof (cases ev)
    case None
    then show ?thesis using r 1 x1 by (simp add: with_events_def)
  next
    case (Some events)
    obtain r2 rt2 where 2: "work events rt1 = (r2, rt2)" by fastforce
    from work [OF 2 x1] show ?thesis using r 1 2 Some by (auto simp: with_events_def rt_exec_log)
  qed
qed

lemma encoder_kernels_grow:
  "luma_kernel C rgba luma width height stride rt = (err, rt') \<Longrightarrow> set (rt_log rt) \<subseteq> set (rt_log rt')"
  "checksum_kernel C input n cell rt = (err, rt') \<Longrightarrow> set (rt_log rt) \<subseteq> set (rt_log rt')"
  by (auto simp: luma_kernel_def checksum_kernel_def split: prod.splits)

lemma elapsed_time_grows: "elapsed_time C start stop rt = (ms, rt') \<Longrightarrow> set (rt_log rt) \<subseteq> set (rt_log rt')"
  by (auto simp: elapsed_time_def split: prod.splits dest!: rt_call_log)

lemma encoder_measure_grows:
  assumes "encoder_measure C sb view n events rt = (r, rt')" "x \<in> set (rt_log rt)"
  shows "x \<in> set (rt_log rt')"
  using assms
  by (auto simp: encoder_measure_defs split: prod.splits if_splits
    elim!: attempt_grows) (blast dest: encoder_kernels_grow elapsed_time_grows)+

text \<open>
  The encoder's state: nothing it created is lost, and the plane it holds was allocated with as
  many bytes as the dimensions it remembers.
\<close>

definition encoder_ok :: "encoder_node \<Rightarrow> runtime_log \<Rightarrow> bool" where
  "encoder_ok n log \<longleftrightarrow> node_books n log
     \<and> (gn_plane n \<noteq> 0 \<longrightarrow>
          (CudaMalloc (en_output_pixel_count n), cudaSuccess, gn_plane n) \<in> set log
        \<and> unat (en_output_pixel_count n) = unat (en_output_width n) * unat (en_output_height n))"

lemma encoder_cleanup_ok:
  assumes "node_books n (rt_log rt)" "encoder_cleanup_cuda_state C n rt = (n', rt')"
  shows "rt_books (rt_log rt') {#} {#} {#} \<and> emptied n'"
  using cleanup_gpu_books [OF assms(1), of C] assms(2)
  by (auto simp: encoder_cleanup_cuda_state_def emptied_def split: prod.splits)

lemma ensure_gpu_plane:
  assumes "ensure_gpu C bytes cleanup device n rt = (ok, n', rt')"
    and "\<And>n1 rt1. cleanup n rt = (n1, rt1) \<Longrightarrow> emptied n1"
  shows "gn_plane n' = 0 \<or> n' = n \<and> rt' = rt"
  using assms by (force simp: ensure_gpu_def emptied_def split: if_splits prod.splits)

lemma encoder_ensure_state_ok:
  assumes "encoder_ok n (rt_log rt)" "encoder_ensure_cuda_state C device n rt = (ok, n', rt')"
  shows "encoder_ok n' (rt_log rt')"
proof -
  have b: "node_books n (rt_log rt)" using assms(1) by (simp add: encoder_ok_def)
  note c = encoder_cleanup_ok [OF b, of C] and r = assms(2) [unfolded encoder_ensure_cuda_state_def]
  have "node_books n' (rt_log rt')" by (rule ensure_gpu_books [OF b c r])
  moreover have "gn_plane n' = 0 \<or> n' = n \<and> rt' = rt" by (rule ensure_gpu_plane [OF r]) (use c in blast)
  ultimately show ?thesis using assms(1) by (auto simp: encoder_ok_def)
qed

lemma wide_product: "unat (ucast (a :: u32) * ucast (b :: u32) :: u64) = unat a * unat b"
proof -
  have "unat a * unat b \<le> (2 ^ 32 - 1) * (2 ^ 32 - 1)"
    using unat_bound32 [of a] unat_bound32 [of b] by (intro mult_le_mono) simp_all
  then show ?thesis by (simp add: unat_word_ariths)
qed

lemma replace_plane_stream: "replace_plane C bytes n rt = (ok, n', rt') \<Longrightarrow> \<exists>p. n' = n\<lparr>gn_plane := p\<rparr> \<and> (ok \<or> p = 0 \<or> p = gn_plane n)"
  by (auto simp: replace_plane_def split: if_splits prod.splits intro: exI [of _ "gn_plane n"])


lemma encoder_ensure_buffers_ok:
  assumes ok: "encoder_ok n (rt_log rt)" and r: "encoder_ensure_buffers C view n rt = (res, n', rt')"
  shows "encoder_ok n' (rt_log rt')"
proof -
  obtain rows cols channels where sh: "ih_shape view = (rows, cols, channels)" by (metis prod_cases3)
  let ?bytes = "ucast (cols div 2) * ucast (rows div 2) :: u64"
  show ?thesis
  proof (cases "(cols div 2 = 0 \<or> rows div 2 = 0) \<or>
      gn_plane n \<noteq> 0 \<and> cols div 2 = en_output_width n \<and> rows div 2 = en_output_height n")
    case True
    then show ?thesis using r ok by (auto simp: encoder_ensure_buffers_def sh Let_def split: if_splits)
  next
    case False
    obtain ok1 n1 rt1 where p: "replace_plane C ?bytes n rt = (ok1, n1, rt1)" by (metis prod_cases3)
    have b: "node_books n1 (rt_log rt1)" and m: "ok1 \<Longrightarrow> gn_plane n1 = 0 \<or> (CudaMalloc ?bytes, cudaSuccess, gn_plane n1) \<in> set (rt_log rt1)"
      using replace_plane_books [OF _ p] ok by (simp_all add: encoder_ok_def)
    obtain q where n1: "n1 = n\<lparr>gn_plane := q\<rparr>" "ok1 \<or> q = 0 \<or> q = gn_plane n" using replace_plane_stream [OF p] by blast
    have res: "rt' = rt1" "n' = (if ok1 then n1\<lparr>en_output_width := cols div 2, en_output_height := rows div 2,
        en_output_pixel_count := ?bytes\<rparr> else n1)"
      using r False by (auto simp: encoder_ensure_buffers_def sh Let_def p split: bool.splits if_splits)
    show ?thesis
    proof (cases ok1)
      case True
      then show ?thesis using b m by (auto simp: res encoder_ok_def node_books_def wide_product)
    next
      case False
      have "x \<in> set (rt_log rt1)" if "x \<in> set (rt_log rt)" for x using replace_plane_grows [OF p] that by blast
      then show ?thesis using False b ok n1 by (auto simp: res encoder_ok_def)
    qed
  qed
qed

lemma encoder_on_image_ok:
  assumes ok: "encoder_ok n (rt_log rt)"
  shows "encoder_ok (fst (encoder_on_image C sb view n rt)) (rt_log (snd (encoder_on_image C sb view n rt)))"
proof -
  let ?n = "n\<lparr>gn_received := gn_received n + 1\<rparr>"
  have ok0: "encoder_ok ?n (rt_log rt)" using ok by (simp add: encoder_ok_def node_books_def)
  obtain res1 n1 rt1 where 1: "encoder_ensure_buffers C view ?n rt = (res1, n1, rt1)" by (metis prod_cases3)
  obtain res2 rt2 where 2: "with_events C (encoder_measure C sb view n1) rt1 = (res2, rt2)" by fastforce
  have ok1: "encoder_ok n1 (rt_log rt1)" by (rule encoder_ensure_buffers_ok [OF ok0 1])
  have "node_books n1 (rt_log rt2)"
    using ok1 with_events_books [OF 2 _ encoder_measure_books] by (simp add: encoder_ok_def node_books_def)
  moreover have "x \<in> set (rt_log rt2)" if "x \<in> set (rt_log rt1)" for x
    by (rule with_events_grows [OF 2 that encoder_measure_grows])
  ultimately have ok2: "encoder_ok n1 (rt_log rt2)" using ok1 by (auto simp: encoder_ok_def)
  show ?thesis
    using ok0 ok1 ok2 1 2
    by (auto simp: encoder_on_image_def Let_def encoder_ok_def node_books_def split: option.splits bool.splits)
qed

text \<open>
  The node over time: callbacks, whatever the subscriber library's state is by then (its worker
  thread runs in between).
\<close>

inductive encoder_reachable :: "'f cuda_env \<Rightarrow> 'f runtime \<Rightarrow> encoder_node \<Rightarrow> 'f runtime \<Rightarrow> bool"
  for C and rt0 where
  start: "encoder_reachable C rt0 EncoderLikeNode rt0"
| callback: "encoder_reachable C rt0 n rt \<Longrightarrow> encoder_callback C E t message n sb rt = (n', sb', rt')
    \<Longrightarrow> encoder_reachable C rt0 n' rt'"

lemma encoder_reachable_ok:
  assumes "encoder_reachable C rt0 n rt" "rt_log rt0 = []"
  shows "encoder_ok n (rt_log rt)"
  using assms
proof (induction rule: encoder_reachable.induct)
  case start
  then show ?case by (simp add: encoder_ok_def node_books_def EncoderLikeNode_def)
next
  case (callback n rt E t message sb n' sb' rt')
  obtain res1 n1 rt1 where 1: "encoder_ensure_cuda_state C (bc_device_id (gi_core message)) n rt = (res1, n1, rt1)"
    by (metis prod_cases3)
  have ok1: "encoder_ok n1 (rt_log rt1)"
    using encoder_ensure_state_ok [OF _ 1] callback by blast
  show ?case
    using callback.hyps(2) ok1 encoder_on_image_ok [OF ok1]
    by (auto simp: encoder_callback_def 1 split: bool.splits option.splits prod.splits) (metis fst_conv snd_conv)+
qed


section \<open>What the encoder publishes\<close>

lemma attempt_Some:
  assumes "attempt C c rt k = (Some x, rt')"
  obtains v rt1 where "k v rt1 = (Some x, rt')" "rt_memory rt1 = rt_memory rt" "rt_words rt1 = rt_words rt"
    "rt_floats rt1 = rt_floats rt" "rt_stats rt1 = rt_stats rt"
  using assms
proof (cases rule: attempt_cases)
  case (went_on v rt1)
  have "rt1 = snd (rt_call C c rt)" using went_on(1) by simp
  then show thesis using went_on(3) by (intro that [of v rt1]) simp_all
qed simp

lemma encoder_measure_Some:
  assumes sh: "ih_shape view = (rows, cols, channels)" "ih_strides view = (strideH, strideW, strideC)"
    and r: "encoder_measure C sb view n events rt = (Some (checksum, ms), rt')"
  obtains log1 log2 m' where
    "launch_rgba_to_luma_downscale2_kernel (ce_device C log1) (rh_device_ptr sb (ih_read view)) (gn_plane n)
       (ucast cols) (ucast rows) strideH (rt_memory rt) = (cudaSuccess, m')"
    "launch_checksum_u8_kernel (ce_device C log2) (gn_plane n) (en_output_pixel_count n) (gn_cell n) m' 0 = (cudaSuccess, checksum)"
proof -
  obtain v1 rt1 where 1: "rt_memory rt1 = rt_memory rt"
      "attempt C (CudaEventRecord (fst events) (gn_stream n)) (rt1\<lparr>rt_words := (rt_words rt1)(gn_cell n := 0)\<rparr>)
         (\<lambda>_. encoder_run_kernels C sb view n events) = (Some (checksum, ms), rt')"
    by (rule attempt_Some [OF r [unfolded encoder_measure_def]])
  obtain v2 rt2 where 2: "rt_memory rt2 = rt_memory rt" "rt_words rt2 (gn_cell n) = 0"
      "encoder_run_kernels C sb view n events rt2 = (Some (checksum, ms), rt')"
    using 1(1) by (auto intro: attempt_Some [OF 1(2)])
  obtain err3 rt3 where 3: "luma_kernel C (rh_device_ptr sb (ih_read view)) (gn_plane n) (ucast cols) (ucast rows) strideH rt2 = (err3, rt3)"
    by fastforce
  obtain err4 rt4 where 4: "checksum_kernel C (gn_plane n) (en_output_pixel_count n) (gn_cell n) rt3 = (err4, rt4)" by fastforce
  have ok: "err3 = 0" "err4 = 0" and 5: "encoder_read_back C n events rt4 = (Some (checksum, ms), rt')"
    using 2(3) 3 4 by (auto simp: encoder_run_kernels_def sh split: if_splits)
  have w: "rt_words rt4 (gn_cell n) = checksum"
    using 5 unfolding encoder_read_back_def by (elim attempt_Some) (auto split: prod.splits)
  show thesis
  proof (rule that)
    show "launch_rgba_to_luma_downscale2_kernel (ce_device C (rt_log rt2)) (rh_device_ptr sb (ih_read view)) (gn_plane n)
        (ucast cols) (ucast rows) strideH (rt_memory rt) = (cudaSuccess, rt_memory rt3)"
      using 2(1) 3 ok by (auto simp: luma_kernel_def rt_note_def split: prod.splits)
    have "rt_words rt3 = rt_words rt2" using 3 by (auto simp: luma_kernel_def rt_note_def split: prod.splits)
    then show "launch_checksum_u8_kernel (ce_device C (rt_log rt3)) (gn_plane n) (en_output_pixel_count n) (gn_cell n) (rt_memory rt3) 0
        = (cudaSuccess, checksum)"
      using 4 ok w 2(2) by (auto simp: checksum_kernel_def rt_note_def split: prod.splits)
  qed
qed


lemma ensure_buffers_True:
  assumes sh: "ih_shape view = (rows, cols, channels)"
    and r: "encoder_ensure_buffers C view n rt = (True, n1, rt1)"
  shows "en_output_width n1 = cols div 2" "en_output_height n1 = rows div 2" "rt_memory rt1 = rt_memory rt"
proof -
  let ?bytes = "ucast (cols div 2) * ucast (rows div 2) :: u64"
  have "rt_memory rt' = rt_memory rt" if "replace_plane C ?bytes n rt = (ok, n', rt')" for ok n' rt'
    using that by (auto simp: replace_plane_def rt_call_def Let_def split: if_splits prod.splits)
  then show "en_output_width n1 = cols div 2" "en_output_height n1 = rows div 2" "rt_memory rt1 = rt_memory rt"
    using r by (auto simp: encoder_ensure_buffers_def sh Let_def split: if_splits prod.splits bool.splits)
qed

lemma ensure_buffers_published: "encoder_ensure_buffers C view n rt = (res, n1, rt1) \<Longrightarrow> en_published n1 = en_published n"
  by (auto simp: encoder_ensure_buffers_def Let_def split: if_splits prod.splits bool.splits dest!: replace_plane_stream)

lemma create_timing_events_memory: "create_timing_events C rt = (r, rt') \<Longrightarrow> rt_memory rt' = rt_memory rt \<and> rt_floats rt' = rt_floats rt"
  by (auto simp: create_timing_events_def destroy_event_def rt_exec_def rt_call_def Let_def split: if_splits prod.splits)

lemma with_events_Some:
  assumes "with_events C work rt = (Some r, rt')"
  obtains events rt1 rt2 where "work events rt1 = (Some r, rt2)" "rt_memory rt1 = rt_memory rt" "rt_floats rt1 = rt_floats rt"
  using assms create_timing_events_memory [of C rt]
  by (auto simp: with_events_def split: option.splits prod.splits)

lemma encoder_status:
  assumes ok: "encoder_ok n (rt_log rt)" and fair: "\<And>log. fair (ce_device C log)"
    and sh: "ih_shape view = (rows, cols, channels)" "ih_strides view = (strideH, strideW, strideC)"
    and n': "n' = fst (encoder_on_image C sb view n rt)" and published: "en_published n' = en_published n @ [status]"
    and range: "unat (gn_plane n') + (unat cols div 2) * (unat rows div 2) \<le> 2 ^ 64"
    and apart: "\<And>i j. i < picture_bytes (unat strideH) (unat cols) (unat rows) \<Longrightarrow>
        j < (unat cols div 2) * (unat rows div 2) \<Longrightarrow> rh_device_ptr sb (ih_read view) + of_nat i \<noteq> gn_plane n' + of_nat j"
    and small: "(unat cols div 2) * (unat rows div 2) \<le> 2 ^ 32 - 256"
  shows "es_checksum status =
      image_checksum (rt_memory rt) (rh_device_ptr sb (ih_read view)) (unat strideH) (unat cols) (unat rows)
    \<and> unat (es_width status) = unat cols div 2 \<and> unat (es_height status) = unat rows div 2
    \<and> es_header status = ih_header view \<and> encoder_accepts sb view"
proof -
  let ?n = "n\<lparr>gn_received := gn_received n + 1\<rparr>"
  have ok0: "encoder_ok ?n (rt_log rt)" using ok by (simp add: encoder_ok_def node_books_def)
  obtain res1 n1 rt1 where 1: "encoder_ensure_buffers C view ?n rt = (res1, n1, rt1)" by (metis prod_cases3)
  obtain res2 rt2 where 2: "with_events C (encoder_measure C sb view n1) rt1 = (res2, rt2)" by fastforce
  have p0: "en_published n1 = en_published n" using ensure_buffers_published [OF 1] by simp
  have accepts: "encoder_accepts sb view" and res1: res1
    using published p0 by (auto simp: n' encoder_on_image_def Let_def 1 split: if_splits bool.splits)
  obtain checksum ms where r2: "res2 = Some (checksum, ms)"
    using published p0 accepts res1 by (cases res2) (auto simp: n' encoder_on_image_def Let_def 1 2)
  have out: "n' = n1\<lparr>en_host_checksum := checksum, en_published := en_published n1 @
      [\<lparr>es_received = gn_received n1, es_header = ih_header view, es_width = en_output_width n1,
        es_height = en_output_height n1, es_checksum = checksum, es_kernel_ms = ms\<rparr>]\<rparr>"
    using accepts res1 by (simp add: n' encoder_on_image_def Let_def 1 2 r2)
  obtain events rt3 rt4 where 3: "encoder_measure C sb view n1 events rt3 = (Some (checksum, ms), rt4)"
      "rt_memory rt3 = rt_memory rt1"
    by (rule with_events_Some [OF 2 [unfolded r2]])
  have d: "en_output_width n1 = cols div 2" "en_output_height n1 = rows div 2" "rt_memory rt3 = rt_memory rt"
    using ensure_buffers_True [OF sh(1) 1 [simplified res1]] 3(2) by simp_all
  have ok1: "encoder_ok n1 (rt_log rt1)" by (rule encoder_ensure_buffers_ok [OF ok0 1])
  obtain log1 log2 m' where
    l: "launch_rgba_to_luma_downscale2_kernel (ce_device C log1) (rh_device_ptr sb (ih_read view)) (gn_plane n1)
       cols rows strideH (rt_memory rt) = (cudaSuccess, m')"
    and c: "launch_checksum_u8_kernel (ce_device C log2) (gn_plane n1) (en_output_pixel_count n1) (gn_cell n1) m' 0 = (cudaSuccess, checksum)"
    by (rule encoder_measure_Some [OF sh 3(1)]) (rule that, simp_all add: d(3))
  have plane: "gn_plane n1 \<noteq> 0" using l by (auto simp: launch_rgba_to_luma_downscale2_kernel_def split: if_splits)
  have halves: "unat (cols div 2) = unat cols div 2" "unat (rows div 2) = unat rows div 2" by (simp_all add: unat_div)
  have count: "unat (en_output_pixel_count n1) = (unat cols div 2) * (unat rows div 2)"
    using ok1 plane by (simp add: encoder_ok_def d halves)
  have "checksum = image_checksum (rt_memory rt) (rh_device_ptr sb (ih_read view)) (unat strideH) (unat cols) (unat rows)"
    by (rule checksum_of_plane [OF fair fair l c count]) (use small range apart count out in simp_all)
  then show ?thesis using published p0 accepts by (auto simp: out d halves)
qed


section \<open>Properties\<close>

text \<open>
  C22. The encoder never loses a stream, an event or an allocation. In every state its callbacks reach,
  whatever the runtime answers, the streams and the allocations that were created and not given
  back are the ones the node holds, no event is left over, nothing the node holds has been freed, and
  the plane has as many bytes as the remembered dimensions need; the destructor gives back the rest.
\<close>

theorem encoder_keeps_its_books:
  assumes "encoder_reachable C rt0 n rt" "rt_log rt0 = []"
  shows "rt_books (rt_log rt) (handle_set (gn_stream n)) {#} (handle_set (gn_plane n) + handle_set (gn_cell n))
    \<and> (gn_plane n \<noteq> 0 \<longrightarrow> (CudaMalloc (en_output_pixel_count n), cudaSuccess, gn_plane n) \<in> set (rt_log rt)
        \<and> unat (en_output_pixel_count n) = unat (en_output_width n) * unat (en_output_height n))
    \<and> rt_books (rt_log (snd (encoder_cleanup_cuda_state C n rt))) {#} {#} {#}"
proof -
  have ok: "encoder_ok n (rt_log rt)" by (rule encoder_reachable_ok [OF assms])
  then have "node_books n (rt_log rt)" by (simp add: encoder_ok_def)
  from encoder_cleanup_ok [OF this, of C] have "rt_books (rt_log (snd (encoder_cleanup_cuda_state C n rt))) {#} {#} {#}"
    by (metis surjective_pairing)
  with ok show ?thesis by (simp add: encoder_ok_def node_books_def)
qed

definition sample_reply :: "runtime_log \<Rightarrow> runtime_call \<Rightarrow> int \<times> u64" where
  "sample_reply log c = (0, case c of CudaMalloc n \<Rightarrow> if n = 8 then 0x300000 else 0x200000 | CudaStreamCreateWithFlags \<Rightarrow> 5
     | CudaEventCreate \<Rightarrow> 7 | _ \<Rightarrow> 0)"

definition sample_cuda :: "u32 cuda_env" where
  "sample_cuda = \<lparr>ce_reply = sample_reply, ce_device = \<lambda>_. backward_device, ce_floats = fixed_point\<rparr>"

definition sample_runtime :: "u32 runtime" where
  "sample_runtime = \<lparr>rt_log = [], rt_memory = \<lambda>_. 100, rt_words = \<lambda>_. 9, rt_floats = \<lambda>_. 0,
     rt_stats = \<lambda>_. \<lparr>is_mean = 0, is_min = 0, is_max = 0, is_checksum = 0\<rparr>\<rparr>"

text \<open>A message that cannot be mapped leaves the node with its stream.\<close>

definition started_node :: encoder_node where
  "started_node = EncoderLikeNode\<lparr>gn_stream := 5, gn_cell := 0x300000, gn_device_id := 0\<rparr>"

definition started_runtime :: "u32 runtime" where
  "started_runtime = sample_runtime\<lparr>rt_log := [(CudaSetDevice 0, 0, 0), (CudaStreamCreateWithFlags, 0, 5), (CudaMalloc 8, 0, 0x300000)]\<rparr>"

lemmas sample_defs = sample_cuda_def sample_runtime_def sample_reply_def started_node_def started_runtime_def EncoderLikeNode_def

lemma unmapped_message: "image_reader_read E t GpuImage stream sb = (None, sb)"
  by (simp add: image_reader_read_def map_message_def acquire_publication_def map_descriptor_def GpuImage_def BufferCore_def)

lemma started_node_reachable_with:
  "encoder_reachable sample_cuda (sample_runtime\<lparr>rt_memory := f\<rparr>) started_node (started_runtime\<lparr>rt_memory := f\<rparr>)"
proof (rule encoder_reachable.callback [OF encoder_reachable.start])
  show "encoder_callback sample_cuda healthy 0 GpuImage EncoderLikeNode sample_resources (sample_runtime\<lparr>rt_memory := f\<rparr>)
      = (started_node, sample_resources, started_runtime\<lparr>rt_memory := f\<rparr>)"
    by (simp add: encoder_callback_def encoder_ensure_cuda_state_def ensure_gpu_def encoder_cleanup_cuda_state_def
      cleanup_gpu_def rt_call_def Let_def unmapped_message sample_defs)
      (simp add: GpuImage_def BufferCore_def)
qed

lemma started_node_reachable: "encoder_reachable sample_cuda sample_runtime started_node started_runtime"
  using started_node_reachable_with [of "\<lambda>_. 100"] by (simp add: sample_runtime_def started_runtime_def)

theorem encoder_keeps_its_books_witness:
  "rt_books (rt_log (snd (encoder_cleanup_cuda_state sample_cuda started_node started_runtime))) {#} {#} {#}"
  using encoder_keeps_its_books [OF started_node_reachable] by (simp add: sample_runtime_def)

text \<open>
  What the encoder publishes for an image. Whenever a callback publishes a status, the image passed
  every check, the status carries its header and half its dimensions, and the checksum is the one
  of the reduced luma plane of the image's bytes in the mapped buffer, for every order in which the
  device runs the threads. (\<^verbatim>\<open>cudaMalloc\<close> returned a range of device memory that does not meet the
  image's bytes.)
\<close>

theorem encoder_status_is_exact:
  assumes "encoder_reachable C rt0 n rt" "rt_log rt0 = []" "\<And>log. fair (ce_device C log)"
    and "ih_shape view = (rows, cols, channels)" "ih_strides view = (strideH, strideW, strideC)"
    and "n' = fst (encoder_on_image C sb view n rt)" "en_published n' = en_published n @ [status]"
    and "unat (gn_plane n') + (unat cols div 2) * (unat rows div 2) \<le> 2 ^ 64"
    and "\<And>i j. i < picture_bytes (unat strideH) (unat cols) (unat rows) \<Longrightarrow>
        j < (unat cols div 2) * (unat rows div 2) \<Longrightarrow> rh_device_ptr sb (ih_read view) + of_nat i \<noteq> gn_plane n' + of_nat j"
    and "(unat cols div 2) * (unat rows div 2) \<le> 2 ^ 32 - 256"
  shows "es_checksum status =
      image_checksum (rt_memory rt) (rh_device_ptr sb (ih_read view)) (unat strideH) (unat cols) (unat rows)
    \<and> unat (es_width status) = unat cols div 2 \<and> unat (es_height status) = unat rows div 2
    \<and> es_header status = ih_header view \<and> encoder_accepts sb view"
  by (rule encoder_status [OF encoder_reachable_ok [OF assms(1,2)] assms(3-7)]) (use assms(8-10) in blast)+

text \<open>One reduced pixel of a constant grey image.\<close>

theorem encoder_status_is_exact_witness:
  "\<exists>status. en_published (fst (encoder_on_image sample_cuda sample_resources (sample_image 24) started_node started_runtime)) = [status]
    \<and> es_checksum status = 100 \<and> es_width status = 1"
proof -
  let ?n = "fst (encoder_on_image sample_cuda sample_resources (sample_image 24) started_node started_runtime)"
  have "encoder_accepts sample_resources (sample_image 24)"
    using sample_image_checked sample_image_valid [of 24]
    by (simp add: encoder_accepts_def sample_image_def kChannels_def is_supported_rgba8_layout_def kBytesPerPixel_def image_valid_def)
  moreover have shape: "ih_shape (sample_image 24) = (2, 3, 4)" "ih_strides (sample_image 24) = (12, 4, 1)"
    by (simp_all add: sample_image_def)
  moreover have ptr: "rh_device_ptr sample_resources (ih_read (sample_image 24)) = 0x1000"
    by (simp add: sample_image_def sample_resources_def rh_device_ptr_def imported_of_def new_resource_def initial_subscriber_def)
  ultimately have "\<exists>status. en_published ?n = [status]" and plane: "gn_plane ?n = 0x200000"
    by (auto simp: encoder_on_image_def encoder_ensure_buffers_def replace_plane_def with_events_def create_timing_events_def encoder_measure_defs
      attempt_def rt_call_def rt_exec_def Let_def luma_kernel_def checksum_kernel_def rt_note_def elapsed_time_def sample_defs
      launch_rgba_to_luma_downscale2_kernel_def launch_checksum_u8_kernel_def launch_def backward_device_def)
  then obtain status where st: "en_published ?n = [status]" by blast
  have none: "en_published started_node = []" by (simp add: started_node_def EncoderLikeNode_def)
  have apart: "(0x1000 :: u64) + of_nat i \<noteq> 0x200000" if "i < 24" for i
  proof
    assume "(0x1000 :: u64) + of_nat i = 0x200000"
    then have "(0x1000 :: u64) + of_nat i = 0x1000 + of_nat 0x1FF000" by simp
    then have "i = 0x1FF000" using that by (intro of_nat_eq_offset [of "0x1000"]) simp_all
    with that show False by simp
  qed
  have fair: "fair (ce_device sample_cuda log)" for log by (simp add: sample_cuda_def backward_is_fair)
  have "es_checksum status = image_checksum (\<lambda>_. 100) 0x1000 12 3 2 \<and> unat (es_width status) = 1"
    using encoder_status_is_exact [OF started_node_reachable _ fair shape refl, where status = status] st none plane ptr apart
    by (simp add: sample_runtime_def started_runtime_def picture_bytes_def)
  moreover have "image_checksum (\<lambda>_. 100) 0x1000 12 3 2 = 100"
    by (simp add: image_checksum_def luma_average_def luma_at_def Let_def lessThan_Suc)
  ultimately show ?thesis using st by (auto simp: word_unat_eq_iff)
qed

end
