(* ===== verification/Inference_Node.thy ===== *)
theory Inference_Node
  imports Fanout_Nodes
begin

text \<open>
  \<^verbatim>\<open>inference_like_node.cpp\<close>: the image becomes a normalised grey tensor on the device, and the node
  publishes the tensor's statistics. The device state is the one of \<^verbatim>\<open>Fanout_Nodes\<close>, with the
  grey tensor as the plane and the statistics as the cell.
\<close>

section \<open>The node\<close>

record 'f inference_status =
  fs_received :: u64
  fs_header :: ros_header
  fs_stats :: "'f inference_stats"
  fs_kernel_ms :: u64

record 'f inference_node = gpu_node +
  in_gray_element_count :: u64
  in_published :: "'f inference_status list"

definition InferenceLikeNode :: "'f inference_node" where
  "InferenceLikeNode = \<lparr>gn_stream = 0, gn_plane = 0, gn_cell = 0, gn_device_id = - 1, gn_received = 0,
     in_gray_element_count = 0, in_published = []\<rparr>"

text \<open>\<^verbatim>\<open>sizeof(InferenceStats)\<close>: three floats, padding and a 64 bit number.\<close>

definition sizeof_inference_stats :: u64 where "sizeof_inference_stats = 24"

definition inference_cleanup_cuda_state ::
    "'f cuda_env \<Rightarrow> 'f inference_node \<Rightarrow> 'f runtime \<Rightarrow> 'f inference_node \<times> 'f runtime" where
  "inference_cleanup_cuda_state C n rt =
     (let (n1, rt1) = cleanup_gpu C n rt in (n1\<lparr>in_gray_element_count := 0\<rparr>, rt1))"

definition inference_ensure_cuda_state ::
    "'f cuda_env \<Rightarrow> i32 \<Rightarrow> 'f inference_node \<Rightarrow> 'f runtime \<Rightarrow> bool \<times> 'f inference_node \<times> 'f runtime" where
  "inference_ensure_cuda_state C = ensure_gpu C sizeof_inference_stats (inference_cleanup_cuda_state C)"

definition inference_ensure_buffers ::
    "'f cuda_env \<Rightarrow> image_read_handle \<Rightarrow> 'f inference_node \<Rightarrow> 'f runtime \<Rightarrow> bool \<times> 'f inference_node \<times> 'f runtime" where
  "inference_ensure_buffers C view n rt =
     (case ih_shape view of (rows, cols, channels) \<Rightarrow>
        let required_count = ucast rows * ucast cols :: u64
        in if required_count = 0 then (False, n, rt)
        else if gn_plane n \<noteq> 0 \<and> required_count = in_gray_element_count n then (True, n, rt)
        else case replace_plane C (required_count * 4) n rt of
            (False, n1, rt1) \<Rightarrow> (False, n1, rt1)
          | (True, n1, rt1) \<Rightarrow> (True, n1\<lparr>in_gray_element_count := required_count\<rparr>, rt1))"

definition gray_kernel :: "'f cuda_env \<Rightarrow> u64 \<Rightarrow> u64 \<Rightarrow> i32 \<Rightarrow> i32 \<Rightarrow> u64 \<Rightarrow> 'f runtime \<Rightarrow> int \<times> 'f runtime" where
  "gray_kernel C rgba gray width height stride rt =
     (let (err, floats) = launch_rgba_to_normalized_gray_kernel (ce_device C (rt_log rt)) (ce_floats C) (rt_memory rt)
            rgba gray width height stride (rt_floats rt)
      in (err, rt_note (KernelLaunch ''rgba_to_normalized_gray'') err (rt\<lparr>rt_floats := floats\<rparr>)))"

text \<open>The launcher first copies the initial statistics to the device.\<close>

definition stats_kernel :: "'f cuda_env \<Rightarrow> u64 \<Rightarrow> u64 \<Rightarrow> u64 \<Rightarrow> u64 \<Rightarrow> 'f runtime \<Rightarrow> int \<times> 'f runtime" where
  "stats_kernel C input element_count device_stats stream rt =
     (let ((copied, _), rt1) =
        (if input = 0 \<or> device_stats = 0 \<or> element_count = 0 then ((cudaSuccess, 0), rt)
         else rt_call C (CopyToDevice device_stats sizeof_inference_stats stream) rt);
          (err, st) = launch_inference_stats_kernel (ce_device C (rt_log rt1)) (ce_floats C) copied (rt_floats rt1)
            input element_count device_stats (rt_stats rt1 device_stats)
      in (err, rt_note (KernelLaunch ''inference_stats'') err (rt1\<lparr>rt_stats := (rt_stats rt1)(device_stats := st)\<rparr>)))"

definition inference_read_back ::
    "'f cuda_env \<Rightarrow> 'f inference_node \<Rightarrow> u64 \<times> u64 \<Rightarrow> 'f runtime \<Rightarrow> ('f inference_stats \<times> u64) option \<times> 'f runtime" where
  "inference_read_back C n events rt =
     attempt C (CudaEventRecord (snd events) (gn_stream n)) rt (\<lambda>_ rt1.
     attempt C (CudaStreamSynchronize (gn_stream n)) rt1 (\<lambda>_ rt2.
     attempt C (CudaMemcpyToHost (gn_cell n) sizeof_inference_stats) rt2 (\<lambda>_ rt3.
     let (ms, rt4) = elapsed_time C (fst events) (snd events) rt3 in (Some (rt_stats rt3 (gn_cell n), ms), rt4))))"

definition inference_run_kernels ::
    "'f cuda_env \<Rightarrow> subscriber \<Rightarrow> image_read_handle \<Rightarrow> 'f inference_node \<Rightarrow> u64 \<times> u64 \<Rightarrow> 'f runtime
     \<Rightarrow> ('f inference_stats \<times> u64) option \<times> 'f runtime" where
  "inference_run_kernels C sb view n events rt =
     (case (ih_shape view, ih_strides view) of ((rows, cols, channels), (strideH, strideW, strideC)) \<Rightarrow>
        let (err1, rt1) = gray_kernel C (rh_device_ptr sb (ih_read view)) (gn_plane n) (ucast cols) (ucast rows) strideH rt
        in if err1 \<noteq> cudaSuccess then (None, rt1)
        else let (err2, rt2) = stats_kernel C (gn_plane n) (in_gray_element_count n) (gn_cell n) (gn_stream n) rt1
        in if err2 \<noteq> cudaSuccess then (None, rt2) else inference_read_back C n events rt2)"

definition inference_measure ::
    "'f cuda_env \<Rightarrow> subscriber \<Rightarrow> image_read_handle \<Rightarrow> 'f inference_node \<Rightarrow> u64 \<times> u64 \<Rightarrow> 'f runtime
     \<Rightarrow> ('f inference_stats \<times> u64) option \<times> 'f runtime" where
  "inference_measure C sb view n events rt =
     attempt C (CudaEventRecord (fst events) (gn_stream n)) rt (\<lambda>_ rt1. inference_run_kernels C sb view n events rt1)"

lemmas inference_measure_defs = inference_measure_def inference_run_kernels_def inference_read_back_def

definition inference_accepts :: "subscriber \<Rightarrow> image_read_handle \<Rightarrow> bool" where
  "inference_accepts sb view \<longleftrightarrow>
     (case ih_shape view of (rows, cols, channels) \<Rightarrow>
        rh_valid sb (ih_read view) \<and> sanity_check sb view \<and> \<not> (ih_dtype view \<noteq> U8 \<or> channels \<noteq> kChannels)
        \<and> is_supported_rgba8_layout view \<and> \<not> (rows = 0 \<or> cols = 0))"

definition inference_on_image ::
    "'f cuda_env \<Rightarrow> subscriber \<Rightarrow> image_read_handle \<Rightarrow> 'f inference_node \<Rightarrow> 'f runtime \<Rightarrow> 'f inference_node \<times> 'f runtime" where
  "inference_on_image C sb view n0 rt =
     (let n = n0\<lparr>gn_received := gn_received n0 + 1\<rparr>
      in if \<not> inference_accepts sb view then (n, rt)
      else case inference_ensure_buffers C view n rt of
          (False, n1, rt1) \<Rightarrow> (n1, rt1)
        | (True, n1, rt1) \<Rightarrow>
            (case with_events C (inference_measure C sb view n1) rt1 of
               (None, rt2) \<Rightarrow> (n1, rt2)
             | (Some (stats, ms), rt2) \<Rightarrow>
                 (n1\<lparr>in_published := in_published n1 @
                    [\<lparr>fs_received = gn_received n1, fs_header = ih_header view, fs_stats = stats, fs_kernel_ms = ms\<rparr>]\<rparr>, rt2)))"

definition inference_callback ::
    "'f cuda_env \<Rightarrow> env \<Rightarrow> nat \<Rightarrow> gpu_image \<Rightarrow> 'f inference_node \<Rightarrow> subscriber \<Rightarrow> 'f runtime
     \<Rightarrow> 'f inference_node \<times> subscriber \<times> 'f runtime" where
  "inference_callback C E thread message n sb rt =
     (case inference_ensure_cuda_state C (bc_device_id (gi_core message)) n rt of
        (False, n1, rt1) \<Rightarrow> (n1, sb, rt1)
      | (True, n1, rt1) \<Rightarrow>
          (case image_reader_read E thread message (gn_stream n1) sb of
             (None, sb1) \<Rightarrow> (n1, sb1, rt1)
           | (Some view, sb1) \<Rightarrow>
               let (n2, rt2) = inference_on_image C sb1 view n1 rt1 in (n2, rh_destroy E thread (ih_read view) sb1, rt2)))"

section \<open>The books\<close>

lemma rt_books_neutral2:
  "acquires c = None \<Longrightarrow> releases c = None \<Longrightarrow> acquires d = None \<Longrightarrow> releases d = None \<Longrightarrow>
    rt_books (log @ [(c, r), (d, q)]) s e m \<longleftrightarrow> rt_books log s e m"
  using rt_books_neutral [of d "log @ [(c, r)]" q s e m] by simp

lemma gray_kernels_books:
  "gray_kernel C rgba gray width height stride rt = (err, rt') \<Longrightarrow> rt_books (rt_log rt') s e m \<longleftrightarrow> rt_books (rt_log rt) s e m"
  "stats_kernel C input n cell stream rt = (err, rt') \<Longrightarrow> rt_books (rt_log rt') s e m \<longleftrightarrow> rt_books (rt_log rt) s e m"
  by (auto simp: gray_kernel_def stats_kernel_def rt_books_neutral2 split: prod.splits if_splits dest!: rt_call_log)

lemma gray_kernels_grow:
  "gray_kernel C rgba gray width height stride rt = (err, rt') \<Longrightarrow> set (rt_log rt) \<subseteq> set (rt_log rt')"
  "stats_kernel C input n cell stream rt = (err, rt') \<Longrightarrow> set (rt_log rt) \<subseteq> set (rt_log rt')"
  by (auto simp: gray_kernel_def stats_kernel_def split: prod.splits if_splits dest!: rt_call_log)

lemma inference_measure_books:
  assumes "inference_measure C sb view n events rt = (r, rt')" "rt_books (rt_log rt) s e m"
  shows "rt_books (rt_log rt') s e m"
  using assms
  by (auto simp: inference_measure_defs gray_kernels_books elapsed_time_books split: prod.splits if_splits
    elim!: attempt_books)

lemma inference_measure_grows:
  assumes "inference_measure C sb view n events rt = (r, rt')" "x \<in> set (rt_log rt)"
  shows "x \<in> set (rt_log rt')"
  using assms
  by (auto simp: inference_measure_defs split: prod.splits if_splits
    elim!: attempt_grows) (blast dest: gray_kernels_grow elapsed_time_grows)+

definition inference_ok :: "'f inference_node \<Rightarrow> runtime_log \<Rightarrow> bool" where
  "inference_ok n log \<longleftrightarrow> node_books n log
     \<and> (gn_plane n \<noteq> 0 \<longrightarrow> (CudaMalloc (in_gray_element_count n * 4), cudaSuccess, gn_plane n) \<in> set log)"

lemma inference_cleanup_ok:
  assumes "node_books n (rt_log rt)" "inference_cleanup_cuda_state C n rt = (n', rt')"
  shows "rt_books (rt_log rt') {#} {#} {#} \<and> emptied n'"
  using cleanup_gpu_books [OF assms(1), of C] assms(2)
  by (auto simp: inference_cleanup_cuda_state_def emptied_def split: prod.splits)

lemma inference_ensure_state_ok:
  assumes "inference_ok n (rt_log rt)" "inference_ensure_cuda_state C device n rt = (ok, n', rt')"
  shows "inference_ok n' (rt_log rt')"
proof -
  have b: "node_books n (rt_log rt)" using assms(1) by (simp add: inference_ok_def)
  note c = inference_cleanup_ok [OF b, of C] and r = assms(2) [unfolded inference_ensure_cuda_state_def]
  have "node_books n' (rt_log rt')" by (rule ensure_gpu_books [OF b c r])
  moreover have "gn_plane n' = 0 \<or> n' = n \<and> rt' = rt" by (rule ensure_gpu_plane [OF r]) (use c in blast)
  ultimately show ?thesis using assms(1) by (auto simp: inference_ok_def)
qed

lemma inference_ensure_buffers_ok:
  assumes ok: "inference_ok n (rt_log rt)" and r: "inference_ensure_buffers C view n rt = (res, n', rt')"
  shows "inference_ok n' (rt_log rt')"
proof -
  obtain rows cols channels where sh: "ih_shape view = (rows, cols, channels)" by (metis prod_cases3)
  let ?count = "ucast rows * ucast cols :: u64"
  show ?thesis
  proof (cases "?count = 0 \<or> gn_plane n \<noteq> 0 \<and> ?count = in_gray_element_count n")
    case True
    then show ?thesis using r ok by (auto simp: inference_ensure_buffers_def sh Let_def split: if_splits)
  next
    case False
    obtain ok1 n1 rt1 where p: "replace_plane C (?count * 4) n rt = (ok1, n1, rt1)" by (metis prod_cases3)
    have b: "node_books n1 (rt_log rt1)"
      and m: "ok1 \<Longrightarrow> gn_plane n1 = 0 \<or> (CudaMalloc (?count * 4), cudaSuccess, gn_plane n1) \<in> set (rt_log rt1)"
      using replace_plane_books [OF _ p] ok by (simp_all add: inference_ok_def)
    obtain q where n1: "n1 = n\<lparr>gn_plane := q\<rparr>" "ok1 \<or> q = 0 \<or> q = gn_plane n" using replace_plane_stream [OF p] by blast
    have res: "rt' = rt1" "n' = (if ok1 then n1\<lparr>in_gray_element_count := ?count\<rparr> else n1)"
      using r False by (auto simp: inference_ensure_buffers_def sh Let_def p split: bool.splits if_splits)
    show ?thesis
    proof (cases ok1)
      case True
      then show ?thesis using b m by (auto simp: res inference_ok_def node_books_def)
    next
      case False
      have "x \<in> set (rt_log rt1)" if "x \<in> set (rt_log rt)" for x using replace_plane_grows [OF p] that by blast
      then show ?thesis using False b ok n1 by (auto simp: res inference_ok_def)
    qed
  qed
qed

lemma inference_on_image_ok:
  assumes ok: "inference_ok n (rt_log rt)"
  shows "inference_ok (fst (inference_on_image C sb view n rt)) (rt_log (snd (inference_on_image C sb view n rt)))"
proof -
  let ?n = "n\<lparr>gn_received := gn_received n + 1\<rparr>"
  have ok0: "inference_ok ?n (rt_log rt)" using ok by (simp add: inference_ok_def node_books_def)
  obtain res1 n1 rt1 where 1: "inference_ensure_buffers C view ?n rt = (res1, n1, rt1)" by (metis prod_cases3)
  obtain res2 rt2 where 2: "with_events C (inference_measure C sb view n1) rt1 = (res2, rt2)" by fastforce
  have ok1: "inference_ok n1 (rt_log rt1)" by (rule inference_ensure_buffers_ok [OF ok0 1])
  have "node_books n1 (rt_log rt2)"
    using ok1 with_events_books [OF 2 _ inference_measure_books] by (simp add: inference_ok_def node_books_def)
  moreover have "x \<in> set (rt_log rt2)" if "x \<in> set (rt_log rt1)" for x
    by (rule with_events_grows [OF 2 that inference_measure_grows])
  ultimately have ok2: "inference_ok n1 (rt_log rt2)" using ok1 by (auto simp: inference_ok_def)
  show ?thesis
    using ok0 ok1 ok2 1 2
    by (auto simp: inference_on_image_def Let_def inference_ok_def node_books_def split: option.splits bool.splits)
qed

inductive inference_reachable :: "'f cuda_env \<Rightarrow> 'f runtime \<Rightarrow> 'f inference_node \<Rightarrow> 'f runtime \<Rightarrow> bool"
  for C and rt0 where
  start: "inference_reachable C rt0 InferenceLikeNode rt0"
| callback: "inference_reachable C rt0 n rt \<Longrightarrow> inference_callback C E t message n sb rt = (n', sb', rt')
    \<Longrightarrow> inference_reachable C rt0 n' rt'"

lemma inference_reachable_ok:
  assumes "inference_reachable C rt0 n rt" "rt_log rt0 = []"
  shows "inference_ok n (rt_log rt)"
  using assms
proof (induction rule: inference_reachable.induct)
  case start
  then show ?case by (simp add: inference_ok_def node_books_def InferenceLikeNode_def)
next
  case (callback n rt E t message sb n' sb' rt')
  obtain res1 n1 rt1 where 1: "inference_ensure_cuda_state C (bc_device_id (gi_core message)) n rt = (res1, n1, rt1)"
    by (metis prod_cases3)
  have ok1: "inference_ok n1 (rt_log rt1)"
    using inference_ensure_state_ok [OF _ 1] callback by blast
  show ?case
    using callback.hyps(2) ok1 inference_on_image_ok [OF ok1]
    by (auto simp: inference_callback_def 1 split: bool.splits option.splits prod.splits) (metis fst_conv snd_conv)+
qed


section \<open>What the node publishes\<close>

lemma stats_kernel_success:
  assumes "stats_kernel C input n cell stream rt = (cudaSuccess, rt')"
  obtains log copied where
    "launch_inference_stats_kernel (ce_device C log) (ce_floats C) copied (rt_floats rt) input n cell (rt_stats rt cell)
       = (cudaSuccess, rt_stats rt' cell)"
proof -
  obtain copied v rt1 where 1: "(if input = 0 \<or> cell = 0 \<or> n = 0 then ((cudaSuccess, 0), rt)
      else rt_call C (CopyToDevice cell sizeof_inference_stats stream) rt) = ((copied, v), rt1)" by (metis prod.collapse)
  have same: "rt_floats rt1 = rt_floats rt" "rt_stats rt1 = rt_stats rt"
    using 1 by (auto split: if_splits) (metis rt_call_memory(3,4) snd_conv)+
  show thesis
    using assms 1 same by (intro that [of "rt_log rt1" copied]) (auto simp: stats_kernel_def rt_note_def split: prod.splits)
qed

lemma inference_measure_Some:
  assumes sh: "ih_shape view = (rows, cols, channels)" "ih_strides view = (strideH, strideW, strideC)"
    and r: "inference_measure C sb view n events rt = (Some (stats, ms), rt')"
  obtains log1 log2 copied floats st where
    "launch_rgba_to_normalized_gray_kernel (ce_device C log1) (ce_floats C) (rt_memory rt) (rh_device_ptr sb (ih_read view))
       (gn_plane n) (ucast cols) (ucast rows) strideH (rt_floats rt) = (cudaSuccess, floats)"
    "launch_inference_stats_kernel (ce_device C log2) (ce_floats C) copied floats (gn_plane n) (in_gray_element_count n)
       (gn_cell n) st = (cudaSuccess, stats)"
proof -
  obtain v1 rt1 where 1: "inference_run_kernels C sb view n events rt1 = (Some (stats, ms), rt')"
      "rt_memory rt1 = rt_memory rt" "rt_floats rt1 = rt_floats rt"
    by (rule attempt_Some [OF r [unfolded inference_measure_def]])
  obtain err2 rt2 where 2: "gray_kernel C (rh_device_ptr sb (ih_read view)) (gn_plane n) (ucast cols) (ucast rows) strideH rt1 = (err2, rt2)"
    by fastforce
  obtain err3 rt3 where 3: "stats_kernel C (gn_plane n) (in_gray_element_count n) (gn_cell n) (gn_stream n) rt2 = (err3, rt3)" by fastforce
  have ok: "err2 = 0" "err3 = 0" and 4: "inference_read_back C n events rt3 = (Some (stats, ms), rt')"
    using 1(1) 2 3 by (auto simp: inference_run_kernels_def sh split: if_splits)
  have st: "rt_stats rt3 (gn_cell n) = stats"
    using 4 unfolding inference_read_back_def by (elim attempt_Some) (auto split: prod.splits)
  obtain log copied where "launch_inference_stats_kernel (ce_device C log) (ce_floats C) copied (rt_floats rt2) (gn_plane n)
      (in_gray_element_count n) (gn_cell n) (rt_stats rt2 (gn_cell n)) = (cudaSuccess, rt_stats rt3 (gn_cell n))"
    by (rule stats_kernel_success [OF 3 [unfolded ok]])
  moreover have "launch_rgba_to_normalized_gray_kernel (ce_device C (rt_log rt1)) (ce_floats C) (rt_memory rt)
      (rh_device_ptr sb (ih_read view)) (gn_plane n) (ucast cols) (ucast rows) strideH (rt_floats rt) = (cudaSuccess, rt_floats rt2)"
    using 2 ok 1(2,3) by (auto simp: gray_kernel_def rt_note_def split: prod.splits)
  ultimately show thesis using st by (intro that) simp_all
qed

lemma inference_buffers_True:
  assumes sh: "ih_shape view = (rows, cols, channels)"
    and r: "inference_ensure_buffers C view n rt = (True, n1, rt1)"
  shows "in_gray_element_count n1 = ucast rows * ucast cols" "rt_memory rt1 = rt_memory rt" "rt_floats rt1 = rt_floats rt"
proof -
  have "rt_memory rt' = rt_memory rt \<and> rt_floats rt' = rt_floats rt" if "replace_plane C bytes n rt = (ok, n', rt')" for bytes ok n' rt'
    using that by (auto simp: replace_plane_def rt_call_def Let_def split: if_splits prod.splits)
  then show "in_gray_element_count n1 = ucast rows * ucast cols" "rt_memory rt1 = rt_memory rt" "rt_floats rt1 = rt_floats rt"
    using r by (auto simp: inference_ensure_buffers_def sh Let_def split: if_splits prod.splits bool.splits)
qed

lemma inference_buffers_published: "inference_ensure_buffers C view n rt = (res, n1, rt1) \<Longrightarrow> in_published n1 = in_published n"
  by (auto simp: inference_ensure_buffers_def Let_def split: if_splits prod.splits bool.splits dest!: replace_plane_stream)

definition grey_at :: "'f float_ops \<Rightarrow> device_memory \<Rightarrow> u64 \<Rightarrow> nat \<Rightarrow> nat \<Rightarrow> nat \<Rightarrow> 'f" where
  "grey_at F m base stride width i = grey_value F (luma_at m base stride (i mod width, i div width))"

lemma inference_status:
  assumes fair: "\<And>log. fair (ce_device C log)"
    and sh: "ih_shape view = (rows, cols, channels)" "ih_strides view = (strideH, strideW, strideC)"
    and n': "n' = fst (inference_on_image C sb view n rt)" and published: "in_published n' = in_published n @ [status]"
    and range: "unat (gn_plane n') + 4 * (unat cols * unat rows) \<le> 2 ^ 64" and small: "unat cols * unat rows \<le> 2 ^ 32 - 256"
    and g: "g = grey_at (ce_floats C) (rt_memory rt) (rh_device_ptr sb (ih_read view)) (unat strideH) (unat cols)"
  shows "is_min (fs_stats status) =
        Min (insert (fl_bits (ce_floats C) (fl_infinity (ce_floats C))) ((\<lambda>i. fl_bits (ce_floats C) (g i)) ` {..<unat cols * unat rows}))
    \<and> is_max (fs_stats status) =
        Max (insert (fl_bits (ce_floats C) (fl_of_nat (ce_floats C) 0)) ((\<lambda>i. fl_bits (ce_floats C) (g i)) ` {..<unat cols * unat rows}))
    \<and> is_checksum (fs_stats status) = (\<Sum>i < unat cols * unat rows. quantized_value (ce_floats C) (g i) * of_nat (i mod 251 + 1))
    \<and> fs_header status = ih_header view \<and> inference_accepts sb view"
proof -
  let ?n = "n\<lparr>gn_received := gn_received n + 1\<rparr>" and ?N = "unat cols * unat rows"
  obtain res1 n1 rt1 where 1: "inference_ensure_buffers C view ?n rt = (res1, n1, rt1)" by (metis prod_cases3)
  obtain res2 rt2 where 2: "with_events C (inference_measure C sb view n1) rt1 = (res2, rt2)" by fastforce
  have p0: "in_published n1 = in_published n" using inference_buffers_published [OF 1] by simp
  have accepts: "inference_accepts sb view" and res1: res1
    using published p0 by (auto simp: n' inference_on_image_def Let_def 1 split: if_splits bool.splits)
  obtain stats ms where r2: "res2 = Some (stats, ms)"
    using published p0 accepts res1 by (cases res2) (auto simp: n' inference_on_image_def Let_def 1 2)
  have out: "n' = n1\<lparr>in_published := in_published n1 @
      [\<lparr>fs_received = gn_received n1, fs_header = ih_header view, fs_stats = stats, fs_kernel_ms = ms\<rparr>]\<rparr>"
    using accepts res1 by (simp add: n' inference_on_image_def Let_def 1 2 r2)
  obtain events rt3 rt4 where 3: "inference_measure C sb view n1 events rt3 = (Some (stats, ms), rt4)"
      "rt_memory rt3 = rt_memory rt1" "rt_floats rt3 = rt_floats rt1"
    by (rule with_events_Some [OF 2 [unfolded r2]])
  note b = inference_buffers_True [OF sh(1) 1 [simplified res1]]
  obtain log1 log2 copied floats st where
    l: "launch_rgba_to_normalized_gray_kernel (ce_device C log1) (ce_floats C) (rt_memory rt) (rh_device_ptr sb (ih_read view))
       (gn_plane n1) cols rows strideH (rt_floats rt) = (cudaSuccess, floats)"
    and c: "launch_inference_stats_kernel (ce_device C log2) (ce_floats C) copied floats (gn_plane n1) (in_gray_element_count n1)
       (gn_cell n1) st = (cudaSuccess, stats)"
    by (rule inference_measure_Some [OF sh 3(1)]) (rule that, simp_all add: 3 b)
  have count: "unat (in_gray_element_count n1) = ?N" using wide_product [of rows cols] by (simp add: b mult.commute)
  then have cov: "covered_elements (in_gray_element_count n1) = ?N" using covered_all small by simp
  have plane: "floats (gn_plane n1 + 4 * of_nat i) = g i" if "i < ?N" for i
    using grey_plane(1) [OF fair l _ that] range out by (simp add: g grey_at_def)
  have bits: "(\<lambda>i. fl_bits (ce_floats C) (floats (gn_plane n1 + 4 * of_nat i))) ` {..<?N} = (\<lambda>i. fl_bits (ce_floats C) (g i)) ` {..<?N}"
    by (intro image_cong refl) (simp add: plane)
  have total: "(\<Sum>i < ?N. quantized_value (ce_floats C) (floats (gn_plane n1 + 4 * of_nat i)) * of_nat (i mod 251 + 1)) =
      (\<Sum>i < ?N. quantized_value (ce_floats C) (g i) * of_nat (i mod 251 + 1))"
    by (intro sum.cong refl) (simp add: plane)
  have "fs_stats status = stats" "fs_header status = ih_header view" using published p0 by (auto simp: out)
  then show ?thesis using stats_exact [OF fair c] accepts by (simp only: cov bits total)
qed

end
