(* ===== verification/Preview_Node.thy ===== *)
theory Preview_Node
  imports Fanout_Nodes
begin

text \<open>
  \<^verbatim>\<open>preview_node.cpp\<close>: every so many images the node copies the whole image to the host, row by
  row, and publishes it as a \<^verbatim>\<open>sensor_msgs/Image\<close>.
\<close>

section \<open>The node\<close>

record sensor_image =
  si_header :: ros_header
  si_height :: u32
  si_width :: u32
  si_encoding :: string
  si_step :: u32
  si_data :: "u8 list"

record preview_node =
  pv_stream :: u64
  pv_device_id :: i32
  pv_received :: u64
  pv_copy_every_n :: u64
  pv_published :: "sensor_image list"

text \<open>The constructor's \<^verbatim>\<open>copy_every_n\<close>: a parameter that is not positive becomes 1.\<close>

definition PreviewNode :: "i32 \<Rightarrow> preview_node" where
  "PreviewNode copy_every_n = \<lparr>pv_stream = 0, pv_device_id = - 1, pv_received = 0,
     pv_copy_every_n = (if sint copy_every_n > 0 then scast copy_every_n else 1), pv_published = []\<rparr>"

definition preview_ensure_stream ::
    "'f cuda_env \<Rightarrow> i32 \<Rightarrow> preview_node \<Rightarrow> 'f runtime \<Rightarrow> int \<times> preview_node \<times> 'f runtime" where
  "preview_ensure_stream C device_id n rt =
     (if pv_stream n \<noteq> 0 \<and> pv_device_id n = device_id then (cudaSuccess, n, rt)
      else let (n1, rt1) = (if pv_stream n = 0 then (n, rt)
                            else (n\<lparr>pv_stream := 0\<rparr>, rt_exec C (CudaStreamDestroy (pv_stream n)) rt));
               ((set_device_err, _), rt2) = rt_call C (CudaSetDevice device_id) rt1
      in if set_device_err \<noteq> cudaSuccess then (set_device_err, n1, rt2)
      else let ((stream_err, stream), rt3) = rt_call C CudaStreamCreateWithFlags rt2
      in if stream_err \<noteq> cudaSuccess then (stream_err, n1, rt3)
      else (cudaSuccess, n1\<lparr>pv_stream := stream, pv_device_id := device_id\<rparr>, rt3))"

definition preview_accepts :: "subscriber \<Rightarrow> image_read_handle \<Rightarrow> bool" where
  "preview_accepts sb view \<longleftrightarrow>
     (case ih_shape view of (rows, cols, channels) \<Rightarrow>
        rh_valid sb (ih_read view) \<and> sanity_check sb view \<and> \<not> (ih_dtype view \<noteq> U8 \<or> channels \<noteq> kChannels)
        \<and> is_supported_rgba8_layout view)"

text \<open>\<^verbatim>\<open>cudaMemcpy2DAsync\<close> to a packed host buffer: \<open>rows\<close> rows of \<open>width\<close> bytes, \<open>pitch\<close> bytes apart.\<close>

definition copy_rows :: "device_memory \<Rightarrow> u64 \<Rightarrow> nat \<Rightarrow> nat \<Rightarrow> nat \<Rightarrow> u8 list" where
  "copy_rows m src pitch width rows = concat (map (\<lambda>r. map (\<lambda>k. m (src + of_nat (r * pitch + k))) [0..<width]) [0..<rows])"

text \<open>The timed copy; the results of \<^verbatim>\<open>cudaEventRecord\<close> are not looked at.\<close>

definition preview_copy ::
    "'f cuda_env \<Rightarrow> u64 \<Rightarrow> u64 \<Rightarrow> u32 \<Rightarrow> u32 \<Rightarrow> u64 \<Rightarrow> u64 \<times> u64 \<Rightarrow> 'f runtime \<Rightarrow> (u8 list \<times> u64) option \<times> 'f runtime" where
  "preview_copy C data strideH step rows stream events rt =
     (let rt1 = rt_exec C (CudaEventRecord (fst events) stream) rt;
          ((err, _), rt2) = rt_call C (CudaMemcpy2DToHostAsync (ucast step) data strideH (ucast step) (ucast rows)) rt1;
          rt3 = rt_exec C (CudaEventRecord (snd events) stream) rt2
      in if err \<noteq> cudaSuccess then (None, rt3)
      else attempt C (CudaStreamSynchronize stream) rt3 (\<lambda>_ rt4.
        let (ms, rt5) = elapsed_time C (fst events) (snd events) rt4
        in (Some (copy_rows (rt_memory rt4) data (unat strideH) (unat step) (unat rows), ms), rt5)))"

definition preview_on_image ::
    "'f cuda_env \<Rightarrow> subscriber \<Rightarrow> image_read_handle \<Rightarrow> preview_node \<Rightarrow> 'f runtime \<Rightarrow> preview_node \<times> 'f runtime" where
  "preview_on_image C sb view n0 rt =
     (let n = n0\<lparr>pv_received := pv_received n0 + 1\<rparr>
      in if (pv_received n - 1) mod pv_copy_every_n n \<noteq> 0 then (n, rt)
      else if \<not> preview_accepts sb view then (n, rt)
      else case (ih_shape view, ih_strides view) of ((rows, cols, channels), (strideH, strideW, strideC)) \<Rightarrow>
        let step = ucast (ucast cols * kBytesPerPixel) :: u32
        in case with_events C (preview_copy C (rh_device_ptr sb (ih_read view)) strideH step rows (pv_stream n)) rt of
            (None, rt1) \<Rightarrow> (n, rt1)
          | (Some (bytes, ms), rt1) \<Rightarrow>
              (n\<lparr>pv_published := pv_published n @
                 [\<lparr>si_header = ih_header view, si_height = rows, si_width = cols,
                   si_encoding = (if ih_encoding view = [] then ''rgba8'' else ih_encoding view),
                   si_step = step, si_data = bytes\<rparr>]\<rparr>, rt1))"

definition preview_callback ::
    "'f cuda_env \<Rightarrow> env \<Rightarrow> nat \<Rightarrow> gpu_image \<Rightarrow> preview_node \<Rightarrow> subscriber \<Rightarrow> 'f runtime
     \<Rightarrow> preview_node \<times> subscriber \<times> 'f runtime" where
  "preview_callback C E thread message n sb rt =
     (case preview_ensure_stream C (bc_device_id (gi_core message)) n rt of
        (err, n1, rt1) \<Rightarrow>
          if err \<noteq> cudaSuccess then (n1, sb, rt1)
          else case image_reader_read E thread message (pv_stream n1) sb of
             (None, sb1) \<Rightarrow> (n1, sb1, rt1)
           | (Some view, sb1) \<Rightarrow>
               let (n2, rt2) = preview_on_image C sb1 view n1 rt1 in (n2, rh_destroy E thread (ih_read view) sb1, rt2))"

definition preview_destroy :: "'f cuda_env \<Rightarrow> preview_node \<Rightarrow> 'f runtime \<Rightarrow> preview_node \<times> 'f runtime" where
  "preview_destroy C n rt =
     (if pv_stream n = 0 then (n, rt) else (n\<lparr>pv_stream := 0\<rparr>, rt_exec C (CudaStreamDestroy (pv_stream n)) rt))"

section \<open>The copied rows\<close>

lemma length_copy_rows: "length (copy_rows m src pitch width rows) = rows * width"
  by (induction rows) (simp_all add: copy_rows_def)

lemma copy_rows_nth:
  assumes "r < rows" "k < width"
  shows "copy_rows m src pitch width rows ! (r * width + k) = m (src + of_nat (r * pitch + k))"
  using assms(1)
proof (induction rows)
  case (Suc rows)
  let ?row = "map (\<lambda>k. m (src + of_nat (rows * pitch + k))) [0..<width]"
  have split: "copy_rows m src pitch width (Suc rows) = copy_rows m src pitch width rows @ ?row" by (simp add: copy_rows_def)
  have len: "length (copy_rows m src pitch width rows) = rows * width" by (rule length_copy_rows)
  show ?case
  proof (cases "r < rows")
    case True
    have "r * width + k < rows * width"
      using plane_index(1) [OF assms(2) True] by (simp add: mult.commute)
    then show ?thesis using Suc.IH [OF True] by (simp add: split nth_append len)
  next
    case False
    then have "r = rows" using Suc.prems by simp
    then show ?thesis using assms(2) by (simp add: split nth_append len)
  qed
qed simp

lemma step_exact:
  assumes "unat cols < 2 ^ 30"
  shows "unat (ucast (ucast (cols :: u32) * kBytesPerPixel) :: u32) = 4 * unat cols"
proof -
  have "unat (ucast cols * (4 :: u64)) = 4 * unat cols" using assms by (simp add: unat_word_ariths)
  then show ?thesis using assms by (simp add: kBytesPerPixel_def unsigned_ucast_eq take_bit_nat_eq_self)
qed

lemma preview_copy_Some:
  assumes "preview_copy C data strideH step rows stream events rt = (Some (bytes, ms), rt')"
  shows "bytes = copy_rows (rt_memory rt) data (unat strideH) (unat step) (unat rows)"
  using assms
  by (auto simp: preview_copy_def rt_exec_def rt_call_def Let_def split: prod.splits if_splits elim!: attempt_Some)

lemma preview_memory:
  assumes "with_events C (preview_copy C data strideH step rows stream) rt = (Some (bytes, ms), rt')"
  shows "bytes = copy_rows (rt_memory rt) data (unat strideH) (unat step) (unat rows)"
  using assms
  by (rule with_events_Some) (auto dest: preview_copy_Some)


section \<open>The node's stream\<close>

definition preview_books :: "preview_node \<Rightarrow> runtime_log \<Rightarrow> bool" where
  "preview_books n log \<longleftrightarrow> rt_books log (handle_set (pv_stream n)) {#} {#}"

lemma preview_ensure_stream_books:
  assumes b: "preview_books n (rt_log rt)" and r: "preview_ensure_stream C device n rt = (err, n', rt')"
  shows "preview_books n' (rt_log rt')"
proof (cases "pv_stream n \<noteq> 0 \<and> pv_device_id n = device")
  case True
  with b r show ?thesis by (simp add: preview_ensure_stream_def)
next
  case False
  obtain n1 rt1 where 1: "(if pv_stream n = 0 then (n, rt)
      else (n\<lparr>pv_stream := 0\<rparr>, rt_exec C (CudaStreamDestroy (pv_stream n)) rt)) = (n1, rt1)" by fastforce
  obtain e2 v2 rt2 where 2: "rt_call C (CudaSetDevice device) rt1 = ((e2, v2), rt2)" by (metis prod.collapse)
  obtain e3 stream rt3 where 3: "rt_call C CudaStreamCreateWithFlags rt2 = ((e3, stream), rt3)" by (metis prod.collapse)
  have n1: "pv_stream n1 = 0" using 1 by (auto split: if_splits)
  have b1: "rt_books (rt_log rt1) {#} {#} {#}"
    using b 1 rt_books_exec_destroy(1) [of rt "{#}" "pv_stream n"] by (auto simp: preview_books_def split: if_splits)
  have b2: "rt_books (rt_log rt2) {#} {#} {#}" using b1 rt_call_log [OF 2] by simp
  have b3: "rt_books (rt_log rt3) (if e3 = 0 then handle_set stream else {#}) {#} {#}"
    using b2 rt_books_acquired(1) [OF b2, of stream] rt_call_log [OF 3] by simp
  show ?thesis
    using r False 1 2 3 n1 b2 b3 by (auto simp: preview_ensure_stream_def preview_books_def split: if_splits)
qed

lemma preview_copy_books:
  assumes "preview_copy C data strideH step rows stream events rt = (r, rt')" "rt_books (rt_log rt) s e m"
  shows "rt_books (rt_log rt') s e m"
  using assms
  by (auto simp: preview_copy_def elapsed_time_books Let_def split: prod.splits if_splits elim!: attempt_books dest!: rt_call_log)

lemma preview_on_image_books:
  assumes "preview_books n (rt_log rt)"
  shows "preview_books (fst (preview_on_image C sb view n rt)) (rt_log (snd (preview_on_image C sb view n rt)))"
  using assms with_events_books [OF _ _ preview_copy_books]
  by (auto simp: preview_on_image_def preview_books_def Let_def split: prod.splits option.splits)

inductive preview_reachable :: "'f cuda_env \<Rightarrow> 'f runtime \<Rightarrow> preview_node \<Rightarrow> 'f runtime \<Rightarrow> bool"
  for C and rt0 where
  start: "preview_reachable C rt0 (PreviewNode copy_every_n) rt0"
| callback: "preview_reachable C rt0 n rt \<Longrightarrow> preview_callback C E t message n sb rt = (n', sb', rt')
    \<Longrightarrow> preview_reachable C rt0 n' rt'"

lemma preview_reachable_books:
  assumes "preview_reachable C rt0 n rt" "rt_log rt0 = []"
  shows "preview_books n (rt_log rt) \<and> rt_books (rt_log (snd (preview_destroy C n rt))) {#} {#} {#}"
proof -
  have "preview_books n (rt_log rt)"
    using assms
  proof (induction rule: preview_reachable.induct)
    case (start copy_every_n)
    then show ?case by (simp add: preview_books_def PreviewNode_def)
  next
    case (callback n rt E t message sb n' sb' rt')
    obtain err n1 rt1 where 1: "preview_ensure_stream C (bc_device_id (gi_core message)) n rt = (err, n1, rt1)"
      by (metis prod_cases3)
    have b1: "preview_books n1 (rt_log rt1)" using preview_ensure_stream_books [OF _ 1] callback by blast
    show ?case
      using callback.hyps(2) b1 preview_on_image_books [OF b1]
      by (auto simp: preview_callback_def 1 split: if_splits option.splits prod.splits) (metis fst_conv snd_conv)+
  qed
  then show ?thesis
    using rt_books_exec_destroy(1) [of rt "{#}" "pv_stream n" "{#}" "{#}" C]
    by (auto simp: preview_books_def preview_destroy_def)
qed

section \<open>The published bytes\<close>

lemma preview_pixels:
  assumes "ih_shape view = (rows, cols, channels)" "ih_strides view = (strideH, strideW, strideC)"
    and "pv_published (fst (preview_on_image C sb view n rt)) = pv_published n @ [img]"
  shows "preview_accepts sb view \<and> si_header img = ih_header view \<and> si_height img = rows \<and> si_width img = cols
    \<and> length (si_data img) = unat rows * unat (si_step img)
    \<and> (unat cols < 2 ^ 30 \<longrightarrow> unat (si_step img) = 4 * unat cols
        \<and> (\<forall>x y k. x < unat cols \<and> y < unat rows \<and> k < 4 \<longrightarrow>
            si_data img ! (y * unat (si_step img) + 4 * x + k)
              = rt_memory rt (rh_device_ptr sb (ih_read view) + of_nat (pixel_byte_offset (unat strideH) (x, y) k))
          \<and> pixel_byte_offset (unat strideH) (x, y) k < unat (rh_byte_size (ih_read view))))
    \<and> (2 ^ 30 \<le> unat cols \<longrightarrow> unat (si_step img) \<noteq> 4 * unat cols)"
proof -
  let ?n = "n\<lparr>pv_received := pv_received n + 1\<rparr>" and ?step = "ucast (ucast cols * kBytesPerPixel) :: u32"
  let ?copy = "preview_copy C (rh_device_ptr sb (ih_read view)) strideH ?step rows (pv_stream n)"
  obtain r rt1 where 1: "with_events C ?copy rt = (r, rt1)" by fastforce
  have accepts: "preview_accepts sb view"
    using assms by (auto simp: preview_on_image_def Let_def split: if_splits)
  obtain bytes ms where r: "r = Some (bytes, ms)"
    using assms 1 by (cases r) (auto simp: preview_on_image_def Let_def split: if_splits)
  have img: "img = \<lparr>si_header = ih_header view, si_height = rows, si_width = cols,
      si_encoding = (if ih_encoding view = [] then ''rgba8'' else ih_encoding view), si_step = ?step, si_data = bytes\<rparr>"
    using assms 1 r accepts by (auto simp: preview_on_image_def Let_def split: if_splits)
  have bytes: "bytes = copy_rows (rt_memory rt) (rh_device_ptr sb (ih_read view)) (unat strideH) (unat ?step) (unat rows)"
    by (rule preview_memory [OF 1 [unfolded r]])
  have layout: "sanity_check sb view" "ih_dtype view = U8" "channels = 4" "strideW = 4" "strideC = 1"
    using accepts by (simp_all add: preview_accepts_def assms kChannels_def is_supported_rgba8_layout_def kBytesPerPixel_def Let_def)
  have inside: "pixel_byte_offset (unat strideH) (x, y) k < unat (rh_byte_size (ih_read view))"
    if "x < unat cols" "y < unat rows" "k < 4" for x y k
  proof -
    have "in_shape (ih_shape view) (y, x, k)" using that by (simp add: in_shape_def assms layout(3))
    moreover have "element_offset (ih_strides view) (y, x, k) = pixel_byte_offset (unat strideH) (x, y) k"
      by (simp add: element_offset_def assms layout pixel_byte_offset_def mult.commute)
    ultimately show ?thesis using layout(1,2) unfolding layout_check_exact by fastforce
  qed
  have pixel: "bytes ! (y * unat ?step + 4 * x + k)
      = rt_memory rt (rh_device_ptr sb (ih_read view) + of_nat (pixel_byte_offset (unat strideH) (x, y) k))"
    if "x < unat cols" "y < unat rows" "k < 4" "unat cols < 2 ^ 30" for x y k
  proof -
    have "4 * x + k < unat ?step" using that step_exact [OF that(4)] by simp
    then show ?thesis
      using copy_rows_nth [OF that(2), of "4 * x + k" "unat ?step"] by (simp only: bytes pixel_byte_offset_def add.assoc fst_conv snd_conv)
  qed
  have wide: "unat ?step \<noteq> 4 * unat cols" if "2 ^ 30 \<le> unat cols"
    using unat_bound32 [of ?step] that by simp
  show ?thesis using accepts inside pixel wide step_exact [of cols] by (simp add: img bytes length_copy_rows)
qed

section \<open>Properties\<close>

text \<open>
  The preview is the image. What the node publishes passed every check, has the image's header and
  dimensions and as many bytes as its step and height say; up to \<open>2 ^ 30 - 1\<close> columns, byte \<open>k\<close> of
  pixel (\<open>x\<close>, \<open>y\<close>) is the byte the kernels of the other nodes read, from inside the mapped buffer. With
  more columns the 32 bit step is not the length of a row.
\<close>

theorem preview_publishes_the_pixels:
  assumes "ih_shape view = (rows, cols, channels)" "ih_strides view = (strideH, strideW, strideC)"
    and "pv_published (fst (preview_on_image C sb view n rt)) = pv_published n @ [img]"
  shows "preview_accepts sb view \<and> si_header img = ih_header view \<and> si_height img = rows \<and> si_width img = cols
    \<and> length (si_data img) = unat rows * unat (si_step img)
    \<and> (unat cols < 2 ^ 30 \<longrightarrow> unat (si_step img) = 4 * unat cols
        \<and> (\<forall>x y k. x < unat cols \<and> y < unat rows \<and> k < 4 \<longrightarrow>
            si_data img ! (y * unat (si_step img) + 4 * x + k)
              = rt_memory rt (rh_device_ptr sb (ih_read view) + of_nat (pixel_byte_offset (unat strideH) (x, y) k))
          \<and> pixel_byte_offset (unat strideH) (x, y) k < unat (rh_byte_size (ih_read view))))
    \<and> (2 ^ 30 \<le> unat cols \<longrightarrow> unat (si_step img) \<noteq> 4 * unat cols)"
  by (rule preview_pixels [OF assms])

lemma sample_image_ptr: "rh_device_ptr sample_resources (ih_read (sample_image n)) = 0x1000"
  by (simp add: sample_image_def sample_resources_def rh_device_ptr_def imported_of_def new_resource_def initial_subscriber_def)

theorem preview_publishes_the_pixels_witness:
  "\<exists>img. pv_published (fst (preview_on_image sample_cuda sample_resources (sample_image 24) (PreviewNode 1) sample_runtime)) = [img]
    \<and> length (si_data img) = 24 \<and> si_data img ! 19 = 100"
proof -
  have shape: "ih_shape (sample_image 24) = (2, 3, 4)" "ih_strides (sample_image 24) = (12, 4, 1)"
    by (simp_all add: sample_image_def)
  have "preview_accepts sample_resources (sample_image 24)"
    using sample_image_checked sample_image_valid [of 24]
    by (simp add: preview_accepts_def sample_image_def kChannels_def is_supported_rgba8_layout_def kBytesPerPixel_def image_valid_def)
  then obtain img where img: "pv_published (fst (preview_on_image sample_cuda sample_resources (sample_image 24) (PreviewNode 1) sample_runtime)) = [img]"
    by (auto simp: preview_on_image_def PreviewNode_def shape with_events_def create_timing_events_def preview_copy_def attempt_def
      rt_call_def rt_exec_def elapsed_time_def Let_def sample_defs)
  have none: "pv_published (PreviewNode 1) = []" by (simp add: PreviewNode_def)
  have "pv_published (fst (preview_on_image sample_cuda sample_resources (sample_image 24) (PreviewNode 1) sample_runtime))
      = pv_published (PreviewNode 1) @ [img]" by (simp add: img none)
  note pixels = preview_publishes_the_pixels [OF shape this]
  have memory: "rt_memory sample_runtime a = 100" for a by (simp add: sample_runtime_def)
  have size: "unat (si_step img) = 12" "length (si_data img) = 24" using pixels by simp_all
  have "\<forall>x y k. x < 3 \<and> y < 2 \<and> k < 4 \<longrightarrow> si_data img ! (y * 12 + 4 * x + k) = 100"
    using pixels unfolding memory size by simp
  from this [rule_format, of 1 1 3] have "si_data img ! 19 = 100" by simp
  with size have "length (si_data img) = 24 \<and> si_data img ! 19 = 100" by simp
  then show ?thesis using img by simp
qed

end
