(* ===== verification/Fanout_Publisher.thy ===== *)
theory Fanout_Publisher
  imports Inference_Node Preview_Node Gpu_Buffer_Manager
begin

text \<open>
  \<^verbatim>\<open>gpu_image_publisher.cpp\<close>: the publisher of the example reserves a block, draws the test pattern
  into it, prepares the publication and publishes the image message. Its counterpart at the
  subscribers is the layout that the three consumers accept.
\<close>

section \<open>The node\<close>

record image_publisher =
  ip_stream :: u64
  ip_frame_index :: u64
  ip_width :: u32
  ip_height :: u32
  ip_frame_id :: string
  ip_encoding :: string
  ip_manager :: gpu_buffer_manager
  ip_published :: "gpu_image list"

text \<open>What the constructor throws.\<close>

datatype (plugins only: code) publisher_error = BadSize | BadBlockCount | CudaFailed int | ManagerFailed | AllocationException

definition frame_size :: "u32 \<Rightarrow> u32 \<Rightarrow> u64" where
  "frame_size width height = ucast width * ucast height * kBytesPerPixel"

text \<open>
  The constructor up to the ROS entities. A constructor that throws destroys the manager it had
  created.
\<close>

definition GpuImagePublisherNode ::
    "'f cuda_env \<Rightarrow> env \<Rightarrow> nat \<Rightarrow> u32 \<Rightarrow> i32 \<Rightarrow> i32 \<Rightarrow> i32 \<Rightarrow> i32 \<Rightarrow> string \<Rightarrow> string \<Rightarrow> world \<Rightarrow> 'f runtime
     \<Rightarrow> (publisher_error + image_publisher) \<times> world \<times> 'f runtime" where
  "GpuImagePublisherNode C E thread pid width height block_count device_index encoding frame_id w rt =
     (if sint width \<le> 0 \<or> sint height \<le> 0 then (Inl BadSize, w, rt)
      else if sint block_count \<le> 0 then (Inl BadBlockCount, w, rt)
      else let ((set_err, _), rt1) = rt_call C (CudaSetDevice device_index) rt
      in if set_err \<noteq> cudaSuccess then (Inl (CudaFailed set_err), w, rt1)
      else case manager_initialise E thread (GpuBufferManager (scast block_count) (frame_size width height) device_index pid) w of
          ((r, m), w1) \<Rightarrow>
            if r \<noteq> Allocated
            then (Inl (if r = AllocationFailed then ManagerFailed else AllocationException), snd (manager_reset E thread m w1), rt1)
            else let ((stream_err, stream), rt2) = rt_call C CudaStreamCreateWithFlags rt1
            in if stream_err \<noteq> cudaSuccess then (Inl (CudaFailed stream_err), snd (manager_reset E thread m w1), rt2)
            else (Inr \<lparr>ip_stream = stream, ip_frame_index = 0, ip_width = width, ip_height = height, ip_frame_id = frame_id,
                       ip_encoding = encoding, ip_manager = m, ip_published = []\<rparr>, w1, rt2))"

definition pattern_kernel :: "'f cuda_env \<Rightarrow> u64 \<Rightarrow> i32 \<Rightarrow> i32 \<Rightarrow> u64 \<Rightarrow> u64 \<Rightarrow> 'f runtime \<Rightarrow> int \<times> 'f runtime" where
  "pattern_kernel C ptr width height stride frame rt =
     (let (err, m) = launch_generate_rgba_pattern_kernel (ce_device C (rt_log rt)) ptr width height stride frame (rt_memory rt)
      in (err, rt_note (KernelLaunch ''generate_rgba_pattern'') err (rt\<lparr>rt_memory := m\<rparr>)))"

text \<open>The message of \<open>on_timer\<close>; \<open>stamp\<close> is \<^verbatim>\<open>now()\<close>.\<close>

definition frame_message :: "i32 \<times> u32 \<Rightarrow> buffer_descriptor \<Rightarrow> image_publisher \<Rightarrow> gpu_image" where
  "frame_message stamp descriptor p =
     GpuImage\<lparr>gi_core := fill_buffer_core_message descriptor (gi_core GpuImage), gi_dtype := byte_of_dtype U8,
       gi_shape := (ip_height p, ip_width p, kDefaultChannels),
       gi_strides := (ucast (ip_width p) * kBytesPerPixel, ucast kDefaultChannels, 1), gi_encoding := ip_encoding p,
       gi_header := \<lparr>rh_sec = fst stamp, rh_nanosec = snd stamp, rh_frame_id = ip_frame_id p\<rparr>\<rparr>"

text \<open>The block is destroyed on every way out, which cancels a reservation that was not committed.\<close>

definition on_timer ::
    "'f cuda_env \<Rightarrow> env \<Rightarrow> nat \<Rightarrow> i32 \<times> u32 \<Rightarrow> image_publisher \<Rightarrow> world \<Rightarrow> 'f runtime \<Rightarrow> image_publisher \<times> world \<times> 'f runtime" where
  "on_timer C E thread stamp p w rt =
     (case acquire_for_publish E (ip_manager p) w of
        ((None, m), w1) \<Rightarrow> (p\<lparr>ip_manager := m\<rparr>, w1, rt)
      | ((Some blk, m), w1) \<Rightarrow>
          let p1 = p\<lparr>ip_manager := m\<rparr>;
              (ptr, s2) = pb_device_ptr E m blk (fst w1); w2 = (s2, snd w1);
              (error, rt1) = pattern_kernel C ptr (ip_width p) (ip_height p) (ucast (ip_width p) * kBytesPerPixel) (ip_frame_index p) rt
          in if error \<noteq> cudaSuccess then (p1, (fst w2, pb_destroy m blk (snd w2)), rt1)
          else case prepare_publish E thread m (ip_stream p) blk w2 of
              ((Inl _, blk'), w3) \<Rightarrow> (p1, (fst w3, pb_destroy m blk' (snd w3)), rt1)
            | ((Inr descriptor, blk'), w3) \<Rightarrow>
                (p1\<lparr>ip_published := ip_published p @ [frame_message stamp descriptor p], ip_frame_index := ip_frame_index p + 1\<rparr>,
                 (fst w3, pb_destroy m blk' (snd w3)), rt1))"

definition publisher_destroy ::
    "'f cuda_env \<Rightarrow> env \<Rightarrow> nat \<Rightarrow> image_publisher \<Rightarrow> world \<Rightarrow> 'f runtime \<Rightarrow> image_publisher \<times> world \<times> 'f runtime" where
  "publisher_destroy C E thread p w rt =
     (let rt1 = (if ip_stream p = 0 then rt else rt_exec C (CudaStreamDestroy (ip_stream p)) rt);
          (m, w1) = manager_reset E thread (ip_manager p) w
      in (p\<lparr>ip_stream := 0, ip_manager := m\<rparr>, w1, rt1))"

section \<open>Facts\<close>

text \<open>What stays as the constructor set it.\<close>

definition publisher_ok :: "image_publisher \<Rightarrow> bool" where
  "publisher_ok p \<longleftrightarrow> 0 < sint (ip_width p) \<and> 0 < sint (ip_height p)
     \<and> gp_byte_size (gm_pool (ip_manager p)) = frame_size (ip_width p) (ip_height p)"

lemma reserve_from_keeps_size: "gp_byte_size (snd (fst (reserve_from E p i w))) = gp_byte_size p"
proof (induction E p i w rule: reserve_from.induct)
  case (1 E p i w)
  show ?case
    by (subst reserve_from.simps) (auto simp: Let_def 1 split: option.splits prod.splits)
qed

lemma acquire_keeps_size:
  assumes "acquire_for_publish E m w = ((r, m'), w')"
  shows "gp_byte_size (gm_pool m') = gp_byte_size (gm_pool m)"
proof -
  have "gp_byte_size (snd (fst (pool_reserve_for_publish E (gm_pool m) w))) = gp_byte_size (gm_pool m)"
    by (auto simp: pool_reserve_for_publish_def Let_def reserve_from_keeps_size split: prod.splits)
  then show ?thesis using assms
    by (auto simp: acquire_for_publish_def split: if_splits prod.splits option.splits)
qed


lemma allocate_keeps_size: "allocate_blocks E t p s = ((r, p'), s') \<Longrightarrow> gp_byte_size p' = gp_byte_size p"
  by (auto simp: allocate_blocks_def split: option.splits prod.splits alloc_result.splits if_splits)

lemma initialise_sets_size:
  assumes "manager_initialise E t m w = ((Allocated, m'), w')"
  shows "gp_byte_size (gm_pool m') = gm_byte_size m"
proof -
  obtain m1 w1 where 1: "manager_reset E t m w = (m1, w1)" by (metis surj_pair)
  have "gm_byte_size m1 = gm_byte_size m" using 1 by (auto simp: manager_reset_def split: prod.splits)
  moreover obtain p' where "initialise E t (gm_byte_size m1) (gm_device_index m1) (gm_pool m1) w1 = ((Allocated, p'), w')"
      "m' = m1\<lparr>gm_pool := p'\<rparr>"
    using assms 1 by (auto simp: manager_initialise_def split: prod.splits)
  moreover from this(1) have "gp_byte_size p' = gm_byte_size m1"
    by (auto simp: initialise_def Let_def split: if_splits sum.splits prod.splits alloc_result.splits dest!: allocate_keeps_size)
  ultimately show ?thesis by simp
qed

lemma constructed_ok: "GpuImagePublisherNode C E t pid width height blocks device encoding frame_id w rt = (Inr p, w', rt') \<Longrightarrow> publisher_ok p"
  by (auto simp: GpuImagePublisherNode_def publisher_ok_def GpuBufferManager_def split: if_splits prod.splits dest!: initialise_sets_size)

lemma on_timer_ok: "publisher_ok p \<Longrightarrow> on_timer C E t stamp p w rt = (p', w', rt') \<Longrightarrow> publisher_ok p'"
  by (auto simp: on_timer_def publisher_ok_def Let_def split: option.splits prod.splits if_splits sum.splits dest!: acquire_keeps_size)

inductive publisher_reachable :: "'f cuda_env \<Rightarrow> env \<Rightarrow> image_publisher \<Rightarrow> world \<Rightarrow> 'f runtime \<Rightarrow> bool"
  for C E where
  constructed: "GpuImagePublisherNode C E t pid width height blocks device encoding frame_id w0 rt0 = (Inr p, w, rt)
    \<Longrightarrow> publisher_reachable C E p w rt"
| timer: "publisher_reachable C E p w0 rt0 \<Longrightarrow> on_timer C E t stamp p w rt = (p', w', rt') \<Longrightarrow> publisher_reachable C E p' w' rt'"

lemma publisher_reachable_ok: "publisher_reachable C E p w rt \<Longrightarrow> publisher_ok p"
  by (induction rule: publisher_reachable.induct) (blast intro: constructed_ok on_timer_ok)+

lemma on_timer_published:
  assumes r: "on_timer C E t stamp p w rt = (p', w', rt')" and published: "ip_published p' = ip_published p @ [msg]"
    and acquired: "acquire_for_publish E (ip_manager p) w = ((Some blk, m), w1)" and ptr: "pb_device_ptr E m blk (fst w1) = (ptr, s2)"
  obtains descriptor where "msg = frame_message stamp descriptor p" "bd_byte_size descriptor = gp_byte_size (gm_pool (ip_manager p))"
    "launch_generate_rgba_pattern_kernel (ce_device C (rt_log rt)) ptr (ip_width p) (ip_height p)
       (ucast (ip_width p) * kBytesPerPixel) (ip_frame_index p) (rt_memory rt) = (cudaSuccess, rt_memory rt')"
proof -
  obtain err rt1 where k: "pattern_kernel C ptr (ip_width p) (ip_height p) (ucast (ip_width p) * kBytesPerPixel)
      (ip_frame_index p) rt = (err, rt1)" by fastforce
  obtain result blk' s3 sh3 where d: "prepare_publish E t m (ip_stream p) blk (s2, snd w1) = ((result, blk'), (s3, sh3))"
    by (metis prod.collapse)
  have ok: "err = 0" and rt1: "rt' = rt1" using r published by (auto simp: on_timer_def acquired ptr k d Let_def split: if_splits sum.splits)
  obtain descriptor where res: "result = Inr descriptor" and msg: "msg = frame_message stamp descriptor p"
    using r published ok by (cases result) (auto simp: on_timer_def acquired ptr k d Let_def)
  obtain sa sb where "try_build_descriptor E (gm_pool m) (pb_reservation blk) sa = (Some descriptor, sb)"
    by (rule prepare_publish_InrE [OF d [unfolded res]])
  then have "bd_byte_size descriptor = gp_byte_size (gm_pool m)" by (rule try_build_descriptor_Some) simp
  then have size: "bd_byte_size descriptor = gp_byte_size (gm_pool (ip_manager p))" using acquire_keeps_size [OF acquired] by simp
  have "launch_generate_rgba_pattern_kernel (ce_device C (rt_log rt)) ptr (ip_width p) (ip_height p)
       (ucast (ip_width p) * kBytesPerPixel) (ip_frame_index p) (rt_memory rt) = (cudaSuccess, rt_memory rt')"
    using k ok by (auto simp: rt1 pattern_kernel_def rt_note_def split: prod.splits)
  with msg size show thesis by (rule that)
qed


lemma frame_size_exact:
  assumes "0 < sint (width :: u32)" "0 < sint (height :: u32)"
  shows "unat (frame_size width height) = 4 * (unat width * unat height)"
    "unat (ucast width * kBytesPerPixel) = 4 * unat width"
proof -
  have w: "unat width < 2 ^ 31" and h: "unat height < 2 ^ 31" using assms by (blast dest: positive_i32)+
  show "unat (ucast width * kBytesPerPixel) = 4 * unat width" using w by (simp add: kBytesPerPixel_def unat_word_ariths)
  have "unat width \<le> 2 ^ 31 - 1" "unat height \<le> 2 ^ 31 - 1" using w h by simp_all
  then have "unat width * unat height \<le> (2 ^ 31 - 1) * (2 ^ 31 - 1)" by (rule mult_le_mono)
  moreover have "4 * ((2 ^ 31 - 1) * (2 ^ 31 - 1)) < (2 :: nat) ^ 64" by simp
  ultimately have "4 * (unat width * unat height) < 2 ^ 64" by linarith
  moreover have "frame_size width height = 4 * (ucast width * ucast height)" by (simp add: frame_size_def kBytesPerPixel_def)
  ultimately show "unat (frame_size width height) = 4 * (unat width * unat height)"
    using wide_product [of width height] unat_word_ariths(2) [of 4 "ucast width * ucast height :: u64"] by simp
qed

lemma frame_accepted:
  assumes ok: "publisher_ok p" and size: "bd_byte_size descriptor = gp_byte_size (gm_pool (ip_manager p))"
    and msg: "msg = frame_message stamp descriptor p" and view: "view = image_of_message msg (Some i)"
    and valid: "rh_valid sb (Some i)" "ri_byte_size i = bc_byte_size (gi_core msg)"
  shows "inference_accepts sb view \<and> preview_accepts sb view
    \<and> (encoder_accepts sb view \<longleftrightarrow> 2 \<le> unat (ip_width p) \<and> 2 \<le> unat (ip_height p))"
proof -
  let ?w = "unat (ip_width p)" and ?h = "unat (ip_height p)"
  have pos: "0 < sint (ip_width p)" "0 < sint (ip_height p)" using ok by (simp_all add: publisher_ok_def)
  have nz: "0 < ?w" "0 < ?h" using pos by (blast dest: positive_i32)+
  have "ri_byte_size i = frame_size (ip_width p) (ip_height p)"
    using valid(2) size ok by (simp add: msg frame_message_def fill_buffer_core_message_def publisher_ok_def)
  then have bytes: "unat (rh_byte_size (ih_read view)) = 4 * (?w * ?h)"
    using frame_size_exact(1) [OF pos] by (simp add: view image_of_message_def rh_byte_size_def)
  have shape: "ih_shape view = (ip_height p, ip_width p, 4)" "ih_strides view = (ucast (ip_width p) * kBytesPerPixel, 4, 1)"
      "ih_dtype view = U8" "ih_read view = Some i"
    by (simp_all add: view image_of_message_def msg frame_message_def kDefaultChannels_def dtype_of_byte_def)
  have inside: "element_offset (ih_strides view) e + 1 \<le> 4 * (?w * ?h)" if "in_shape (ih_shape view) e" for e
  proof -
    obtain r c k where e: "e = (r, c, k)" by (metis prod_cases3)
    have b: "r < ?h" "c < ?w" "k < 4" using that by (simp_all add: e shape in_shape_def)
    have "pixel_byte_offset (4 * ?w) (c, r) k < 4 * ?w * ?h" using b by (intro row_byte_bound [of ?w]) simp_all
    moreover have "element_offset (ih_strides view) e = pixel_byte_offset (4 * ?w) (c, r) k"
      by (simp only: e shape element_offset_def prod.case frame_size_exact(2) [OF pos] pixel_byte_offset_def fst_conv snd_conv) simp
    ultimately show ?thesis by (simp add: mult.assoc)
  qed
  have iv: "image_valid sb view" using valid(1) nz by (simp add: image_valid_def shape word_less_nat_alt)
  have sane: "sanity_check sb view"
    unfolding layout_check_exact using iv inside by (simp add: shape(3) bytes)
  have two: "n < 2 \<longleftrightarrow> \<not> 2 \<le> unat n" for n :: u32 by (simp add: word_less_nat_alt not_le)
  have "is_supported_rgba8_layout view" by (simp add: is_supported_rgba8_layout_def shape kBytesPerPixel_def Let_def)
  then show ?thesis
    using sane valid(1) nz
    by (auto simp: inference_accepts_def preview_accepts_def encoder_accepts_def shape(1,3,4) kChannels_def two)
qed


text \<open>The block behind a published message holds the pattern.\<close>

lemma published_frame:
  assumes "publisher_ok p" "\<And>log. fair (ce_device C log)"
    and "on_timer C E t stamp p w rt = (p', w', rt')" "ip_published p' = ip_published p @ [msg]"
    and "acquire_for_publish E (ip_manager p) w = ((Some blk, m), w1)" "pb_device_ptr E m blk (fst w1) = (ptr, s2)"
    and "unat ptr + 4 * (unat (ip_width p) * unat (ip_height p)) \<le> 2 ^ 64"
    and "x < unat (ip_width p)" "y < unat (ip_height p)" "k < 4"
  shows "rt_memory rt' (ptr + of_nat (pixel_byte_offset (4 * unat (ip_width p)) (x, y) k)) = pattern_byte (ip_frame_index p) (x, y) k"
proof -
  obtain descriptor where l: "launch_generate_rgba_pattern_kernel (ce_device C (rt_log rt)) ptr (ip_width p) (ip_height p)
       (ucast (ip_width p) * kBytesPerPixel) (ip_frame_index p) (rt_memory rt) = (cudaSuccess, rt_memory rt')"
    by (rule on_timer_published [OF assms(3-6)])
  have pos: "0 < sint (ip_width p)" "0 < sint (ip_height p)" using assms(1) by (simp_all add: publisher_ok_def)
  note stride = frame_size_exact(2) [OF pos]
  show ?thesis
    using pattern_frame(1) [OF assms(2) l, of "(x, y)" k] assms(7-) by (simp only: stride fst_conv snd_conv mult.assoc order_refl)
qed

section \<open>Properties\<close>

text \<open>
  C19. The example's frames reach its consumers. A message that the timer publishes follows a drawn
  frame: every byte of the block is the pattern of the frame's number. And a subscriber that maps the
  message holds an image that the inference node and the preview accept, and the encoder exactly
  when both dimensions are at least two.
\<close>

theorem published_frames_are_accepted:
  assumes "publisher_ok p" "\<And>log. fair (ce_device C log)"
    and "on_timer C E t stamp p w rt = (p', w', rt')" "ip_published p' = ip_published p @ [msg]"
    and "acquire_for_publish E (ip_manager p) w = ((Some blk, m), w1)" "pb_device_ptr E m blk (fst w1) = (ptr, s2)"
    and "unat ptr + 4 * (unat (ip_width p) * unat (ip_height p)) \<le> 2 ^ 64"
    and "rh_valid sb (Some i)" "ri_byte_size i = bc_byte_size (gi_core msg)"
  shows "(\<forall>x y k. x < unat (ip_width p) \<and> y < unat (ip_height p) \<and> k < 4 \<longrightarrow>
        rt_memory rt' (ptr + of_nat (pixel_byte_offset (4 * unat (ip_width p)) (x, y) k)) = pattern_byte (ip_frame_index p) (x, y) k)
    \<and> inference_accepts sb (image_of_message msg (Some i)) \<and> preview_accepts sb (image_of_message msg (Some i))
    \<and> (encoder_accepts sb (image_of_message msg (Some i)) \<longleftrightarrow> 2 \<le> unat (ip_width p) \<and> 2 \<le> unat (ip_height p))"
proof -
  obtain descriptor where d: "msg = frame_message stamp descriptor p" "bd_byte_size descriptor = gp_byte_size (gm_pool (ip_manager p))"
    by (rule on_timer_published [OF assms(3-6)])
  show ?thesis using frame_accepted [OF assms(1) d(2,1) refl assms(8,9)] published_frame [OF assms(1-7)] by blast
qed

definition drawing_manager :: gpu_buffer_manager where
  "drawing_manager = sample_manager\<lparr>gm_pool := (gm_pool sample_manager)\<lparr>gp_blocks :=
     map (\<lambda>b. b\<lparr>gb_device_ptr := 0x700000\<rparr>) (gp_blocks (gm_pool sample_manager))\<rparr>\<rparr>"

definition drawing_publisher :: image_publisher where
  "drawing_publisher = \<lparr>ip_stream = 11, ip_frame_index = 3, ip_width = 25, ip_height = 50, ip_frame_id = ''cam'', ip_encoding = ''rgba8'',
     ip_manager = drawing_manager, ip_published = []\<rparr>"

definition drawing_read :: read_impl where
  "drawing_read = \<lparr>ri_resource = Some 0, ri_buffer_ref = Some BufferRef_null, ri_deferred_item = None, ri_byte_size = 5000,
     ri_device_id = 0, ri_consumer_stream = 3, ri_completion = None\<rparr>"

lemma drawing_read_valid: "rh_valid sample_resources (Some drawing_read)"
  by (simp add: drawing_read_def rh_valid_def has_device_memory_def imported_of_def sample_resources_def new_resource_def
    initial_subscriber_def)

lemma drawing_run:
  "\<exists>m blk w1 s2 p' w' rt' msg. acquire_for_publish healthy drawing_manager (initial_sys, busy_first) = ((Some blk, m), w1)
      \<and> pb_device_ptr healthy m blk (fst w1) = (0x700000, s2)
      \<and> on_timer sample_cuda healthy 1 (1, 2) drawing_publisher (initial_sys, busy_first) sample_runtime = (p', w', rt')
      \<and> ip_published p' = [msg] \<and> bc_byte_size (gi_core msg) = 5000"
  by (simp add: on_timer_def drawing_publisher_def drawing_manager_def manager_eval ready_eval machine_defs initial_sys_def
    pb_device_ptr_def pb_valid_def device_ptr_of_def pattern_kernel_def launch_generate_rgba_pattern_kernel_def launch_def
    sample_defs backward_device_def rt_note_def frame_message_def fill_buffer_core_message_def
    kBytesPerPixel_def)

lemma drawing_publisher_ok: "publisher_ok drawing_publisher"
  by (simp add: publisher_ok_def drawing_publisher_def drawing_manager_def sample_manager_def frame_size_def kBytesPerPixel_def)

lemma drawing_publisher_simps:
  "ip_manager drawing_publisher = drawing_manager" "ip_width drawing_publisher = 25" "ip_height drawing_publisher = 50"
  "ip_frame_index drawing_publisher = 3" "ip_published drawing_publisher = []"
  by (simp_all add: drawing_publisher_def)

lemma sample_cuda_fair: "fair (ce_device sample_cuda log)"
  by (simp add: sample_cuda_def backward_is_fair)

theorem published_frames_are_accepted_witness:
  "\<exists>p' w' rt' msg. on_timer sample_cuda healthy 1 (1, 2) drawing_publisher (initial_sys, busy_first) sample_runtime = (p', w', rt')
     \<and> ip_published p' = [msg] \<and> rt_memory rt' 0x700000 = 3
     \<and> encoder_accepts sample_resources (image_of_message msg (Some drawing_read))"
proof -
  from drawing_run obtain m blk w1 s2 p' w' rt' msg where a: "acquire_for_publish healthy drawing_manager (initial_sys, busy_first) = ((Some blk, m), w1)"
      "pb_device_ptr healthy m blk (fst w1) = (0x700000, s2)"
    and r: "on_timer sample_cuda healthy 1 (1, 2) drawing_publisher (initial_sys, busy_first) sample_runtime = (p', w', rt')"
      "ip_published p' = [msg]" "bc_byte_size (gi_core msg) = 5000" by blast
  have pub: "ip_published p' = ip_published drawing_publisher @ [msg]" by (simp add: r drawing_publisher_simps)
  have size: "ri_byte_size drawing_read = bc_byte_size (gi_core msg)" by (simp add: drawing_read_def r)
  note all = published_frames_are_accepted [OF drawing_publisher_ok sample_cuda_fair r(1) pub a [folded drawing_publisher_simps(1)] _
      drawing_read_valid size, unfolded drawing_publisher_simps]
  have "rt_memory rt' (0x700000 + of_nat (pixel_byte_offset (4 * unat (25 :: u32)) (0, 0) 0)) = pattern_byte 3 (0, 0) 0"
    using all by simp
  then have "rt_memory rt' 0x700000 = 3" by (simp add: pixel_byte_offset_def pattern_byte_def)
  moreover have "encoder_accepts sample_resources (image_of_message msg (Some drawing_read))" using all by simp
  ultimately show ?thesis using r by blast
qed

end
