(* ===== verification/Fanout_System.thy ===== *)
theory Fanout_System
  imports Fanout_Publisher
begin

text \<open>
  The example as a system: what the encoder and the preview publish about a frame, in terms of the
  frame the publisher drew. The subscriber's mapping and the publisher's block are the same
  allocation, which is what the driver promises for an imported handle; that is the hypothesis
  \<open>same_allocation\<close>.
\<close>

section \<open>The pattern, reduced\<close>

definition pattern_luma :: "u64 \<Rightarrow> nat \<times> nat \<Rightarrow> nat" where
  "pattern_luma frame p =
     (77 * unat (pattern_byte frame p 0) + 150 * unat (pattern_byte frame p 1) + 29 * unat (pattern_byte frame p 2)) div 256"

definition pattern_average :: "u64 \<Rightarrow> nat \<times> nat \<Rightarrow> nat" where
  "pattern_average frame p =
     (pattern_luma frame (2 * fst p, 2 * snd p) + pattern_luma frame (2 * fst p + 1, 2 * snd p)
      + pattern_luma frame (2 * fst p, 2 * snd p + 1) + pattern_luma frame (2 * fst p + 1, 2 * snd p + 1)) div 4"

text \<open>The checksum of frame number \<open>frame\<close>, without any memory.\<close>

definition pattern_checksum :: "u64 \<Rightarrow> nat \<Rightarrow> nat \<Rightarrow> u64" where
  "pattern_checksum frame width height =
     (\<Sum>i < (width div 2) * (height div 2).
        of_nat (pattern_average frame (i mod (width div 2), i div (width div 2))) * of_nat (i mod 251 + 1))"

definition drawn :: "device_memory \<Rightarrow> u64 \<Rightarrow> u64 \<Rightarrow> nat \<Rightarrow> nat \<Rightarrow> bool" where
  "drawn m base frame width height \<longleftrightarrow>
     (\<forall>x y k. x < width \<and> y < height \<and> k < 4 \<longrightarrow>
        m (base + of_nat (pixel_byte_offset (4 * width) (x, y) k)) = pattern_byte frame (x, y) k)"

lemma drawn_luma:
  assumes "drawn m base frame width height" "fst p < width" "snd p < height"
  shows "luma_at m base (4 * width) p = pattern_luma frame p"
proof -
  have byte: "m (base + of_nat (snd p * (4 * width) + 4 * fst p) + of_nat k) = pattern_byte frame p k" if "k < 4" for k
    using assms that unfolding drawn_def pixel_byte_offset_def
    by (metis (no_types, lifting) add.assoc fst_conv of_nat_add prod.collapse snd_conv)
  show ?thesis using byte [of 0] byte [of 1] byte [of 2] by (simp add: luma_at_def pattern_luma_def Let_def)
qed

lemma drawn_average:
  assumes "drawn m base frame width height" "fst p < width div 2" "snd p < height div 2"
  shows "luma_average m base (4 * width) p = pattern_average frame p"
proof -
  have "2 * fst p + 1 < width" "2 * snd p + 1 < height" using assms(2,3) by linarith+
  then show ?thesis using drawn_luma [OF assms(1)] by (simp add: luma_average_def pattern_average_def)
qed

lemma drawn_checksum:
  assumes "drawn m base frame width height"
  shows "image_checksum m base (4 * width) width height = pattern_checksum frame width height"
  unfolding image_checksum_def pattern_checksum_def
  using drawn_average [OF assms] plane_index(2) [of _ "width div 2" "height div 2"] by (intro sum.cong refl) simp

text \<open>The importing process reads what the exporting one wrote.\<close>

definition same_allocation :: "device_memory \<Rightarrow> u64 \<Rightarrow> device_memory \<Rightarrow> u64 \<Rightarrow> nat \<Rightarrow> bool" where
  "same_allocation m ptr m' ptr' bytes \<longleftrightarrow> (\<forall>j < bytes. m' (ptr' + of_nat j) = m (ptr + of_nat j))"

lemma drawn_shared:
  assumes "drawn m ptr frame width height" "same_allocation m ptr m' ptr' (4 * (width * height))"
  shows "drawn m' ptr' frame width height"
proof -
  have "pixel_byte_offset (4 * width) (x, y) k < 4 * (width * height)" if "x < width" "y < height" "k < 4" for x y k
    using row_byte_bound [of width "4 * width" "(x, y)" height k] that by (simp add: mult.assoc)
  then show ?thesis using assms by (simp add: drawn_def same_allocation_def)
qed

section \<open>From the timer to the consumers\<close>

lemma frame_view:
  assumes "publisher_ok p" "ip_published p' = ip_published p @ [frame_message stamp descriptor p]"
    and "view = image_of_message (frame_message stamp descriptor p) (Some i)"
  shows "ih_shape view = (ip_height p, ip_width p, 4)" "ih_strides view = (ucast (ip_width p) * kBytesPerPixel, 4, 1)"
    "unat (ucast (ip_width p) * kBytesPerPixel :: u64) = 4 * unat (ip_width p)" "ih_read view = Some i"
  using frame_size_exact(2) [of "ip_width p" "ip_height p"] assms
  by (simp_all add: image_of_message_def frame_message_def kDefaultChannels_def publisher_ok_def)

lemma frame_in_the_mapping:
  assumes "publisher_ok p" "\<And>log. fair (ce_device C log)"
    and "on_timer C E t stamp p w rt = (p', w', rt')" "ip_published p' = ip_published p @ [msg]"
    and "acquire_for_publish E (ip_manager p) w = ((Some blk, m), w1)" "pb_device_ptr E m blk (fst w1) = (ptr, s2)"
    and "unat ptr + 4 * (unat (ip_width p) * unat (ip_height p)) \<le> 2 ^ 64"
    and "same_allocation (rt_memory rt') ptr mem ptr' (4 * (unat (ip_width p) * unat (ip_height p)))"
  shows "drawn mem ptr' (ip_frame_index p) (unat (ip_width p)) (unat (ip_height p))"
proof -
  have "drawn (rt_memory rt') ptr (ip_frame_index p) (unat (ip_width p)) (unat (ip_height p))"
    using published_frame [OF assms(1-7)] by (simp add: drawn_def)
  then show ?thesis using assms(8) by (rule drawn_shared)
qed

section \<open>Properties\<close>


text \<open>
  The frame of the example's witness, seen through a mapping at another address by a started encoder
  and a fresh preview.
\<close>

definition mapped_runtime :: "u32 runtime \<Rightarrow> u32 runtime" where
  "mapped_runtime rt = started_runtime\<lparr>rt_memory := \<lambda>a. rt_memory rt (0x700000 + (a - 0x1000))\<rparr>"

lemma drawing_read_ptr: "rh_device_ptr sample_resources (Some drawing_read) = 0x1000"
  by (simp add: drawing_read_def sample_resources_def rh_device_ptr_def imported_of_def new_resource_def initial_subscriber_def)

lemma encoder_publishes_once:
  assumes "encoder_accepts sample_resources view" "ih_shape view = (50, 25, 4)" "ih_strides view = (100, 4, 1)"
    and "rh_device_ptr sample_resources (ih_read view) = 0x1000"
  shows "(\<exists>status. en_published (fst (encoder_on_image sample_cuda sample_resources view started_node (mapped_runtime rt))) = [status])
    \<and> gn_plane (fst (encoder_on_image sample_cuda sample_resources view started_node (mapped_runtime rt))) = 0x200000"
  using assms
  by (auto simp: encoder_on_image_def encoder_ensure_buffers_def replace_plane_def with_events_def create_timing_events_def
    encoder_measure_defs attempt_def rt_call_def rt_exec_def Let_def luma_kernel_def checksum_kernel_def rt_note_def elapsed_time_def
    sample_defs mapped_runtime_def launch_rgba_to_luma_downscale2_kernel_def launch_checksum_u8_kernel_def launch_def backward_device_def)

lemma preview_publishes_once:
  assumes "preview_accepts sample_resources view" "ih_shape view = (50, 25, 4)" "ih_strides view = (100, 4, 1)"
  shows "\<exists>img. pv_published (fst (preview_on_image sample_cuda sample_resources view (PreviewNode 1) (mapped_runtime rt))) = [img]"
  using assms
  by (auto simp: preview_on_image_def PreviewNode_def with_events_def create_timing_events_def preview_copy_def attempt_def
    rt_call_def rt_exec_def elapsed_time_def Let_def sample_defs mapped_runtime_def)


end
