(* ===== verification/Image_Transport.thy ===== *)
theory Image_Transport
  imports Preview_Node
begin

text \<open>
  \<^verbatim>\<open>utils/gpu_image_transport\<close>: the nodes that bring GPU images to ordinary subscribers. The base
  class (\<^verbatim>\<open>gpu_image_transport_base.cpp\<close>) copies the mapped buffer to pinned host memory; one node
  publishes it as \<^verbatim>\<open>sensor_msgs/Image\<close> (\<^verbatim>\<open>gpu_image_transport.cpp\<close>), the other compresses it with
  OpenCV (\<^verbatim>\<open>gpu_image_transport_compressed.cpp\<close>), which is a parameter here.
\<close>

section \<open>The base node\<close>

text \<open>\<^verbatim>\<open>tn_host\<close> is what the pinned buffer holds.\<close>

record 'm transport_node =
  tn_stream :: u64
  tn_host_buffer :: u64
  tn_host_capacity :: u64
  tn_host :: "nat \<Rightarrow> u8"
  tn_published :: "'m list"

definition GpuImageTransportNodeBase :: "'f cuda_env \<Rightarrow> 'f runtime \<Rightarrow> (int + 'm transport_node) \<times> 'f runtime" where
  "GpuImageTransportNodeBase C rt =
     (let ((err, stream), rt1) = rt_call C CudaStreamCreateWithFlags rt
      in if err \<noteq> cudaSuccess then (Inl err, rt1)
      else (Inr \<lparr>tn_stream = stream, tn_host_buffer = 0, tn_host_capacity = 0, tn_host = \<lambda>_. 0, tn_published = []\<rparr>, rt1))"

definition release_pinned_host :: "'f cuda_env \<Rightarrow> 'm transport_node \<Rightarrow> 'f runtime \<Rightarrow> 'm transport_node \<times> 'f runtime" where
  "release_pinned_host C n rt =
     (if tn_host_buffer n = 0 then (n, rt)
      else (n\<lparr>tn_host_buffer := 0, tn_host_capacity := 0\<rparr>, rt_exec C (CudaFreeHost (tn_host_buffer n)) rt))"

definition ensure_pinned_capacity ::
    "'f cuda_env \<Rightarrow> u64 \<Rightarrow> 'm transport_node \<Rightarrow> 'f runtime \<Rightarrow> int \<times> 'm transport_node \<times> 'f runtime" where
  "ensure_pinned_capacity C bytes n rt =
     (if bytes = 0 then (cudaSuccess, n, rt)
      else if bytes \<le> tn_host_capacity n then (cudaSuccess, n, rt)
      else let (n1, rt1) = release_pinned_host C n rt; ((err, buffer), rt2) = rt_call C (CudaMallocHost bytes) rt1
      in if err = cudaSuccess then (err, n1\<lparr>tn_host_buffer := buffer, tn_host_capacity := bytes\<rparr>, rt2) else (err, n1, rt2))"

text \<open>\<open>publish_frame\<close> is the virtual function: the message it publishes, if any.\<close>

definition transport_on_image ::
    "'f cuda_env \<Rightarrow> (image_read_handle \<Rightarrow> u64 \<Rightarrow> (nat \<Rightarrow> u8) \<Rightarrow> 'm option) \<Rightarrow> subscriber \<Rightarrow> image_read_handle
     \<Rightarrow> 'm transport_node \<Rightarrow> 'f runtime \<Rightarrow> 'm transport_node \<times> 'f runtime" where
  "transport_on_image C publish_frame sb view n rt =
     (if \<not> rh_valid sb (ih_read view) then (n, rt)
      else if \<not> sanity_check sb view then (n, rt)
      else let bytes_to_copy = rh_byte_size (ih_read view)
      in if bytes_to_copy = 0 then (n, rt)
      else case ensure_pinned_capacity C bytes_to_copy n rt of
        (ensure_err, n1, rt1) \<Rightarrow>
          if ensure_err \<noteq> cudaSuccess then (n1, rt1)
          else let src = rh_device_ptr sb (ih_read view);
                   ((err, _), rt2) = rt_call C (CudaMemcpyToHostAsync src bytes_to_copy (tn_stream n1)) rt1
          in if err \<noteq> cudaSuccess then (n1, rt2)
          else let n2 = n1\<lparr>tn_host := \<lambda>i. if i < unat bytes_to_copy then rt_memory rt2 (src + of_nat i) else tn_host n1 i\<rparr>;
                   ((sync_err, _), rt3) = rt_call C (CudaStreamSynchronize (tn_stream n1)) rt2
          in if sync_err \<noteq> cudaSuccess then (n2, rt3)
          else (n2\<lparr>tn_published := tn_published n2 @ (case publish_frame view bytes_to_copy (tn_host n2) of None \<Rightarrow> [] | Some m \<Rightarrow> [m])\<rparr>, rt3))"

definition transport_callback ::
    "'f cuda_env \<Rightarrow> env \<Rightarrow> (image_read_handle \<Rightarrow> u64 \<Rightarrow> (nat \<Rightarrow> u8) \<Rightarrow> 'm option) \<Rightarrow> nat \<Rightarrow> gpu_image
     \<Rightarrow> 'm transport_node \<Rightarrow> subscriber \<Rightarrow> 'f runtime \<Rightarrow> 'm transport_node \<times> subscriber \<times> 'f runtime" where
  "transport_callback C E publish_frame thread message n sb rt =
     (case image_reader_read E thread message (tn_stream n) sb of
        (None, sb1) \<Rightarrow> (n, sb1, rt)
      | (Some view, sb1) \<Rightarrow>
          let (n1, rt1) = transport_on_image C publish_frame sb1 view n rt in (n1, rh_destroy E thread (ih_read view) sb1, rt1))"

definition transport_destroy :: "'f cuda_env \<Rightarrow> 'm transport_node \<Rightarrow> 'f runtime \<Rightarrow> 'm transport_node \<times> 'f runtime" where
  "transport_destroy C n rt =
     (let (n1, rt1) = release_pinned_host C n rt
      in if tn_stream n1 = 0 then (n1, rt1) else (n1\<lparr>tn_stream := 0\<rparr>, rt_exec C (CudaStreamDestroy (tn_stream n1)) rt1))"

section \<open>Uncompressed images\<close>

definition infer_encoding :: "image_read_handle \<Rightarrow> string" where
  "infer_encoding view =
     (case ih_shape view of (rows, cols, channels) \<Rightarrow>
        let suffix = dec (unat channels)
        in case ih_dtype view of
             U8 \<Rightarrow> if channels = 1 then ''mono8'' else if channels = 3 then ''rgb8'' else if channels = 4 then ''rgba8''
                   else ''8UC'' @ suffix
           | U16 \<Rightarrow> if channels = 1 then ''mono16'' else ''16UC'' @ suffix
           | F16 \<Rightarrow> ''16FC'' @ suffix
           | F32 \<Rightarrow> ''32FC'' @ suffix
           | F64 \<Rightarrow> ''64FC'' @ suffix
           | S16 \<Rightarrow> ''16SC'' @ suffix
           | S32 \<Rightarrow> ''32SC'' @ suffix
           | U32 \<Rightarrow> ''32UC'' @ suffix
           | Unnamed b \<Rightarrow> ''8UC'' @ suffix)"

text \<open>The checks both nodes make before they look at the bytes; \<open>None\<close> is a skipped frame.\<close>

definition frame_bytes :: "image_read_handle \<Rightarrow> u64 \<Rightarrow> (u64 \<times> u64) option" where
  "frame_bytes view available_bytes =
     (case (ih_shape view, ih_strides view) of ((height, width, channels), (step_bytes, strideW, strideC)) \<Rightarrow>
        if height = 0 \<or> step_bytes = 0 then None
        else if step_bytes > ucast u32_max then None
        else if height > 0 \<and> step_bytes > u64_max div ucast height then None
        else let required_bytes = step_bytes * ucast height
        in if available_bytes < required_bytes then None else Some (step_bytes, required_bytes))"

definition raw_publish_frame :: "image_read_handle \<Rightarrow> u64 \<Rightarrow> (nat \<Rightarrow> u8) \<Rightarrow> sensor_image option" where
  "raw_publish_frame view available_bytes host =
     (case frame_bytes view available_bytes of
        None \<Rightarrow> None
      | Some (step_bytes, required_bytes) \<Rightarrow>
          (case ih_shape view of (rows, cols, channels) \<Rightarrow>
             Some \<lparr>si_header = ih_header view, si_height = rows, si_width = cols,
                   si_encoding = (if ih_encoding view = [] then infer_encoding view else ih_encoding view),
                   si_step = ucast step_bytes, si_data = map host [0..<unat required_bytes]\<rparr>))"

section \<open>Compressed images\<close>

definition ascii_lower :: "char \<Rightarrow> char" where
  "ascii_lower ch = (if 65 \<le> (of_char ch :: nat) \<and> (of_char ch :: nat) \<le> 90 then char_of ((of_char ch :: nat) + 32) else ch)"

definition to_lower :: "string \<Rightarrow> string" where
  "to_lower value = map ascii_lower value"

definition select_extension :: "string \<Rightarrow> string" where
  "select_extension format_lower =
     (if format_lower = ''jpeg'' \<or> format_lower = ''jpg'' then ''.jpg''
      else if format_lower = ''png'' then ''.png''
      else if format_lower = ''bmp'' then ''.bmp''
      else [])"

text \<open>
  A matrix header over the host bytes, and the functions of OpenCV that the node calls. \<open>None\<close> is a
  \<^verbatim>\<open>cv::Exception\<close> for the matrix header and the colour conversions; \<^verbatim>\<open>cv::imencode\<close> also returns
  \<^verbatim>\<open>false\<close>, which is \<open>Some None\<close>.
\<close>

record cv_mat =
  mat_rows :: int
  mat_cols :: int
  mat_type :: int
  mat_step :: u64
  mat_data :: "nat \<Rightarrow> u8"

record open_cv =
  cv_make_type_8u :: "int \<Rightarrow> int"
  cv_check_header :: "cv_mat \<Rightarrow> bool"
  cv_rgb_to_bgr :: "cv_mat \<Rightarrow> cv_mat option"
  cv_rgba_to_bgra :: "cv_mat \<Rightarrow> cv_mat option"
  cv_imencode :: "string \<Rightarrow> cv_mat \<Rightarrow> int list \<Rightarrow> u8 list option option"
  cv_jpeg_quality :: int
  cv_png_compression :: int

text \<open>The quality after clamping and the parameters for \<^verbatim>\<open>cv::imencode\<close>.\<close>

definition configure_compression_params :: "open_cv \<Rightarrow> string \<Rightarrow> int \<Rightarrow> int \<times> int list" where
  "configure_compression_params V format_lower jpeg_quality =
     (if format_lower = ''jpeg'' \<or> format_lower = ''jpg''
      then let quality = min (max jpeg_quality 0) 100 in (quality, [cv_jpeg_quality V, quality])
      else if format_lower = ''png'' then (jpeg_quality, [cv_png_compression V, 3])
      else (jpeg_quality, []))"

record compression =
  co_format :: string
  co_extension :: string
  co_quality :: int
  co_params :: "int list"

definition GpuImageTransportCompressedNode :: "open_cv \<Rightarrow> string \<Rightarrow> int \<Rightarrow> compression" where
  "GpuImageTransportCompressedNode V compressed_format jpeg_quality =
     (let format_lower = to_lower compressed_format; (quality, params) = configure_compression_params V format_lower jpeg_quality
      in \<lparr>co_format = compressed_format, co_extension = select_extension format_lower, co_quality = quality, co_params = params\<rparr>)"

record compressed_image =
  ci_header :: ros_header
  ci_format :: string
  ci_data :: "u8 list"

text \<open>The result is \<open>None\<close> when OpenCV throws, \<open>Some None\<close> for a skipped frame.\<close>

definition compressed_publish_frame ::
    "open_cv \<Rightarrow> compression \<Rightarrow> image_read_handle \<Rightarrow> u64 \<Rightarrow> (nat \<Rightarrow> u8) \<Rightarrow> compressed_image option option" where
  "compressed_publish_frame V co view available_bytes host =
     (case frame_bytes view available_bytes of
        None \<Rightarrow> Some None
      | Some (step_bytes, required_bytes) \<Rightarrow>
          (case ih_shape view of (height, width, view_channels) \<Rightarrow>
             if ih_dtype view \<noteq> U8 then Some None
             else let channels = sint (ucast view_channels :: i32)
             in if channels \<le> 0 then Some None
             else let cv_type = cv_make_type_8u V channels
             in if cv_type < 0 then Some None
             else if co_extension co = [] then Some None
             else if width > 0x7FFFFFFF \<or> height > 0x7FFFFFFF then Some None
             else let host_view = \<lparr>mat_rows = sint (ucast height :: i32), mat_cols = sint (ucast width :: i32), mat_type = cv_type,
                                   mat_step = step_bytes, mat_data = host\<rparr>;
                      encoding_lower = to_lower (ih_encoding view)
             in if \<not> cv_check_header V host_view then None
             else case (if encoding_lower = ''rgb8'' \<and> channels = 3 then cv_rgb_to_bgr V host_view
                        else if encoding_lower = ''rgba8'' \<and> channels = 4 then cv_rgba_to_bgra V host_view
                        else Some host_view) of
                  None \<Rightarrow> None
                | Some source_view \<Rightarrow>
                    map_option (map_option (\<lambda>bytes. \<lparr>ci_header = ih_header view, ci_format = co_format co, ci_data = bytes\<rparr>))
                      (cv_imencode V (co_extension co) source_view (co_params co))))"

text \<open>
  The handler of the compressed node publishes what \<open>publish_frame\<close> made; an exception leaves it
  through the callback, so nothing is published.
\<close>

definition compressed_frame ::
    "open_cv \<Rightarrow> compression \<Rightarrow> image_read_handle \<Rightarrow> u64 \<Rightarrow> (nat \<Rightarrow> u8) \<Rightarrow> compressed_image option" where
  "compressed_frame V co view available_bytes host = Option.bind (compressed_publish_frame V co view available_bytes host) id"

section \<open>The pinned buffer\<close>

definition host_books :: "runtime_log \<Rightarrow> u64 multiset \<Rightarrow> bool" where
  "host_books log h \<longleftrightarrow> acquired HostResource log = released HostResource True log + released HostResource False log + h"

definition transport_ok :: "'m transport_node \<Rightarrow> runtime_log \<Rightarrow> bool" where
  "transport_ok n log \<longleftrightarrow> rt_books log (handle_set (tn_stream n)) {#} {#} \<and> host_books log (handle_set (tn_host_buffer n))
     \<and> (tn_host_capacity n \<noteq> 0 \<longrightarrow> (CudaMallocHost (tn_host_capacity n), cudaSuccess, tn_host_buffer n) \<in> set log)"

lemma host_books_other:
  "acquires c \<noteq> Some HostResource \<Longrightarrow> (\<forall>p. releases c \<noteq> Some (HostResource, p)) \<Longrightarrow> host_books (log @ [(c, r)]) h \<longleftrightarrow> host_books log h"
  by (cases "releases c") (auto simp: host_books_def split: prod.split)

lemma host_books_freed: "host_books log (h + handle_set p) \<Longrightarrow> host_books (log @ [(CudaFreeHost p, r)]) h"
  by (auto simp: host_books_def ac_simps split: prod.split)

lemma host_books_malloc:
  "host_books log h \<Longrightarrow> host_books (log @ [(CudaMallocHost n, err, v)]) (h + (if err = cudaSuccess then handle_set v else {#}))"
  by (auto simp: host_books_def ac_simps)

lemma rt_books_host:
  "rt_books (log @ [(CudaMallocHost n, r)]) s e m \<longleftrightarrow> rt_books log s e m"
  "rt_books (log @ [(CudaFreeHost p, r)]) s e m \<longleftrightarrow> rt_books log s e m"
  by (auto simp: rt_books_def split: prod.split)

lemma rt_memory_call: "rt_call C c rt = (r, rt') \<Longrightarrow> rt_memory rt' = rt_memory rt"
  by (metis rt_call_memory(1) snd_conv)

lemma release_ok:
  assumes "transport_ok n (rt_log rt)" "release_pinned_host C n rt = (n', rt')"
  shows "transport_ok n' (rt_log rt')" "tn_host_buffer n' = 0"
    "tn_stream n' = tn_stream n" "tn_published n' = tn_published n" "rt_memory rt' = rt_memory rt"
proof -
  have "host_books (rt_log rt) ({#} + handle_set (tn_host_buffer n))" using assms(1) by (simp add: transport_ok_def)
  then have "host_books (rt_log rt @ [(CudaFreeHost (tn_host_buffer n), ce_reply C (rt_log rt) (CudaFreeHost (tn_host_buffer n)))]) {#}"
    by (rule host_books_freed)
  then show "transport_ok n' (rt_log rt')"
    using assms by (auto simp: release_pinned_host_def transport_ok_def rt_exec_log rt_books_host split: if_splits)
  show "tn_host_buffer n' = 0" "tn_stream n' = tn_stream n" "tn_published n' = tn_published n" "rt_memory rt' = rt_memory rt"
    using assms(2) by (auto simp: release_pinned_host_def rt_exec_def split: if_splits)
qed

lemma ensure_pinned_ok:
  assumes ok: "transport_ok n (rt_log rt)" and r: "ensure_pinned_capacity C bytes n rt = (err, n', rt')"
  shows "transport_ok n' (rt_log rt')" "err = cudaSuccess \<Longrightarrow> bytes \<le> tn_host_capacity n'"
    "tn_stream n' = tn_stream n" "tn_published n' = tn_published n" "rt_memory rt' = rt_memory rt"
proof -
  have "transport_ok n' (rt_log rt') \<and> (err = cudaSuccess \<longrightarrow> bytes \<le> tn_host_capacity n')
    \<and> tn_stream n' = tn_stream n \<and> tn_published n' = tn_published n \<and> rt_memory rt' = rt_memory rt"
  proof (cases "bytes = 0 \<or> bytes \<le> tn_host_capacity n")
    case True
    then show ?thesis using ok r by (auto simp: ensure_pinned_capacity_def split: if_splits)
  next
    case False
    obtain n1 rt1 where 1: "release_pinned_host C n rt = (n1, rt1)" by fastforce
    obtain e buffer rt2 where 2: "rt_call C (CudaMallocHost bytes) rt1 = ((e, buffer), rt2)" by (metis prod.collapse)
    note k = release_ok [OF ok 1]
    have res: "err = e" "rt' = rt2" "n' = (if e = 0 then n1\<lparr>tn_host_buffer := buffer, tn_host_capacity := bytes\<rparr> else n1)"
      using r False 1 2 by (auto simp: ensure_pinned_capacity_def split: if_splits)
    have log: "rt_log rt2 = rt_log rt1 @ [(CudaMallocHost bytes, e, buffer)]" by (rule rt_call_log [OF 2])
    have "host_books (rt_log rt1) {#}" using k(1,2) by (simp add: transport_ok_def)
    from host_books_malloc [OF this, of bytes e buffer] have "host_books (rt_log rt2) (if e = 0 then handle_set buffer else {#})"
      by (simp add: log)
    then show ?thesis using k rt_memory_call [OF 2] by (auto simp: res log transport_ok_def rt_books_host)
  qed
  then show "transport_ok n' (rt_log rt')" "err = cudaSuccess \<Longrightarrow> bytes \<le> tn_host_capacity n'"
    "tn_stream n' = tn_stream n" "tn_published n' = tn_published n" "rt_memory rt' = rt_memory rt" by auto
qed

text \<open>Calls that neither create nor give back anything leave the state in order.\<close>

lemma transport_ok_call:
  assumes "transport_ok n log" "acquires c = None" "releases c = None"
  shows "transport_ok n (log @ [(c, r)])"
  using assms by (auto simp: transport_ok_def host_books_other)

lemma transport_ok_host [simp]:
  "transport_ok (n\<lparr>tn_host := h\<rparr>) log \<longleftrightarrow> transport_ok n log" "transport_ok (n\<lparr>tn_published := l\<rparr>) log \<longleftrightarrow> transport_ok n log"
  by (simp_all add: transport_ok_def)

lemma transport_on_image_ok:
  assumes ok: "transport_ok n (rt_log rt)" and r: "transport_on_image C publish_frame sb view n rt = (n', rt')"
  shows "transport_ok n' (rt_log rt')"
    and "tn_published n' = tn_published n @ [msg] \<Longrightarrow>
      sanity_check sb view \<and> rh_byte_size (ih_read view) \<le> tn_host_capacity n'
      \<and> (\<forall>i < unat (rh_byte_size (ih_read view)). tn_host n' i = rt_memory rt (rh_device_ptr sb (ih_read view) + of_nat i))
      \<and> publish_frame view (rh_byte_size (ih_read view)) (tn_host n') = Some msg"
proof -
  let ?bytes = "rh_byte_size (ih_read view)" and ?src = "rh_device_ptr sb (ih_read view)"
  obtain err1 n1 rt1 where 1: "ensure_pinned_capacity C ?bytes n rt = (err1, n1, rt1)" by (metis prod_cases3)
  obtain err2 v2 rt2 where 2: "rt_call C (CudaMemcpyToHostAsync ?src ?bytes (tn_stream n1)) rt1 = ((err2, v2), rt2)" by (metis prod.collapse)
  obtain err3 v3 rt3 where 3: "rt_call C (CudaStreamSynchronize (tn_stream n1)) rt2 = ((err3, v3), rt3)" by (metis prod.collapse)
  note k = ensure_pinned_ok [OF ok 1]
  have ok2: "transport_ok n1 (rt_log rt2)" using transport_ok_call [OF k(1)] rt_call_log [OF 2] by simp
  have ok3: "transport_ok n1 (rt_log rt3)" using transport_ok_call [OF ok2] rt_call_log [OF 3] by simp
  have m2: "rt_memory rt2 = rt_memory rt" using rt_memory_call [OF 2] k(5) by simp
  let ?n2 = "n1\<lparr>tn_host := \<lambda>i. if i < unat ?bytes then rt_memory rt2 (?src + of_nat i) else tn_host n1 i\<rparr>"
  let ?n3 = "?n2\<lparr>tn_published := tn_published ?n2 @ (case publish_frame view ?bytes (tn_host ?n2) of None \<Rightarrow> [] | Some m \<Rightarrow> [m])\<rparr>"
  have cases: "(n', rt') = (n, rt) \<or> (n', rt') = (n1, rt1) \<or> (n', rt') = (n1, rt2) \<or> (n', rt') = (?n2, rt3)
      \<or> (n', rt') = (?n3, rt3) \<and> sanity_check sb view \<and> err1 = cudaSuccess"
    using r by (simp add: transport_on_image_def 1 2 3 Let_def split: if_splits)
  then show "transport_ok n' (rt_log rt')" by (elim disjE) (use ok k(1) ok2 ok3 in simp_all)
  show "sanity_check sb view \<and> ?bytes \<le> tn_host_capacity n' \<and> (\<forall>i < unat ?bytes. tn_host n' i = rt_memory rt (?src + of_nat i))
      \<and> publish_frame view ?bytes (tn_host n') = Some msg" if p: "tn_published n' = tn_published n @ [msg]"
  proof -
    have published: "(n', rt') = (?n3, rt3)" "sanity_check sb view" "err1 = cudaSuccess"
      using cases p k(4) by auto
    have "publish_frame view ?bytes (tn_host ?n2) = Some msg"
      using published(1) p k(4) by (cases "publish_frame view ?bytes (tn_host ?n2)") simp_all
    then show ?thesis using published k(2) m2 by simp
  qed
qed

inductive transport_reachable ::
    "'f cuda_env \<Rightarrow> (image_read_handle \<Rightarrow> u64 \<Rightarrow> (nat \<Rightarrow> u8) \<Rightarrow> 'm option) \<Rightarrow> 'f runtime \<Rightarrow> 'm transport_node \<Rightarrow> 'f runtime \<Rightarrow> bool"
  for C publish_frame rt0 where
  constructed: "GpuImageTransportNodeBase C rt0 = (Inr n, rt) \<Longrightarrow> transport_reachable C publish_frame rt0 n rt"
| callback: "transport_reachable C publish_frame rt0 n rt \<Longrightarrow> transport_callback C E publish_frame t message n sb rt = (n', sb', rt')
    \<Longrightarrow> transport_reachable C publish_frame rt0 n' rt'"

lemma transport_constructed_ok:
  assumes "GpuImageTransportNodeBase C rt0 = (Inr n, rt)" "rt_log rt0 = []"
  shows "transport_ok n (rt_log rt)"
proof -
  obtain err stream rt1 where 1: "rt_call C CudaStreamCreateWithFlags rt0 = ((err, stream), rt1)" by (metis prod.collapse)
  have n: "err = 0" "n = \<lparr>tn_stream = stream, tn_host_buffer = 0, tn_host_capacity = 0, tn_host = \<lambda>_. 0, tn_published = []\<rparr>" "rt = rt1"
    using assms 1 by (auto simp: GpuImageTransportNodeBase_def Let_def split: if_splits)
  have log: "rt_log rt = [] @ [(CudaStreamCreateWithFlags, 0, stream)]" using rt_call_log [OF 1] assms(2) n by simp
  show ?thesis
    using rt_books_acquired(1) [OF rt_books_empty, of stream] unfolding transport_ok_def log
    by (simp add: n host_books_def)
qed

lemma transport_reachable_ok:
  assumes "transport_reachable C publish_frame rt0 n rt" "rt_log rt0 = []"
  shows "transport_ok n (rt_log rt)"
  using assms
proof (induction rule: transport_reachable.induct)
  case (constructed n rt)
  then show ?case by (rule transport_constructed_ok)
next
  case (callback n rt E t message sb n' sb' rt')
  have ok: "transport_ok n (rt_log rt)" by (rule callback.IH [OF callback.prems])
  obtain r sb1 where 1: "image_reader_read E t message (tn_stream n) sb = (r, sb1)" by fastforce
  show ?case
  proof (cases r)
    case None
    then show ?thesis using callback.hyps(2) ok 1 by (simp add: transport_callback_def)
  next
    case (Some view)
    obtain n1 rt1 where 2: "transport_on_image C publish_frame sb1 view n rt = (n1, rt1)" by fastforce
    have "n' = n1" "rt' = rt1" using callback.hyps(2) 1 2 Some by (simp_all add: transport_callback_def)
    then show ?thesis using transport_on_image_ok(1) [OF ok 2] by simp
  qed
qed

lemma transport_destroyed:
  assumes "transport_ok n (rt_log rt)"
  shows "rt_books (rt_log (snd (transport_destroy C n rt))) {#} {#} {#}" "host_books (rt_log (snd (transport_destroy C n rt))) {#}"
proof -
  obtain n1 rt1 where 1: "release_pinned_host C n rt = (n1, rt1)" by fastforce
  have b: "rt_books (rt_log rt1) ({#} + handle_set (tn_stream n1)) {#} {#}" "host_books (rt_log rt1) {#}"
    using release_ok(1,2) [OF assms 1] by (simp_all add: transport_ok_def)
  have d: "rt_books (rt_log (rt_exec C (CudaStreamDestroy (tn_stream n1)) rt1)) {#} {#} {#}"
    by (rule rt_books_exec_destroy(1) [OF b(1)])
  show "rt_books (rt_log (snd (transport_destroy C n rt))) {#} {#} {#}"
    using b(1) d by (auto simp: transport_destroy_def 1 Let_def)
  show "host_books (rt_log (snd (transport_destroy C n rt))) {#}"
    using b(2) by (auto simp: transport_destroy_def 1 rt_exec_log host_books_other Let_def)
qed

section \<open>Copies and checks\<close>

text \<open>Every copy to the host fits the buffer that is current when the callback returns.\<close>

lemma release_log:
  "release_pinned_host C n rt = (n', rt') \<Longrightarrow> \<exists>new. rt_log rt' = rt_log rt @ new \<and> (\<forall>e \<in> set new. \<exists>p r. e = (CudaFreeHost p, r))"
  by (auto simp: release_pinned_host_def rt_exec_log split: if_splits)

lemma ensure_pinned_log:
  assumes "ensure_pinned_capacity C bytes n rt = (err, n', rt')"
  shows "\<exists>new. rt_log rt' = rt_log rt @ new \<and> (\<forall>src k s r. (CudaMemcpyToHostAsync src k s, r) \<notin> set new)"
proof (cases "bytes = 0 \<or> bytes \<le> tn_host_capacity n")
  case True
  then show ?thesis using assms by (auto simp: ensure_pinned_capacity_def split: if_splits)
next
  case False
  obtain n1 rt1 where 1: "release_pinned_host C n rt = (n1, rt1)" by fastforce
  obtain e rt2 where 2: "rt_call C (CudaMallocHost bytes) rt1 = (e, rt2)" by fastforce
  obtain new where new: "rt_log rt1 = rt_log rt @ new" "\<forall>e \<in> set new. \<exists>p r. e = (CudaFreeHost p, r)"
    using release_log [OF 1] by blast
  have "rt' = rt2" using assms False 1 2 by (auto simp: ensure_pinned_capacity_def split: if_splits prod.splits)
  then have "rt_log rt' = rt_log rt @ (new @ [(CudaMallocHost bytes, e)])" using rt_call_log [OF 2] new(1) by simp
  then show ?thesis using new(2) by (intro exI conjI) auto
qed

lemma transport_copies:
  assumes ok: "transport_ok n (rt_log rt)" and r: "transport_on_image C publish_frame sb view n rt = (n', rt')"
  shows "\<exists>new. rt_log rt' = rt_log rt @ new
    \<and> (\<forall>src k s res. (CudaMemcpyToHostAsync src k s, res) \<in> set new \<longrightarrow>
        src = rh_device_ptr sb (ih_read view) \<and> k = rh_byte_size (ih_read view) \<and> k \<le> tn_host_capacity n')"
proof -
  let ?bytes = "rh_byte_size (ih_read view)" and ?src = "rh_device_ptr sb (ih_read view)"
  obtain err1 n1 rt1 where 1: "ensure_pinned_capacity C ?bytes n rt = (err1, n1, rt1)" by (metis prod_cases3)
  obtain err2 v2 rt2 where 2: "rt_call C (CudaMemcpyToHostAsync ?src ?bytes (tn_stream n1)) rt1 = ((err2, v2), rt2)" by (metis prod.collapse)
  obtain err3 v3 rt3 where 3: "rt_call C (CudaStreamSynchronize (tn_stream n1)) rt2 = ((err3, v3), rt3)" by (metis prod.collapse)
  obtain new where new: "rt_log rt1 = rt_log rt @ new" "\<forall>src k s r. (CudaMemcpyToHostAsync src k s, r) \<notin> set new"
    using ensure_pinned_log [OF 1] by blast
  have k: "err1 = cudaSuccess \<Longrightarrow> ?bytes \<le> tn_host_capacity n1" by (rule ensure_pinned_ok(2) [OF ok 1])
  have cases: "rt' = rt \<or> rt' = rt1 \<or> rt' \<in> {rt2, rt3} \<and> err1 = cudaSuccess \<and> tn_host_capacity n' = tn_host_capacity n1"
    using r by (auto simp: transport_on_image_def 1 2 3 Let_def split: if_splits)
  then show ?thesis using new k rt_call_log [OF 2] rt_call_log [OF 3] by (elim disjE) auto
qed

lemma frame_bytes_Some:
  assumes "ih_shape view = (rows, cols, channels)" "ih_strides view = (strideH, strideW, strideC)"
  shows "frame_bytes view available = Some (step, required) \<longleftrightarrow>
    rows \<noteq> 0 \<and> strideH \<noteq> 0 \<and> unat strideH < 2 ^ 32 \<and> unat strideH * unat rows \<le> unat available
    \<and> step = strideH \<and> required = strideH * ucast rows" (is "?l \<longleftrightarrow> ?r")
    and "unat strideH < 2 ^ 32 \<Longrightarrow> unat (strideH * ucast rows) = unat strideH * unat rows"
proof -
  have small: "unat strideH * unat rows < 2 ^ 64" if "unat strideH < 2 ^ 32"
  proof -
    have "unat strideH * unat rows \<le> (2 ^ 32 - 1) * (2 ^ 32 - 1)" using that unat_bound32 [of rows] by (intro mult_le_mono) simp_all
    then show ?thesis by (simp add: less_le_trans)
  qed
  show exact: "unat (strideH * ucast rows) = unat strideH * unat rows" if "unat strideH < 2 ^ 32"
    using small [OF that] by (simp add: unat_word_ariths)
  have wide: "strideH \<le> ucast u32_max \<longleftrightarrow> unat strideH < 2 ^ 32" by (auto simp: word_le_nat_alt u32_max_unat)
  have no_overflow: "\<not> strideH > u64_max div ucast rows" if "unat strideH < 2 ^ 32" "rows \<noteq> 0"
  proof -
    have "unat strideH * unat rows \<le> 2 ^ 64 - 1" using small [OF that(1)] by simp
    then have "unat strideH \<le> (2 ^ 64 - 1) div unat rows" using that(2) by (simp add: less_eq_div_iff_mult_less_eq unat_gt_0)
    then show ?thesis using u64_max_unat by (simp add: word_less_nat_alt unat_div)
  qed
  show "?l \<longleftrightarrow> ?r"
    using wide no_overflow exact word_less_nat_alt [of available "strideH * ucast rows"]
    by (auto simp: frame_bytes_def assms Let_def word_gt_0 not_less [symmetric] split: if_splits)
qed

section \<open>Properties\<close>

text \<open>
  The pinned buffer of a transport node. Whatever images arrive and whatever CUDA answers, the
  node owns exactly one stream and at most one pinned buffer, of the size it remembers; every copy
  an image causes goes from the image's mapping, is as long as the mapping and fits the buffer; and
  the destructor gives the stream and the buffer back: nothing else was ever acquired and kept.
\<close>

theorem transport_keeps_its_host_buffer:
  assumes "transport_reachable C publish_frame rt0 n rt" "rt_log rt0 = []"
  shows "rt_books (rt_log rt) (handle_set (tn_stream n)) {#} {#} \<and> host_books (rt_log rt) (handle_set (tn_host_buffer n))
    \<and> (tn_host_capacity n \<noteq> 0 \<longrightarrow> (CudaMallocHost (tn_host_capacity n), cudaSuccess, tn_host_buffer n) \<in> set (rt_log rt))
    \<and> (\<exists>new. rt_log (snd (transport_on_image C publish_frame sb view n rt)) = rt_log rt @ new
        \<and> (\<forall>src k s res. (CudaMemcpyToHostAsync src k s, res) \<in> set new \<longrightarrow>
            src = rh_device_ptr sb (ih_read view) \<and> k = rh_byte_size (ih_read view)
            \<and> k \<le> tn_host_capacity (fst (transport_on_image C publish_frame sb view n rt))))
    \<and> rt_books (rt_log (snd (transport_destroy C n rt))) {#} {#} {#} \<and> host_books (rt_log (snd (transport_destroy C n rt))) {#}"
proof -
  have ok: "transport_ok n (rt_log rt)" by (rule transport_reachable_ok [OF assms])
  show ?thesis
    using ok transport_copies [OF ok surjective_pairing] transport_destroyed [OF ok] unfolding transport_ok_def by blast
qed


definition started_transport :: "sensor_image transport_node" where
  "started_transport = \<lparr>tn_stream = 5, tn_host_buffer = 0, tn_host_capacity = 0, tn_host = \<lambda>_. 0, tn_published = []\<rparr>"

definition transport_runtime :: "u32 runtime" where
  "transport_runtime = sample_runtime\<lparr>rt_log := [(CudaStreamCreateWithFlags, 0, 5)]\<rparr>"

lemma started_transport_reachable: "transport_reachable sample_cuda publish_frame sample_runtime started_transport transport_runtime"
  by (rule transport_reachable.constructed)
    (simp add: GpuImageTransportNodeBase_def rt_call_def Let_def started_transport_def transport_runtime_def sample_defs)

theorem transport_keeps_its_host_buffer_witness:
  "rt_books (rt_log (snd (transport_destroy sample_cuda started_transport transport_runtime))) {#} {#} {#}
    \<and> rt_log transport_runtime = [(CudaStreamCreateWithFlags, 0, 5)]"
  using transport_keeps_its_host_buffer [OF started_transport_reachable]
  by (simp add: sample_runtime_def transport_runtime_def)


end
