(* ===== verification/Status_Format.thy ===== *)
theory Status_Format
  imports Inference_Node
begin

text \<open>
  \<^verbatim>\<open>multi_process_image_fanout/status_format.hpp\<close>: the JSON text of the statuses that the encoder-like
  and the inference-like node publish. How a stream set to \<^verbatim>\<open>std::fixed\<close> with four decimals prints a
  \<^verbatim>\<open>float\<close> is the parameter \<open>fixed4\<close>.
\<close>

section \<open>Text\<close>

abbreviation double_quote :: char where "double_quote \<equiv> CHR 0x22"
abbreviation backslash :: char where "backslash \<equiv> CHR 0x5C"

definition escape_char :: "char \<Rightarrow> string" where
  "escape_char ch = (if ch = double_quote \<or> ch = backslash then [backslash, ch] else [ch])"

definition quote_json_string :: "string \<Rightarrow> string" where
  "quote_json_string value = double_quote # concat (map escape_char value) @ [double_quote]"

text \<open>\<^verbatim>\<open>operator<<\<close> on a signed integer.\<close>

definition signed_dec :: "int \<Rightarrow> string" where
  "signed_dec i = (if i < 0 then CHR ''-'' # dec (nat (- i)) else dec (nat i))"

text \<open>A name in quotes and a colon, as the literals of the code spell it.\<close>

definition json_name :: "string \<Rightarrow> string" where
  "json_name name = double_quote # name @ [double_quote, CHR '':'']"

definition format_encoder_status ::
    "('f \<Rightarrow> string) \<Rightarrow> u64 \<Rightarrow> 64 word \<Rightarrow> i32 \<Rightarrow> i32 \<Rightarrow> u64 \<Rightarrow> 'f \<Rightarrow> string" where
  "format_encoder_status fixed4 received_count stamp_ns output_width output_height checksum kernel_ms =
     CHR ''{'' # json_name ''node'' @ quote_json_string ''encoder_like'' @ CHR '','' #
     json_name ''received'' @ dec (unat received_count) @ CHR '','' #
     json_name ''stamp_ns'' @ signed_dec (sint stamp_ns) @ CHR '','' #
     json_name ''output_width'' @ signed_dec (sint output_width) @ CHR '','' #
     json_name ''output_height'' @ signed_dec (sint output_height) @ CHR '','' #
     json_name ''checksum'' @ dec (unat checksum) @ CHR '','' #
     json_name ''kernel_ms'' @ fixed4 kernel_ms @ ''}''"

definition format_inference_status ::
    "('f \<Rightarrow> string) \<Rightarrow> u64 \<Rightarrow> 64 word \<Rightarrow> 'f \<Rightarrow> 'f \<Rightarrow> 'f \<Rightarrow> u64 \<Rightarrow> 'f \<Rightarrow> string" where
  "format_inference_status fixed4 received_count stamp_ns mean smallest largest checksum kernel_ms =
     CHR ''{'' # json_name ''node'' @ quote_json_string ''inference_like'' @ CHR '','' #
     json_name ''received'' @ dec (unat received_count) @ CHR '','' #
     json_name ''stamp_ns'' @ signed_dec (sint stamp_ns) @ CHR '','' #
     json_name ''mean'' @ fixed4 mean @ CHR '','' #
     json_name ''min'' @ fixed4 smallest @ CHR '','' #
     json_name ''max'' @ fixed4 largest @ CHR '','' #
     json_name ''checksum'' @ dec (unat checksum) @ CHR '','' #
     json_name ''kernel_ms'' @ fixed4 kernel_ms @ ''}''"

text \<open>
  What the encoder puts into the message of a status; \<open>nanoseconds\<close> is \<^verbatim>\<open>rclcpp::Time::nanoseconds\<close>.
\<close>

definition encoder_status_text :: "(u64 \<Rightarrow> string) \<Rightarrow> (i32 \<Rightarrow> u32 \<Rightarrow> 64 word) \<Rightarrow> encoder_status \<Rightarrow> string" where
  "encoder_status_text fixed4 nanoseconds s =
     format_encoder_status fixed4 (es_received s) (nanoseconds (rh_sec (es_header s)) (rh_nanosec (es_header s)))
       (ucast (es_width s)) (ucast (es_height s)) (es_checksum s) (es_kernel_ms s)"

section \<open>Reading the text back\<close>

text \<open>A reader of JSON strings with the two escapes, after the opening quote.\<close>

fun read_quoted :: "string \<Rightarrow> (string \<times> string) option" where
  "read_quoted [] = None"
| "read_quoted (c # cs) =
     (if c = double_quote then Some ([], cs)
      else if c = backslash
      then (case cs of [] \<Rightarrow> None | d # ds \<Rightarrow> map_option (\<lambda>(s, rest). (d # s, rest)) (read_quoted ds))
      else map_option (\<lambda>(s, rest). (c # s, rest)) (read_quoted cs))"

lemma read_quoted_escape: "read_quoted (escape_char c @ cs) = map_option (\<lambda>(s, rest). (c # s, rest)) (read_quoted cs)"
  by (simp add: escape_char_def)

text \<open>What was quoted is read back, whatever characters it has and whatever follows.\<close>

lemma quote_json_string_roundtrip: "read_quoted (tl (quote_json_string s @ rest)) = Some (s, rest)"
proof -
  have "read_quoted (concat (map escape_char s) @ double_quote # rest) = Some (s, rest)"
    by (induction s) (simp_all add: read_quoted_escape)
  then show ?thesis by (simp add: quote_json_string_def)
qed

lemma comma_no_digit: "\<not> is_digit (CHR '','')"
  by (simp add: is_digit_def)

lemma minus_no_digit: "\<not> is_digit (CHR ''-'')"
  by (simp add: is_digit_def)

lemma dec_then: "dec a @ CHR '','' # x = dec b @ CHR '','' # y \<longleftrightarrow> a = b \<and> x = y"
proof
  assume "dec a @ CHR '','' # x = dec b @ CHR '','' # y"
  from digit_runs_inject [OF dec_digits dec_digits comma_no_digit this] show "a = b \<and> x = y" by simp
qed simp

lemma signed_dec_then: "signed_dec a @ CHR '','' # x = signed_dec b @ CHR '','' # y \<longleftrightarrow> a = b \<and> x = y"
proof -
  have minus: "CHR ''-'' # xs \<noteq> dec n @ ys" "dec n @ ys \<noteq> CHR ''-'' # xs" for xs ys n
    using dec_digits [of n] minus_no_digit by (cases "dec n"; auto)+
  consider "a < 0" "b < 0" | "a < 0" "0 \<le> b" | "0 \<le> a" "b < 0" | "0 \<le> a" "0 \<le> b" by linarith
  then show ?thesis
  proof cases
    case 1
    then show ?thesis by (simp add: signed_dec_def dec_then eq_nat_nat_iff)
  next
    case 2
    then show ?thesis by (simp add: signed_dec_def minus)
  next
    case 3
    then show ?thesis by (simp add: signed_dec_def minus)
  next
    case 4
    then show ?thesis by (simp add: signed_dec_def dec_then eq_nat_nat_iff)
  qed
qed

lemma sint_eq: "sint (a :: 'a::len word) = sint b \<longleftrightarrow> a = b"
  by (auto intro: signed_word_eqI)

text \<open>Two encoder statuses have the same text only if they report the same numbers.\<close>

theorem encoder_status_text_is_unambiguous:
  "format_encoder_status fixed4 received stamp width height checksum ms
     = format_encoder_status fixed4 received' stamp' width' height' checksum' ms'
   \<longleftrightarrow> received = received' \<and> stamp = stamp' \<and> width = width' \<and> height = height' \<and> checksum = checksum'
     \<and> fixed4 ms = fixed4 ms'"
  by (auto simp: format_encoder_status_def dec_then signed_dec_then word_unat_eq_iff sint_eq)

text \<open>
  Two inference statuses, when the text of a number has no comma.
\<close>

lemma no_comma_then:
  assumes "CHR '','' \<notin> set a" "CHR '','' \<notin> set b"
  shows "a @ CHR '','' # x = b @ CHR '','' # y \<longleftrightarrow> a = b \<and> x = y"
proof
  assume e: "a @ CHR '','' # x = b @ CHR '','' # y"
  have "takeWhile (\<lambda>c. c \<noteq> CHR '','') (a @ CHR '','' # x) = a" "takeWhile (\<lambda>c. c \<noteq> CHR '','') (b @ CHR '','' # y) = b"
    using assms by (subst takeWhile_append2; auto)+
  with e show "a = b \<and> x = y" by auto
qed simp

theorem inference_status_text_is_unambiguous:
  assumes "\<And>v. CHR '','' \<notin> set (fixed4 v)"
  shows "format_inference_status fixed4 received stamp mean lo hi checksum ms
     = format_inference_status fixed4 received' stamp' mean' lo' hi' checksum' ms'
   \<longleftrightarrow> received = received' \<and> stamp = stamp' \<and> fixed4 mean = fixed4 mean' \<and> fixed4 lo = fixed4 lo' \<and> fixed4 hi = fixed4 hi'
     \<and> checksum = checksum' \<and> fixed4 ms = fixed4 ms'"
  using assms
  by (auto simp: format_inference_status_def dec_then signed_dec_then no_comma_then word_unat_eq_iff sint_eq)

end
