(* ===== verification/Poc_Programs.thy ===== *)
theory Poc_Programs
  imports Device_Kernels
begin

text \<open>
  The four stand-alone programs of \<^verbatim>\<open>utils/cuda_ipc_poc\<close>: two producers that fill a buffer and
  share it, over a Unix socket (\<^verbatim>\<open>src/vmm_fd\<close>) or over FIFOs (\<^verbatim>\<open>src/cuda_ipc\<close>), and the consumers
  that add to it. A program is a tree: an exit status, or a call with what follows each answer. The
  names of the calls are those of the C functions. What is logged is left out, except the four
  numbers that the programs print of the buffer.
\<close>

section \<open>Calls and programs\<close>

datatype (plugins only: code) (dead 'm) poc_call =
    cudaSetDevice i32
  | cudaFree u64
  | cudaGetDeviceProperties i32
  | cuInit
  | cuDeviceGet i32
  | cuDevicePrimaryCtxRetain u64
  | cuDevicePrimaryCtxRelease u64
  | cuCtxSetCurrent u64
  | cuMemGetAllocationGranularity i32
  | cuMemCreate u64 i32
  | cuMemRelease u64
  | cuMemAddressReserve u64
  | cuMemAddressFree u64 u64
  | cuMemMap u64 u64 u64
  | cuMemUnmap u64 u64
  | cuMemSetAccess u64 u64 i32
  | cuMemExportToShareableHandle u64
  | cuMemImportFromShareableHandle int
  | cudaMalloc u64
  | cudaEventCreateWithFlags
  | cudaEventRecord u64
  | cudaEventSynchronize u64
  | cudaEventDestroy u64
  | cudaIpcGetMemHandle u64
  | cudaIpcGetEventHandle u64
  | cudaIpcOpenMemHandle "u8 list"
  | cudaIpcOpenEventHandle "u8 list"
  | cudaIpcCloseMemHandle u64
  | launch_fill_kernel u32 u32 u64 i32 i32
  | launch_add_kernel u32 u32 u64 i32 i32
  | cudaDeviceSynchronize
  | cudaMemcpy_ints u64 nat
  | posix_socket
  | posix_unlink string
  | posix_bind int string
  | posix_listen int
  | posix_accept int
  | posix_connect int string
  | posix_sendmsg int int 'm
  | posix_recvmsg int
  | posix_mkfifo string
  | posix_open_write string
  | posix_open_read string
  | posix_write_msg int 'm
  | posix_read_msg int
  | posix_write_byte int char
  | posix_read_byte int
  | posix_close int
  | printf_ints "i32 list"

text \<open>
  \<open>an_rc\<close>: the CUDA error, or what a POSIX function returns (negative on failure); \<open>an_out\<close>: what is
  written through an out parameter; \<open>an_blob\<close>: an IPC handle; \<open>an_ints\<close>: what a copy to the host
  delivers; \<open>an_msg\<close> and \<open>an_rights\<close>: a received message and the descriptor of its \<^verbatim>\<open>SCM_RIGHTS\<close> part.
\<close>

record 'm answer =
  an_rc :: int
  an_out :: u64
  an_blob :: "u8 list"
  an_ints :: "i32 list"
  an_msg :: 'm
  an_rights :: "int option"

datatype (plugins only: code) (dead 'm) program = Exit int | Do "'m poc_call" "'m answer \<Rightarrow> 'm program"

text \<open>The macros \<^verbatim>\<open>CUDA_CHECK\<close> and \<^verbatim>\<open>CU_CHECK\<close>.\<close>

definition CUDA_CHECK :: "'m poc_call \<Rightarrow> ('m answer \<Rightarrow> 'm program) \<Rightarrow> 'm program" where
  "CUDA_CHECK c k = Do c (\<lambda>a. if an_rc a \<noteq> 0 then Exit 1 else k a)"

definition CU_CHECK :: "'m poc_call \<Rightarrow> ('m answer \<Rightarrow> 'm program) \<Rightarrow> 'm program" where
  "CU_CHECK c k = Do c (\<lambda>a. if an_rc a \<noteq> 0 then Exit 1 else k a)"

text \<open>The exit status of a process that a signal kills.\<close>

definition SIGFPE :: int where "SIGFPE = - 8"
definition SIGPIPE :: int where "SIGPIPE = - 13"

section \<open>The kernels\<close>

definition fill_kernel :: "u32 \<Rightarrow> u64 \<Rightarrow> i32 \<Rightarrow> i32 \<Rightarrow> thread_id \<Rightarrow> (u64 \<Rightarrow> i32) \<Rightarrow> (u64 \<times> i32) list" where
  "fill_kernel blockDim p n v t m =
     (let i = global_x blockDim t in if sint i < sint n then [(p + scast i * 4, v)] else [])"

definition add_kernel :: "u32 \<Rightarrow> u64 \<Rightarrow> i32 \<Rightarrow> i32 \<Rightarrow> thread_id \<Rightarrow> (u64 \<Rightarrow> i32) \<Rightarrow> (u64 \<times> i32) list" where
  "add_kernel blockDim p n v t m =
     (let i = global_x blockDim t in if sint i < sint n then [(p + scast i * 4, m (p + scast i * 4) + v)] else [])"

text \<open>\<^verbatim>\<open>(N + 255) / 256\<close>, the number of blocks.\<close>

definition poc_blocks :: "i32 \<Rightarrow> u32" where
  "poc_blocks n = word_of_int (sint (n + 255) sdiv 256)"

section \<open>The producer over a socket\<close>

record vmm_msg =
  vm_dev :: i32
  vm_logical_bytes :: u64
  vm_alloc_bytes :: u64
  vm_event_handle :: "u8 list"

definition sizeof_vmm_msg :: int where "sizeof_vmm_msg = 88"

definition sock_path :: string where "sock_path = ''/tmp/cuda_fd_share.sock''"

definition make_server_socket :: "string \<Rightarrow> (int \<Rightarrow> vmm_msg program) \<Rightarrow> vmm_msg program" where
  "make_server_socket path k =
     Do posix_socket (\<lambda>s. let fd = an_rc s in
     if fd < 0 then Exit 2
     else Do (posix_unlink path) (\<lambda>_.
     Do (posix_bind fd path) (\<lambda>b.
     if an_rc b \<noteq> 0 then Do (posix_close fd) (\<lambda>_. Exit 2)
     else Do (posix_listen fd) (\<lambda>l.
     if an_rc l \<noteq> 0 then Do (posix_close fd) (\<lambda>_. Exit 2)
     else k fd))))"

definition accept_client :: "int \<Rightarrow> (int \<Rightarrow> vmm_msg program) \<Rightarrow> vmm_msg program" where
  "accept_client server_fd k = Do (posix_accept server_fd) (\<lambda>c. if an_rc c < 0 then Exit 2 else k (an_rc c))"

definition send_fd_with_header :: "int \<Rightarrow> int \<Rightarrow> vmm_msg \<Rightarrow> vmm_msg program \<Rightarrow> vmm_msg program" where
  "send_fd_with_header sock fd_to_send hdr k =
     Do (posix_sendmsg sock fd_to_send hdr) (\<lambda>s. if an_rc s < 0 then Exit 3 else k)"

definition recv_done :: "int \<Rightarrow> vmm_msg program \<Rightarrow> vmm_msg program" where
  "recv_done sock k = Do (posix_read_byte sock) (\<lambda>r. if an_rc r \<noteq> 1 then Exit 4 else k)"

definition vmm_verify_and_clean ::
    "u64 \<Rightarrow> int \<Rightarrow> int \<Rightarrow> int \<Rightarrow> u64 \<Rightarrow> u64 \<Rightarrow> u64 \<Rightarrow> u64 \<Rightarrow> vmm_msg program" where
  "vmm_verify_and_clean cu_dev cfd sfd share_fd ready_event dptr alloc_bytes allocHandle =
     CUDA_CHECK (cudaMemcpy_ints dptr 4) (\<lambda>host.
     Do (printf_ints (an_ints host)) (\<lambda>_.
     Do (posix_close cfd) (\<lambda>_.
     Do (posix_close sfd) (\<lambda>_.
     Do (posix_close share_fd) (\<lambda>_.
     CUDA_CHECK (cudaEventDestroy ready_event) (\<lambda>_.
     CU_CHECK (cuMemUnmap dptr alloc_bytes) (\<lambda>_.
     CU_CHECK (cuMemAddressFree dptr alloc_bytes) (\<lambda>_.
     CU_CHECK (cuMemRelease allocHandle) (\<lambda>_.
     CU_CHECK (cuDevicePrimaryCtxRelease cu_dev) (\<lambda>_.
     Do (posix_unlink sock_path) (\<lambda>_.
     Exit 0)))))))))))"

definition vmm_fill_and_share :: "i32 \<Rightarrow> u64 \<Rightarrow> int \<Rightarrow> u64 \<Rightarrow> u64 \<Rightarrow> u64 \<Rightarrow> u64 \<Rightarrow> vmm_msg program" where
  "vmm_fill_and_share dev cu_dev sfd logical_bytes alloc_bytes allocHandle dptr =
     CUDA_CHECK cudaEventCreateWithFlags (\<lambda>ev. let ready_event = an_out ev in
     CUDA_CHECK (launch_fill_kernel (poc_blocks 1024) 256 dptr 1024 123) (\<lambda>_.
     CUDA_CHECK (cudaEventRecord ready_event) (\<lambda>_.
     CUDA_CHECK (cudaIpcGetEventHandle ready_event) (\<lambda>h. let event_h = an_blob h in
     CU_CHECK (cuMemExportToShareableHandle allocHandle) (\<lambda>x. let share_fd = sint (ucast (an_out x) :: i32) in
     if share_fd < 0 then Exit 5
     else accept_client sfd (\<lambda>cfd.
     send_fd_with_header cfd share_fd
       \<lparr>vm_dev = dev, vm_logical_bytes = logical_bytes, vm_alloc_bytes = alloc_bytes, vm_event_handle = event_h\<rparr>
     (recv_done cfd
     (vmm_verify_and_clean cu_dev cfd sfd share_fd ready_event dptr alloc_bytes allocHandle))))))))"

text \<open>A granularity of zero would divide by zero.\<close>

definition vmm_allocate :: "i32 \<Rightarrow> u64 \<Rightarrow> int \<Rightarrow> vmm_msg program" where
  "vmm_allocate dev cu_dev sfd =
     (let logical_bytes = 1024 * 4 in
     CU_CHECK (cuMemGetAllocationGranularity dev) (\<lambda>g. let gran = an_out g in
     if gran = 0 then Exit SIGFPE
     else let alloc_bytes = ((logical_bytes + gran - 1) div gran) * gran in
     CU_CHECK (cuMemCreate alloc_bytes dev) (\<lambda>c. let allocHandle = an_out c in
     CU_CHECK (cuMemAddressReserve alloc_bytes) (\<lambda>r. let dptr = an_out r in
     CU_CHECK (cuMemMap dptr alloc_bytes allocHandle) (\<lambda>_.
     CU_CHECK (cuMemSetAccess dptr alloc_bytes dev) (\<lambda>_.
     vmm_fill_and_share dev cu_dev sfd logical_bytes alloc_bytes allocHandle dptr))))))"

definition vmm_fd_producer :: "i32 \<Rightarrow> vmm_msg program" where
  "vmm_fd_producer dev =
     CUDA_CHECK (cudaSetDevice dev) (\<lambda>_.
     CUDA_CHECK (cudaFree 0) (\<lambda>_.
     CU_CHECK cuInit (\<lambda>_.
     CU_CHECK (cuDeviceGet dev) (\<lambda>d. let cu_dev = an_out d in
     CU_CHECK (cuDevicePrimaryCtxRetain cu_dev) (\<lambda>ctx.
     CU_CHECK (cuCtxSetCurrent (an_out ctx)) (\<lambda>_.
     CUDA_CHECK (cudaGetDeviceProperties dev) (\<lambda>_.
     make_server_socket sock_path (\<lambda>sfd.
     vmm_allocate dev cu_dev sfd))))))))"

section \<open>The consumer over a socket\<close>

definition connect_socket :: "string \<Rightarrow> (int \<Rightarrow> vmm_msg program) \<Rightarrow> vmm_msg program" where
  "connect_socket path k =
     Do posix_socket (\<lambda>s. let fd = an_rc s in
     if fd < 0 then Exit 2
     else Do (posix_connect fd path) (\<lambda>c.
     if an_rc c \<noteq> 0 then Do (posix_close fd) (\<lambda>_. Exit 2)
     else k fd))"

definition recv_fd_and_header :: "int \<Rightarrow> (int \<Rightarrow> vmm_msg \<Rightarrow> vmm_msg program) \<Rightarrow> vmm_msg program" where
  "recv_fd_and_header sock k =
     Do (posix_recvmsg sock) (\<lambda>a. let n = an_rc a in
     if n < 0 then Exit 3
     else if n \<noteq> sizeof_vmm_msg then Exit 3
     else case an_rights a of
            None \<Rightarrow> Exit 3
          | Some fd \<Rightarrow> if fd < 0 then Exit 3 else k fd (an_msg a))"

definition send_done :: "int \<Rightarrow> char \<Rightarrow> vmm_msg program \<Rightarrow> vmm_msg program" where
  "send_done sock code k = Do (posix_write_byte sock code) (\<lambda>_. k)"

definition vmm_modify :: "int \<Rightarrow> vmm_msg \<Rightarrow> u64 \<Rightarrow> u64 \<Rightarrow> u64 \<Rightarrow> u64 \<Rightarrow> vmm_msg program" where
  "vmm_modify sock hdr cu_dev allocHandle dptr ready_event =
     CUDA_CHECK (cudaEventSynchronize ready_event) (\<lambda>_.
     CUDA_CHECK (cudaMemcpy_ints dptr 4) (\<lambda>host_before.
     Do (printf_ints (an_ints host_before)) (\<lambda>_.
     let n = ucast (vm_logical_bytes hdr div 4) :: i32 in
     CUDA_CHECK (launch_add_kernel (poc_blocks n) 256 dptr n 7) (\<lambda>_.
     CUDA_CHECK cudaDeviceSynchronize (\<lambda>_.
     CUDA_CHECK (cudaMemcpy_ints dptr 4) (\<lambda>host_after.
     Do (printf_ints (an_ints host_after)) (\<lambda>_.
     CUDA_CHECK (cudaEventDestroy ready_event) (\<lambda>_.
     CU_CHECK (cuMemUnmap dptr (vm_alloc_bytes hdr)) (\<lambda>_.
     CU_CHECK (cuMemAddressFree dptr (vm_alloc_bytes hdr)) (\<lambda>_.
     CU_CHECK (cuMemRelease allocHandle) (\<lambda>_.
     CU_CHECK (cuDevicePrimaryCtxRelease cu_dev) (\<lambda>_.
     send_done sock CHR ''D'' (
     Do (posix_close sock) (\<lambda>_.
     Exit 0))))))))))))))"

definition vmm_import :: "int \<Rightarrow> int \<Rightarrow> vmm_msg \<Rightarrow> u64 \<Rightarrow> vmm_msg program" where
  "vmm_import sock recv_fd hdr cu_dev =
     Do (cuMemImportFromShareableHandle recv_fd) (\<lambda>ie.
     if an_rc ie \<noteq> 0
     then send_done sock CHR ''F'' (
          Do (posix_close recv_fd) (\<lambda>_.
          Do (posix_close sock) (\<lambda>_.
          Exit 10)))
     else let allocHandle = an_out ie in
     Do (posix_close recv_fd) (\<lambda>_.
     CU_CHECK (cuMemAddressReserve (vm_alloc_bytes hdr)) (\<lambda>r. let dptr = an_out r in
     CU_CHECK (cuMemMap dptr (vm_alloc_bytes hdr) allocHandle) (\<lambda>_.
     CU_CHECK (cuMemSetAccess dptr (vm_alloc_bytes hdr) (vm_dev hdr)) (\<lambda>_.
     CUDA_CHECK (cudaIpcOpenEventHandle (vm_event_handle hdr)) (\<lambda>ev.
     vmm_modify sock hdr cu_dev allocHandle dptr (an_out ev)))))))"

definition vmm_fd_consumer :: "vmm_msg program" where
  "vmm_fd_consumer =
     connect_socket sock_path (\<lambda>sock.
     recv_fd_and_header sock (\<lambda>recv_fd hdr.
     CUDA_CHECK (cudaSetDevice (vm_dev hdr)) (\<lambda>_.
     CUDA_CHECK (cudaFree 0) (\<lambda>_.
     CU_CHECK cuInit (\<lambda>_.
     CU_CHECK (cuDeviceGet (vm_dev hdr)) (\<lambda>d. let cu_dev = an_out d in
     CU_CHECK (cuDevicePrimaryCtxRetain cu_dev) (\<lambda>ctx.
     CU_CHECK (cuCtxSetCurrent (an_out ctx)) (\<lambda>_.
     CUDA_CHECK (cudaGetDeviceProperties (vm_dev hdr)) (\<lambda>_.
     vmm_import sock recv_fd hdr cu_dev)))))))))"

section \<open>The producer over FIFOs\<close>

record ipc_msg =
  im_dev :: i32
  im_bytes :: u64
  im_handle :: "u8 list"
  im_event_handle :: "u8 list"

definition sizeof_ipc_msg :: int where "sizeof_ipc_msg = 144"

definition fifo_handle :: string where "fifo_handle = ''/tmp/cuda_ipc_handle.fifo''"
definition fifo_done :: string where "fifo_done = ''/tmp/cuda_ipc_done.fifo''"

definition ensure_fifo :: "string \<Rightarrow> ipc_msg program \<Rightarrow> ipc_msg program" where
  "ensure_fifo path k =
     Do (posix_unlink path) (\<lambda>_.
     Do (posix_mkfifo path) (\<lambda>f. if an_rc f \<noteq> 0 then Exit 2 else k))"

definition ipc_exchange :: "i32 \<Rightarrow> u64 \<Rightarrow> u64 \<Rightarrow> u64 \<Rightarrow> u8 list \<Rightarrow> u8 list \<Rightarrow> ipc_msg program" where
  "ipc_exchange dev bytes buf ready_event h event_h =
     Do (posix_open_write fifo_handle) (\<lambda>o1. let fdw = an_rc o1 in
     if fdw < 0 then Exit 3
     else Do (posix_write_msg fdw \<lparr>im_dev = dev, im_bytes = bytes, im_handle = h, im_event_handle = event_h\<rparr>) (\<lambda>w.
     if an_rc w \<noteq> sizeof_ipc_msg then Do (posix_close fdw) (\<lambda>_. Exit 4)
     else Do (posix_close fdw) (\<lambda>_.
     Do (posix_open_read fifo_done) (\<lambda>o2. let fdr = an_rc o2 in
     if fdr < 0 then Exit 5
     else Do (posix_read_byte fdr) (\<lambda>r.
     Do (posix_close fdr) (\<lambda>_.
     if an_rc r \<noteq> 1 then Exit 6
     else CUDA_CHECK (cudaMemcpy_ints buf 4) (\<lambda>host.
     Do (printf_ints (an_ints host)) (\<lambda>_.
     CUDA_CHECK (cudaEventDestroy ready_event) (\<lambda>_.
     CUDA_CHECK (cudaFree buf) (\<lambda>_.
     Exit 0))))))))))"

definition cuda_ipc_producer :: "i32 \<Rightarrow> ipc_msg program" where
  "cuda_ipc_producer dev =
     CUDA_CHECK (cudaSetDevice dev) (\<lambda>_.
     CUDA_CHECK (cudaFree 0) (\<lambda>_.
     CUDA_CHECK (cudaGetDeviceProperties dev) (\<lambda>_.
     ensure_fifo fifo_handle (
     ensure_fifo fifo_done (
     CUDA_CHECK (cudaMalloc (1024 * 4)) (\<lambda>m. let buf = an_out m in
     CUDA_CHECK cudaEventCreateWithFlags (\<lambda>ev. let ready_event = an_out ev in
     CUDA_CHECK (launch_fill_kernel (poc_blocks 1024) 256 buf 1024 123) (\<lambda>_.
     CUDA_CHECK (cudaEventRecord ready_event) (\<lambda>_.
     Do (cudaIpcGetMemHandle buf) (\<lambda>h.
     if an_rc h \<noteq> 0
     then CUDA_CHECK (cudaEventDestroy ready_event) (\<lambda>_. CUDA_CHECK (cudaFree buf) (\<lambda>_. Exit 10))
     else Do (cudaIpcGetEventHandle ready_event) (\<lambda>e.
     if an_rc e \<noteq> 0
     then CUDA_CHECK (cudaEventDestroy ready_event) (\<lambda>_. CUDA_CHECK (cudaFree buf) (\<lambda>_. Exit 11))
     else ipc_exchange dev (1024 * 4) buf ready_event (an_blob h) (an_blob e))))))))))))"

section \<open>The consumer over FIFOs\<close>

text \<open>The notification after a failure; its own failures are ignored.\<close>

definition notify_failure :: "ipc_msg program \<Rightarrow> ipc_msg program" where
  "notify_failure k =
     Do (posix_open_write fifo_done) (\<lambda>o1.
     if 0 \<le> an_rc o1
     then Do (posix_write_byte (an_rc o1) CHR ''F'') (\<lambda>_. Do (posix_close (an_rc o1)) (\<lambda>_. k))
     else k)"

definition ipc_modify :: "ipc_msg \<Rightarrow> u64 \<Rightarrow> u64 \<Rightarrow> ipc_msg program" where
  "ipc_modify msg opened ready_event =
     CUDA_CHECK (cudaEventSynchronize ready_event) (\<lambda>_.
     CUDA_CHECK (cudaMemcpy_ints opened 4) (\<lambda>before.
     Do (printf_ints (an_ints before)) (\<lambda>_.
     let n = ucast (im_bytes msg div 4) :: i32 in
     CUDA_CHECK (launch_add_kernel (poc_blocks n) 256 opened n 7) (\<lambda>_.
     CUDA_CHECK cudaDeviceSynchronize (\<lambda>_.
     CUDA_CHECK (cudaMemcpy_ints opened 4) (\<lambda>after_add.
     Do (printf_ints (an_ints after_add)) (\<lambda>_.
     CUDA_CHECK (cudaEventDestroy ready_event) (\<lambda>_.
     CUDA_CHECK (cudaIpcCloseMemHandle opened) (\<lambda>_.
     Do (posix_open_write fifo_done) (\<lambda>o1. let fdw = an_rc o1 in
     if fdw < 0 then Exit 4
     else Do (posix_write_byte fdw CHR ''D'') (\<lambda>w.
     if an_rc w \<noteq> 1 then Do (posix_close fdw) (\<lambda>_. Exit 5)
     else Do (posix_close fdw) (\<lambda>_. Exit 0))))))))))))"

definition cuda_ipc_consumer :: "ipc_msg program" where
  "cuda_ipc_consumer =
     Do (posix_open_read fifo_handle) (\<lambda>o1. let fdr = an_rc o1 in
     if fdr < 0 then Exit 2
     else Do (posix_read_msg fdr) (\<lambda>r. let msg = an_msg r in
     Do (posix_close fdr) (\<lambda>_.
     if an_rc r \<noteq> sizeof_ipc_msg then Exit 3
     else CUDA_CHECK (cudaSetDevice (im_dev msg)) (\<lambda>_.
     CUDA_CHECK (cudaFree 0) (\<lambda>_.
     CUDA_CHECK (cudaGetDeviceProperties (im_dev msg)) (\<lambda>_.
     Do (cudaIpcOpenMemHandle (im_handle msg)) (\<lambda>m.
     if an_rc m \<noteq> 0 then notify_failure (Exit 10)
     else let opened = an_out m in
     Do (cudaIpcOpenEventHandle (im_event_handle msg)) (\<lambda>ev.
     if an_rc ev \<noteq> 0 then CUDA_CHECK (cudaIpcCloseMemHandle opened) (\<lambda>_. notify_failure (Exit 11))
     else ipc_modify msg opened (an_out ev)))))))))"

lemmas vmm_program_defs = CUDA_CHECK_def CU_CHECK_def make_server_socket_def accept_client_def send_fd_with_header_def recv_done_def
  vmm_verify_and_clean_def vmm_fill_and_share_def vmm_allocate_def vmm_fd_producer_def
  connect_socket_def recv_fd_and_header_def send_done_def vmm_modify_def vmm_import_def vmm_fd_consumer_def

lemmas ipc_program_defs = CUDA_CHECK_def ensure_fifo_def ipc_exchange_def cuda_ipc_producer_def notify_failure_def
  ipc_modify_def cuda_ipc_consumer_def

section \<open>A program alone\<close>

text \<open>
  The environment answers each call, as a function of what happened before. A run is the exit status
  and the list of calls with their answers.
\<close>

type_synonym 'm poc_log = "('m poc_call \<times> 'm answer) list"

primrec run_program :: "'m program \<Rightarrow> ('m poc_log \<Rightarrow> 'm poc_call \<Rightarrow> 'm answer) \<Rightarrow> 'm poc_log \<Rightarrow> int \<times> 'm poc_log" where
  "run_program (Exit c) E log = (c, log)"
| "run_program (Do c k) E log = (let a = E log c in run_program (k a) E (log @ [(c, a)]))"

text \<open>What a call acquires and what it gives back.\<close>

datatype (plugins only: code) poc_resource =
    PDescriptor int | PEvent u64 | PRange u64 u64 | PAllocation u64 | PMapping u64 u64 | PPrimaryContext u64
  | PBuffer u64 | POpened u64

definition poc_gains :: "'m poc_call \<Rightarrow> 'm answer \<Rightarrow> poc_resource option" where
  "poc_gains c a = (case c of
       posix_socket \<Rightarrow> if an_rc a < 0 then None else Some (PDescriptor (an_rc a))
     | posix_accept _ \<Rightarrow> if an_rc a < 0 then None else Some (PDescriptor (an_rc a))
     | posix_open_read _ \<Rightarrow> if an_rc a < 0 then None else Some (PDescriptor (an_rc a))
     | posix_open_write _ \<Rightarrow> if an_rc a < 0 then None else Some (PDescriptor (an_rc a))
     | posix_recvmsg _ \<Rightarrow> if an_rc a < 0 then None else map_option PDescriptor (an_rights a)
     | cuMemExportToShareableHandle _ \<Rightarrow> if an_rc a \<noteq> 0 then None else Some (PDescriptor (sint (ucast (an_out a) :: i32)))
     | cudaEventCreateWithFlags \<Rightarrow> if an_rc a \<noteq> 0 then None else Some (PEvent (an_out a))
     | cudaIpcOpenEventHandle _ \<Rightarrow> if an_rc a \<noteq> 0 then None else Some (PEvent (an_out a))
     | cuMemAddressReserve n \<Rightarrow> if an_rc a \<noteq> 0 then None else Some (PRange (an_out a) n)
     | cuMemCreate _ _ \<Rightarrow> if an_rc a \<noteq> 0 then None else Some (PAllocation (an_out a))
     | cuMemImportFromShareableHandle _ \<Rightarrow> if an_rc a \<noteq> 0 then None else Some (PAllocation (an_out a))
     | cuMemMap p n _ \<Rightarrow> if an_rc a \<noteq> 0 then None else Some (PMapping p n)
     | cuDevicePrimaryCtxRetain d \<Rightarrow> if an_rc a \<noteq> 0 then None else Some (PPrimaryContext d)
     | cudaMalloc _ \<Rightarrow> if an_rc a \<noteq> 0 \<or> an_out a = 0 then None else Some (PBuffer (an_out a))
     | cudaIpcOpenMemHandle _ \<Rightarrow> if an_rc a \<noteq> 0 then None else Some (POpened (an_out a))
     | _ \<Rightarrow> None)"

definition poc_losses :: "'m poc_call \<Rightarrow> poc_resource option" where
  "poc_losses c = (case c of
       posix_close fd \<Rightarrow> Some (PDescriptor fd)
     | cudaEventDestroy e \<Rightarrow> Some (PEvent e)
     | cuMemAddressFree p n \<Rightarrow> Some (PRange p n)
     | cuMemRelease h \<Rightarrow> Some (PAllocation h)
     | cuMemUnmap p n \<Rightarrow> Some (PMapping p n)
     | cuDevicePrimaryCtxRelease d \<Rightarrow> Some (PPrimaryContext d)
     | cudaFree p \<Rightarrow> if p = 0 then None else Some (PBuffer p)
     | cudaIpcCloseMemHandle p \<Rightarrow> Some (POpened p)
     | _ \<Rightarrow> None)"

definition poc_books :: "poc_resource multiset \<Rightarrow> 'm poc_call \<Rightarrow> 'm answer \<Rightarrow> poc_resource multiset" where
  "poc_books L c a =
     (case poc_gains c a of None \<Rightarrow> L | Some g \<Rightarrow> add_mset g L) - (case poc_losses c of None \<Rightarrow> {#} | Some l \<Rightarrow> {#l#})"

definition poc_held :: "'m poc_log \<Rightarrow> poc_resource multiset" where
  "poc_held log = fold (\<lambda>(c, a) L. poc_books L c a) log {#}"

text \<open>
  A tree is balanced from the books \<open>L\<close> on if every way through it that ends with status 0 ends with
  empty books.
\<close>

primrec balanced :: "'m program \<Rightarrow> poc_resource multiset \<Rightarrow> bool" where
  "balanced (Exit c) L = (c = 0 \<longrightarrow> L = {#})"
| "balanced (Do c k) L = (\<forall>a. balanced (k a) (poc_books L c a))"

lemma balanced_run:
  "balanced p (poc_held log) \<Longrightarrow> run_program p E log = (0, log') \<Longrightarrow> poc_held log' = {#}"
proof (induction p arbitrary: log)
  case (Do c k)
  let ?a = "E log c"
  have "balanced (k ?a) (poc_held (log @ [(c, ?a)]))" using Do.prems(1) by (simp add: poc_held_def)
  then show ?case using Do.IH [of "k ?a" "log @ [(c, ?a)]"] Do.prems(2) by (simp add: Let_def)
qed simp

lemmas books_simps = poc_books_def poc_gains_def poc_losses_def

lemma balanced_success: "balanced p {#} \<Longrightarrow> run_program p E [] = (0, log) \<Longrightarrow> poc_held log = {#}"
  by (rule balanced_run [of p "[]"]) (simp_all add: poc_held_def)

lemma vmm_producer_balanced: "balanced (vmm_fd_producer dev) {#}"
  by (simp add: vmm_program_defs books_simps Let_def SIGFPE_def add_mset_commute)

lemma ipc_producer_balanced: "balanced (cuda_ipc_producer dev) {#}"
  by (simp add: ipc_program_defs books_simps Let_def add_mset_commute)

lemma ipc_consumer_balanced: "balanced cuda_ipc_consumer {#}"
  by (simp add: ipc_program_defs books_simps Let_def)

lemma vmm_consumer_balanced: "balanced vmm_fd_consumer {#}"
  by (simp add: vmm_program_defs books_simps Let_def add_mset_commute split: option.split)

section \<open>Properties\<close>


text \<open>An environment in which every call succeeds, with a new number for whatever it creates.\<close>

definition obliging :: "'m \<Rightarrow> 'm poc_log \<Rightarrow> 'm poc_call \<Rightarrow> 'm answer" where
  "obliging m log c =
     \<lparr>an_rc = (case c of
         posix_socket \<Rightarrow> 3 + int (length log) | posix_accept _ \<Rightarrow> 3 + int (length log)
       | posix_open_read _ \<Rightarrow> 3 + int (length log) | posix_open_write _ \<Rightarrow> 3 + int (length log)
       | posix_sendmsg _ _ _ \<Rightarrow> sizeof_vmm_msg | posix_recvmsg _ \<Rightarrow> sizeof_vmm_msg
       | posix_write_msg _ _ \<Rightarrow> sizeof_ipc_msg | posix_read_msg _ \<Rightarrow> sizeof_ipc_msg
       | posix_write_byte _ _ \<Rightarrow> 1 | posix_read_byte _ \<Rightarrow> 1 | _ \<Rightarrow> 0),
      an_out = of_nat (length log + 1), an_blob = [1, 2], an_ints = [130, 130, 130, 130], an_msg = m,
      an_rights = Some 99\<rparr>"

definition sample_vmm_msg :: vmm_msg where
  "sample_vmm_msg = \<lparr>vm_dev = 0, vm_logical_bytes = 4096, vm_alloc_bytes = 4096, vm_event_handle = [1, 2]\<rparr>"

definition sample_ipc_msg :: ipc_msg where
  "sample_ipc_msg = \<lparr>im_dev = 0, im_bytes = 4096, im_handle = [1, 2], im_event_handle = [1, 2]\<rparr>"

lemmas obliging_defs = obliging_def sizeof_vmm_msg_def sizeof_ipc_msg_def

lemma successful_runs:
  "fst (run_program (vmm_fd_producer 0) (obliging sample_vmm_msg) []) = 0"
  "fst (run_program vmm_fd_consumer (obliging sample_vmm_msg) []) = 0"
  "fst (run_program (cuda_ipc_producer 0) (obliging sample_ipc_msg) []) = 0"
  "fst (run_program cuda_ipc_consumer (obliging sample_ipc_msg) []) = 0"
  by (simp_all add: vmm_program_defs ipc_program_defs obliging_defs Let_def)


end
