(* ===== verification/Poc_Exchange.thy ===== *)
theory Poc_Exchange
  imports Poc_Programs
begin

text \<open>
  The two processes of a proof of concept and the device between them. Each process has a stream, a
  queue of work the device does later; the threads of a kernel run in any order. The buffer that the
  producer shares is one allocation, which each process sees at an address of its own; its cells are
  numbered by byte offset. What the processes send to each other is left to the theories that
  import this one.
\<close>

section \<open>The device\<close>

datatype role = Producer | Consumer

primrec peer :: "role \<Rightarrow> role" where
  "peer Producer = Consumer"
| "peer Consumer = Producer"

datatype work = Kernel u64 "thread_id list" "thread_id \<Rightarrow> (u64 \<Rightarrow> i32) \<Rightarrow> (u64 \<times> i32) list" | EventRecord

record device_world =
  dw_cells :: "u64 \<Rightarrow> i32"
  dw_queue :: "role \<Rightarrow> work list"
  dw_base :: "role \<Rightarrow> u64 option"
  dw_printed :: "role \<Rightarrow> i32 list list"

text \<open>A function on the memory of a process that sees the buffer at \<open>base\<close>, as one on the cells.\<close>

definition through :: "u64 \<Rightarrow> ((u64 \<Rightarrow> i32) \<Rightarrow> u64 \<Rightarrow> i32) \<Rightarrow> (u64 \<Rightarrow> i32) \<Rightarrow> u64 \<Rightarrow> i32" where
  "through base f cells = (\<lambda>offset. f (\<lambda>a. cells (a - base)) (base + offset))"

primrec work_done :: "work \<Rightarrow> (u64 \<Rightarrow> i32) \<Rightarrow> (u64 \<Rightarrow> i32) \<Rightarrow> bool" where
  "work_done (Kernel base threads body) cells cells' \<longleftrightarrow>
     (\<exists>order. mset order = mset threads \<and> cells' = through base (run_threads body order) cells)"
| "work_done EventRecord cells cells' \<longleftrightarrow> cells' = cells"

definition linear_grid :: "u32 \<Rightarrow> u32 \<Rightarrow> thread_id list" where
  "linear_grid blocks block_size = grid_threads (blocks, 1) (block_size, 1)"

definition copied_ints :: "role \<Rightarrow> u64 \<Rightarrow> nat \<Rightarrow> 'w device_world_scheme \<Rightarrow> i32 list" where
  "copied_ints r p n w = (case dw_base w r of
       None \<Rightarrow> []
     | Some base \<Rightarrow> map (\<lambda>i. dw_cells w (p + of_nat (4 * i) - base)) [0..<n])"

text \<open>
  When a call need not wait: the last recording of the event is done (an event that was never recorded
  counts as done), the stream of the process is empty.
\<close>

definition device_enabled :: "role \<Rightarrow> 'm poc_call \<Rightarrow> 'w device_world_scheme \<Rightarrow> bool" where
  "device_enabled r c w = (case c of
       cudaEventSynchronize _ \<Rightarrow> EventRecord \<notin> set (dw_queue w Producer)
     | cudaDeviceSynchronize \<Rightarrow> dw_queue w r = []
     | cudaMemcpy_ints _ _ \<Rightarrow> dw_queue w r = []
     | _ \<Rightarrow> True)"

text \<open>Every call may fail; a copy that succeeds delivers what is in the buffer.\<close>

definition device_answer :: "role \<Rightarrow> 'm poc_call \<Rightarrow> 'm answer \<Rightarrow> 'w device_world_scheme \<Rightarrow> bool" where
  "device_answer r c a w = (case c of
       cudaMemcpy_ints p n \<Rightarrow> an_rc a = 0 \<longrightarrow> an_ints a = copied_ints r p n w
     | _ \<Rightarrow> True)"

definition enqueue :: "role \<Rightarrow> work \<Rightarrow> 'w device_world_scheme \<Rightarrow> 'w device_world_scheme" where
  "enqueue r item w = w\<lparr>dw_queue := (dw_queue w)(r := dw_queue w r @ [item])\<rparr>"

definition see_buffer :: "role \<Rightarrow> u64 option \<Rightarrow> 'w device_world_scheme \<Rightarrow> 'w device_world_scheme" where
  "see_buffer r base w = w\<lparr>dw_base := (dw_base w)(r := base)\<rparr>"

definition device_effect :: "role \<Rightarrow> 'm poc_call \<Rightarrow> 'm answer \<Rightarrow> 'w device_world_scheme \<Rightarrow> 'w device_world_scheme" where
  "device_effect r c a w = (case c of
       printf_ints xs \<Rightarrow> w\<lparr>dw_printed := (dw_printed w)(r := dw_printed w r @ [xs])\<rparr>
     | cuMemMap p _ _ \<Rightarrow> if an_rc a = 0 then see_buffer r (Some p) w else w
     | cudaMalloc _ \<Rightarrow> if an_rc a = 0 then see_buffer r (Some (an_out a)) w else w
     | cudaIpcOpenMemHandle _ \<Rightarrow> if an_rc a = 0 then see_buffer r (Some (an_out a)) w else w
     | cuMemUnmap _ _ \<Rightarrow> if an_rc a = 0 then see_buffer r None w else w
     | cudaIpcCloseMemHandle _ \<Rightarrow> if an_rc a = 0 then see_buffer r None w else w
     | cudaFree p \<Rightarrow> if an_rc a = 0 \<and> p \<noteq> 0 then see_buffer r None w else w
     | launch_fill_kernel blocks threads p n v \<Rightarrow>
         if an_rc a = 0 then enqueue r (Kernel (the (dw_base w r)) (linear_grid blocks threads) (fill_kernel threads p n v)) w else w
     | launch_add_kernel blocks threads p n v \<Rightarrow>
         if an_rc a = 0 then enqueue r (Kernel (the (dw_base w r)) (linear_grid blocks threads) (add_kernel threads p n v)) w else w
     | cudaEventRecord _ \<Rightarrow> if an_rc a = 0 then enqueue r EventRecord w else w
     | _ \<Rightarrow> w)"

definition exited :: "'m program \<Rightarrow> bool" where
  "exited p = (case p of Exit _ \<Rightarrow> True | _ \<Rightarrow> False)"

lemma not_exited: "\<not> exited p \<longleftrightarrow> (\<exists>c k. p = Do c k)"
  by (cases p) (simp_all add: exited_def)

text \<open>For examples: which process makes its next call, or which stream works.\<close>

datatype action = Call role | Work role

section \<open>What the kernels do to the buffer\<close>

definition filled :: "i32 \<Rightarrow> (u64 \<Rightarrow> i32) \<Rightarrow> bool" where
  "filled v cells \<longleftrightarrow> (\<forall>i < 1024. cells (of_nat (4 * i)) = v)"

definition fill_work :: "u64 \<Rightarrow> work" where
  "fill_work p = Kernel p (linear_grid 4 256) (fill_kernel 256 p 1024 123)"

definition add_work :: "u64 \<Rightarrow> work" where
  "add_work p = Kernel p (linear_grid 4 256) (add_kernel 256 p 1024 7)"

text \<open>Thread number \<open>k\<close> of the 1024 threads.\<close>

definition nth_thread :: "nat \<Rightarrow> thread_id" where
  "nth_thread k = ((of_nat (k div 256), 0), (of_nat (k mod 256), 0))"

lemma nth_thread_index:
  assumes "k < 1024"
  shows "global_x 256 (nth_thread k) = of_nat k"
proof -
  have "(of_nat (k div 256) * 256 + of_nat (k mod 256) :: i32) = of_nat (k div 256 * 256 + k mod 256)"
    by (simp only: of_nat_add of_nat_mult of_nat_numeral)
  then show ?thesis by (simp only: global_x_def nth_thread_def fst_conv snd_conv div_mult_mod_eq)
qed

lemma small_index:
  assumes "k < 1024"
  shows "sint (of_nat k :: i32) = int k" "(scast (of_nat k :: i32) :: u64) = of_nat k"
proof -
  show i: "sint (of_nat k :: i32) = int k"
    using assms by (simp add: signed_of_nat take_bit_nat_eq_self signed_take_bit_int_eq_self)
  show "(scast (of_nat k :: i32) :: u64) = of_nat k"
    using i by (metis of_int_of_nat_eq of_int_sint)
qed

lemma linear_threads:
  "set (linear_grid 4 256) = nth_thread ` {..<1024}" "distinct (linear_grid 4 256)"
proof -
  have "((i, j), (s, t)) \<in> nth_thread ` {..<1024} \<longleftrightarrow> i < 4 \<and> j < 1 \<and> s < 256 \<and> t < 1" for i j s t :: u32
  proof
    assume lt: "i < 4 \<and> j < 1 \<and> s < 256 \<and> t < 1"
    then have n: "unat i < 4" "unat s < 256" "j = 0" "t = 0" by (simp_all add: word_less_nat_alt unat_eq_0)
    show "((i, j), (s, t)) \<in> nth_thread ` {..<1024}"
      by (rule image_eqI [of _ _ "256 * unat i + unat s"]) (use n in \<open>simp_all add: nth_thread_def\<close>)
  next
    assume "((i, j), (s, t)) \<in> nth_thread ` {..<1024}"
    then obtain k where k: "k < 1024" "i = of_nat (k div 256)" "j = 0" "s = of_nat (k mod 256)" "t = 0"
      by (auto simp: nth_thread_def)
    then have "k div 256 < 4" by (simp add: less_mult_imp_div_less)
    then show "i < 4 \<and> j < 1 \<and> s < 256 \<and> t < 1"
      using k by (simp add: word_less_nat_alt unat_of_nat take_bit_nat_eq_self)
  qed
  then show set: "set (linear_grid 4 256) = nth_thread ` {..<1024}"
    unfolding linear_grid_def grid_threads_set by (intro set_eqI) (simp add: split_paired_all)
  have "inj_on nth_thread {..<1024}"
    using nth_thread_index small_index(1) by (intro inj_onI) (metis lessThan_iff of_nat_eq_iff)
  then have "card (set (linear_grid 4 256)) = 1024" unfolding set by (simp add: card_image)
  moreover have "length (linear_grid 4 256) = 1024"
    by (simp add: linear_grid_def grid_threads_def words_below_def length_concat o_def sum_list_triv)
  ultimately show "distinct (linear_grid 4 256)" by (metis card_distinct)
qed

text \<open>
  A kernel whose thread \<open>k\<close> replaces the \<open>k\<close>th integer by a function of itself, in any order of the
  threads.
\<close>

lemma run_pointwise:
  fixes p :: u64
  assumes "distinct order" "set order \<subseteq> nth_thread ` {..<1024}"
    and "\<And>k m. k < 1024 \<Longrightarrow> body (nth_thread k) m = [(p + of_nat (4 * k), g (m (p + of_nat (4 * k))))]"
    and "k < 1024"
  shows "run_threads body order m (p + of_nat (4 * k)) =
    (if nth_thread k \<in> set order then g (m (p + of_nat (4 * k))) else m (p + of_nat (4 * k)))"
  using assms(1,2)
proof (induction order rule: rev_induct)
  case (snoc t order)
  then obtain i where i: "t = nth_thread i" "i < 1024" by auto
  have same: "p + of_nat (4 * k) = p + of_nat (4 * i) \<longleftrightarrow> k = i"
  proof
    assume "p + of_nat (4 * k) = p + of_nat (4 * i)"
    then have "(of_nat (4 * k) :: u64) = of_nat (4 * i)" by (metis add_left_imp_eq)
    then have "unat (of_nat (4 * k) :: u64) = unat (of_nat (4 * i) :: u64)" by simp
    then show "k = i" using i(2) assms(4) by (simp add: unat_of_nat take_bit_nat_eq_self del: of_nat_mult)
  qed simp
  have thread: "nth_thread k = nth_thread i \<longleftrightarrow> k = i"
    using nth_thread_index small_index(1) i(2) assms(4) by (metis of_nat_eq_iff)
  show ?case
    using snoc i same thread assms(3) [OF i(2)]
    by (auto simp: run_threads_snoc store_bytes_def simp del: of_nat_mult)
qed (simp add: run_threads_def)

lemma whole_grid:
  assumes "mset order = mset (linear_grid 4 256)"
  shows "distinct order" "set order = nth_thread ` {..<1024}"
  using assms linear_threads by (metis mset_eq_imp_distinct_iff, metis mset_eq_setD)

lemma pointwise_work:
  assumes "work_done (Kernel p (linear_grid 4 256) body) cells cells'"
    and "\<And>k m. k < 1024 \<Longrightarrow> body (nth_thread k) m = [(p + of_nat (4 * k), g (m (p + of_nat (4 * k))))]"
    and "k < 1024"
  shows "cells' (of_nat (4 * k)) = g (cells (of_nat (4 * k)))"
proof -
  obtain order where order: "mset order = mset (linear_grid 4 256)"
    and cells': "cells' = through p (run_threads body order) cells" using assms(1) by auto
  show ?thesis
    using run_pointwise [where body = body and g = g, OF whole_grid(1) [OF order] _ assms(2,3)] whole_grid(2) [OF order] assms(3)
    by (simp add: cells' through_def del: of_nat_mult)
qed

lemma thread_store:
  assumes "k < 1024"
  shows "fill_kernel 256 p 1024 v (nth_thread k) m = [(p + of_nat (4 * k), v)]"
    "add_kernel 256 p 1024 v (nth_thread k) m = [(p + of_nat (4 * k), m (p + of_nat (4 * k)) + v)]"
  using assms by (simp_all add: fill_kernel_def add_kernel_def Let_def nth_thread_index small_index mult.commute)

lemma fill_work_done: "work_done (fill_work p) cells cells' \<Longrightarrow> filled 123 cells'"
  unfolding fill_work_def filled_def 
  using pointwise_work [where g = "\<lambda>_. 123" and body = "fill_kernel 256 p 1024 123"] thread_store(1) by blast

lemma add_work_done:
  assumes "work_done (add_work p) cells cells'" "filled 123 cells"
  shows "filled 130 cells'"
  unfolding filled_def
proof (intro allI impI)
  fix k :: nat
  assume "k < 1024"
  from pointwise_work [where g = "\<lambda>x. x + 7", OF assms(1) [unfolded add_work_def] thread_store(2) this]
  show "cells' (of_nat (4 * k)) = 130" using assms(2) \<open>k < 1024\<close> by (simp add: filled_def)
qed

section \<open>Roles\<close>

text \<open>
  The stations of the two programs. \<open>Lost\<close> is a consumer whose message did not arrive whole;
  \<open>Confirmed\<close> and \<open>Declined\<close> one that has sent \<open>D\<close> or \<open>F\<close>.
\<close>

datatype producer_station = Starting | Filled | Recorded | Shared | Acknowledged
datatype consumer_station =
  Waiting | Connected | Received | Synchronized | Adding | Added | Confirmed | Declined | Lost

text \<open>
  What a program has done so far: its station, where it sees the buffer, what it read there last, what
  it has printed, and the number of integers that the received message speaks of.
\<close>

record 'p progress =
  pg_station :: 'p
  pg_base :: "u64 option"
  pg_seen :: "i32 list option"
  pg_printed :: "i32 list list"
  pg_ints :: i32

definition no_progress :: "'p \<Rightarrow> 'p progress" where
  "no_progress s = \<lparr>pg_station = s, pg_base = None, pg_seen = None, pg_printed = [], pg_ints = 0\<rparr>"

text \<open>What both programs note about calls to the device.\<close>

definition note_call :: "'m poc_call \<Rightarrow> 'm answer \<Rightarrow> 'p progress \<Rightarrow> 'p progress" where
  "note_call c a g = (case c of
       printf_ints xs \<Rightarrow> g\<lparr>pg_printed := pg_printed g @ [xs]\<rparr>
     | cuMemMap p _ _ \<Rightarrow> if an_rc a = 0 then g\<lparr>pg_base := Some p\<rparr> else g
     | cudaMalloc _ \<Rightarrow> if an_rc a = 0 then g\<lparr>pg_base := Some (an_out a)\<rparr> else g
     | cudaIpcOpenMemHandle _ \<Rightarrow> if an_rc a = 0 then g\<lparr>pg_base := Some (an_out a)\<rparr> else g
     | cuMemUnmap _ _ \<Rightarrow> if an_rc a = 0 then g\<lparr>pg_base := None\<rparr> else g
     | cudaIpcCloseMemHandle _ \<Rightarrow> if an_rc a = 0 then g\<lparr>pg_base := None\<rparr> else g
     | cudaFree p \<Rightarrow> if an_rc a = 0 \<and> p \<noteq> 0 then g\<lparr>pg_base := None\<rparr> else g
     | cudaMemcpy_ints _ _ \<Rightarrow> if an_rc a = 0 then g\<lparr>pg_seen := Some (an_ints a)\<rparr> else g
     | _ \<Rightarrow> g)"

text \<open>The calls that a producer may make at its station, and where they take it.\<close>

definition producer_may :: "('m \<Rightarrow> bool) \<Rightarrow> producer_station progress \<Rightarrow> 'm poc_call \<Rightarrow> bool" where
  "producer_may good g c = (case c of
       launch_fill_kernel blocks threads p n v \<Rightarrow>
         pg_station g = Starting \<and> pg_base g = Some p \<and> blocks = 4 \<and> threads = 256 \<and> n = 1024 \<and> v = 123
     | launch_add_kernel _ _ _ _ _ \<Rightarrow> False
     | cudaEventRecord _ \<Rightarrow> pg_station g = Filled
     | posix_sendmsg _ _ m \<Rightarrow> pg_station g = Recorded \<and> good m
     | posix_write_msg _ m \<Rightarrow> pg_station g = Recorded \<and> good m
     | posix_open_read _ \<Rightarrow> pg_station g = Shared
     | posix_read_byte _ \<Rightarrow> pg_station g = Shared
     | cudaMemcpy_ints p n \<Rightarrow> pg_station g = Acknowledged \<and> pg_base g = Some p \<and> n = 4
     | printf_ints xs \<Rightarrow> pg_station g = Acknowledged \<and> pg_seen g = Some xs \<and> pg_printed g = []
     | cudaEventSynchronize _ \<Rightarrow> False
     | cudaDeviceSynchronize \<Rightarrow> False
     | posix_connect _ _ \<Rightarrow> False
     | posix_recvmsg _ \<Rightarrow> False
     | posix_read_msg _ \<Rightarrow> False
     | posix_write_byte _ _ \<Rightarrow> False
     | _ \<Rightarrow> True)"

definition producer_next :: "producer_station progress \<Rightarrow> 'm poc_call \<Rightarrow> 'm answer \<Rightarrow> producer_station progress" where
  "producer_next g c a = (case c of
       launch_fill_kernel _ _ _ _ _ \<Rightarrow> if an_rc a = 0 then g\<lparr>pg_station := Filled\<rparr> else g
     | cudaEventRecord _ \<Rightarrow> if an_rc a = 0 then g\<lparr>pg_station := Recorded\<rparr> else g
     | posix_sendmsg _ _ _ \<Rightarrow> if 0 \<le> an_rc a then g\<lparr>pg_station := Shared\<rparr> else g
     | posix_write_msg _ _ \<Rightarrow> if 0 \<le> an_rc a then g\<lparr>pg_station := Shared\<rparr> else g
     | posix_read_byte _ \<Rightarrow> if an_rc a = 1 then g\<lparr>pg_station := Acknowledged\<rparr> else g
     | _ \<Rightarrow> note_call c a g)"

definition producer_done :: "producer_station progress \<Rightarrow> int \<Rightarrow> bool" where
  "producer_done g status \<longleftrightarrow> status = 0 \<longrightarrow> pg_printed g \<noteq> []"

text \<open>The same for a consumer; \<open>whole\<close> is the size of a message, \<open>ints\<close> the number in it.\<close>

definition consumer_may :: "consumer_station progress \<Rightarrow> 'm poc_call \<Rightarrow> bool" where
  "consumer_may g c = (case c of
       posix_connect _ _ \<Rightarrow> pg_station g = Waiting
     | posix_open_read _ \<Rightarrow> pg_station g = Waiting
     | posix_recvmsg _ \<Rightarrow> pg_station g = Connected
     | posix_read_msg _ \<Rightarrow> pg_station g = Connected
     | cudaEventSynchronize _ \<Rightarrow> pg_station g = Received
     | launch_add_kernel blocks threads p n v \<Rightarrow>
         pg_station g = Synchronized \<and> pg_base g = Some p \<and> n = pg_ints g \<and> blocks = poc_blocks n \<and> threads = 256 \<and> v = 7
         \<and> pg_printed g \<noteq> []
     | cudaDeviceSynchronize \<Rightarrow> pg_station g = Adding
     | cudaMemcpy_ints p n \<Rightarrow> pg_station g \<in> {Synchronized, Added} \<and> pg_base g = Some p \<and> n = 4
     | printf_ints xs \<Rightarrow> pg_seen g = Some xs
         \<and> (pg_station g = Synchronized \<and> pg_printed g = [] \<or> pg_station g = Added \<and> length (pg_printed g) = 1)
     | posix_write_byte _ b \<Rightarrow>
         b = CHR ''D'' \<and> pg_station g = Added \<and> length (pg_printed g) = 2 \<or> b = CHR ''F'' \<and> pg_station g = Received
     | posix_open_write _ \<Rightarrow> pg_station g \<in> {Received, Added}
     | launch_fill_kernel _ _ _ _ _ \<Rightarrow> False
     | cudaEventRecord _ \<Rightarrow> False
     | posix_listen _ \<Rightarrow> False
     | posix_accept _ \<Rightarrow> False
     | posix_sendmsg _ _ _ \<Rightarrow> False
     | posix_write_msg _ _ \<Rightarrow> False
     | posix_read_byte _ \<Rightarrow> False
     | _ \<Rightarrow> True)"

definition consumer_next ::
    "int \<Rightarrow> ('m \<Rightarrow> i32) \<Rightarrow> consumer_station progress \<Rightarrow> 'm poc_call \<Rightarrow> 'm answer \<Rightarrow> consumer_station progress" where
  "consumer_next whole ints g c a = (case c of
       posix_connect _ _ \<Rightarrow> if an_rc a = 0 then g\<lparr>pg_station := Connected\<rparr> else g
     | posix_open_read _ \<Rightarrow> if 0 \<le> an_rc a then g\<lparr>pg_station := Connected\<rparr> else g
     | posix_recvmsg _ \<Rightarrow> if an_rc a = whole then g\<lparr>pg_station := Received, pg_ints := ints (an_msg a)\<rparr> else g\<lparr>pg_station := Lost\<rparr>
     | posix_read_msg _ \<Rightarrow> if an_rc a = whole then g\<lparr>pg_station := Received, pg_ints := ints (an_msg a)\<rparr> else g\<lparr>pg_station := Lost\<rparr>
     | cudaEventSynchronize _ \<Rightarrow> if an_rc a = 0 then g\<lparr>pg_station := Synchronized\<rparr> else g
     | launch_add_kernel _ _ _ _ _ \<Rightarrow> if an_rc a = 0 then g\<lparr>pg_station := Adding\<rparr> else g
     | cudaDeviceSynchronize \<Rightarrow> if an_rc a = 0 then g\<lparr>pg_station := Added, pg_seen := None\<rparr> else g
     | posix_write_byte _ b \<Rightarrow>
         if an_rc a = 1 then g\<lparr>pg_station := if b = CHR ''D'' then Confirmed else Declined\<rparr> else g
     | _ \<Rightarrow> note_call c a g)"

definition consumer_done :: "consumer_station progress \<Rightarrow> int \<Rightarrow> bool" where
  "consumer_done g status \<longleftrightarrow> status = 0 \<longrightarrow> length (pg_printed g) = 2"

text \<open>A program keeps to a role if whatever it is answered, it only makes calls the role allows.\<close>

primrec keeps_to ::
    "('g \<Rightarrow> 'm poc_call \<Rightarrow> bool) \<Rightarrow> ('g \<Rightarrow> 'm poc_call \<Rightarrow> 'm answer \<Rightarrow> 'g) \<Rightarrow> ('g \<Rightarrow> int \<Rightarrow> bool) \<Rightarrow> 'm program \<Rightarrow> 'g \<Rightarrow> bool"
    where
  "keeps_to may after ends (Exit c) g \<longleftrightarrow> ends g c"
| "keeps_to may after ends (Do c k) g \<longleftrightarrow> may g c \<and> (\<forall>a. keeps_to may after ends (k a) (after g c a))"

text \<open>A bound on the number of calls.\<close>

primrec calls_at_most :: "'m program \<Rightarrow> nat \<Rightarrow> bool" where
  "calls_at_most (Exit c) n \<longleftrightarrow> True"
| "calls_at_most (Do c k) n \<longleftrightarrow> n \<noteq> 0 \<and> (\<forall>a. calls_at_most (k a) (n - 1))"

lemmas role_defs = producer_may_def producer_next_def producer_done_def consumer_may_def consumer_next_def consumer_done_def
  note_call_def no_progress_def

definition vmm_ints :: "vmm_msg \<Rightarrow> i32" where
  "vmm_ints m = ucast (vm_logical_bytes m div 4)"

definition ipc_ints :: "ipc_msg \<Rightarrow> i32" where
  "ipc_ints m = ucast (im_bytes m div 4)"

text \<open>The calls of the two ways to talk: a pair uses one of them.\<close>

definition no_fifo :: "'m poc_call \<Rightarrow> bool" where
  "no_fifo c = (case c of
       posix_mkfifo _ \<Rightarrow> False | posix_open_write _ \<Rightarrow> False | posix_open_read _ \<Rightarrow> False
     | posix_write_msg _ _ \<Rightarrow> False | posix_read_msg _ \<Rightarrow> False | _ \<Rightarrow> True)"

definition no_socket :: "'m poc_call \<Rightarrow> bool" where
  "no_socket c = (case c of
       posix_socket \<Rightarrow> False | posix_bind _ _ \<Rightarrow> False | posix_listen _ \<Rightarrow> False | posix_accept _ \<Rightarrow> False
     | posix_connect _ _ \<Rightarrow> False | posix_sendmsg _ _ _ \<Rightarrow> False | posix_recvmsg _ \<Rightarrow> False | _ \<Rightarrow> True)"

abbreviation "producer_role via ints \<equiv> keeps_to (\<lambda>g c. via c \<and> producer_may (\<lambda>m. ints m = 1024) g c) producer_next producer_done"
abbreviation "consumer_role via whole ints \<equiv> keeps_to (\<lambda>g c. via c \<and> consumer_may g c) (consumer_next whole ints) consumer_done"

lemma poc_blocks_1024: "poc_blocks 1024 = 4"
  by (simp add: poc_blocks_def)

lemma vmm_producer_role: "producer_role no_fifo vmm_ints (vmm_fd_producer dev) (no_progress Starting)"
  by (simp add: vmm_program_defs no_fifo_def role_defs Let_def SIGFPE_def poc_blocks_1024 vmm_ints_def)

lemma vmm_consumer_role: "consumer_role no_fifo sizeof_vmm_msg vmm_ints vmm_fd_consumer (no_progress Waiting)"
  by (simp add: vmm_program_defs no_fifo_def role_defs Let_def vmm_ints_def split: option.split)

lemma ipc_producer_role: "producer_role no_socket ipc_ints (cuda_ipc_producer dev) (no_progress Starting)"
  by (simp add: ipc_program_defs no_socket_def role_defs Let_def poc_blocks_1024 ipc_ints_def sizeof_ipc_msg_def)

lemma ipc_consumer_role: "consumer_role no_socket sizeof_ipc_msg ipc_ints cuda_ipc_consumer (no_progress Waiting)"
  by (simp add: ipc_program_defs no_socket_def role_defs Let_def ipc_ints_def sizeof_ipc_msg_def)

lemma vmm_calls:
  "calls_at_most (vmm_fd_producer dev) 40" "calls_at_most vmm_fd_consumer 40"
  by (simp_all add: vmm_program_defs Let_def split: option.split)

section \<open>The state of the exchange\<close>

text \<open>What the producer's stream still has to do, and what the buffer holds.\<close>

definition producer_work :: "producer_station \<Rightarrow> work list \<Rightarrow> (u64 \<Rightarrow> i32) \<Rightarrow> bool" where
  "producer_work s q cells = (case s of
       Starting \<Rightarrow> q = []
     | Filled \<Rightarrow> (q = [] \<and> filled 123 cells) \<or> (\<exists>p. q = [fill_work p])
     | _ \<Rightarrow> ((q = [] \<or> q = [EventRecord]) \<and> filled 123 cells) \<or> (\<exists>p. q = [fill_work p, EventRecord]))"

definition exchange_work :: "producer_station \<Rightarrow> consumer_station \<Rightarrow> work list \<Rightarrow> work list \<Rightarrow> (u64 \<Rightarrow> i32) \<Rightarrow> bool" where
  "exchange_work sp sc qp qc cells = (case sc of
       Synchronized \<Rightarrow> qp = [] \<and> qc = [] \<and> filled 123 cells
     | Adding \<Rightarrow> qp = [] \<and> ((qc = [] \<and> filled 130 cells) \<or> ((\<exists>p. qc = [add_work p]) \<and> filled 123 cells))
     | Added \<Rightarrow> qp = [] \<and> qc = [] \<and> filled 130 cells
     | Confirmed \<Rightarrow> qp = [] \<and> qc = [] \<and> filled 130 cells
     | _ \<Rightarrow> qc = [] \<and> producer_work sp qp cells)"

text \<open>The stations that presuppose that the producer has shared its buffer, or that it was told.\<close>

definition stations_agree :: "producer_station \<Rightarrow> consumer_station \<Rightarrow> bool" where
  "stations_agree sp sc \<longleftrightarrow>
     (sc \<notin> {Waiting, Connected, Lost} \<longrightarrow> sp \<in> {Shared, Acknowledged}) \<and> (sp = Acknowledged \<longrightarrow> sc \<in> {Confirmed, Declined})"

abbreviation "four v \<equiv> [v, v, v, v :: i32]"

text \<open>What a read delivers, and what may have been printed, at each station.\<close>

definition producer_reads :: "consumer_station \<Rightarrow> producer_station progress \<Rightarrow> bool" where
  "producer_reads sc g \<longleftrightarrow>
     (let expected = four (if sc = Confirmed then 130 else 123)
      in (pg_seen g = None \<or> pg_station g = Acknowledged \<and> pg_seen g = Some expected)
       \<and> (pg_printed g = [] \<or> pg_station g = Acknowledged \<and> pg_printed g = [expected]))"

definition consumer_reads :: "consumer_station progress \<Rightarrow> bool" where
  "consumer_reads g = (case pg_station g of
       Synchronized \<Rightarrow> pg_seen g \<in> {None, Some (four 123)} \<and> pg_printed g \<in> {[], [four 123]}
     | Adding \<Rightarrow> pg_printed g = [four 123]
     | Added \<Rightarrow> pg_seen g \<in> {None, Some (four 130)} \<and> pg_printed g \<in> {[four 123], [four 123, four 130]}
     | Confirmed \<Rightarrow> pg_printed g = [four 123, four 130]
     | _ \<Rightarrow> pg_seen g = None \<and> pg_printed g = [])"

definition exchange_ok :: "producer_station progress \<Rightarrow> consumer_station progress \<Rightarrow> 'w device_world_scheme \<Rightarrow> bool" where
  "exchange_ok gp gc w \<longleftrightarrow>
     exchange_work (pg_station gp) (pg_station gc) (dw_queue w Producer) (dw_queue w Consumer) (dw_cells w)
     \<and> stations_agree (pg_station gp) (pg_station gc)
     \<and> (pg_station gc \<notin> {Waiting, Connected, Lost} \<longrightarrow> pg_ints gc = 1024)
     \<and> dw_base w Producer = pg_base gp \<and> dw_base w Consumer = pg_base gc
     \<and> dw_printed w Producer = pg_printed gp \<and> dw_printed w Consumer = pg_printed gc
     \<and> producer_reads (pg_station gc) gp \<and> consumer_reads gc"

lemmas exchange_defs = exchange_ok_def exchange_work_def producer_work_def stations_agree_def producer_reads_def consumer_reads_def

lemma producer_work_step:
  assumes "producer_work s (item # rest) cells" "work_done item cells cells'"
  shows "producer_work s rest cells'"
proof -
  have "(item = EventRecord \<and> filled 123 cells) \<or> (\<exists>p. item = fill_work p)"
    using assms(1) by (cases s) (auto simp: producer_work_def)
  then have "filled 123 cells'" using assms(2) fill_work_done by auto
  then show ?thesis using assms(1) by (cases s) (auto simp: producer_work_def fill_work_def)
qed

lemma exchange_work_step:
  assumes "exchange_work sp sc qp qc cells" "work_done item cells cells'"
  shows "qp = item # rest \<Longrightarrow> exchange_work sp sc rest qc cells'" "qc = item # rest \<Longrightarrow> exchange_work sp sc qp rest cells'"
proof -
  show "exchange_work sp sc rest qc cells'" if "qp = item # rest"
    using assms(1) producer_work_step [OF _ assms(2)] unfolding that by (cases sc) (simp_all add: exchange_work_def)
  show "exchange_work sp sc qp rest cells'" if "qc = item # rest"
  proof -
    have sc: "sc = Adding" "qp = []" "rest = []" "filled 123 cells" "\<exists>p. item = add_work p"
      using assms(1) unfolding that by (cases sc; simp add: exchange_work_def)+
    then show ?thesis using assms(2) add_work_done by (auto simp: exchange_work_def)
  qed
qed

lemma work_keeps_exchange:
  assumes "exchange_ok gp gc w" "dw_queue w r = item # rest" "work_done item (dw_cells w) cells"
  shows "exchange_ok gp gc (w\<lparr>dw_cells := cells, dw_queue := (dw_queue w)(r := rest)\<rparr>)"
  using assms exchange_work_step [OF _ assms(3), of "pg_station gp" "pg_station gc"]
  by (cases r) (simp_all add: exchange_ok_def)

text \<open>The calls that concern one process and the device.\<close>

definition device_call :: "'m poc_call \<Rightarrow> bool" where
  "device_call c = (case c of
       posix_connect _ _ \<Rightarrow> False | posix_accept _ \<Rightarrow> False | posix_listen _ \<Rightarrow> False
     | posix_sendmsg _ _ _ \<Rightarrow> False | posix_recvmsg _ \<Rightarrow> False
     | posix_mkfifo _ \<Rightarrow> False | posix_unlink _ \<Rightarrow> False | posix_close _ \<Rightarrow> False
     | posix_open_write _ \<Rightarrow> False | posix_open_read _ \<Rightarrow> False
     | posix_write_msg _ _ \<Rightarrow> False | posix_read_msg _ \<Rightarrow> False
     | posix_write_byte _ _ \<Rightarrow> False | posix_read_byte _ \<Rightarrow> False
     | _ \<Rightarrow> True)"

lemma four_ints:
  assumes "filled v cells"
  shows "map (\<lambda>i. cells (p + of_nat (4 * i) - p)) [0..<4] = four v"
proof -
  have "map (\<lambda>i. cells (p + of_nat (4 * i) - p)) [0..<4] = map (\<lambda>_. v) [0..<4]"
    using assms by (intro map_cong refl) (simp add: filled_def del: of_nat_mult)
  then show ?thesis by (simp add: upt_rec)
qed

text \<open>A call that is none of the following leaves the device and the account of a program alone.\<close>

definition quiet_call :: "'m poc_call \<Rightarrow> bool" where
  "quiet_call c = (case c of
       printf_ints _ \<Rightarrow> False | cuMemMap _ _ _ \<Rightarrow> False | cudaMalloc _ \<Rightarrow> False | cudaIpcOpenMemHandle _ \<Rightarrow> False
     | cuMemUnmap _ _ \<Rightarrow> False | cudaIpcCloseMemHandle _ \<Rightarrow> False | cudaFree _ \<Rightarrow> False
     | cudaMemcpy_ints _ _ \<Rightarrow> False | launch_fill_kernel _ _ _ _ _ \<Rightarrow> False | launch_add_kernel _ _ _ _ _ \<Rightarrow> False
     | cudaEventRecord _ \<Rightarrow> False | cudaEventSynchronize _ \<Rightarrow> False | cudaDeviceSynchronize \<Rightarrow> False
     | _ \<Rightarrow> device_call c)"

lemma quiet_call_simps:
  assumes "quiet_call c"
  shows "producer_next gp c a = gp" "consumer_next whole ints gc c a = gc" "device_effect r c a w = w"
  using assms by (cases c; simp add: quiet_call_def device_call_def role_defs device_effect_def)+

lemma exchange_base:
  "exchange_ok gp gc w \<Longrightarrow> exchange_ok (gp\<lparr>pg_base := b\<rparr>) gc (see_buffer Producer b w)"
  "exchange_ok gp gc w \<Longrightarrow> exchange_ok gp (gc\<lparr>pg_base := b\<rparr>) (see_buffer Consumer b w)"
  by (simp_all add: exchange_ok_def see_buffer_def producer_reads_def consumer_reads_def split: consumer_station.splits)

lemma exchange_facts:
  assumes "exchange_ok gp gc w"
  shows "pg_station gp \<in> {Starting, Filled, Recorded} \<Longrightarrow> pg_station gc \<in> {Waiting, Connected, Lost}"
    "pg_station gp = Acknowledged \<Longrightarrow> pg_station gc \<in> {Confirmed, Declined}"
    "pg_station gc \<notin> {Waiting, Connected, Lost} \<Longrightarrow> pg_station gp \<in> {Shared, Acknowledged} \<and> pg_ints gc = 1024"
    "pg_station gc \<notin> {Confirmed, Declined} \<Longrightarrow> pg_seen gp = None \<and> pg_printed gp = []"
  using assms by (auto simp: exchange_ok_def stations_agree_def producer_reads_def)

lemma producer_events:
  assumes "exchange_ok gp gc w"
  shows "pg_station gp = Starting \<Longrightarrow> pg_base gp = Some p \<Longrightarrow>
      exchange_ok (gp\<lparr>pg_station := Filled\<rparr>) gc
        (enqueue Producer (Kernel (the (dw_base w Producer)) (linear_grid 4 256) (fill_kernel 256 p 1024 123)) w)"
    "pg_station gp = Filled \<Longrightarrow> exchange_ok (gp\<lparr>pg_station := Recorded\<rparr>) gc (enqueue Producer EventRecord w)"
    "pg_station gp = Acknowledged \<Longrightarrow> pg_base gp = Some p \<Longrightarrow> dw_queue w Producer = [] \<Longrightarrow>
      exchange_ok (gp\<lparr>pg_seen := Some (copied_ints Producer p 4 w)\<rparr>) gc w"
    "pg_station gp = Acknowledged \<Longrightarrow> pg_seen gp = Some xs \<Longrightarrow> pg_printed gp = [] \<Longrightarrow>
      exchange_ok (gp\<lparr>pg_printed := [xs]\<rparr>) gc (w\<lparr>dw_printed := (dw_printed w)(Producer := dw_printed w Producer @ [xs])\<rparr>)"
proof -
  note f = exchange_facts [OF assms]
  show "exchange_ok (gp\<lparr>pg_station := Filled\<rparr>) gc
        (enqueue Producer (Kernel (the (dw_base w Producer)) (linear_grid 4 256) (fill_kernel 256 p 1024 123)) w)"
    if "pg_station gp = Starting" "pg_base gp = Some p"
    using assms f(1) that by (auto simp: exchange_defs enqueue_def fill_work_def)
  show "exchange_ok (gp\<lparr>pg_station := Recorded\<rparr>) gc (enqueue Producer EventRecord w)" if "pg_station gp = Filled"
    using assms f(1) that by (auto simp: exchange_defs enqueue_def)
  show "exchange_ok (gp\<lparr>pg_printed := [xs]\<rparr>) gc (w\<lparr>dw_printed := (dw_printed w)(Producer := dw_printed w Producer @ [xs])\<rparr>)"
    if "pg_station gp = Acknowledged" "pg_seen gp = Some xs" "pg_printed gp = []"
    using assms f(2) that by (auto simp: exchange_defs)
  assume s: "pg_station gp = Acknowledged" "pg_base gp = Some p" "dw_queue w Producer = []"
  have "filled (if pg_station gc = Confirmed then 130 else 123) (dw_cells w)"
    using assms f(2) [OF s(1)] s by (auto simp: exchange_ok_def exchange_work_def producer_work_def)
  from four_ints [OF this] have "copied_ints Producer p 4 w = four (if pg_station gc = Confirmed then 130 else 123)"
    using assms s(2) by (simp add: copied_ints_def exchange_ok_def)
  then show "exchange_ok (gp\<lparr>pg_seen := Some (copied_ints Producer p 4 w)\<rparr>) gc w"
    using assms s f(2) by (simp add: exchange_ok_def producer_reads_def Let_def)
qed

lemma producer_keeps_exchange:
  assumes "exchange_ok gp gc w" "producer_may good gp c" "device_call c" "device_enabled Producer c w"
    "device_answer Producer c a w"
  shows "exchange_ok (producer_next gp c a) gc (device_effect Producer c a w)"
proof (cases "quiet_call c")
  case True
  then show ?thesis using assms(1) by (simp add: quiet_call_simps)
next
  case False
  then show ?thesis using assms
    by (cases c) (simp_all add: quiet_call_def device_call_def role_defs device_effect_def exchange_base
        producer_events device_enabled_def device_answer_def)
qed

lemma consumer_events:
  assumes "exchange_ok gp gc w"
  shows "pg_station gc = Received \<Longrightarrow> EventRecord \<notin> set (dw_queue w Producer) \<Longrightarrow>
      exchange_ok gp (gc\<lparr>pg_station := Synchronized\<rparr>) w"
    "pg_station gc = Synchronized \<Longrightarrow> pg_base gc = Some p \<Longrightarrow> pg_printed gc \<noteq> [] \<Longrightarrow>
      exchange_ok gp (gc\<lparr>pg_station := Adding\<rparr>) (enqueue Consumer
        (Kernel (the (dw_base w Consumer)) (linear_grid (poc_blocks (pg_ints gc)) 256) (add_kernel 256 p (pg_ints gc) 7)) w)"
    "pg_station gc = Adding \<Longrightarrow> dw_queue w Consumer = [] \<Longrightarrow> exchange_ok gp (gc\<lparr>pg_station := Added, pg_seen := None\<rparr>) w"
    "pg_station gc \<in> {Synchronized, Added} \<Longrightarrow> pg_base gc = Some p \<Longrightarrow>
      exchange_ok gp (gc\<lparr>pg_seen := Some (copied_ints Consumer p 4 w)\<rparr>) w"
    "pg_seen gc = Some xs \<Longrightarrow>
      pg_station gc = Synchronized \<and> pg_printed gc = [] \<or> pg_station gc = Added \<and> length (pg_printed gc) = 1 \<Longrightarrow>
      exchange_ok gp (gc\<lparr>pg_printed := pg_printed gc @ [xs]\<rparr>)
        (w\<lparr>dw_printed := (dw_printed w)(Consumer := dw_printed w Consumer @ [xs])\<rparr>)"
proof -
  note f = exchange_facts [OF assms]
  show "exchange_ok gp (gc\<lparr>pg_station := Synchronized\<rparr>) w"
    if "pg_station gc = Received" "EventRecord \<notin> set (dw_queue w Producer)"
    using assms f(3) that by (auto simp: exchange_defs)
  show "exchange_ok gp (gc\<lparr>pg_station := Adding\<rparr>) (enqueue Consumer
        (Kernel (the (dw_base w Consumer)) (linear_grid (poc_blocks (pg_ints gc)) 256) (add_kernel 256 p (pg_ints gc) 7)) w)"
    if "pg_station gc = Synchronized" "pg_base gc = Some p" "pg_printed gc \<noteq> []"
    using assms f(3) that by (auto simp: exchange_defs enqueue_def add_work_def poc_blocks_1024)
  show "exchange_ok gp (gc\<lparr>pg_station := Added, pg_seen := None\<rparr>) w"
    if "pg_station gc = Adding" "dw_queue w Consumer = []"
    using assms f(3) that by (auto simp: exchange_defs)
  show "exchange_ok gp (gc\<lparr>pg_printed := pg_printed gc @ [xs]\<rparr>)
      (w\<lparr>dw_printed := (dw_printed w)(Consumer := dw_printed w Consumer @ [xs])\<rparr>)"
    if "pg_seen gc = Some xs"
      "pg_station gc = Synchronized \<and> pg_printed gc = [] \<or> pg_station gc = Added \<and> length (pg_printed gc) = 1"
    using assms that by (auto simp: exchange_defs)
  assume s: "pg_station gc \<in> {Synchronized, Added}" "pg_base gc = Some p"
  have "filled (if pg_station gc = Added then 130 else 123) (dw_cells w)"
    using assms s by (auto simp: exchange_ok_def exchange_work_def)
  from four_ints [OF this] have "copied_ints Consumer p 4 w = four (if pg_station gc = Added then 130 else 123)"
    using assms s(2) by (simp add: copied_ints_def exchange_ok_def)
  then show "exchange_ok gp (gc\<lparr>pg_seen := Some (copied_ints Consumer p 4 w)\<rparr>) w"
    using assms s by (auto simp: exchange_ok_def consumer_reads_def producer_reads_def)
qed

lemma consumer_keeps_exchange:
  assumes "exchange_ok gp gc w" "consumer_may gc c" "device_call c" "device_enabled Consumer c w"
    "device_answer Consumer c a w"
  shows "exchange_ok gp (consumer_next whole ints gc c a) (device_effect Consumer c a w)"
proof (cases "quiet_call c")
  case True
  then show ?thesis using assms(1) by (simp add: quiet_call_simps)
next
  case False
  then show ?thesis using assms
    by (cases c) (simp_all add: quiet_call_def device_call_def role_defs device_effect_def exchange_base
        consumer_events device_enabled_def device_answer_def)
qed

text \<open>What the messages between the processes do to the stations.\<close>

lemma exchange_messages:
  assumes "exchange_ok gp gc w"
  shows "pg_station gp = Recorded \<Longrightarrow> exchange_ok (gp\<lparr>pg_station := Shared\<rparr>) gc w"
    "pg_station gp = Shared \<Longrightarrow> pg_station gc \<in> {Confirmed, Declined} \<Longrightarrow> exchange_ok (gp\<lparr>pg_station := Acknowledged\<rparr>) gc w"
    "pg_station gc = Waiting \<Longrightarrow> exchange_ok gp (gc\<lparr>pg_station := Connected\<rparr>) w"
    "pg_station gc = Connected \<Longrightarrow> exchange_ok gp (gc\<lparr>pg_station := Lost\<rparr>) w"
    "pg_station gc = Connected \<Longrightarrow> pg_station gp = Shared \<Longrightarrow> exchange_ok gp (gc\<lparr>pg_station := Received, pg_ints := 1024\<rparr>) w"
    "pg_station gc = Added \<Longrightarrow> length (pg_printed gc) = 2 \<Longrightarrow> exchange_ok gp (gc\<lparr>pg_station := Confirmed\<rparr>) w"
    "pg_station gc = Received \<Longrightarrow> exchange_ok gp (gc\<lparr>pg_station := Declined\<rparr>) w"
  using assms exchange_facts [OF assms] by (auto simp: exchange_defs)

text \<open>What both pairs promise about what they print; \<open>p_done\<close> and \<open>c_done\<close> say that they exited with 0.\<close>

definition prints_in_order :: "i32 list list \<Rightarrow> i32 list list \<Rightarrow> bool \<Rightarrow> bool \<Rightarrow> bool" where
  "prints_in_order printed_p printed_c p_done c_done \<longleftrightarrow>
     printed_c \<in> {[], [four 123], [four 123, four 130]}
     \<and> (printed_p = [] \<or> printed_p = [four 130] \<and> printed_c = [four 123, four 130] \<or> printed_p = [four 123] \<and> printed_c = [])
     \<and> (c_done \<longrightarrow> printed_c = [four 123, four 130]) \<and> (p_done \<longrightarrow> printed_p \<noteq> [])"

lemma exchange_prints:
  assumes "exchange_ok gp gc w" "p_done \<longrightarrow> producer_done gp 0" "c_done \<longrightarrow> consumer_done gc 0"
  shows "prints_in_order (dw_printed w Producer) (dw_printed w Consumer) p_done c_done"
proof -
  note f = exchange_facts(2) [OF assms(1)]
  have printed: "dw_printed w Producer = pg_printed gp" "dw_printed w Consumer = pg_printed gc"
    using assms(1) by (simp_all add: exchange_ok_def)
  have c: "pg_printed gc \<in> {[], [four 123], [four 123, four 130]}"
    "pg_station gc = Confirmed \<Longrightarrow> pg_printed gc = [four 123, four 130]" "pg_station gc = Declined \<Longrightarrow> pg_printed gc = []"
    using assms(1) by (cases "pg_station gc"; auto simp: exchange_ok_def consumer_reads_def)+
  have "pg_printed gp = [] \<or> pg_printed gp = [four (if pg_station gc = Confirmed then 130 else 123)] \<and> pg_station gc \<in> {Confirmed, Declined}"
    using assms(1) f by (auto simp: exchange_ok_def producer_reads_def Let_def)
  then show ?thesis using c assms(2,3) unfolding printed prints_in_order_def
    by (auto simp: producer_done_def consumer_done_def)
qed

lemma exchange_initial:
  "dw_queue w = (\<lambda>_. []) \<Longrightarrow> dw_base w = (\<lambda>_. None) \<Longrightarrow> dw_printed w = (\<lambda>_. []) \<Longrightarrow>
   exchange_ok (no_progress Starting) (no_progress Waiting) w"
  by (simp add: exchange_defs no_progress_def)

end
