(* ===== verification/Poc_Socket.thy ===== *)
theory Poc_Socket
  imports Poc_Exchange
begin

text \<open>
  The pair of \<^verbatim>\<open>utils/cuda_ipc_poc/src/vmm_fd\<close> as a system of two processes, a stream socket and the
  device. A process waits in \<^verbatim>\<open>accept\<close>, \<^verbatim>\<open>recvmsg\<close>, \<^verbatim>\<open>read\<close> and the synchronising calls of CUDA; a call that
  need not wait may fail. A process that exits closes its end of the connection, and writing to a
  connection whose other end is closed kills the writer.
\<close>

section \<open>The system\<close>

text \<open>
  \<open>sw_down\<close> is what the producer has sent and the consumer has not received: the number of bytes and
  the header; \<open>sw_up\<close> the other direction.
\<close>

record socket_world = device_world +
  sw_program :: "role \<Rightarrow> vmm_msg program"
  sw_listening :: bool
  sw_connected :: bool
  sw_down :: "(int \<times> vmm_msg) list"
  sw_up :: "char list"

definition socket_enabled :: "role \<Rightarrow> vmm_msg poc_call \<Rightarrow> socket_world \<Rightarrow> bool" where
  "socket_enabled r c w = (case c of
       posix_accept _ \<Rightarrow> sw_connected w
     | posix_recvmsg _ \<Rightarrow> sw_down w \<noteq> [] \<or> exited (sw_program w (peer r))
     | posix_read_byte _ \<Rightarrow> sw_up w \<noteq> [] \<or> exited (sw_program w (peer r))
     | _ \<Rightarrow> device_enabled r c w)"

text \<open>The calls that raise \<^verbatim>\<open>SIGPIPE\<close>.\<close>

definition broken_pipe :: "role \<Rightarrow> vmm_msg poc_call \<Rightarrow> socket_world \<Rightarrow> bool" where
  "broken_pipe r c w = (case c of
       posix_sendmsg _ _ _ \<Rightarrow> exited (sw_program w (peer r))
     | posix_write_byte _ _ \<Rightarrow> exited (sw_program w (peer r))
     | _ \<Rightarrow> False)"

text \<open>
  What a call may answer: any failure; a connection only if somebody listens; a header only if one was
  sent, and no more than one byte.
\<close>

definition socket_answer :: "role \<Rightarrow> vmm_msg poc_call \<Rightarrow> vmm_msg answer \<Rightarrow> socket_world \<Rightarrow> bool" where
  "socket_answer r c a w = (case c of
       posix_connect _ _ \<Rightarrow> an_rc a = 0 \<longrightarrow> sw_listening w \<and> \<not> exited (sw_program w (peer r))
     | posix_recvmsg _ \<Rightarrow> (case sw_down w of
           [] \<Rightarrow> an_rc a \<le> 0
         | (n, m) # _ \<Rightarrow> an_rc a < 0 \<or> an_rc a = n \<and> an_msg a = m)
     | posix_read_byte _ \<Rightarrow> an_rc a \<le> (if sw_up w = [] then 0 else 1)
     | _ \<Rightarrow> device_answer r c a w)"

definition socket_effect :: "role \<Rightarrow> vmm_msg poc_call \<Rightarrow> vmm_msg answer \<Rightarrow> socket_world \<Rightarrow> socket_world" where
  "socket_effect r c a w = (case c of
       posix_listen _ \<Rightarrow> if an_rc a = 0 then w\<lparr>sw_listening := True\<rparr> else w
     | posix_connect _ _ \<Rightarrow> if an_rc a = 0 then w\<lparr>sw_connected := True\<rparr> else w
     | posix_sendmsg _ _ m \<Rightarrow> if 0 \<le> an_rc a then w\<lparr>sw_down := sw_down w @ [(an_rc a, m)]\<rparr> else w
     | posix_recvmsg _ \<Rightarrow> if 0 \<le> an_rc a then w\<lparr>sw_down := tl (sw_down w)\<rparr> else w
     | posix_write_byte _ b \<Rightarrow> if an_rc a = 1 then w\<lparr>sw_up := sw_up w @ [b]\<rparr> else w
     | posix_read_byte _ \<Rightarrow> if an_rc a = 1 then w\<lparr>sw_up := tl (sw_up w)\<rparr> else w
     | _ \<Rightarrow> device_effect r c a w)"

inductive socket_step :: "socket_world \<Rightarrow> socket_world \<Rightarrow> bool" where
  answered: "sw_program w r = Do c k \<Longrightarrow> socket_enabled r c w \<Longrightarrow> \<not> broken_pipe r c w \<Longrightarrow> socket_answer r c a w \<Longrightarrow>
     socket_step w ((socket_effect r c a w)\<lparr>sw_program := (sw_program w)(r := k a)\<rparr>)"
| killed: "sw_program w r = Do c k \<Longrightarrow> broken_pipe r c w \<Longrightarrow>
     socket_step w (w\<lparr>sw_program := (sw_program w)(r := Exit SIGPIPE)\<rparr>)"
| device: "dw_queue w r = item # rest \<Longrightarrow> work_done item (dw_cells w) cells \<Longrightarrow>
     socket_step w (w\<lparr>dw_cells := cells, dw_queue := (dw_queue w)(r := rest)\<rparr>)"

definition socket_start :: "i32 \<Rightarrow> (u64 \<Rightarrow> i32) \<Rightarrow> socket_world" where
  "socket_start dev cells =
     \<lparr>dw_cells = cells, dw_queue = \<lambda>_. [], dw_base = \<lambda>_. None, dw_printed = \<lambda>_. [],
      sw_program = \<lambda>r. (case r of Producer \<Rightarrow> vmm_fd_producer dev | Consumer \<Rightarrow> vmm_fd_consumer),
      sw_listening = False, sw_connected = False, sw_down = [], sw_up = []\<rparr>"

inductive socket_reachable :: "i32 \<Rightarrow> socket_world \<Rightarrow> bool" for dev where
  start: "socket_reachable dev (socket_start dev cells)"
| step: "socket_reachable dev w \<Longrightarrow> socket_step w w' \<Longrightarrow> socket_reachable dev w'"

section \<open>The invariant\<close>

text \<open>
  Both programs keep to their roles, and the messages under way fit the stations: the header is on its
  way until the consumer, if it still runs, has received it; a byte is what the consumer said.
\<close>

definition link_ok :: "producer_station progress \<Rightarrow> consumer_station progress \<Rightarrow> socket_world \<Rightarrow> bool" where
  "link_ok gp gc w \<longleftrightarrow>
     (\<forall>(n, m) \<in> set (sw_down w). vmm_ints m = 1024) \<and> length (sw_down w) \<le> 1
     \<and> (sw_down w \<noteq> [] \<longrightarrow> pg_station gp = Shared \<and> pg_station gc \<in> {Waiting, Connected, Lost})
     \<and> (pg_station gp = Shared \<and> pg_station gc \<in> {Waiting, Connected} \<longrightarrow> sw_down w \<noteq> [])
     \<and> (sw_up w \<noteq> [] \<longrightarrow> pg_station gc \<in> {Confirmed, Declined})
     \<and> (pg_station gc \<noteq> Waiting \<longrightarrow> sw_connected w)"

definition runs_as ::
    "producer_station progress \<Rightarrow> consumer_station progress \<Rightarrow> vmm_msg program \<Rightarrow> vmm_msg program \<Rightarrow> bool" where
  "runs_as gp gc p q \<longleftrightarrow>
     (p = Exit SIGPIPE \<or> producer_role no_fifo vmm_ints p gp) \<and> (q = Exit SIGPIPE \<or> consumer_role no_fifo sizeof_vmm_msg vmm_ints q gc)"

definition socket_ok :: "socket_world \<Rightarrow> bool" where
  "socket_ok w \<longleftrightarrow> (\<exists>gp gc. exchange_ok gp gc w \<and> link_ok gp gc w \<and> runs_as gp gc (sw_program w Producer) (sw_program w Consumer))"

lemma device_effect_link:
  "sw_program (device_effect r c a w) = sw_program w" "sw_listening (device_effect r c a w) = sw_listening w"
  "sw_connected (device_effect r c a w) = sw_connected w" "sw_down (device_effect r c a w) = sw_down w"
  "sw_up (device_effect r c a w) = sw_up w"
  by (cases c; simp add: device_effect_def enqueue_def see_buffer_def)+

lemma socket_effect_program: "sw_program (socket_effect r c a w) = sw_program w"
  by (cases c) (simp_all add: socket_effect_def device_effect_link)

lemma device_calls:
  assumes "device_call c"
  shows "socket_enabled r c w = device_enabled r c w" "socket_answer r c a w = device_answer r c a w"
    "socket_effect r c a w = device_effect r c a w"
  using assms by (cases c; simp add: device_call_def socket_enabled_def socket_answer_def socket_effect_def)+

lemma device_call_link:
  assumes "link_ok gp gc w" "device_call c"
  shows "producer_may good gp c \<Longrightarrow> link_ok (producer_next gp c a) gc (device_effect Producer c a w)"
    "consumer_may gc c \<Longrightarrow> link_ok gp (consumer_next whole ints gc c a) (device_effect Consumer c a w)"
  using assms
  by (cases c; simp add: device_call_def link_ok_def device_effect_link role_defs)+

lemma exchange_link_fields [simp]:
  "exchange_ok gp gc (w\<lparr>sw_program := a\<rparr>) = exchange_ok gp gc w" "exchange_ok gp gc (w\<lparr>sw_listening := b\<rparr>) = exchange_ok gp gc w"
  "exchange_ok gp gc (w\<lparr>sw_connected := b\<rparr>) = exchange_ok gp gc w" "exchange_ok gp gc (w\<lparr>sw_down := d\<rparr>) = exchange_ok gp gc w"
  "exchange_ok gp gc (w\<lparr>sw_up := u\<rparr>) = exchange_ok gp gc w"
  by (simp_all add: exchange_ok_def)

lemma producer_answered:
  assumes "exchange_ok gp gc w" "link_ok gp gc w" "no_fifo c" "producer_may (\<lambda>m. vmm_ints m = 1024) gp c"
    and "socket_enabled Producer c w" "socket_answer Producer c a w"
  shows "exchange_ok (producer_next gp c a) gc (socket_effect Producer c a w)
    \<and> link_ok (producer_next gp c a) gc (socket_effect Producer c a w)"
proof (cases "device_call c")
  case True
  then show ?thesis
    using assms producer_keeps_exchange [OF assms(1,4) True] device_call_link(1) [OF assms(2) True assms(4)]
    by (simp add: device_calls)
next
  case False
  note e = exchange_messages(1,2) [OF assms(1)] exchange_facts(1,2) [OF assms(1)]
  have up: "pg_station gc \<in> {Confirmed, Declined}" if "an_rc a = 1" "c = posix_read_byte fd" for fd
    using assms(2,6) that by (auto simp: link_ok_def socket_answer_def split: if_splits)
  show ?thesis using assms False e up
    by (cases c) (auto simp: device_call_def no_fifo_def role_defs socket_effect_def device_effect_def link_ok_def)
qed

lemma header_received:
  assumes "exchange_ok gp gc w" "link_ok gp gc w" "socket_answer r (posix_recvmsg fd) a w" "an_rc a = sizeof_vmm_msg"
  shows "pg_station gp = Shared" "vmm_ints (an_msg a) = 1024" "length (sw_down w) = 1"
  using assms by (auto simp: link_ok_def socket_answer_def sizeof_vmm_msg_def le_Suc_eq split: list.splits)

lemma consumer_messages:
  assumes "exchange_ok gp gc w" "link_ok gp gc w"
  shows "pg_station gc = Waiting \<Longrightarrow>
      exchange_ok gp (gc\<lparr>pg_station := Connected\<rparr>) (w\<lparr>sw_connected := True\<rparr>)
      \<and> link_ok gp (gc\<lparr>pg_station := Connected\<rparr>) (w\<lparr>sw_connected := True\<rparr>)"
    "pg_station gc = Connected \<Longrightarrow> socket_answer Consumer (posix_recvmsg fd) a w \<Longrightarrow> an_rc a = sizeof_vmm_msg \<Longrightarrow>
      exchange_ok gp (gc\<lparr>pg_station := Received, pg_ints := vmm_ints (an_msg a)\<rparr>) (w\<lparr>sw_down := tl (sw_down w)\<rparr>)
      \<and> link_ok gp (gc\<lparr>pg_station := Received, pg_ints := vmm_ints (an_msg a)\<rparr>) (w\<lparr>sw_down := tl (sw_down w)\<rparr>)"
    "pg_station gc = Connected \<Longrightarrow>
      exchange_ok gp (gc\<lparr>pg_station := Lost\<rparr>) w \<and> link_ok gp (gc\<lparr>pg_station := Lost\<rparr>) w
      \<and> link_ok gp (gc\<lparr>pg_station := Lost\<rparr>) (w\<lparr>sw_down := tl (sw_down w)\<rparr>)"
    "pg_station gc = Added \<Longrightarrow> length (pg_printed gc) = 2 \<Longrightarrow>
      exchange_ok gp (gc\<lparr>pg_station := Confirmed\<rparr>) (w\<lparr>sw_up := up\<rparr>) \<and> link_ok gp (gc\<lparr>pg_station := Confirmed\<rparr>) (w\<lparr>sw_up := up\<rparr>)"
    "pg_station gc = Received \<Longrightarrow>
      exchange_ok gp (gc\<lparr>pg_station := Declined\<rparr>) (w\<lparr>sw_up := up\<rparr>) \<and> link_ok gp (gc\<lparr>pg_station := Declined\<rparr>) (w\<lparr>sw_up := up\<rparr>)"
proof -
  note e = exchange_messages(3-7) [OF assms(1)]
  show "exchange_ok gp (gc\<lparr>pg_station := Connected\<rparr>) (w\<lparr>sw_connected := True\<rparr>)
      \<and> link_ok gp (gc\<lparr>pg_station := Connected\<rparr>) (w\<lparr>sw_connected := True\<rparr>)" if "pg_station gc = Waiting"
    using assms(2) e(1) that by (simp add: link_ok_def)
  show "exchange_ok gp (gc\<lparr>pg_station := Lost\<rparr>) w \<and> link_ok gp (gc\<lparr>pg_station := Lost\<rparr>) w
      \<and> link_ok gp (gc\<lparr>pg_station := Lost\<rparr>) (w\<lparr>sw_down := tl (sw_down w)\<rparr>)" if "pg_station gc = Connected"
    using assms(2) e(2) that by (cases "sw_down w") (simp_all add: link_ok_def)
  show "exchange_ok gp (gc\<lparr>pg_station := Confirmed\<rparr>) (w\<lparr>sw_up := up\<rparr>) \<and> link_ok gp (gc\<lparr>pg_station := Confirmed\<rparr>) (w\<lparr>sw_up := up\<rparr>)"
    if "pg_station gc = Added" "length (pg_printed gc) = 2"
    using assms(2) e(4) that by (simp add: link_ok_def)
  show "exchange_ok gp (gc\<lparr>pg_station := Declined\<rparr>) (w\<lparr>sw_up := up\<rparr>) \<and> link_ok gp (gc\<lparr>pg_station := Declined\<rparr>) (w\<lparr>sw_up := up\<rparr>)"
    if "pg_station gc = Received"
    using assms(2) e(5) that by (simp add: link_ok_def)
  assume r: "pg_station gc = Connected" "socket_answer Consumer (posix_recvmsg fd) a w" "an_rc a = sizeof_vmm_msg"
  note h = header_received [OF assms r(2,3)]
  show "exchange_ok gp (gc\<lparr>pg_station := Received, pg_ints := vmm_ints (an_msg a)\<rparr>) (w\<lparr>sw_down := tl (sw_down w)\<rparr>)
      \<and> link_ok gp (gc\<lparr>pg_station := Received, pg_ints := vmm_ints (an_msg a)\<rparr>) (w\<lparr>sw_down := tl (sw_down w)\<rparr>)"
    using assms(2) e(3) [OF r(1) h(1)] r(1) h by (cases "sw_down w") (simp_all add: link_ok_def)
qed

lemma consumer_answered:
  assumes "exchange_ok gp gc w" "link_ok gp gc w" "no_fifo c" "consumer_may gc c"
    and "socket_enabled Consumer c w" "socket_answer Consumer c a w"
  shows "exchange_ok gp (consumer_next sizeof_vmm_msg vmm_ints gc c a) (socket_effect Consumer c a w)
    \<and> link_ok gp (consumer_next sizeof_vmm_msg vmm_ints gc c a) (socket_effect Consumer c a w)"
proof (cases "device_call c")
  case True
  then show ?thesis
    using assms consumer_keeps_exchange [OF assms(1,4) True] device_call_link(2) [OF assms(2) True assms(4)]
    by (simp add: device_calls)
next
  case False
  then show ?thesis using assms consumer_messages [OF assms(1,2)]
    by (cases c; simp add: device_call_def no_fifo_def role_defs socket_effect_def device_effect_def sizeof_vmm_msg_def;
        elim disjE conjE; simp)
qed

text \<open>The invariant holds in every reachable state.\<close>

lemma socket_step_ok:
  assumes "socket_step w w'" "socket_ok w"
  shows "socket_ok w'"
proof -
  obtain gp gc where ok: "exchange_ok gp gc w" "link_ok gp gc w" and runs: "runs_as gp gc (sw_program w Producer) (sw_program w Consumer)"
    using assms(2) by (auto simp: socket_ok_def)
  show ?thesis using assms(1)
  proof cases
    case (answered r c k a)
    show ?thesis
    proof (cases r)
      case Producer
      then have p: "producer_role no_fifo vmm_ints (Do c k) gp" using runs answered(2) by (simp add: runs_as_def)
      then have "runs_as (producer_next gp c a) gc (k a) (sw_program w Consumer)" using runs by (simp add: runs_as_def)
      moreover have "exchange_ok (producer_next gp c a) gc (socket_effect Producer c a w)
          \<and> link_ok (producer_next gp c a) gc (socket_effect Producer c a w)"
        using p answered(3,5) Producer by (intro producer_answered ok) simp_all
      ultimately show ?thesis unfolding socket_ok_def answered(1) Producer
        by (intro exI [of _ "producer_next gp c a"] exI [of _ gc]) (simp add: link_ok_def)
    next
      case Consumer
      let ?g = "consumer_next sizeof_vmm_msg vmm_ints gc c a"
      have p: "consumer_role no_fifo sizeof_vmm_msg vmm_ints (Do c k) gc" using runs answered(2) Consumer by (simp add: runs_as_def)
      then have "runs_as gp ?g (sw_program w Producer) (k a)" using runs by (simp add: runs_as_def)
      moreover have "exchange_ok gp ?g (socket_effect Consumer c a w) \<and> link_ok gp ?g (socket_effect Consumer c a w)"
        using p answered(3,5) Consumer by (intro consumer_answered ok) simp_all
      ultimately show ?thesis unfolding socket_ok_def answered(1) Consumer
        by (intro exI [of _ gp] exI [of _ ?g]) (simp add: link_ok_def)
    qed
  next
    case (killed r c k)
    have "runs_as gp gc (sw_program w' Producer) (sw_program w' Consumer)"
      using runs unfolding killed(1) by (cases r) (simp_all add: runs_as_def)
    then show ?thesis using ok unfolding socket_ok_def killed(1)
      by (intro exI [of _ gp] exI [of _ gc]) (simp add: link_ok_def)
  next
    case (device r item rest cells)
    have "exchange_ok gp gc w'" unfolding device(1) by (rule work_keeps_exchange [OF ok(1) device(2,3)])
    then show ?thesis using ok(2) runs unfolding socket_ok_def device(1)
      by (intro exI [of _ gp] exI [of _ gc]) (simp add: link_ok_def)
  qed
qed

lemma socket_reachable_ok: "socket_reachable dev w \<Longrightarrow> socket_ok w"
proof (induction rule: socket_reachable.induct)
  case (start cells)
  show ?case unfolding socket_ok_def
    by (intro exI [of _ "no_progress Starting"] exI [of _ "no_progress Waiting"])
      (simp add: socket_start_def runs_as_def vmm_producer_role vmm_consumer_role link_ok_def exchange_initial, simp add: no_progress_def)
qed (rule socket_step_ok)

section \<open>Progress\<close>

definition refusal :: "vmm_msg answer" where
  "refusal = \<lparr>an_rc = - 1, an_out = 0, an_blob = [], an_ints = [], an_msg = \<lparr>vm_dev = 0, vm_logical_bytes = 0,
     vm_alloc_bytes = 0, vm_event_handle = []\<rparr>, an_rights = None\<rparr>"

lemma refusal_possible: "socket_answer r c refusal w"
  by (cases c) (simp_all add: socket_answer_def refusal_def device_answer_def split: list.split)

lemma enabled_steps: "sw_program w r = Do c k \<Longrightarrow> socket_enabled r c w \<Longrightarrow> \<exists>w'. socket_step w w'"
  using answered [OF _ _ _ refusal_possible] killed by blast

lemma queue_steps: "dw_queue w r \<noteq> [] \<Longrightarrow> \<exists>w'. socket_step w w'"
proof (cases "dw_queue w r")
  case (Cons item rest)
  have "\<exists>cells. work_done item (dw_cells w) cells" by (cases item) auto
  then show ?thesis using device [OF Cons] by blast
qed simp

text \<open>With empty streams, what a process can wait for.\<close>

lemma socket_waits:
  assumes "dw_queue w = (\<lambda>_. [])" "\<not> socket_enabled r c w"
  shows "(\<exists>fd. c = posix_accept fd) \<and> \<not> sw_connected w \<or> (\<exists>fd. c = posix_recvmsg fd) \<and> sw_down w = []
      \<and> \<not> exited (sw_program w (peer r)) \<or> (\<exists>fd. c = posix_read_byte fd) \<and> \<not> exited (sw_program w (peer r))"
  using assms by (cases c) (simp_all add: socket_enabled_def device_enabled_def)

text \<open>A stuck system is one in which both have exited, or nobody ever called the producer.\<close>

lemma socket_stuck:
  assumes "socket_ok w" "\<nexists>w'. socket_step w w'"
  shows "exited (sw_program w Consumer)"
    "\<not> exited (sw_program w Producer) \<Longrightarrow> (\<exists>fd k. sw_program w Producer = Do (posix_accept fd) k) \<and> \<not> sw_connected w"
proof -
  obtain gp gc where ok: "exchange_ok gp gc w" "link_ok gp gc w" and runs: "runs_as gp gc (sw_program w Producer) (sw_program w Consumer)"
    using assms(1) by (auto simp: socket_ok_def)
  have idle: "dw_queue w = (\<lambda>_. [])" using queue_steps assms(2) by blast
  have waits: "\<not> socket_enabled r c w" if "sw_program w r = Do c k" for r c k
    using enabled_steps [OF that] assms(2) by blast
  have producer: "(\<exists>fd k. sw_program w Producer = Do (posix_accept fd) k) \<and> \<not> sw_connected w
      \<or> pg_station gp = Shared \<and> \<not> exited (sw_program w Consumer)" if running: "\<not> exited (sw_program w Producer)"
  proof -
    obtain c k where p: "sw_program w Producer = Do c k" using running unfolding not_exited by blast
    then have "producer_may (\<lambda>m. vmm_ints m = 1024) gp c" using runs by (simp add: runs_as_def)
    then show ?thesis using socket_waits [OF idle waits [OF p]] p by (auto simp: producer_may_def)
  qed
  show consumer: "exited (sw_program w Consumer)"
  proof (rule ccontr)
    assume "\<not> exited (sw_program w Consumer)"
    then obtain c k where p: "sw_program w Consumer = Do c k" unfolding not_exited by blast
    then have "consumer_may gc c" using runs by (simp add: runs_as_def)
    then have "pg_station gc = Connected" "sw_down w = []" "\<not> exited (sw_program w Producer)"
      using socket_waits [OF idle waits [OF p]] by (auto simp: consumer_may_def)
    then show False using producer ok(2) by (auto simp: link_ok_def)
  qed
  show "(\<exists>fd k. sw_program w Producer = Do (posix_accept fd) k) \<and> \<not> sw_connected w" if "\<not> exited (sw_program w Producer)"
    using producer [OF that] consumer by blast
qed

text \<open>A run of the pair is short.\<close>

definition steps_left :: "nat \<Rightarrow> nat \<Rightarrow> socket_world \<Rightarrow> nat" where
  "steps_left m n w = 2 * (m + n) + length (dw_queue w Producer) + length (dw_queue w Consumer)"

definition within :: "nat \<Rightarrow> nat \<Rightarrow> socket_world \<Rightarrow> bool" where
  "within m n w \<longleftrightarrow> calls_at_most (sw_program w Producer) m \<and> calls_at_most (sw_program w Consumer) n"

lemma socket_effect_queue:
  "dw_queue (socket_effect r c a w) = dw_queue w \<or> (\<exists>item. dw_queue (socket_effect r c a w) = (dw_queue w)(r := dw_queue w r @ [item]))"
  by (cases c) (auto simp: socket_effect_def device_effect_def enqueue_def see_buffer_def)

lemma step_shortens:
  assumes "socket_step w w'" "within m n w"
  shows "\<exists>m' n'. within m' n' w' \<and> Suc (steps_left m' n' w') \<le> steps_left m n w"
  using assms(1)
proof cases
  case (answered r c k a)
  note q = socket_effect_queue [of r c a w]
  show ?thesis
  proof (cases r)
    case Producer
    then have m: "m \<noteq> 0" "within (m - 1) n w'" using assms(2) answered(1,2) by (simp_all add: within_def)
    have "Suc (steps_left (m - 1) n w') \<le> steps_left m n w"
      using q m(1) unfolding answered(1) Producer by (auto simp: steps_left_def)
    then show ?thesis using m(2) by blast
  next
    case Consumer
    then have n: "n \<noteq> 0" "within m (n - 1) w'" using assms(2) answered(1,2) by (simp_all add: within_def)
    have "Suc (steps_left m (n - 1) w') \<le> steps_left m n w"
      using q n(1) unfolding answered(1) Consumer by (auto simp: steps_left_def)
    then show ?thesis using n(2) by blast
  qed
next
  case (killed r c k)
  show ?thesis
  proof (cases r)
    case Producer
    then have "m \<noteq> 0" "within (m - 1) n w'" using assms(2) killed(1,2) by (simp_all add: within_def)
    then show ?thesis using killed(1) by (intro exI [of _ "m - 1"] exI [of _ n]) (simp add: steps_left_def)
  next
    case Consumer
    then have "n \<noteq> 0" "within m (n - 1) w'" using assms(2) killed(1,2) by (simp_all add: within_def)
    then show ?thesis using killed(1) by (intro exI [of _ m] exI [of _ "n - 1"]) (simp add: steps_left_def)
  qed
next
  case (device r item rest cells)
  have "within m n w'" using assms(2) device(1) by (simp add: within_def)
  moreover have "Suc (steps_left m n w') \<le> steps_left m n w" using device(1,2) by (cases r) (simp_all add: steps_left_def)
  ultimately show ?thesis by blast
qed

lemma run_is_short: "(socket_step ^^ l) w w' \<Longrightarrow> within m n w \<Longrightarrow> l \<le> steps_left m n w"
proof (induction l arbitrary: w m n)
  case (Suc l)
  then obtain v where v: "socket_step w v" "(socket_step ^^ l) v w'" by (meson relpowp_Suc_D2)
  then show ?case using step_shortens [OF v(1) Suc.prems(2)] Suc.IH [OF v(2)] by (meson Suc_le_mono le_trans)
qed simp

lemma reachable_run: "(socket_step ^^ l) (socket_start dev cells) w \<Longrightarrow> socket_reachable dev w"
  by (induction l arbitrary: w) (auto intro: socket_reachable.intros)

section \<open>One run\<close>

text \<open>
  A scheduler, for examples: the calls are answered as in \<open>obliging\<close>, a copy and a header as the state
  says.
\<close>

definition kind_answer :: "role \<Rightarrow> vmm_msg poc_call \<Rightarrow> socket_world \<Rightarrow> vmm_msg answer" where
  "kind_answer r c w =
     (obliging (if sw_down w = [] then sample_vmm_msg else snd (hd (sw_down w))) [] c)
       \<lparr>an_ints := (case c of cudaMemcpy_ints p n \<Rightarrow> copied_ints r p n w | _ \<Rightarrow> [])\<rparr>"

definition perform :: "action \<Rightarrow> socket_world \<Rightarrow> socket_world option" where
  "perform act w = (case act of
       Call r \<Rightarrow> (case sw_program w r of
           Exit _ \<Rightarrow> None
         | Do c k \<Rightarrow>
             if socket_enabled r c w \<and> \<not> broken_pipe r c w \<and> socket_answer r c (kind_answer r c w) w
             then Some ((socket_effect r c (kind_answer r c w) w)\<lparr>sw_program := (sw_program w)(r := k (kind_answer r c w))\<rparr>) else None)
     | Work r \<Rightarrow> (case dw_queue w r of
           [] \<Rightarrow> None
         | EventRecord # rest \<Rightarrow> Some (w\<lparr>dw_queue := (dw_queue w)(r := rest)\<rparr>)
         | Kernel base threads body # rest \<Rightarrow>
             Some (w\<lparr>dw_cells := through base (run_threads body threads) (dw_cells w), dw_queue := (dw_queue w)(r := rest)\<rparr>)))"

primrec performs :: "action list \<Rightarrow> socket_world \<Rightarrow> socket_world option" where
  "performs [] w = Some w"
| "performs (act # acts) w = (case perform act w of None \<Rightarrow> None | Some v \<Rightarrow> performs acts v)"

lemma kernel_step:
  "dw_queue w r = Kernel base threads body # rest \<Longrightarrow>
   socket_step w (w\<lparr>dw_cells := through base (run_threads body threads) (dw_cells w), dw_queue := (dw_queue w)(r := rest)\<rparr>)"
  by (rule device) auto

lemma perform_step: "perform act w = Some w' \<Longrightarrow> socket_step w w'"
  using answered [of w] device [of w _ EventRecord _ "dw_cells w"] kernel_step [of w]
  by (auto simp: perform_def split: action.splits program.splits if_splits list.splits work.splits)

lemma performs_reachable: "performs acts w = Some w' \<Longrightarrow> socket_reachable dev w \<Longrightarrow> socket_reachable dev w'"
  by (induction acts arbitrary: w) (auto split: option.splits intro: socket_reachable.step [OF _ perform_step])

lemma performs_steps: "performs acts w = Some w' \<Longrightarrow> (socket_step ^^ length acts) w w'"
proof (induction acts arbitrary: w)
  case (Cons act acts)
  then obtain v where "perform act w = Some v" "performs acts v = Some w'" by (auto split: option.splits)
  then show ?case using Cons.IH unfolding length_Cons by (blast intro: relpowp_Suc_I2 perform_step)
qed simp

lemmas perform_defs = perform_def socket_enabled_def device_enabled_def broken_pipe_def socket_answer_def device_answer_def
  kind_answer_def obliging_defs socket_effect_def device_effect_def enqueue_def see_buffer_def exited_def

definition complete_run :: "action list" where
  "complete_run = replicate 21 (Call Producer) @ replicate 2 (Call Consumer) @ replicate 2 (Call Producer)
     @ replicate 14 (Call Consumer) @ [Work Producer, Work Producer] @ replicate 4 (Call Consumer) @ [Work Consumer]
     @ replicate 10 (Call Consumer) @ replicate 12 (Call Producer)"

lemma complete_run_ends:
  "\<exists>w. performs complete_run (socket_start 0 (\<lambda>_. 0)) = Some w \<and> sw_program w Producer = Exit 0 \<and> sw_program w Consumer = Exit 0"
  by (simp add: complete_run_def numeral_eq_Suc socket_start_def perform_defs vmm_program_defs Let_def)

section \<open>Properties\<close>



text \<open>
  C25. The socket pair does not hang: every run has at most 160 steps, and where it stops, the consumer has
  exited, and so has the producer unless no consumer has ever connected.
\<close>

theorem socket_pair_never_hangs:
  assumes "(socket_step ^^ l) (socket_start dev cells) w"
  shows "l \<le> 160 \<and> ((\<nexists>w'. socket_step w w') \<longrightarrow>
    exited (sw_program w Consumer)
    \<and> (exited (sw_program w Producer) \<or> (\<exists>fd k. sw_program w Producer = Do (posix_accept fd) k) \<and> \<not> sw_connected w))"
proof
  have "within 40 40 (socket_start dev cells)" by (simp add: within_def socket_start_def vmm_calls)
  from run_is_short [OF assms this] show "l \<le> 160" by (simp add: steps_left_def socket_start_def)
  show "(\<nexists>w'. socket_step w w') \<longrightarrow> exited (sw_program w Consumer)
      \<and> (exited (sw_program w Producer) \<or> (\<exists>fd k. sw_program w Producer = Do (posix_accept fd) k) \<and> \<not> sw_connected w)"
    using socket_stuck [OF socket_reachable_ok [OF reachable_run [OF assms]]] by blast
qed

theorem socket_pair_never_hangs_witness:
  "\<exists>w. (socket_step ^^ length complete_run) (socket_start 0 (\<lambda>_. 0)) w \<and> sw_program w Producer = Exit 0
     \<and> length complete_run = 68 \<and> length complete_run \<le> 160"
proof -
  obtain w where w: "performs complete_run (socket_start 0 (\<lambda>_. 0)) = Some w" "sw_program w Producer = Exit 0"
    using complete_run_ends by blast
  from socket_pair_never_hangs [OF performs_steps [OF w(1)]] show ?thesis
    using performs_steps [OF w(1)] w(2) by (intro exI [of _ w]) (simp add: complete_run_def)
qed

end
