(* ===== verification/Poc_Fifo.thy ===== *)
theory Poc_Fifo
  imports Poc_Exchange
begin

text \<open>
  The pair of \<^verbatim>\<open>utils/cuda_ipc_poc/src/cuda_ipc\<close>: two processes, FIFOs in a directory, the device.
  Opening a FIFO waits until some process opens the other end of the same FIFO, which is the inode
  that the path named when \<^verbatim>\<open>open\<close> was called. Each program holds at most one end at a time. As in the
  socket pair, a call that need not wait may fail, exiting closes, and writing without a reader kills.
\<close>

section \<open>The system\<close>

record fifo_world = device_world +
  fw_program :: "role \<Rightarrow> ipc_msg program"
  fw_fifo :: "string \<Rightarrow> nat option"
  fw_next :: nat
  fw_opening :: "role \<Rightarrow> nat option"
  fw_end :: "role \<Rightarrow> nat option"
  fw_down :: "nat \<Rightarrow> (int \<times> ipc_msg) list"
  fw_up :: "nat \<Rightarrow> char list"

definition peer_holds :: "role \<Rightarrow> fifo_world \<Rightarrow> bool" where
  "peer_holds r w \<longleftrightarrow> fw_end w (peer r) = fw_end w r \<and> \<not> exited (fw_program w (peer r))"

text \<open>The call is \<^verbatim>\<open>open\<close>, which has rules of its own: the path, and whether it is for writing.\<close>

definition opens :: "ipc_msg poc_call \<Rightarrow> (string \<times> bool) option" where
  "opens c = (case c of posix_open_write path \<Rightarrow> Some (path, True) | posix_open_read path \<Rightarrow> Some (path, False) | _ \<Rightarrow> None)"

definition fifo_enabled :: "role \<Rightarrow> ipc_msg poc_call \<Rightarrow> fifo_world \<Rightarrow> bool" where
  "fifo_enabled r c w = (case c of
       posix_read_msg _ \<Rightarrow> fw_down w (the (fw_end w r)) \<noteq> [] \<or> \<not> peer_holds r w
     | posix_read_byte _ \<Rightarrow> fw_up w (the (fw_end w r)) \<noteq> [] \<or> \<not> peer_holds r w
     | _ \<Rightarrow> device_enabled r c w)"

definition fifo_broken :: "role \<Rightarrow> ipc_msg poc_call \<Rightarrow> fifo_world \<Rightarrow> bool" where
  "fifo_broken r c w = (case c of
       posix_write_msg _ _ \<Rightarrow> \<not> peer_holds r w
     | posix_write_byte _ _ \<Rightarrow> \<not> peer_holds r w
     | _ \<Rightarrow> False)"

definition fifo_answer :: "role \<Rightarrow> ipc_msg poc_call \<Rightarrow> ipc_msg answer \<Rightarrow> fifo_world \<Rightarrow> bool" where
  "fifo_answer r c a w = (case c of
       posix_mkfifo path \<Rightarrow> an_rc a = 0 \<longrightarrow> fw_fifo w path = None
     | posix_read_msg _ \<Rightarrow> (case fw_down w (the (fw_end w r)) of
           [] \<Rightarrow> an_rc a \<le> 0
         | (n, m) # _ \<Rightarrow> an_rc a < 0 \<or> an_rc a = n \<and> an_msg a = m)
     | posix_read_byte _ \<Rightarrow> an_rc a \<le> (if fw_up w (the (fw_end w r)) = [] then 0 else 1)
     | _ \<Rightarrow> device_answer r c a w)"

definition fifo_effect :: "role \<Rightarrow> ipc_msg poc_call \<Rightarrow> ipc_msg answer \<Rightarrow> fifo_world \<Rightarrow> fifo_world" where
  "fifo_effect r c a w =
     (let i = the (fw_end w r)
      in case c of
        posix_unlink path \<Rightarrow> if an_rc a = 0 then w\<lparr>fw_fifo := (fw_fifo w)(path := None)\<rparr> else w
      | posix_mkfifo path \<Rightarrow>
          if an_rc a = 0 then w\<lparr>fw_fifo := (fw_fifo w)(path \<mapsto> fw_next w), fw_next := Suc (fw_next w)\<rparr> else w
      | posix_write_msg _ m \<Rightarrow> if 0 \<le> an_rc a then w\<lparr>fw_down := (fw_down w)(i := fw_down w i @ [(an_rc a, m)])\<rparr> else w
      | posix_read_msg _ \<Rightarrow> if 0 \<le> an_rc a then w\<lparr>fw_down := (fw_down w)(i := tl (fw_down w i))\<rparr> else w
      | posix_write_byte _ b \<Rightarrow> if an_rc a = 1 then w\<lparr>fw_up := (fw_up w)(i := fw_up w i @ [b])\<rparr> else w
      | posix_read_byte _ \<Rightarrow> if an_rc a = 1 then w\<lparr>fw_up := (fw_up w)(i := tl (fw_up w i))\<rparr> else w
      | posix_close _ \<Rightarrow> w\<lparr>fw_end := (fw_end w)(r := None)\<rparr>
      | _ \<Rightarrow> device_effect r c a w)"

inductive fifo_step :: "fifo_world \<Rightarrow> fifo_world \<Rightarrow> bool" where
  answered: "fw_program w r = Do c k \<Longrightarrow> opens c = None \<Longrightarrow> fifo_enabled r c w \<Longrightarrow> \<not> fifo_broken r c w \<Longrightarrow> fifo_answer r c a w \<Longrightarrow>
     fifo_step w ((fifo_effect r c a w)\<lparr>fw_program := (fw_program w)(r := k a)\<rparr>)"
| killed: "fw_program w r = Do c k \<Longrightarrow> fifo_broken r c w \<Longrightarrow>
     fifo_step w (w\<lparr>fw_program := (fw_program w)(r := Exit SIGPIPE)\<rparr>)"
| device: "dw_queue w r = item # rest \<Longrightarrow> work_done item (dw_cells w) cells \<Longrightarrow>
     fifo_step w (w\<lparr>dw_cells := cells, dw_queue := (dw_queue w)(r := rest)\<rparr>)"
| refused: "fw_program w r = Do c k \<Longrightarrow> opens c \<noteq> None \<Longrightarrow> fw_opening w r = None \<Longrightarrow> an_rc a < 0 \<Longrightarrow>
     fifo_step w (w\<lparr>fw_program := (fw_program w)(r := k a)\<rparr>)"
| began: "fw_program w r = Do c k \<Longrightarrow> opens c = Some (path, for_writing) \<Longrightarrow> fw_opening w r = None \<Longrightarrow> fw_fifo w path = Some i \<Longrightarrow>
     fifo_step w (w\<lparr>fw_opening := (fw_opening w)(r := Some i)\<rparr>)"
| opened: "fw_program w Producer = Do c k \<Longrightarrow> fw_program w Consumer = Do d l \<Longrightarrow> opens c = Some (path, for_writing) \<Longrightarrow>
     opens d = Some (path', \<not> for_writing) \<Longrightarrow> fw_opening w Producer = Some i \<Longrightarrow> fw_opening w Consumer = Some i \<Longrightarrow>
     0 \<le> an_rc a \<Longrightarrow> 0 \<le> an_rc b \<Longrightarrow>
     fifo_step w (w\<lparr>fw_opening := (\<lambda>_. None), fw_end := (\<lambda>_. Some i),
        fw_program := (fw_program w)(Producer := k a, Consumer := l b)\<rparr>)"

text \<open>FIFOs of earlier runs may be left in the directory.\<close>

definition fifo_start :: "i32 \<Rightarrow> (string \<Rightarrow> nat option) \<Rightarrow> nat \<Rightarrow> (u64 \<Rightarrow> i32) \<Rightarrow> fifo_world" where
  "fifo_start dev fifos n cells =
     \<lparr>dw_cells = cells, dw_queue = \<lambda>_. [], dw_base = \<lambda>_. None, dw_printed = \<lambda>_. [],
      fw_program = \<lambda>r. (case r of Producer \<Rightarrow> cuda_ipc_producer dev | Consumer \<Rightarrow> cuda_ipc_consumer),
      fw_fifo = fifos, fw_next = n, fw_opening = \<lambda>_. None, fw_end = \<lambda>_. None, fw_down = \<lambda>_. [], fw_up = \<lambda>_. []\<rparr>"

inductive fifo_reachable :: "i32 \<Rightarrow> fifo_world \<Rightarrow> bool" for dev where
  start: "\<forall>path i. fifos path = Some i \<longrightarrow> i < n \<Longrightarrow> fifo_reachable dev (fifo_start dev fifos n cells)"
| step: "fifo_reachable dev w \<Longrightarrow> fifo_step w w' \<Longrightarrow> fifo_reachable dev w'"

section \<open>The invariant\<close>

definition pipe_ok :: "producer_station progress \<Rightarrow> consumer_station progress \<Rightarrow> fifo_world \<Rightarrow> bool" where
  "pipe_ok gp gc w \<longleftrightarrow>
     (\<forall>i. \<forall>(n, m) \<in> set (fw_down w i). ipc_ints m = 1024)
     \<and> (\<forall>i. fw_down w i \<noteq> [] \<longrightarrow> pg_station gp \<in> {Shared, Acknowledged})
     \<and> (\<forall>i. fw_up w i \<noteq> [] \<longrightarrow> pg_station gc \<in> {Confirmed, Declined})"

definition fifo_runs_as ::
    "producer_station progress \<Rightarrow> consumer_station progress \<Rightarrow> ipc_msg program \<Rightarrow> ipc_msg program \<Rightarrow> bool" where
  "fifo_runs_as gp gc p q \<longleftrightarrow>
     (p = Exit SIGPIPE \<or> producer_role no_socket ipc_ints p gp) \<and> (q = Exit SIGPIPE \<or> consumer_role no_socket sizeof_ipc_msg ipc_ints q gc)"

definition fifo_ok :: "fifo_world \<Rightarrow> bool" where
  "fifo_ok w \<longleftrightarrow> (\<exists>gp gc. exchange_ok gp gc w \<and> pipe_ok gp gc w \<and> fifo_runs_as gp gc (fw_program w Producer) (fw_program w Consumer))"

lemma device_effect_pipe:
  "fw_program (device_effect r c a w) = fw_program w" "fw_down (device_effect r c a w) = fw_down w"
  "fw_up (device_effect r c a w) = fw_up w" "fw_opening (device_effect r c a w) = fw_opening w"
  by (cases c; simp add: device_effect_def enqueue_def see_buffer_def)+

lemma fifo_effect_program: "fw_program (fifo_effect r c a w) = fw_program w" "fw_opening (fifo_effect r c a w) = fw_opening w"
  by (cases c; simp add: fifo_effect_def device_effect_pipe Let_def)+

lemma pipe_device_calls:
  assumes "device_call c"
  shows "fifo_enabled r c w = device_enabled r c w" "fifo_answer r c a w = device_answer r c a w"
    "fifo_effect r c a w = device_effect r c a w"
  using assms by (cases c; simp add: device_call_def fifo_enabled_def fifo_answer_def fifo_effect_def)+

lemma device_call_pipe:
  assumes "pipe_ok gp gc w" "device_call c"
  shows "producer_may good gp c \<Longrightarrow> pipe_ok (producer_next gp c a) gc (device_effect Producer c a w)"
    "consumer_may gc c \<Longrightarrow> pipe_ok gp (consumer_next whole ints gc c a) (device_effect Consumer c a w)"
  using assms by (cases c; simp add: device_call_def pipe_ok_def device_effect_pipe role_defs)+

lemma exchange_pipe_fields [simp]:
  "exchange_ok gp gc (w\<lparr>fw_program := a\<rparr>) = exchange_ok gp gc w" "exchange_ok gp gc (w\<lparr>fw_fifo := b\<rparr>) = exchange_ok gp gc w"
  "exchange_ok gp gc (w\<lparr>fw_next := n\<rparr>) = exchange_ok gp gc w" "exchange_ok gp gc (w\<lparr>fw_down := d\<rparr>) = exchange_ok gp gc w"
  "exchange_ok gp gc (w\<lparr>fw_up := u\<rparr>) = exchange_ok gp gc w" "exchange_ok gp gc (w\<lparr>fw_end := e\<rparr>) = exchange_ok gp gc w"
  "exchange_ok gp gc (w\<lparr>fw_opening := e\<rparr>) = exchange_ok gp gc w"
  by (simp_all add: exchange_ok_def)

lemma producer_pipe_messages:
  assumes "exchange_ok gp gc w" "pipe_ok gp gc w"
  shows "pg_station gp = Recorded \<Longrightarrow> ipc_ints m = 1024 \<Longrightarrow>
      exchange_ok (gp\<lparr>pg_station := Shared\<rparr>) gc w
      \<and> pipe_ok (gp\<lparr>pg_station := Shared\<rparr>) gc (w\<lparr>fw_down := (fw_down w)(i := fw_down w i @ [(n, m)])\<rparr>)"
    "pg_station gp = Shared \<Longrightarrow> fifo_answer Producer (posix_read_byte fd) a w \<Longrightarrow> an_rc a = 1 \<Longrightarrow>
      exchange_ok (gp\<lparr>pg_station := Acknowledged\<rparr>) gc w
      \<and> pipe_ok (gp\<lparr>pg_station := Acknowledged\<rparr>) gc (w\<lparr>fw_up := (fw_up w)(i := tl (fw_up w i))\<rparr>)"
    "pipe_ok gp gc (w\<lparr>fw_end := e\<rparr>)" "pipe_ok gp gc (w\<lparr>fw_fifo := f\<rparr>)" "pipe_ok gp gc (w\<lparr>fw_fifo := f, fw_next := k\<rparr>)"
proof -
  show "pipe_ok gp gc (w\<lparr>fw_end := e\<rparr>)" "pipe_ok gp gc (w\<lparr>fw_fifo := f\<rparr>)" "pipe_ok gp gc (w\<lparr>fw_fifo := f, fw_next := k\<rparr>)"
    using assms(2) by (simp_all add: pipe_ok_def)
  show "exchange_ok (gp\<lparr>pg_station := Shared\<rparr>) gc w
      \<and> pipe_ok (gp\<lparr>pg_station := Shared\<rparr>) gc (w\<lparr>fw_down := (fw_down w)(i := fw_down w i @ [(n, m)])\<rparr>)"
    if "pg_station gp = Recorded" "ipc_ints m = 1024"
    using assms(2) exchange_messages(1) [OF assms(1)] that by (simp add: pipe_ok_def)
  assume r: "pg_station gp = Shared" "fifo_answer Producer (posix_read_byte fd) a w" "an_rc a = 1"
  then have "fw_up w (the (fw_end w Producer)) \<noteq> []" by (auto simp: fifo_answer_def)
  then have "pg_station gc \<in> {Confirmed, Declined}" using assms(2) unfolding pipe_ok_def by blast
  then show "exchange_ok (gp\<lparr>pg_station := Acknowledged\<rparr>) gc w
      \<and> pipe_ok (gp\<lparr>pg_station := Acknowledged\<rparr>) gc (w\<lparr>fw_up := (fw_up w)(i := tl (fw_up w i))\<rparr>)"
    using assms(2) exchange_messages(2) [OF assms(1) r(1)] by (simp add: pipe_ok_def)
qed

lemma producer_pipe_answered:
  assumes "exchange_ok gp gc w" "pipe_ok gp gc w" "no_socket c" "producer_may (\<lambda>m. ipc_ints m = 1024) gp c"
    and "fifo_enabled Producer c w" "fifo_answer Producer c a w" "opens c = None"
  shows "exchange_ok (producer_next gp c a) gc (fifo_effect Producer c a w)
    \<and> pipe_ok (producer_next gp c a) gc (fifo_effect Producer c a w)"
proof (cases "device_call c")
  case True
  then show ?thesis
    using assms producer_keeps_exchange [OF assms(1,4) True] device_call_pipe(1) [OF assms(2) True assms(4)]
    by (simp add: pipe_device_calls)
next
  case False
  then show ?thesis using assms producer_pipe_messages [OF assms(1,2)] exchange_messages(1) [OF assms(1)]
    by (cases c; simp add: device_call_def no_socket_def opens_def role_defs fifo_effect_def Let_def)
qed

lemma consumer_pipe_messages:
  assumes "exchange_ok gp gc w" "pipe_ok gp gc w" "pg_station gc = Connected"
  shows "fifo_answer Consumer (posix_read_msg fd) a w \<Longrightarrow> an_rc a = sizeof_ipc_msg \<Longrightarrow>
      exchange_ok gp (gc\<lparr>pg_station := Received, pg_ints := ipc_ints (an_msg a)\<rparr>) w
      \<and> pipe_ok gp (gc\<lparr>pg_station := Received, pg_ints := ipc_ints (an_msg a)\<rparr>)
          (w\<lparr>fw_down := (fw_down w)(i := tl (fw_down w i))\<rparr>)"
    "exchange_ok gp (gc\<lparr>pg_station := Lost\<rparr>) w \<and> pipe_ok gp (gc\<lparr>pg_station := Lost\<rparr>) w
     \<and> pipe_ok gp (gc\<lparr>pg_station := Lost\<rparr>) (w\<lparr>fw_down := (fw_down w)(i := tl (fw_down w i))\<rparr>)"
proof -
  have tl: "x \<in> set xs" if "x \<in> set (tl xs)" for x and xs :: "(int \<times> ipc_msg) list" using that by (cases xs) simp_all
  show "exchange_ok gp (gc\<lparr>pg_station := Lost\<rparr>) w \<and> pipe_ok gp (gc\<lparr>pg_station := Lost\<rparr>) w
     \<and> pipe_ok gp (gc\<lparr>pg_station := Lost\<rparr>) (w\<lparr>fw_down := (fw_down w)(i := tl (fw_down w i))\<rparr>)"
    using assms(2,3) exchange_messages(4) [OF assms(1,3)] by (auto simp: pipe_ok_def dest!: tl)
  assume r: "fifo_answer Consumer (posix_read_msg fd) a w" "an_rc a = sizeof_ipc_msg"
  let ?i = "the (fw_end w Consumer)"
  have "fw_down w ?i \<noteq> []" "(an_rc a, an_msg a) \<in> set (fw_down w ?i)"
    using r by (auto simp: fifo_answer_def sizeof_ipc_msg_def split: list.splits)
  then have m: "ipc_ints (an_msg a) = 1024" "pg_station gp \<in> {Shared, Acknowledged}"
    using assms(2) by (auto simp: pipe_ok_def)
  then have "pg_station gp = Shared" using exchange_facts(2) [OF assms(1)] assms(3) by auto
  from exchange_messages(5) [OF assms(1,3) this] show "exchange_ok gp (gc\<lparr>pg_station := Received, pg_ints := ipc_ints (an_msg a)\<rparr>) w
      \<and> pipe_ok gp (gc\<lparr>pg_station := Received, pg_ints := ipc_ints (an_msg a)\<rparr>)
          (w\<lparr>fw_down := (fw_down w)(i := tl (fw_down w i))\<rparr>)"
    using assms(2,3) m(1) by (auto simp: pipe_ok_def dest!: tl)
qed

lemma consumer_pipe_answered:
  assumes "exchange_ok gp gc w" "pipe_ok gp gc w" "no_socket c" "consumer_may gc c"
    and "fifo_enabled Consumer c w" "fifo_answer Consumer c a w" "opens c = None"
  shows "exchange_ok gp (consumer_next sizeof_ipc_msg ipc_ints gc c a) (fifo_effect Consumer c a w)
    \<and> pipe_ok gp (consumer_next sizeof_ipc_msg ipc_ints gc c a) (fifo_effect Consumer c a w)"
proof (cases "device_call c")
  case True
  then show ?thesis
    using assms consumer_keeps_exchange [OF assms(1,4) True] device_call_pipe(2) [OF assms(2) True assms(4)]
    by (simp add: pipe_device_calls)
next
  case False
  have sent: "exchange_ok gp (gc\<lparr>pg_station := s\<rparr>) w \<and> pipe_ok gp (gc\<lparr>pg_station := s\<rparr>) (w\<lparr>fw_up := up\<rparr>)"
    if "pg_station gc = Added \<and> length (pg_printed gc) = 2 \<and> s = Confirmed \<or> pg_station gc = Received \<and> s = Declined" for s up
    using that exchange_messages(6,7) [OF assms(1)] assms(2) by (auto simp: pipe_ok_def)
  note m = consumer_pipe_messages [OF assms(1,2)] producer_pipe_messages(3-5) [OF assms(1,2)]
  show ?thesis using False assms m sent
    by (cases c; simp add: device_call_def no_socket_def opens_def role_defs fifo_effect_def Let_def sizeof_ipc_msg_def;
        elim disjE conjE; simp)
qed

lemma open_keeps:
  assumes "exchange_ok gp gc w" "pipe_ok gp gc w" "opens c \<noteq> None"
  shows "producer_next gp c a = gp"
    "consumer_may gc c \<Longrightarrow> exchange_ok gp (consumer_next whole ints gc c a) w \<and> pipe_ok gp (consumer_next whole ints gc c a) w"
proof -
  show "producer_next gp c a = gp" using assms(3) by (cases c) (simp_all add: opens_def role_defs)
  have "pipe_ok gp (gc\<lparr>pg_station := Connected\<rparr>) w" if "pg_station gc = Waiting"
    using assms(2) that by (simp add: pipe_ok_def)
  then show "exchange_ok gp (consumer_next whole ints gc c a) w \<and> pipe_ok gp (consumer_next whole ints gc c a) w" if "consumer_may gc c"
    using assms that exchange_messages(3) [OF assms(1)] by (cases c) (simp_all add: opens_def role_defs)
qed

lemma fifo_step_ok:
  assumes "fifo_step w w'" "fifo_ok w"
  shows "fifo_ok w'"
proof -
  obtain gp gc where ok: "exchange_ok gp gc w" "pipe_ok gp gc w"
    and runs: "fifo_runs_as gp gc (fw_program w Producer) (fw_program w Consumer)"
    using assms(2) by (auto simp: fifo_ok_def)
  let ?gp = "\<lambda>c a. producer_next gp c a" and ?gc = "\<lambda>c a. consumer_next sizeof_ipc_msg ipc_ints gc c a"
  have p: "no_socket c \<and> producer_may (\<lambda>m. ipc_ints m = 1024) gp c \<and> fifo_runs_as (?gp c a) gc (k a) (fw_program w Consumer)"
    if "fw_program w Producer = Do c k" for c k a using runs that by (simp add: fifo_runs_as_def)
  have q: "no_socket c \<and> consumer_may gc c \<and> fifo_runs_as gp (?gc c a) (fw_program w Producer) (k a)"
    if "fw_program w Consumer = Do c k" for c k a using runs that by (simp add: fifo_runs_as_def)
  have okI: "fifo_ok v" if "exchange_ok hp hc v" "pipe_ok hp hc v" "fifo_runs_as hp hc (fw_program v Producer) (fw_program v Consumer)" for hp hc v
    using that unfolding fifo_ok_def by blast
  show ?thesis using assms(1)
  proof cases
    case (answered r c k a)
    show ?thesis
    proof (cases r)
      case Producer
      note e = producer_pipe_answered [OF ok _ _ answered(4,6,3) [unfolded Producer]] p [OF answered(2) [unfolded Producer], of a]
      show ?thesis unfolding answered(1) Producer
        by (rule okI [of "?gp c a" gc]) (use e in \<open>simp_all add: pipe_ok_def\<close>)
    next
      case Consumer
      note e = consumer_pipe_answered [OF ok _ _ answered(4,6,3) [unfolded Consumer]] q [OF answered(2) [unfolded Consumer], of a]
      show ?thesis unfolding answered(1) Consumer
        by (rule okI [of gp "?gc c a"]) (use e in \<open>simp_all add: pipe_ok_def\<close>)
    qed
  next
    case (killed r c k)
    show ?thesis unfolding killed(1)
      by (rule okI [of gp gc]) (use ok runs in \<open>cases r; simp add: pipe_ok_def fifo_runs_as_def\<close>)+
  next
    case (device r item rest cells)
    show ?thesis unfolding device(1)
      by (rule okI [of gp gc, OF work_keeps_exchange [OF ok(1) device(2,3)]]) (use ok runs in \<open>simp_all add: pipe_ok_def\<close>)
  next
    case (refused r c k a)
    show ?thesis
    proof (cases r)
      case Producer
      show ?thesis unfolding refused(1) Producer
        by (rule okI [of gp gc]) (use ok p [OF refused(2) [unfolded Producer], of a] open_keeps(1) [OF ok refused(3)] in \<open>simp_all add: pipe_ok_def\<close>)
    next
      case Consumer
      show ?thesis unfolding refused(1) Consumer
        by (rule okI [of gp "?gc c a"]) (use q [OF refused(2) [unfolded Consumer], of a] open_keeps(2) [OF ok refused(3)] in \<open>simp_all add: pipe_ok_def\<close>)
    qed
  next
    case (began r c k path for_writing i)
    show ?thesis unfolding began(1) by (rule okI [of gp gc]) (use ok runs in \<open>simp_all add: pipe_ok_def\<close>)
  next
    case (opened c k d l path for_writing path' i a b)
    have "fifo_runs_as gp (?gc d b) (k a) (l b)"
      using p [OF opened(2), of a] q [OF opened(3), of b] open_keeps(1) [OF ok, of c] opened(4) by (simp add: fifo_runs_as_def)
    moreover have "exchange_ok gp (?gc d b) w" "pipe_ok gp (?gc d b) w"
      using open_keeps(2) [OF ok, of d] q [OF opened(3)] opened(5) by auto
    ultimately show ?thesis unfolding opened(1) by (intro okI [of gp "?gc d b"]) (simp_all add: pipe_ok_def)
  qed
qed

lemma fifo_reachable_ok: "fifo_reachable dev w \<Longrightarrow> fifo_ok w"
proof (induction rule: fifo_reachable.induct)
  case (start fifos n cells)
  show ?case unfolding fifo_ok_def
    by (intro exI [of _ "no_progress Starting"] exI [of _ "no_progress Waiting"])
      (simp add: fifo_start_def fifo_runs_as_def ipc_producer_role ipc_consumer_role pipe_ok_def exchange_initial)
qed (rule fifo_step_ok)

section \<open>Sleep\<close>

text \<open>
  The producer waits in \<^verbatim>\<open>open\<close>, and the consumer has exited or waits in \<^verbatim>\<open>open\<close> for another FIFO.
\<close>

definition asleep :: "fifo_world \<Rightarrow> bool" where
  "asleep w \<longleftrightarrow>
     (\<exists>i c k. fw_opening w Producer = Some i \<and> fw_program w Producer = Do c k \<and> opens c \<noteq> None
        \<and> (exited (fw_program w Consumer)
           \<or> (\<exists>j d l. fw_opening w Consumer = Some j \<and> fw_program w Consumer = Do d l \<and> opens d \<noteq> None \<and> j \<noteq> i)))"

lemma opens_is_not_write: "opens c \<noteq> None \<Longrightarrow> \<not> fifo_broken r c w"
  by (cases c) (simp_all add: opens_def fifo_broken_def)

lemma asleep_call:
  assumes "asleep w" "fw_program w r = Do c k"
  shows "opens c \<noteq> None" "fw_opening w r \<noteq> None" "\<not> fifo_broken r c w"
proof -
  show o: "opens c \<noteq> None" using assms by (cases r) (auto simp: asleep_def exited_def)
  show "fw_opening w r \<noteq> None" using assms by (cases r) (auto simp: asleep_def exited_def)
  show "\<not> fifo_broken r c w" by (rule opens_is_not_write [OF o])
qed

lemma asleep_step:
  assumes "fifo_step w w'" "asleep w"
  shows "fw_program w' = fw_program w" "asleep w'"
proof -
  have "fw_program w' = fw_program w \<and> fw_opening w' = fw_opening w"
    using assms(1)
  proof cases
    case (opened c k d l path for_writing path' i a b)
    then show ?thesis using assms(2) by (auto simp: asleep_def exited_def)
  qed (use asleep_call [OF assms(2)] in auto)
  then show "fw_program w' = fw_program w" "asleep w'" using assms(2) by (simp_all add: asleep_def)
qed

lemma asleep_forever:
  assumes "asleep w" "fifo_step\<^sup>*\<^sup>* w w'"
  shows "fw_program w' = fw_program w"
proof -
  from assms(2) have "fw_program w' = fw_program w \<and> asleep w'"
    by (induction rule: rtranclp_induct) (use assms(1) asleep_step in auto)
  then show ?thesis by simp
qed

text \<open>A scheduler for the two runs below: a call succeeds or fails, a process begins to open, the two meet.\<close>

datatype fifo_action = Succeeds role | Fails role | Begins role | Meet

definition fifo_kind :: "role \<Rightarrow> ipc_msg poc_call \<Rightarrow> fifo_world \<Rightarrow> ipc_msg answer" where
  "fifo_kind r c w = (obliging (snd (hd (fw_down w (the (fw_end w r)) @ [(0, sample_ipc_msg)]))) [] c)
     \<lparr>an_ints := (case c of cudaMemcpy_ints p n \<Rightarrow> copied_ints r p n w | _ \<Rightarrow> [])\<rparr>"

definition fifo_perform :: "fifo_action \<Rightarrow> fifo_world \<Rightarrow> fifo_world option" where
  "fifo_perform act w = (case act of
       Succeeds r \<Rightarrow> (case fw_program w r of
           Exit _ \<Rightarrow> None
         | Do c k \<Rightarrow>
             if opens c = None \<and> fifo_enabled r c w \<and> \<not> fifo_broken r c w \<and> fifo_answer r c (fifo_kind r c w) w
             then Some ((fifo_effect r c (fifo_kind r c w) w)\<lparr>fw_program := (fw_program w)(r := k (fifo_kind r c w))\<rparr>) else None)
     | Fails r \<Rightarrow> (case fw_program w r of
           Exit _ \<Rightarrow> None
         | Do c k \<Rightarrow> let a = (fifo_kind r c w)\<lparr>an_rc := - 1\<rparr> in
             if opens c = None \<and> fifo_enabled r c w \<and> \<not> fifo_broken r c w \<and> fifo_answer r c a w
             then Some ((fifo_effect r c a w)\<lparr>fw_program := (fw_program w)(r := k a)\<rparr>) else None)
     | Begins r \<Rightarrow> (case fw_program w r of
           Exit _ \<Rightarrow> None
         | Do c k \<Rightarrow> (case opens c of
               None \<Rightarrow> None
             | Some (path, for_writing) \<Rightarrow>
                 if fw_opening w r = None \<and> fw_fifo w path \<noteq> None
                 then Some (w\<lparr>fw_opening := (fw_opening w)(r := fw_fifo w path)\<rparr>) else None))
     | Meet \<Rightarrow> (case (fw_program w Producer, fw_program w Consumer, fw_opening w Producer) of
           (Do c k, Do d l, Some i) \<Rightarrow>
             if opens c \<noteq> None \<and> opens d = map_option (\<lambda>(path, b). (path, \<not> b)) (opens c) \<and> fw_opening w Consumer = Some i
             then Some (w\<lparr>fw_opening := (\<lambda>_. None), fw_end := (\<lambda>_. Some i),
                fw_program := (fw_program w)(Producer := k (fifo_kind Producer c w), Consumer := l (fifo_kind Consumer d w))\<rparr>) else None
         | _ \<Rightarrow> None))"

lemma kind_opens: "opens c \<noteq> None \<Longrightarrow> 0 \<le> an_rc (fifo_kind r c w)"
  by (cases c) (simp_all add: opens_def fifo_kind_def obliging_def)

lemma fifo_perform_step: "fifo_perform act w = Some w' \<Longrightarrow> fifo_step w w'"
proof (cases act)
  case (Succeeds r)
  then show "fifo_perform act w = Some w' \<Longrightarrow> fifo_step w w'"
    by (auto simp: fifo_perform_def split: program.splits if_splits intro: answered)
next
  case (Fails r)
  then show "fifo_perform act w = Some w' \<Longrightarrow> fifo_step w w'"
    by (auto simp: fifo_perform_def Let_def split: program.splits if_splits intro: answered)
next
  case (Begins r)
  then show "fifo_perform act w = Some w' \<Longrightarrow> fifo_step w w'"
    by (auto simp: fifo_perform_def split: program.splits if_splits option.splits prod.splits intro: began)
next
  case Meet
  then show "fifo_perform act w = Some w' \<Longrightarrow> fifo_step w w'"
    by (auto simp: fifo_perform_def kind_opens split: program.splits if_splits option.splits prod.splits intro!: opened)
qed

primrec fifo_performs :: "fifo_action list \<Rightarrow> fifo_world \<Rightarrow> fifo_world option" where
  "fifo_performs [] w = Some w"
| "fifo_performs (act # acts) w = (case fifo_perform act w of None \<Rightarrow> None | Some v \<Rightarrow> fifo_performs acts v)"

lemma fifo_performs_reachable: "fifo_performs acts w = Some w' \<Longrightarrow> fifo_reachable dev w \<Longrightarrow> fifo_reachable dev w'"
  by (induction acts arbitrary: w) (auto split: option.splits intro: fifo_reachable.step [OF _ fifo_perform_step])

definition failed_run :: "fifo_action list" where
  "failed_run = replicate 13 (Succeeds Producer) @ [Begins Producer, Begins Consumer, Meet] @ replicate 2 (Succeeds Producer)
     @ replicate 2 (Succeeds Consumer) @ [Fails Consumer, Begins Producer]"

definition stale_run :: "fifo_action list" where
  "stale_run = [Begins Consumer] @ replicate 13 (Succeeds Producer) @ [Begins Producer]"

lemmas fifo_perform_defs = fifo_perform_def fifo_enabled_def device_enabled_def fifo_broken_def fifo_answer_def device_answer_def
  fifo_kind_def obliging_defs fifo_effect_def device_effect_def enqueue_def see_buffer_def exited_def opens_def peer_holds_def

lemma failed_run_ends:
  "\<exists>w. fifo_performs failed_run (fifo_start 0 (\<lambda>_. None) 0 (\<lambda>_. 0)) = Some w \<and> fw_program w Consumer = Exit 1 \<and> asleep w"
  by (simp add: failed_run_def numeral_eq_Suc fifo_start_def fifo_perform_defs ipc_program_defs Let_def asleep_def ex_bool_eq)

lemma stale_run_ends:
  "\<exists>w. fifo_performs stale_run (fifo_start 0 [fifo_handle \<mapsto> 0] 1 (\<lambda>_. 0)) = Some w
     \<and> \<not> exited (fw_program w Consumer) \<and> asleep w"
  by (simp add: stale_run_def numeral_eq_Suc fifo_start_def fifo_perform_defs ipc_program_defs Let_def asleep_def ex_bool_eq)

section \<open>Properties\<close>

text \<open>
  The FIFO pair reads what it should, too: the same as of the socket pair holds in every state that it
  reaches.
\<close>

theorem fifo_pair_reads_in_order:
  assumes "fifo_reachable dev w"
  shows "prints_in_order (dw_printed w Producer) (dw_printed w Consumer)
    (fw_program w Producer = Exit 0) (fw_program w Consumer = Exit 0)"
proof -
  obtain gp gc where ok: "exchange_ok gp gc w" and runs: "fifo_runs_as gp gc (fw_program w Producer) (fw_program w Consumer)"
    using fifo_reachable_ok [OF assms] by (auto simp: fifo_ok_def)
  show ?thesis by (rule exchange_prints [OF ok]) (use runs in \<open>auto simp: fifo_runs_as_def SIGPIPE_def\<close>)
qed

theorem fifo_pair_reads_in_order_witness:
  "\<exists>w. fifo_reachable 0 w \<and> fw_program w Consumer = Exit 1
     \<and> prints_in_order (dw_printed w Producer) (dw_printed w Consumer) (fw_program w Producer = Exit 0) False"
proof -
  obtain w where w: "fifo_performs failed_run (fifo_start 0 (\<lambda>_. None) 0 (\<lambda>_. 0)) = Some w" "fw_program w Consumer = Exit 1"
    using failed_run_ends by blast
  have r: "fifo_reachable 0 w" by (rule fifo_performs_reachable [OF w(1) fifo_reachable.start]) simp
  show ?thesis using fifo_pair_reads_in_order [OF r] w r by (intro exI [of _ w]) simp
qed

text \<open>
  C26. The FIFO pair can hang, in two ways. When the consumer received the handles but cannot set the device
  (as after any other of its checked calls), it exits with 1 and tells nobody: the producer, which
  opens the FIFO of the answers, never exits. And a consumer that opens a FIFO of an earlier run
  before the producer replaces it waits for a FIFO without a name, and the producer for a reader.
\<close>

theorem fifo_pair_can_hang:
  "(\<exists>w. fifo_reachable 0 w \<and> fw_program w Consumer = Exit 1
      \<and> \<not> (\<exists>w'. fifo_step\<^sup>*\<^sup>* w w' \<and> exited (fw_program w' Producer)))
   \<and> (\<exists>w. fifo_reachable 0 w
      \<and> \<not> (\<exists>w'. fifo_step\<^sup>*\<^sup>* w w' \<and> (exited (fw_program w' Producer) \<or> exited (fw_program w' Consumer))))"
proof
  have producer: "\<not> exited (fw_program w Producer)" if "asleep w" for w using that by (auto simp: asleep_def exited_def)
  obtain w where w: "fifo_performs failed_run (fifo_start 0 (\<lambda>_. None) 0 (\<lambda>_. 0)) = Some w" "fw_program w Consumer = Exit 1" "asleep w"
    using failed_run_ends by blast
  have "fifo_reachable 0 w" by (rule fifo_performs_reachable [OF w(1) fifo_reachable.start]) simp
  moreover have "\<not> (\<exists>w'. fifo_step\<^sup>*\<^sup>* w w' \<and> exited (fw_program w' Producer))"
    using asleep_forever [OF w(3)] producer [OF w(3)] by metis
  ultimately show "\<exists>w. fifo_reachable 0 w \<and> fw_program w Consumer = Exit 1
      \<and> \<not> (\<exists>w'. fifo_step\<^sup>*\<^sup>* w w' \<and> exited (fw_program w' Producer))"
    using w(2) by blast
  obtain v where v: "fifo_performs stale_run (fifo_start 0 [fifo_handle \<mapsto> 0] 1 (\<lambda>_. 0)) = Some v"
    "\<not> exited (fw_program v Consumer)" "asleep v" using stale_run_ends by blast
  have "fifo_reachable 0 v" by (rule fifo_performs_reachable [OF v(1) fifo_reachable.start]) simp
  moreover have "\<not> (\<exists>w'. fifo_step\<^sup>*\<^sup>* v w' \<and> (exited (fw_program w' Producer) \<or> exited (fw_program w' Consumer)))"
    using v(2) asleep_forever [OF v(3)] producer [OF v(3)] by metis
  ultimately show "\<exists>w. fifo_reachable 0 w
      \<and> \<not> (\<exists>w'. fifo_step\<^sup>*\<^sup>* w w' \<and> (exited (fw_program w' Producer) \<or> exited (fw_program w' Consumer)))"
    by blast
qed

end
