(* ===== verification/Spec2Isabelle.thy ===== *)
theory Spec2Isabelle
  imports Lease_Progress Gpu_Buffer_Manager Point_Cloud2 Python_Api Fanout_System Image_Transport Status_Format
    Poc_Socket Poc_Fifo
begin

text \<open>
  Verification of ros2_cuda_ipc, a ROS 2 library that passes GPU buffers between processes without
  copying them, and of the nodes built on it. Paths are relative to src/, and
  \<^verbatim>\<open>core\<close> stands for \<^verbatim>\<open>ros2_cuda_ipc_core\<close>.

  The program. A publisher process owns a pool of GPU blocks. Every block has a metadata cell in POSIX
  shared memory (generation, reference count, publication time), a VMM allocation whose file
  descriptor a Unix socket serves, and an interprocess event. To publish, it reserves a block whose
  cell is free, lets a kernel fill it, records the event, commits the reservation and sends a
  descriptor in a ROS message. A subscriber process attaches the cell, counts itself in, imports and
  maps the memory (or finds it in its cache), makes its stream wait for the event and gets a read
  handle; destroying the handle records a completion event, and a worker thread gives the reference
  back once that event has completed. Images and point clouds are typed messages around such a
  handle; a Python module exports an image as a DLPack tensor; example nodes and a transport node are
  clients.

  Theories, in the order in which they build on each other.

  \<^item> Prelude: machine integers, decimal text, facts on words and lists. System: the environment of
    a process (CUDA driver, POSIX, clock, libuuid) as a function from the history of calls to the next
    reply, and the ledger of what was acquired. Machine: one concrete environment, for witnesses only.
  \<^item> Buffer_Metadata (\<^verbatim>\<open>core/src/buffer_metadata/buffer_metadata.cpp\<close>): the cell, names and objects of
    shared memory, creation and attachment. Buffer_Ref (\<^verbatim>\<open>buffer_ref.cpp\<close>): the operations on one
    cell as whole calls; Lease_Spec: the abstract lease and the locale \<open>lease_cell\<close>, which Buffer_Ref
    interprets. Lease_Protocol: the same code with one step per atomic access and any number of
    actors, and the proof that a lone run is the whole call; Lease_Progress: that operations end.
  \<^item> Cuda_Context (\<^verbatim>\<open>core/src/detail/cuda_driver_context.cpp\<close>, \<^verbatim>\<open>interprocess_event.cpp\<close>), Transport
    (\<^verbatim>\<open>core/src/transport/message_utils.cpp\<close>), Memory_Importer and Memory_Backend (\<^verbatim>\<open>core/src/backend\<close>):
    contexts and guards, events, messages, and both ends of the descriptor passing.
  \<^item> Gpu_Buffer_Pool and Gpu_Buffer_Manager (\<^verbatim>\<open>core/src/publisher\<close>): creation, rollback, reservation,
    the use of a reservation, reset, orphan cleanup; the publish handle.
  \<^item> Shared_Resources, Ipc_Handle_Cache, Buffer_Metadata_Cache, Read_Handle, Buffer_Mapper
    (\<^verbatim>\<open>core/src/subscriber\<close>): the state of a subscriber process and its operations, with the cache's
    contract as the locale \<open>shared_cache\<close>. Subscriber_Ownership
    states who owns every counted resource, event and reference, and that each operation keeps the
    account; Subscriber_Process is the process as a state machine (\<open>process_reachable\<close>).
  \<^item> Typed_Reader: the contract of the typed readers as a locale, interpreted by Gpu_Image
    (\<^verbatim>\<open>ros2_cuda_ipc_image\<close>) and Point_Cloud2 (\<^verbatim>\<open>ros2_cuda_ipc_pointcloud2\<close>).
  \<^item> Tensor_Descriptor, Python_Descriptor, Python_Module, Python_Api (\<^verbatim>\<open>ros2_cuda_ipc_py\<close>): the projection
    of an image to a tensor, the reading of dictionaries, the objects with their one-shot export, and
    the attributes and views that Python programs see.
  \<^item> Device_Kernels (\<^verbatim>\<open>examples/multi_process_image_fanout/src/cuda/kernels.cu\<close>), Cuda_Runtime (the
    runtime calls of the nodes and the books of streams, events and allocations), Fanout_Nodes
    (\<^verbatim>\<open>encoder_like_node.cpp\<close>), Inference_Node, Preview_Node, Fanout_Publisher
    (\<^verbatim>\<open>inference_like_node.cpp\<close>, \<^verbatim>\<open>preview_node.cpp\<close>, \<^verbatim>\<open>gpu_image_publisher.cpp\<close>), Image_Transport
    (\<^verbatim>\<open>utils/gpu_image_transport\<close>), Status_Format (\<^verbatim>\<open>status_format.hpp\<close>: the JSON text of a status),
    Fanout_System (publisher, encoder and preview composed).
  \<^item> Poc_Programs (\<^verbatim>\<open>utils/cuda_ipc_poc\<close>): the four stand-alone programs as trees of calls; Poc_Exchange: the
    device between two processes, and the role each program plays; Poc_Socket and Poc_Fifo: the two
    pairs as systems, with every interleaving.
  \<^item> This theory: properties that span components.

  State and operations. A C++ class is a record with the fields of the class (a prefix names the
  record), a member function a definition with the function's name, and the states it changes are
  threaded through. A null pointer that the code tests for is \<open>None\<close>, 0 or a cleared flag; a mutex that is held for
  a whole function makes the function one step. \<open>CudaResult\<close> and exceptions are values of a sum or an
  enumeration. Integers have their width, so every wrap-around of the code is one of the model.
  Destructors run where the scopes of the code end. A shared pointer to an imported resource is a
  number with a reference count. Errors of the environment are arbitrary replies, so a theorem
  without a hypothesis on the environment holds for every sequence of failures.

  What the lemmas show. Protocol: the count is the number of holders, publishers exclude each other, a
  reference acquired without overlap with a reservation keeps its block, a replaced generation is
  refused, operations end; and the run in which a reader overlaps with a reservation and both go
  through. Publisher: the ledger after success and after every failure, fresh and distinct blocks,
  event before commit, quarantine of a block whose publication failed, staleness of old
  reservations, cleanup that spares living publishers. Subscriber: exact reference counts, live
  handles stay mapped, pending releases pin their block, deferred release waits, nothing leaks.
  Layouts: the checks of images and point clouds are exact over unbounded numbers; the tensor
  addresses the same bytes. Python: dictionaries are never truncated, one export, one owner. Kernels:
  what a launch writes, for every order of the threads. Nodes: their streams, events and buffers are
  exactly accounted for, what they publish is a function of the bytes that were mapped, and a frame
  the publisher draws is what the encoder and the preview report. Stand-alone programs: they keep to
  their roles whatever fails, so both pairs read what they should; the socket pair never hangs, the
  FIFO pair can.

  Bounds and termination. The search of \<^verbatim>\<open>reserve_for_publish\<close> has a measure; the other loops of the
  code are structural recursions over what they traverse. The accept loop of the backend is a function
  of the values that \<^verbatim>\<open>running_\<close> takes, and the release worker is one iteration per step, so neither needs
  fuel. The compare-exchange loop is a relation with one step per access; Lease_Progress bounds it.
  Hypotheses such as \<open>2 ^ 64\<close> runs before a generation wraps, or fewer than \<open>2 ^ 32\<close> blocks, are
  stated where they are used.

  Parameters. The CUDA driver and runtime, POSIX, the clock, libuuid and the ROS graph are
  environments; \<^verbatim>\<open>dlpack.h\<close>, single-precision arithmetic and OpenCV are records of what the code uses
  of them. \<open>pool_contract\<close> (a live context can be activated, handles are not null, an uncontended
  mutex can be locked) and \<open>fair\<close> (a launch runs every thread of its grid once) are the documented
  behaviour some theorems need, and the witnesses instantiate them.

  Not modelled. Weak memory order beyond sequential consistency; failing allocation of C++ heap memory;
  the interleaving of the backend's worker thread with the destructor; the text of log messages;
  the registration of ROS entities; the
  generated message classes beyond their fields; the fixture for tests in the Python module;
  launch files, scripts and tests.
\<close>

section \<open>Typed readers\<close>

text \<open>
  The image reader and the point cloud reader only do what the subscriber process can do: after
  them the process is in a reachable state whose reads are the old ones and, when the reader
  accepted the message, the read inside the new handle. So every property of reachable processes
  holds for programs that use the typed readers.
\<close>

theorem typed_readers_are_process_runs:
  assumes "process_reachable E s sh p"
  shows "process_reachable E s sh (p\<lparr>ps_sub := snd (image_reader_read E t m stream (ps_sub p)),
      ps_reads := ps_reads p @ owned_read ih_read (fst (image_reader_read E t m stream (ps_sub p)))\<rparr>)
    \<and> process_reachable E s sh (p\<lparr>ps_sub := snd (cloud_reader_read E t c stream (ps_sub p)),
      ps_reads := ps_reads p @ owned_read ph_read (fst (cloud_reader_read E t c stream (ps_sub p)))\<rparr>)"
  by (intro conjI image.reader_runs cloud.reader_runs assms)

theorem typed_readers_are_process_runs_witness:
  "process_reachable healthy initial_sys sample_shm
     ((initial_process initial_sys sample_shm)\<lparr>
        ps_sub := snd (image_reader_read healthy 1 exported_message 3 (initial_subscriber initial_sys sample_shm)),
        ps_reads := owned_read ih_read (fst (image_reader_read healthy 1 exported_message 3 (initial_subscriber initial_sys sample_shm)))\<rparr>)
   \<and> owned_read ih_read (fst (image_reader_read healthy 1 exported_message 3 (initial_subscriber initial_sys sample_shm))) \<noteq> []"
proof
  show "owned_read ih_read (fst (image_reader_read healthy 1 exported_message 3 (initial_subscriber initial_sys sample_shm))) \<noteq> []"
    by (simp add: image_reader_read_def exported_message_def GpuImage_def map_eval import_eval image_from_message_def
        sanity_check_def image_valid_def rh_valid_def rh_byte_size_def needed_bytes_def dtype_of_byte_def owned_read_def
        word_less_nat_alt word_le_nat_alt u64_max_unat)
qed (use typed_readers_are_process_runs [OF process_reachable.start [of healthy initial_sys sample_shm], of 1 exported_message 3]
     in \<open>simp add: initial_process_def\<close>)

section \<open>From publisher to subscriber\<close>

text \<open>
  C39. What a publisher put into an image message is what the subscriber's image handle holds:
  header, shape, strides, element type, encoding, and the size and device of the buffer
  descriptor.
\<close>

theorem published_metadata_arrives:
  assumes "image_reader_read E t (fill_gpu_image_message descriptor metadata message) stream sb = (Some h, sb')"
  shows "ih_header h = ih_header metadata \<and> ih_shape h = ih_shape metadata \<and> ih_strides h = ih_strides metadata
    \<and> byte_of_dtype (ih_dtype h) = byte_of_dtype (ih_dtype metadata) \<and> ih_encoding h = ih_encoding metadata
    \<and> rh_byte_size (ih_read h) = bd_byte_size descriptor \<and> rh_device_id (ih_read h) = bd_device_id descriptor
    \<and> bd_publisher_pid descriptor \<noteq> 0"
  using image.accepted_handle(2-5) [OF assms]
  by (simp add: fill_gpu_image_message_def fill_buffer_core_message_def image_of_message_def)
    (metis image_read_handle.select_convs byte_of_dtype_of_byte)

definition sample_descriptor :: buffer_descriptor where
  "sample_descriptor = descriptor_of_message sample_message"

definition sample_metadata :: image_read_handle where
  "sample_metadata = (sample_image 0)\<lparr>ih_header := \<lparr>rh_sec = 1, rh_nanosec = 2, rh_frame_id = ''cam''\<rparr>, ih_encoding := ''rgba8''\<rparr>"

theorem published_metadata_arrives_witness:
  "\<exists>h sb. image_reader_read healthy 1 (fill_gpu_image_message sample_descriptor sample_metadata GpuImage) 3
       (initial_subscriber initial_sys sample_shm) = (Some h, sb)
     \<and> rh_frame_id (ih_header h) = ''cam'' \<and> ih_shape h = (2, 3, 4) \<and> rh_byte_size (ih_read h) = 5000"
proof -
  have e: "gi_core (fill_gpu_image_message sample_descriptor sample_metadata GpuImage) = sample_message"
    by (simp add: fill_gpu_image_message_def fill_buffer_core_message_def sample_descriptor_def descriptor_of_message_def
        sample_message_def sample_core_def BufferCore_def GpuImage_def payload64_id)
  have "\<exists>h sb. image_reader_read healthy 1 (fill_gpu_image_message sample_descriptor sample_metadata GpuImage) 3
       (initial_subscriber initial_sys sample_shm) = (Some h, sb)"
    unfolding image_reader_read_def e
    by (simp add: fill_gpu_image_message_def sample_metadata_def sample_image_def GpuImage_def map_eval import_eval
        image_from_message_def sanity_check_def image_valid_def rh_valid_def rh_byte_size_def needed_bytes_def
        dtype_of_byte_def word_less_nat_alt word_le_nat_alt u64_max_unat)
  then obtain h sb where r: "image_reader_read healthy 1 (fill_gpu_image_message sample_descriptor sample_metadata GpuImage) 3
       (initial_subscriber initial_sys sample_shm) = (Some h, sb)" by blast
  from published_metadata_arrives [OF this] show ?thesis
    by (intro exI [of _ h] exI [of _ sb] conjI r)
      (simp_all add: sample_metadata_def sample_image_def sample_descriptor_def descriptor_of_message_def sample_message_def
        sample_core_def)
qed

section \<open>Sizes and the handle cache\<close>

text \<open>
  The cache key does not contain the size, and a hit is not checked against it: after a message
  of 5000 bytes was mapped in a range of two MiB, a message that names the same block and
  generation but a size of 2^40 bytes yields a valid read handle of that size over the same two
  MiB, the only mapping the process holds.
\<close>

theorem cached_import_ignores_the_size:
  "\<exists>i j sb sb'. map_message healthy 1 sample_message 3 (initial_subscriber initial_sys sample_shm) = (Some i, sb)
     \<and> map_message healthy 1 (sample_message\<lparr>bc_byte_size := 2 ^ 40\<rparr>) 3 sb = (Some j, sb')
     \<and> rh_valid sb' (Some j) \<and> rh_byte_size (Some j) = 2 ^ 40
     \<and> held (RMapping (rh_device_ptr sb' (Some j)) 0x200000) (tr (sb_sys sb')) = 1
     \<and> held (RMapping (rh_device_ptr sb' (Some j)) (2 ^ 40)) (tr (sb_sys sb')) = 0"
  by (simp add: map_eval import_eval rh_valid_def rh_byte_size_def rh_device_ptr_def key_of_message_def store_meta_def one_def)

end
